(* ===== verification/CheckSum.thy ===== *)
theory CheckSum
  imports Prelude
begin

text \<open>
  The interface behind every check digit of the program: a value's symbols contribute to a
  sum by position, the sum is taken modulo m, and no two symbols contribute the same at a
  position. Under that contract a single substituted symbol changes the sum modulo m. The
  components interpret it for Code 128, GS1, GSTIN, ABN and Luhn.
\<close>

fun csum :: "(nat \<Rightarrow> nat \<Rightarrow> nat) \<Rightarrow> nat \<Rightarrow> nat list \<Rightarrow> nat" where
  "csum c i [] = 0"
| "csum c i (v # vs) = c i v + csum c (i + 1) vs"

lemma csum_update:
  "j < length vs \<Longrightarrow> csum c i (vs[j := v]) + c (i + j) (vs ! j) = csum c i vs + c (i + j) v"
proof (induction vs arbitrary: i j)
  case Nil
  then show ?case by simp
next
  case (Cons x vs)
  show ?case
  proof (cases j)
    case 0
    then show ?thesis by simp
  next
    case (Suc k)
    with Cons.prems have "k < length vs" by simp
    from Cons.IH [OF this, of "i + 1"] Suc show ?thesis by simp
  qed
qed

lemma csum_cong:
  "(\<And>k. i \<le> k \<Longrightarrow> k < i + length vs \<Longrightarrow> c k (vs ! (k - i)) = d k (vs ! (k - i))) \<Longrightarrow>
     csum c i vs = csum d i vs"
proof (induction vs arbitrary: i)
  case Nil
  then show ?case by simp
next
  case (Cons x vs)
  have "c i x = d i x" using Cons.prems [of i] by simp
  moreover have "csum c (i + 1) vs = csum d (i + 1) vs"
  proof (rule Cons.IH)
    fix k
    assume "i + 1 \<le> k" and "k < i + 1 + length vs"
    then show "c k (vs ! (k - (i + 1))) = d k (vs ! (k - (i + 1)))"
      using Cons.prems [of k] by (simp add: nth_Cons' Suc_diff_Suc)
  qed
  ultimately show ?case by simp
qed

lemma mod_cancel_sum:
  assumes "a + b = c + d" and "a mod m = c mod m"
  shows "b mod m = (d :: nat) mod m"
proof -
  have "(int b - int d) = int c - int a" using assms(1) by linarith
  moreover have "int m dvd int c - int a"
    using assms(2) by (metis mod_eq_dvd_iff of_nat_mod)
  ultimately have "int b mod int m = int d mod int m" by (simp add: mod_eq_dvd_iff)
  then show ?thesis by (metis of_nat_eq_iff of_nat_mod)
qed

lemma mod_add_cancel:
  assumes "(a + b) mod m = (a + c) mod m"
  shows "b mod m = (c :: nat) mod m"
proof -
  have "int m dvd int (a + b) - int (a + c)"
    using assms by (metis mod_eq_dvd_iff of_nat_mod)
  then have "int b mod int m = int c mod int m" by (simp add: mod_eq_dvd_iff)
  then show ?thesis by (metis of_nat_eq_iff of_nat_mod)
qed

locale check_scheme =
  fixes c :: "nat \<Rightarrow> nat \<Rightarrow> nat" and m :: nat and symbols :: nat and positions :: nat
  assumes distinguishes:
    "i < positions \<Longrightarrow> a < symbols \<Longrightarrow> b < symbols \<Longrightarrow> c i a mod m = c i b mod m \<Longrightarrow> a = b"
begin

lemma substitution_changes_sum:
  assumes "j < length vs" and "j < positions" and "v < symbols" and "vs ! j < symbols"
    and "v \<noteq> vs ! j"
  shows "csum c 0 (vs[j := v]) mod m \<noteq> csum c 0 vs mod m"
proof
  assume eq: "csum c 0 (vs[j := v]) mod m = csum c 0 vs mod m"
  have "csum c 0 (vs[j := v]) + c j (vs ! j) = csum c 0 vs + c j v"
    using csum_update [OF assms(1), of c 0 v] by simp
  from mod_cancel_sum [OF this eq] have "vs ! j = v"
    by (rule distinguishes [OF assms(2) assms(4) assms(3)])
  with assms(5) show False by simp
qed

end

text \<open>A weight prime to the modulus distinguishes the symbols below it.\<close>

lemma weight_distinguishes:
  assumes "coprime w m" and "a < m" and "b < (m :: nat)" and "a * w mod m = b * w mod m"
  shows "a = b"
proof -
  have "int m dvd int a * int w - int b * int w"
    using assms(4) by (metis mod_eq_dvd_iff of_nat_mod of_nat_mult)
  then have "int m dvd int w * (int a - int b)" by (simp add: algebra_simps)
  moreover have "coprime (int m) (int w)" using assms(1) by (simp add: coprime_commute)
  ultimately have "int m dvd int a - int b" by (simp add: coprime_dvd_mult_right_iff)
  then have "int a = int b" by (rule dvd_diff_small) (use assms in simp_all)
  then show ?thesis by simp
qed

end
