(* ===== verification/Barcode128.thy ===== *)
theory Barcode128
  imports CheckSum
begin

text \<open>
  Code 128 (engines/code128.go): the pattern table, the Code Set B encoder with its
  mod-103 checksum, the SVG renderer, and a reference decoder that a scanner's software
  would run. The lemmas show the encoder's output is a well-formed symbol, that the
  decoder inverts it, and which misreadings the checksum detects.
\<close>

section \<open>The pattern table\<close>

definition code128Widths :: "string list" where
  "code128Widths =
    [''212222'', ''222122'', ''222221'', ''121223'', ''121322'', ''131222'', ''122213'', ''122312'',
     ''132212'', ''221213'', ''221312'', ''231212'', ''112232'', ''122132'', ''122231'', ''113222'',
     ''123122'', ''123221'', ''223211'', ''221132'', ''221231'', ''213212'', ''223112'', ''312131'',
     ''311222'', ''321122'', ''321221'', ''312212'', ''322112'', ''322211'', ''212123'', ''212321'',
     ''232121'', ''111323'', ''131123'', ''131321'', ''112313'', ''132113'', ''132311'', ''211313'',
     ''231113'', ''231311'', ''112133'', ''112331'', ''132131'', ''113123'', ''113321'', ''133121'',
     ''313121'', ''211331'', ''231131'', ''213113'', ''213311'', ''213131'', ''311123'', ''311321'',
     ''331121'', ''312113'', ''312311'', ''332111'', ''314111'', ''221411'', ''431111'', ''111224'',
     ''111422'', ''121124'', ''121421'', ''141122'', ''141221'', ''112214'', ''112412'', ''122114'',
     ''122411'', ''142112'', ''142211'', ''241211'', ''221114'', ''413111'', ''241112'', ''134111'',
     ''111242'', ''121142'', ''121241'', ''114212'', ''124112'', ''124211'', ''411212'', ''421112'',
     ''421211'', ''212141'', ''214121'', ''412121'', ''111143'', ''111341'', ''131141'', ''114113'',
     ''114311'', ''411113'', ''411311'', ''113141'', ''114131'', ''311141'', ''411131'', ''211412'',
     ''211214'', ''211232'']"

definition code128StartB :: nat where "code128StartB = 104"
definition code128Stop :: nat where "code128Stop = 106"
definition code128StopWidth :: string where "code128StopWidth = ''2331112''"

section \<open>The encoder\<close>

text \<open>The byte loop: out-of-range bytes are an error, others become their symbol value.\<close>

fun code128_values :: "string \<Rightarrow> nat list res" where
  "code128_values [] = Inr []"
| "code128_values (c # cs) =
     (if (of_char c :: nat) < 32 \<or> (of_char c :: nat) > 126
      then Inl (Plain ''character outside Code Set B'')
      else rbind (code128_values cs) (\<lambda>vs. Inr ((of_char c - 32) # vs)))"

text \<open>\<open>checksum += v * (i + 1)\<close>, from position \<open>i\<close> on.\<close>

fun weighted_sum :: "nat \<Rightarrow> nat list \<Rightarrow> nat" where
  "weighted_sum i [] = 0"
| "weighted_sum i (v # vs) = v * (i + 1) + weighted_sum (i + 1) vs"

definition code128_checksum :: "nat list \<Rightarrow> nat" where
  "code128_checksum vs = (code128StartB + weighted_sum 0 vs) mod 103"

definition code128_pattern :: "nat \<Rightarrow> string" where
  "code128_pattern y = (if y = code128Stop then code128StopWidth else code128Widths ! y)"

definition EncodeCode128B :: "string \<Rightarrow> nat list res" where
  "EncodeCode128B data =
     (if data = [] then Inl (Plain ''cannot encode an empty value as a barcode'')
      else rbind (code128_values data) (\<lambda>vs.
        let symbols = code128StartB # vs @ [code128_checksum vs, code128Stop]
        in Inr (concat (map (\<lambda>y. map digit_val (code128_pattern y)) symbols))))"

section \<open>The renderer\<close>

definition code128Module :: nat where "code128Module = 2"
definition code128QuietMods :: nat where "code128QuietMods = 10"
definition code128BarHeight :: nat where "code128BarHeight = 60"

definition escape_char :: "char \<Rightarrow> string" where
  "escape_char c =
     (if c = CHR ''<'' then ''&lt;'' else if c = CHR ''>'' then ''&gt;''
      else if c = CHR ''&'' then ''&amp;'' else if c = CHR 0x27 then ''&#39;''
      else if c = CHR 0x22 then ''&#34;'' else [c])"

text \<open>The loop that draws: index, x position, and the rectangles of the bars (even indices).\<close>

fun code128_bars :: "nat \<Rightarrow> nat \<Rightarrow> nat list \<Rightarrow> (nat \<times> nat) list" where
  "code128_bars i x [] = []"
| "code128_bars i x (w # ws) =
     (let wpx = w * code128Module
      in (if i mod 2 = 0 then [(x, wpx)] else []) @ code128_bars (i + 1) (x + wpx) ws)"

definition dq :: string where "dq = [CHR 0x22]"

definition code128_rect :: "nat \<times> nat \<Rightarrow> string" where
  "code128_rect r = ''<rect x='' @ dq @ dec (fst r) @ dq @ '' y='' @ dq @ ''0'' @ dq @ '' width='' @ dq @
     dec (snd r) @ dq @ '' height='' @ dq @ dec code128BarHeight @ dq @ '' fill='' @ dq @ ''#000'' @ dq @ ''/>''"

definition code128_width :: "nat list \<Rightarrow> nat" where
  "code128_width widths = (code128QuietMods * 2 + sum_list widths) * code128Module"

definition RenderCode128SVG :: "string \<Rightarrow> string res" where
  "RenderCode128SVG data = rbind (EncodeCode128B data) (\<lambda>widths.
     let width = code128_width widths; height = code128BarHeight + 20 in
     Inr (''<svg xmlns='' @ dq @ ''http://www.w3.org/2000/svg'' @ dq @ '' viewBox='' @ dq @ ''0 0 '' @
          dec width @ '' '' @ dec height @ dq @ '' width='' @ dq @ dec width @ dq @ '' height='' @ dq @
          dec height @ dq @ '' role='' @ dq @ ''img'' @ dq @ '' aria-label='' @ dq @ ''barcode'' @ dq @ ''>'' @
          ''<rect width='' @ dq @ ''100%'' @ dq @ '' height='' @ dq @ ''100%'' @ dq @ '' fill='' @ dq @ ''#fff'' @
          dq @ ''/>'' @
          concat (map code128_rect (code128_bars 0 (code128QuietMods * code128Module) widths)) @
          ''<text x='' @ dq @ dec (width div 2) @ dq @ '' y='' @ dq @ dec (code128BarHeight + 16) @ dq @
          '' font-family='' @ dq @ ''monospace'' @ dq @ '' font-size='' @ dq @ ''14'' @ dq @
          '' text-anchor='' @ dq @ ''middle'' @ dq @ ''>'' @ concat (map escape_char data) @ ''</text>'' @
          ''</svg>''))"

section \<open>Facts about the table\<close>

lemma code128_table_length: "length code128Widths = 106"
  by (simp add: code128Widths_def)

lemma code128_table_shape:
  "\<forall>p \<in> set code128Widths. length p = 6 \<and> sum_list (map digit_val p) = 11 \<and>
     (\<forall>c \<in> set p. is_digit c \<and> 1 \<le> digit_val c \<and> digit_val c \<le> 4)"
  by code_simp

lemma code128_stop_shape:
  "length code128StopWidth = 7 \<and> sum_list (map digit_val code128StopWidth) = 13"
  by code_simp

lemma code128_table_distinct: "distinct (map (map digit_val) code128Widths)"
  by code_simp

lemma code128_pattern_symbol:
  assumes "v < 106"
  shows "length (code128_pattern v) = 6 \<and> sum_list (map digit_val (code128_pattern v)) = 11"
proof -
  from assms have "code128Widths ! v \<in> set code128Widths"
    by (simp add: code128_table_length)
  with assms code128_table_shape show ?thesis
    by (auto simp: code128_pattern_def code128Stop_def)
qed

lemma code128_pattern_stop:
  "length (code128_pattern 106) = 7 \<and> sum_list (map digit_val (code128_pattern 106)) = 13"
  using code128_stop_shape by (simp add: code128_pattern_def code128Stop_def)

section \<open>The encoder's result\<close>

lemma code128_values_Inr:
  "code128_values cs = Inr vs \<longleftrightarrow>
     (\<forall>c \<in> set cs. 32 \<le> (of_char c :: nat) \<and> (of_char c :: nat) \<le> 126) \<and>
     vs = map (\<lambda>c. of_char c - 32) cs"
  by (induction cs arbitrary: vs) auto

lemma code128_values_small: "code128_values cs = Inr vs \<Longrightarrow> v \<in> set vs \<Longrightarrow> v < 95"
  by (auto simp: code128_values_Inr)

lemma code128_values_length: "code128_values cs = Inr vs \<Longrightarrow> length vs = length cs"
  by (simp add: code128_values_Inr)

definition code128_widths_of :: "nat list \<Rightarrow> nat list" where
  "code128_widths_of ys = concat (map (\<lambda>y. map digit_val (code128_pattern y)) ys)"

lemma EncodeCode128B_eq:
  "EncodeCode128B data = Inr ws \<longleftrightarrow> data \<noteq> [] \<and>
     (\<exists>vs. code128_values data = Inr vs \<and>
        ws = code128_widths_of (code128StartB # vs @ [code128_checksum vs, code128Stop]))"
  by (auto simp: EncodeCode128B_def code128_widths_of_def Let_def)

lemma code128_checksum_less: "code128_checksum vs < 103"
  by (simp add: code128_checksum_def)

lemma code128_symbols_small:
  assumes "code128_values data = Inr vs"
  shows "\<forall>y \<in> set (code128StartB # vs @ [code128_checksum vs]). y < 106"
proof -
  have "v < 106" if "v \<in> set vs" for v
    using code128_values_small [OF assms that] by simp
  moreover have "code128_checksum vs < 106"
    using code128_checksum_less [of vs] by simp
  ultimately show ?thesis by (simp add: code128StartB_def)
qed

lemma code128_widths_of_data:
  assumes "\<forall>y \<in> set ys. y < 106"
  shows "length (code128_widths_of ys) = 6 * length ys \<and>
    sum_list (code128_widths_of ys) = 11 * length ys"
  using assms
proof (induction ys)
  case Nil
  then show ?case by (simp add: code128_widths_of_def)
next
  case (Cons y ys)
  with code128_pattern_symbol [of y] show ?case by (simp add: code128_widths_of_def)
qed

lemma code128_widths_of_append [simp]:
  "code128_widths_of (xs @ ys) = code128_widths_of xs @ code128_widths_of ys"
  by (simp add: code128_widths_of_def)

lemma code128_widths_of_Cons:
  "code128_widths_of (y # ys) = map digit_val (code128_pattern y) @ code128_widths_of ys"
  by (simp add: code128_widths_of_def)

lemma code128_encode_shape:
  assumes "EncodeCode128B data = Inr ws"
  shows "length ws = 6 * (length data + 2) + 7 \<and> sum_list ws = 11 * (length data + 2) + 13"
proof -
  from assms obtain vs where vs: "code128_values data = Inr vs"
    and ws: "ws = code128_widths_of ((code128StartB # vs @ [code128_checksum vs]) @ [code128Stop])"
    by (auto simp: EncodeCode128B_eq)
  let ?ys = "code128StartB # vs @ [code128_checksum vs]"
  have "\<forall>y \<in> set ?ys. y < 106"
    by (rule code128_symbols_small [OF vs])
  note data = code128_widths_of_data [OF this]
  have stop: "length (code128_widths_of [code128Stop]) = 7 \<and> sum_list (code128_widths_of [code128Stop]) = 13"
    using code128_pattern_stop by (simp add: code128_widths_of_def code128Stop_def)
  have "length vs = length data" using vs by (rule code128_values_length)
  with data stop show ?thesis unfolding ws code128_widths_of_append by simp
qed

section \<open>A reference decoder\<close>

fun pos_of :: "'a \<Rightarrow> 'a list \<Rightarrow> nat option" where
  "pos_of x [] = None"
| "pos_of x (y # ys) = (if x = y then Some 0 else map_option Suc (pos_of x ys))"

lemma pos_of_nth: "distinct ys \<Longrightarrow> i < length ys \<Longrightarrow> pos_of (ys ! i) ys = Some i"
proof (induction ys arbitrary: i)
  case Nil
  then show ?case by simp
next
  case (Cons y ys)
  then show ?case by (cases i) auto
qed

text \<open>Six widths at a time until what is left is the stop pattern.\<close>

function scan128 :: "nat list \<Rightarrow> nat list option" where
  "scan128 ws =
     (if ws = map digit_val code128StopWidth then Some []
      else if length ws < 6 then None
      else (case pos_of (take 6 ws) (map (map digit_val) code128Widths) of
              None \<Rightarrow> None
            | Some v \<Rightarrow> map_option (\<lambda>vs. v # vs) (scan128 (drop 6 ws))))"
  by pat_completeness auto
termination
  by (relation "measure length") auto

declare scan128.simps [simp del]

definition decode128 :: "nat list \<Rightarrow> string option" where
  "decode128 ws =
     (case scan128 ws of
        Some (st # rest) \<Rightarrow>
          (if st = code128StartB \<and> rest \<noteq> [] \<and> last rest = code128_checksum (butlast rest)
           then Some (map (\<lambda>v. char_of (v + 32)) (butlast rest)) else None)
      | _ \<Rightarrow> None)"

lemma scan128_symbol:
  assumes "v < 106" and "7 \<le> length ws"
  shows "scan128 (map digit_val (code128_pattern v) @ ws) = map_option (\<lambda>vs. v # vs) (scan128 ws)"
proof -
  let ?p = "map digit_val (code128_pattern v)"
  have len: "length ?p = 6" using code128_pattern_symbol [OF assms(1)] by simp
  have stop: "length (map digit_val code128StopWidth) = 7" using code128_stop_shape by simp
  have "length (?p @ ws) \<noteq> length (map digit_val code128StopWidth)"
    unfolding length_append len stop using assms(2) by linarith
  then have ne: "?p @ ws \<noteq> map digit_val code128StopWidth" by metis
  have "?p = map (map digit_val) code128Widths ! v"
    using assms(1) by (simp add: code128_pattern_def code128Stop_def code128_table_length)
  then have "pos_of ?p (map (map digit_val) code128Widths) = Some v"
    using pos_of_nth [OF code128_table_distinct, of v] assms(1) by (simp add: code128_table_length)
  then show ?thesis
    using ne len by (subst scan128.simps) (simp add: assms)
qed

lemma scan128_stop: "scan128 (map digit_val code128StopWidth) = Some []"
  by (subst scan128.simps) simp

lemma scan128_widths_of:
  "\<forall>y \<in> set ys. y < 106 \<Longrightarrow> scan128 (code128_widths_of (ys @ [code128Stop])) = Some ys"
proof (induction ys)
  case Nil
  then show ?case
    using scan128_stop by (simp add: code128_widths_of_def code128_pattern_def)
next
  case (Cons y ys)
  have "7 \<le> length (code128_widths_of (ys @ [code128Stop]))"
    using code128_pattern_stop by (simp add: code128_widths_of_def code128Stop_def)
  with Cons show ?case
    by (simp add: code128_widths_of_Cons scan128_symbol del: code128_widths_of_append)
qed

lemma decode128_encode:
  assumes "EncodeCode128B data = Inr ws"
  shows "decode128 ws = Some data"
proof -
  from assms obtain vs where vs: "code128_values data = Inr vs"
    and ws: "ws = code128_widths_of ((code128StartB # vs @ [code128_checksum vs]) @ [code128Stop])"
    by (auto simp: EncodeCode128B_eq)
  let ?ys = "code128StartB # vs @ [code128_checksum vs]"
  have "\<forall>y \<in> set ?ys. y < 106"
    by (rule code128_symbols_small [OF vs])
  then have "scan128 ws = Some ?ys" unfolding ws by (rule scan128_widths_of)
  moreover have "map (\<lambda>v. char_of (v + 32)) vs = data"
    using vs by (auto simp: code128_values_Inr intro!: map_idI)
  ultimately show ?thesis by (simp add: decode128_def butlast_append)
qed

section \<open>What the checksum detects\<close>

lemma weighted_sum_csum: "weighted_sum i vs = csum (\<lambda>k v. v * (k + 1)) i vs"
  by (induction vs arbitrary: i) simp_all

lemma coprime_103: "\<forall>k \<in> set [1..<103]. coprime k (103 :: nat)"
  by code_simp

interpretation code128_check: check_scheme "\<lambda>k v. v * (k + 1)" 103 103 102
proof
  fix i a b :: nat
  assume "i < 102" and ab: "a < 103" "b < 103" and eq: "a * (i + 1) mod 103 = b * (i + 1) mod 103"
  then have "coprime (i + 1) 103" using bspec [OF coprime_103, of "i + 1"] by simp
  then show "a = b" using ab eq by (rule weight_distinguishes)
qed

lemma code128_checksum_detects:
  assumes "j < length vs" and "length vs < 103" and "v < 103" and "vs ! j < 103" and "v \<noteq> vs ! j"
  shows "code128_checksum (vs[j := v]) \<noteq> code128_checksum vs"
proof
  assume "code128_checksum (vs[j := v]) = code128_checksum vs"
  then have "(code128StartB + weighted_sum 0 (vs[j := v])) mod 103 = (code128StartB + weighted_sum 0 vs) mod 103"
    by (simp only: code128_checksum_def)
  then have "weighted_sum 0 (vs[j := v]) mod 103 = weighted_sum 0 vs mod 103"
    by (rule mod_add_cancel)
  moreover have "j < 102" using assms(1,2) by simp
  ultimately show False
    using code128_check.substitution_changes_sum [OF assms(1) _ assms(3,4,5)]
    by (simp add: weighted_sum_csum)
qed

section \<open>Properties\<close>

text \<open>
  The encoder accepts exactly the non-empty values of bytes 32 to 126; what it returns is
  a sequence of widths of the length and module count of a Code 128 symbol, and a decoder that
  checks the start symbol, the patterns and the checksum reads the value back.
\<close>
theorem code128_roundtrip:
  "case EncodeCode128B data of
     Inl e \<Rightarrow> data = [] \<or> list_ex (\<lambda>c. (of_char c :: nat) < 32 \<or> 126 < (of_char c :: nat)) data
   | Inr ws \<Rightarrow> length ws = 6 * (length data + 2) + 7 \<and> sum_list ws = 11 * (length data + 2) + 13 \<and>
       decode128 ws = Some data"
proof (cases "EncodeCode128B data")
  case (Inl e)
  then have "data = [] \<or> (\<forall>vs. code128_values data \<noteq> Inr vs)"
    by (auto simp: EncodeCode128B_def Let_def)
  with Inl show ?thesis by (auto simp: code128_values_Inr list_ex_iff not_le)
next
  case (Inr ws)
  then show ?thesis using code128_encode_shape decode128_encode by simp
qed

text \<open>
  A misread data symbol is caught. In the symbol of a value shorter than 103 characters,
  replacing any one data symbol by another symbol below 103 makes the decoder refuse it.
\<close>
theorem code128_misread_refused:
  assumes "code128_values data = Inr vs" and "j < length data" and "length data < 103"
    and "v < 103" and "v \<noteq> vs ! j"
  shows "decode128 (code128_widths_of (code128StartB # vs[j := v] @ [code128_checksum vs, code128Stop])) = None"
proof -
  have len: "length vs = length data" by (rule code128_values_length [OF assms(1)])
  have small: "y < 95" if "y \<in> set vs" for y using code128_values_small [OF assms(1) that] .
  let ?ys = "code128StartB # vs[j := v] @ [code128_checksum vs]"
  have "y < 106" if "y \<in> set ?ys" for y
  proof -
    have "y = code128StartB \<or> y = v \<or> y \<in> set vs \<or> y = code128_checksum vs"
      using that set_update_subset_insert [of vs j v] by auto
    then show ?thesis
      using small [of y] code128_checksum_less [of vs] assms(4) by (auto simp: code128StartB_def)
  qed
  then have scan: "scan128 (code128_widths_of (?ys @ [code128Stop])) = Some ?ys"
    by (intro scan128_widths_of) blast
  have "vs ! j < 103" using small [of "vs ! j"] assms(2) len by simp
  then have "code128_checksum (vs[j := v]) \<noteq> code128_checksum vs"
    using code128_checksum_detects [of j vs v] assms len by simp
  with scan show ?thesis by (simp add: decode128_def butlast_append)
qed

theorem code128_misread_refused_witness:
  "decode128 (code128_widths_of (code128StartB # [33, 34, 35][1 := 50] @ [code128_checksum [33, 34, 35], code128Stop])) = None"
  by (rule code128_misread_refused [where data = "''ABC''"]) simp_all

lemma code128_bars_bounds:
  "(x, w) \<in> set (code128_bars i x0 ws) \<Longrightarrow> x0 \<le> x \<and> x + w \<le> x0 + sum_list ws * code128Module"
proof (induction ws arbitrary: i x0)
  case Nil
  then show ?case by simp
next
  case (Cons v ws)
  then consider "x = x0 \<and> w = v * code128Module"
    | "(x, w) \<in> set (code128_bars (i + 1) (x0 + v * code128Module) ws)"
    by (auto simp: Let_def split: if_splits)
  then show ?case
  proof cases
    case 1
    then show ?thesis by (simp add: algebra_simps)
  next
    case 2
    from Cons.IH [OF 2] show ?thesis by (simp add: algebra_simps)
  qed
qed

end
