(* ===== verification/GoFloat.thy ===== *)
theory GoFloat
  imports Prelude Complex_Main "HOL-Library.Log_Nat"
begin

text \<open>
  Go's float64 and the money conversions of engines/finance.go and engines/gst.go.

  A finite float64 is the rational it denotes. \<open>fl\<close> rounds a rational to the nearest
  float64, ties to even, which is what every +, -, *, / and int-to-float conversion of Go
  does to the exact result. The exponent is unbounded: overflow to infinity, subnormal
  numbers and NaN are outside the model (they start beyond 10^300 and below 10^-300, and no
  modelled operation divides by zero). \<open>math.Round\<close> rounds half away from zero; its result
  is an integer below 2^53 or the argument itself, so it needs no further rounding.
\<close>

section \<open>Rounding to 53 bits\<close>

definition ilog2 :: "rat \<Rightarrow> int" where
  "ilog2 x = (let (a, b) = quotient_of x;
                  k = int (floorlog 2 (nat a)) - int (floorlog 2 (nat b))
              in if 2 powi k \<le> x then k else k - 1)"

definition round_even :: "rat \<Rightarrow> int" where
  "round_even x = (let f = \<lfloor>x\<rfloor>; r = x - of_int f
                   in if r < 1/2 \<or> r = 1/2 \<and> even f then f else f + 1)"

definition fl :: "rat \<Rightarrow> rat" where
  "fl x = (if x = 0 then 0
           else let u = 2 powi (ilog2 \<bar>x\<bar> - 52)
                in sgn x * (of_int (round_even (\<bar>x\<bar> / u)) * u))"

definition math_round :: "rat \<Rightarrow> int" where
  "math_round x = (if x < 0 then - \<lfloor>- x + 1/2\<rfloor> else \<lfloor>x + 1/2\<rfloor>)"

text \<open>\<open>int(f)\<close> and \<open>int64(f)\<close> of a float64 truncate.\<close>

definition go_trunc :: "rat \<Rightarrow> int" where
  "go_trunc q = (if q < 0 then - \<lfloor>- q\<rfloor> else \<lfloor>q\<rfloor>)"

lemma go_trunc_of_int [simp]: "go_trunc (of_int n) = n"
  by (simp add: go_trunc_def)

lemma floorlog_rat:
  assumes "0 < n"
  shows "(2 :: rat) ^ floorlog 2 n \<le> 2 * of_nat n" and "(of_nat n :: rat) < 2 ^ floorlog 2 n"
proof -
  let ?k = "floorlog 2 n"
  have "?k \<noteq> 0" using assms by (simp add: floorlog_eq_zero_iff)
  then obtain j where j: "?k = Suc j" by (cases ?k) auto
  have "2 ^ (?k - 1) \<le> n \<and> n < 2 ^ ?k" using floorlog_bounds [of n 2] assms by simp
  with j have "2 ^ ?k \<le> 2 * n" "n < 2 ^ ?k" by auto
  then have "(of_nat (2 ^ ?k) :: rat) \<le> of_nat (2 * n)" "(of_nat n :: rat) < of_nat (2 ^ ?k)"
    by (simp_all only: of_nat_le_iff of_nat_less_iff)
  then show "(2 :: rat) ^ ?k \<le> 2 * of_nat n" "(of_nat n :: rat) < 2 ^ ?k" by simp_all
qed

lemma ilog2_bounds:
  assumes "0 < x"
  shows "2 powi ilog2 x \<le> x" and "x < 2 powi (ilog2 x + 1)"
proof -
  obtain a b where q: "quotient_of x = (a, b)" by fastforce
  then have b: "0 < b" and x: "x = of_int a / of_int b"
    by (auto dest: quotient_of_denom_pos quotient_of_div)
  with assms have a: "0 < a" by (simp add: zero_less_divide_iff)
  define m n where "m = floorlog 2 (nat a)" and "n = floorlog 2 (nat b)"
  have "(of_nat (nat a) :: rat) = of_int a" "(of_nat (nat b) :: rat) = of_int b"
    using a b by (simp_all add: of_nat_nat)
  then have a1: "(2 :: rat) ^ m \<le> 2 * of_int a" and a2: "of_int a < (2 :: rat) ^ m"
    and b1: "(2 :: rat) ^ n \<le> 2 * of_int b" and b2: "of_int b < (2 :: rat) ^ n"
    using floorlog_rat [of "nat a"] floorlog_rat [of "nat b"] a b by (simp_all add: m_def n_def)
  define k where "k = int m - int n"
  have k: "(2 :: rat) powi k = 2 ^ m / 2 ^ n" by (simp add: k_def power_int_diff)
  have il: "ilog2 x = (if 2 powi k \<le> x then k else k - 1)"
    by (simp add: ilog2_def q k_def m_def n_def)
  have upper: "x < 2 * 2 powi k"
  proof -
    have "of_int a * (2 :: rat) ^ n < 2 ^ m * (2 * of_int b)"
      using a2 b1 a b by (intro mult_less_le_imp_less) auto
    then show ?thesis using b by (simp add: x k field_simps)
  qed
  have lower: "2 powi k / 2 \<le> x"
  proof -
    have "2 ^ m * of_int b \<le> 2 * of_int a * (2 :: rat) ^ n"
      using a1 b2 a b by (intro mult_mono) auto
    then show ?thesis using b by (simp add: x k field_simps)
  qed
  have "(2 :: rat) powi (k + 1) = 2 * 2 powi k" by (simp add: power_int_add)
  moreover have "(2 :: rat) powi (k - 1) = 2 powi k / 2" by (simp add: power_int_diff)
  ultimately show "2 powi ilog2 x \<le> x" "x < 2 powi (ilog2 x + 1)"
    using upper lower by (auto simp: il)
qed

lemma round_even_error: "\<bar>of_int (round_even x) - x\<bar> \<le> 1/2"
proof -
  have "of_int \<lfloor>x\<rfloor> \<le> x" "x < of_int \<lfloor>x\<rfloor> + 1" using floor_correct [of x] by simp_all
  then show ?thesis
    by (cases "x - of_int \<lfloor>x\<rfloor> < 1/2 \<or> x - of_int \<lfloor>x\<rfloor> = 1/2 \<and> even \<lfloor>x\<rfloor>")
      (simp_all only: round_even_def Let_def if_True if_False of_int_add of_int_1, linarith+)
qed

lemma round_even_of_int [simp]: "round_even (of_int n) = n"
  by (simp add: round_even_def)

lemma fl_0 [simp]: "fl 0 = 0"
  by (simp add: fl_def)

lemma fl_minus: "fl (- x) = - fl x"
  by (simp add: fl_def Let_def sgn_minus)

text \<open>The relative error of one rounding.\<close>

lemma fl_error: "\<bar>fl x - x\<bar> \<le> \<bar>x\<bar> / 2 ^ 53"
proof (cases "x = 0")
  case True
  then show ?thesis by simp
next
  case False
  define u where "u = (2 :: rat) powi (ilog2 \<bar>x\<bar> - 52)"
  have u: "0 < u" by (simp add: u_def)
  have "2 powi ilog2 \<bar>x\<bar> = u * 2 ^ 52"
    by (simp add: u_def power_int_diff)
  then have ux: "u * 2 ^ 52 \<le> \<bar>x\<bar>" using ilog2_bounds(1) [of "\<bar>x\<bar>"] False by simp
  define r where "r = (of_int (round_even (\<bar>x\<bar> / u)) :: rat)"
  have "\<bar>r - \<bar>x\<bar> / u\<bar> \<le> 1/2" unfolding r_def by (rule round_even_error)
  then have "\<bar>r - \<bar>x\<bar> / u\<bar> * u \<le> 1/2 * u" using u by (intro mult_right_mono) simp_all
  moreover have "\<bar>r - \<bar>x\<bar> / u\<bar> * u = \<bar>(r - \<bar>x\<bar> / u) * u\<bar>"
    using u by (simp add: abs_mult)
  moreover have "(r - \<bar>x\<bar> / u) * u = r * u - \<bar>x\<bar>" using u by (simp add: left_diff_distrib)
  ultimately have "\<bar>r * u - \<bar>x\<bar>\<bar> \<le> \<bar>x\<bar> / 2 ^ 53" using ux by simp
  moreover have "fl x - x = sgn x * (r * u - \<bar>x\<bar>)"
    using False by (simp add: fl_def u_def r_def Let_def right_diff_distrib sgn_mult_abs)
  ultimately show ?thesis using False by (simp add: abs_mult)
qed

lemma fl_nonneg: "0 \<le> x \<Longrightarrow> 0 \<le> fl x"
proof -
  assume x: "0 \<le> x"
  have "\<bar>fl x - x\<bar> \<le> x / 2 ^ 53" using fl_error [of x] x by simp
  then have "x - x / 2 ^ 53 \<le> fl x" by linarith
  moreover have "0 \<le> x - x / 2 ^ 53" using x by simp
  ultimately show ?thesis by linarith
qed

text \<open>Values with at most 53 significant bits are not changed.\<close>

lemma fl_scaled_int:
  assumes "\<bar>m\<bar> < 2 ^ 53"
  shows "fl (of_int m * 2 powi e) = of_int m * 2 powi e"
proof (cases "m = 0")
  case True
  then show ?thesis by simp
next
  case False
  let ?x = "of_int m * 2 powi e :: rat"
  have pos: "0 < \<bar>?x\<bar>" using False by simp
  have "2 powi ilog2 \<bar>?x\<bar> \<le> \<bar>?x\<bar>" using ilog2_bounds(1) [OF pos] .
  also have "\<bar>?x\<bar> < 2 ^ 53 * 2 powi e"
    using assms by (simp add: abs_mult del: of_int_abs add: of_int_abs [symmetric])
  also have "\<dots> = 2 powi (53 + e)" by (simp add: power_int_add)
  finally have lt: "2 powi ilog2 \<bar>?x\<bar> < (2 :: rat) powi (53 + e)" .
  have "ilog2 \<bar>?x\<bar> < 53 + e"
  proof (rule ccontr)
    assume "\<not> ilog2 \<bar>?x\<bar> < 53 + e"
    then have "(2 :: rat) powi (53 + e) \<le> 2 powi ilog2 \<bar>?x\<bar>" by (intro power_int_increasing) simp_all
    with lt show False by simp
  qed
  then have "0 \<le> e - (ilog2 \<bar>?x\<bar> - 52)" by linarith
  then obtain k where "e - (ilog2 \<bar>?x\<bar> - 52) = int k" by (rule nonneg_int_cases)
  then have k: "e = ilog2 \<bar>?x\<bar> - 52 + int k" by linarith
  define u where "u = (2 :: rat) powi (ilog2 \<bar>?x\<bar> - 52)"
  have u: "0 < u" by (simp add: u_def)
  have e: "(2 :: rat) powi e = 2 ^ k * u" by (subst k) (simp add: u_def power_int_add)
  have "\<bar>?x\<bar> / u = of_int (\<bar>m\<bar> * 2 ^ k)" using u by (simp add: e abs_mult)
  then have "round_even (\<bar>?x\<bar> / u) = \<bar>m\<bar> * 2 ^ k" by (simp only: round_even_of_int)
  then have "fl ?x = sgn ?x * (of_int (\<bar>m\<bar> * 2 ^ k) * u)"
    using False by (simp add: fl_def u_def Let_def del: of_int_mult)
  also have "\<dots> = sgn ?x * \<bar>?x\<bar>" using u by (simp add: e abs_mult)
  finally show ?thesis by (simp add: sgn_mult_abs)
qed

lemma fl_of_int: "\<bar>m\<bar> < 2 ^ 53 \<Longrightarrow> fl (of_int m) = of_int m"
  using fl_scaled_int [of m 0] by simp

section \<open>math.Round\<close>

lemma math_round_nearest:
  assumes "\<bar>x - of_int n\<bar> < 1/2"
  shows "math_round x = n"
proof (cases "x < 0")
  case True
  have "- x + 1/2 < of_int (- n) + 1" "of_int (- n) \<le> - x + 1/2" using assms unfolding of_int_minus by linarith+
  then have "\<lfloor>- x + 1/2\<rfloor> = - n" by (intro floor_unique) simp_all
  with True show ?thesis by (simp add: math_round_def)
next
  case False
  have "x + 1/2 < of_int n + 1" "of_int n \<le> x + 1/2" using assms by linarith+
  then have "\<lfloor>x + 1/2\<rfloor> = n" by (intro floor_unique) simp_all
  with False show ?thesis by (simp add: math_round_def)
qed

lemma math_round_error: "\<bar>x - of_int (math_round x)\<bar> \<le> 1/2"
proof (cases "x < 0")
  case True
  then show ?thesis
    using floor_correct [of "- x + 1/2"] by (simp only: math_round_def if_True of_int_minus of_int_add of_int_1) linarith
next
  case False
  then show ?thesis
    using floor_correct [of "x + 1/2"] by (simp only: math_round_def if_False of_int_add of_int_1) linarith
qed

lemma math_round_of_int [simp]: "math_round (of_int n) = n"
  by (rule math_round_nearest) simp

lemma math_round_minus: "math_round (- x) = - math_round x"
proof (cases "x = 0")
  case True
  then show ?thesis using math_round_of_int [of 0] by simp
next
  case False
  then show ?thesis by (auto simp: math_round_def)
qed

section \<open>Rupees and paise (engines/finance.go)\<close>

definition RupeesToPaise :: "rat \<Rightarrow> int" where
  "RupeesToPaise r = math_round (fl (r * 100))"

definition PaiseToRupees :: "int \<Rightarrow> rat" where
  "PaiseToRupees p = fl (fl (of_int p) / 100)"

text \<open>A whole-rupee map scaled to paise: \<open>int64(v) * 100\<close>.\<close>

definition PaiseMap :: "(string \<times> int) list \<Rightarrow> (string \<times> int) list" where
  "PaiseMap rupees = map (\<lambda>(k, v). (k, wrap64 (v * 100))) rupees"

section \<open>Rounding of money (engines/gst.go)\<close>

definition round2 :: "rat \<Rightarrow> rat" where
  "round2 v = fl (fl (of_int (math_round (fl (v * 100)))) / 100)"

definition RoundToRupee :: "rat \<Rightarrow> rat \<times> rat" where
  "RoundToRupee t0 =
     (let t = round2 t0; rounded = fl (of_int (math_round t))
      in (rounded, round2 (fl (rounded - t))))"

text \<open>The integer form, on paise; \<open>roundOffPaise(-p)\<close> recurses once.\<close>

definition roundOffPaise :: "int \<Rightarrow> int" where
  "roundOffPaise p = (if 0 \<le> p then go_div (p + 50) 100 * 100 - p
                      else - (go_div (- p + 50) 100 * 100 - (- p)))"

definition WholeRupeeMRP :: "rat \<Rightarrow> rat" where
  "WholeRupeeMRP mrp = (if mrp \<le> 0 then mrp else fl (of_int (math_round (round2 mrp))))"

subsection \<open>Amounts in paise\<close>

lemma PaiseToRupees_error:
  assumes "\<bar>p\<bar> < 2 ^ 53"
  shows "\<bar>PaiseToRupees p - of_int p / 100\<bar> \<le> \<bar>of_int p / 100\<bar> / 2 ^ 53"
  using fl_error [of "of_int p / 100"] assms by (simp add: PaiseToRupees_def fl_of_int)

lemma abs_of_int_le: "\<bar>p\<bar> \<le> b \<Longrightarrow> \<bar>of_int p\<bar> \<le> (of_int b :: rat)"
  by (metis of_int_abs of_int_le_iff)

text \<open>A float within 2^-10 paise of p paise, below 2^42 paise, converts to p.\<close>

lemma RupeesToPaise_near:
  assumes "\<bar>p\<bar> \<le> 2 ^ 50" and "\<bar>r * 100 - of_int p\<bar> \<le> 1/8"
  shows "RupeesToPaise r = p"
  unfolding RupeesToPaise_def
proof (rule math_round_nearest)
  have p: "\<bar>of_int p\<bar> \<le> (2 ^ 50 :: rat)" using abs_of_int_le [OF assms(1)] by simp
  then have "\<bar>r * 100\<bar> \<le> 2 ^ 50 + 1/8" using assms(2) by linarith
  then have "\<bar>r * 100\<bar> / 2 ^ 53 \<le> (2 ^ 50 + 1/8) / 2 ^ 53" by (intro divide_right_mono) simp_all
  also have "\<dots> \<le> (1/4 :: rat)" by simp
  finally have "\<bar>fl (r * 100) - r * 100\<bar> \<le> 1/4" using fl_error [of "r * 100"] by linarith
  with assms(2) show "\<bar>fl (r * 100) - of_int p\<bar> < 1/2" by linarith
qed

lemma PaiseToRupees_near:
  assumes "\<bar>p\<bar> \<le> 2 ^ 50"
  shows "\<bar>PaiseToRupees p * 100 - of_int p\<bar> \<le> 1/8"
proof -
  have p: "\<bar>of_int p\<bar> \<le> (2 ^ 50 :: rat)" using abs_of_int_le [OF assms] by simp
  have "\<bar>PaiseToRupees p - of_int p / 100\<bar> \<le> \<bar>of_int p / 100\<bar> / 2 ^ 53"
    using assms by (intro PaiseToRupees_error) simp
  also have "\<dots> \<le> 2 ^ 50 / 100 / 2 ^ 53" using p by (simp add: abs_divide divide_right_mono)
  finally have "\<bar>PaiseToRupees p - of_int p / 100\<bar> * 100 \<le> 1/8" by simp
  moreover have "\<bar>a\<bar> * 100 = \<bar>a * 100\<bar>" for a :: rat by (simp add: abs_mult)
  moreover have "(PaiseToRupees p - of_int p / 100) * 100 = PaiseToRupees p * 100 - of_int p" by simp
  ultimately show ?thesis by metis
qed

lemma RupeesToPaise_PaiseToRupees:
  "\<bar>p\<bar> \<le> 2 ^ 50 \<Longrightarrow> RupeesToPaise (PaiseToRupees p) = p"
  by (rule RupeesToPaise_near, assumption, rule PaiseToRupees_near)

lemma round2_PaiseToRupees: "round2 v = PaiseToRupees (RupeesToPaise v)"
  by (simp add: round2_def PaiseToRupees_def RupeesToPaise_def)

lemma roundOffPaise_whole: "100 dvd p + roundOffPaise p"
  by (simp add: roundOffPaise_def go_div_nonneg)

lemma roundOffPaise_bounds: "- 50 \<le> roundOffPaise p \<and> roundOffPaise p \<le> 50"
proof (cases "0 \<le> p")
  case True
  then show ?thesis by (simp add: roundOffPaise_def go_div_nonneg) presburger
next
  case False
  then show ?thesis by (simp add: roundOffPaise_def go_div_nonneg) presburger
qed

lemma roundOffPaise_tie:
  "roundOffPaise p = 50 \<Longrightarrow> 0 \<le> p" "roundOffPaise p = - 50 \<Longrightarrow> p < 0"
proof -
  have "roundOffPaise p \<noteq> - 50" if "0 \<le> p"
    using that unfolding roundOffPaise_def by (simp add: go_div_nonneg)
  moreover have "roundOffPaise p \<noteq> 50" if "p < 0"
    using that unfolding roundOffPaise_def by (simp add: go_div_nonneg)
  ultimately show "roundOffPaise p = 50 \<Longrightarrow> 0 \<le> p" "roundOffPaise p = - 50 \<Longrightarrow> p < 0"
    using not_le by blast+
qed

text \<open>The float nearest to p paise rounds to the rupee the integer rule picks.\<close>

lemma PaiseToRupees_near':
  assumes "\<bar>p\<bar> \<le> 2 ^ 46"
  shows "\<bar>PaiseToRupees p - of_int p / 100\<bar> \<le> 1/8192"
proof -
  have p: "\<bar>of_int p\<bar> \<le> (2 ^ 46 :: rat)" using abs_of_int_le [OF assms] by simp
  have "\<bar>PaiseToRupees p - of_int p / 100\<bar> \<le> \<bar>of_int p / 100\<bar> / 2 ^ 53"
    using assms by (intro PaiseToRupees_error) simp
  also have "\<dots> \<le> 2 ^ 46 / 100 / 2 ^ 53"
    unfolding abs_divide using p by (intro divide_right_mono) simp_all
  also have "\<dots> \<le> 1/8192" by simp
  finally show ?thesis .
qed

lemma math_round_PaiseToRupees:
  assumes p: "\<bar>p\<bar> \<le> 2 ^ 46" and R: "p + roundOffPaise p = 100 * R"
  shows "math_round (PaiseToRupees p) = R"
proof -
  define q where "q = roundOffPaise p"
  have x: "of_int p / 100 = (of_int R - of_int q / 100 :: rat)"
  proof -
    have "p = 100 * R - q" using R by (simp add: q_def)
    then show ?thesis by (simp add: diff_divide_distrib)
  qed
  have q: "- 50 \<le> q" "q \<le> 50" using roundOffPaise_bounds [of p] by (simp_all add: q_def)
  show ?thesis
  proof (cases "q = 50 \<or> q = - 50")
    case True
    then have half: "of_int p / 100 = (of_int (2 * R - sgn q) * 2 powi (- 1) :: rat)"
      by (auto simp: x power_int_minus)
    have "\<bar>2 * R - sgn q\<bar> < 2 ^ 53" using p R True by (auto simp: q_def)
    then have "fl (of_int p / 100) = of_int p / 100" unfolding half by (rule fl_scaled_int)
    moreover have "fl (of_int p) = of_int p" using p by (intro fl_of_int) simp
    ultimately have "PaiseToRupees p = of_int R - of_int q / 100" by (simp add: PaiseToRupees_def x)
    moreover have "0 \<le> p \<longrightarrow> 1 \<le> R" "p < 0 \<longrightarrow> R \<le> - 1" using True R roundOffPaise_tie [of p] by (auto simp: q_def)
    moreover have "q = 50 \<longrightarrow> 0 \<le> p" "q = - 50 \<longrightarrow> p < 0" using roundOffPaise_tie by (auto simp: q_def)
    ultimately show ?thesis using True by (auto simp: math_round_def)
  next
    case False
    with q have "- 49 \<le> q" "q \<le> 49" by auto
    then have "- 49 \<le> (of_int q :: rat)" "(of_int q :: rat) \<le> 49" by (simp_all only: of_int_le_iff [symmetric] of_int_minus of_int_numeral)
    then show ?thesis
      using PaiseToRupees_near' [OF p] unfolding x by (intro math_round_nearest) linarith
  qed
qed

lemma RoundToRupee_paise:
  assumes p: "\<bar>p\<bar> \<le> 2 ^ 46"
  shows "RoundToRupee (PaiseToRupees p) =
    (of_int ((p + roundOffPaise p) div 100), PaiseToRupees (roundOffPaise p))"
proof -
  define t q where "t = PaiseToRupees p" and "q = roundOffPaise p"
  obtain R where R: "p + q = 100 * R" using roundOffPaise_whole [of p] by (auto simp: q_def)
  then have Rq: "(p + q) div 100 = R" by simp
  have q: "- 50 \<le> q" "q \<le> 50" using roundOffPaise_bounds [of p] by (simp_all add: q_def)
  have t: "round2 t = t" using p by (simp add: t_def round2_PaiseToRupees RupeesToPaise_PaiseToRupees)
  have round: "math_round t = R" unfolding t_def using R q_def by (intro math_round_PaiseToRupees [OF p]) simp
  have "\<bar>R\<bar> < 2 ^ 53" using p R q by simp
  then have flR: "fl (of_int R) = of_int R" by (rule fl_of_int)
  define d where "d = of_int R - t"
  have "\<bar>t - of_int p / 100\<bar> \<le> 1/8192" unfolding t_def by (rule PaiseToRupees_near' [OF p])
  moreover have "of_int p / 100 = (of_int R - of_int q / 100 :: rat)"
  proof -
    have "p = 100 * R - q" using R by simp
    then show ?thesis by (simp add: diff_divide_distrib)
  qed
  ultimately have d: "\<bar>d - of_int q / 100\<bar> \<le> 1/8192" unfolding d_def by linarith
  have "- 50 \<le> (of_int q :: rat)" "(of_int q :: rat) \<le> 50"
    using q by (simp_all only: of_int_le_iff [symmetric] of_int_minus of_int_numeral)
  then have "\<bar>d\<bar> \<le> 1" using d by linarith
  then have "\<bar>d\<bar> / 2 ^ 53 \<le> 1/8192" by simp
  then have "\<bar>fl d - d\<bar> \<le> 1/8192" using fl_error [of d] by linarith
  with d have "\<bar>fl d - of_int q / 100\<bar> \<le> 1/4096" by linarith
  then have "\<bar>fl d * 100 - of_int q\<bar> \<le> 1/8" by linarith
  then have "RupeesToPaise (fl d) = q" using q by (intro RupeesToPaise_near) simp_all
  then show ?thesis
    by (simp add: RoundToRupee_def t_def [symmetric] q_def [symmetric] Let_def t round flR Rq
        d_def [symmetric] round2_PaiseToRupees [of "fl d"])
qed

section \<open>Properties\<close>

text \<open>
  C34: paise survive the trip through float rupees. For any amount up to 2^50 paise,
  \<open>RupeesToPaise\<close> of \<open>PaiseToRupees\<close> is the amount itself, although the
  rupee figure is rounded to a float64 and multiplied by 100 with another rounding.
\<close>
theorem paise_rupees_roundtrip:
  assumes "\<bar>p\<bar> \<le> 2 ^ 50"
  shows "RupeesToPaise (PaiseToRupees p) = p"
  using assms by (rule RupeesToPaise_PaiseToRupees)

theorem paise_rupees_roundtrip_witness:
  "RupeesToPaise (PaiseToRupees 97049) = 97049"
  by (rule paise_rupees_roundtrip) simp

text \<open>
  The two rounding rules agree. For any amount up to 2^46 paise, rounding the
  float rupee figure to the whole rupee (\<open>RoundToRupee\<close>) gives the whole rupees, and
  the round-off line, that the integer rule \<open>roundOffPaise\<close> gives on the paise; the
  round-off is between -50 and 50 paise.
\<close>
theorem round_to_rupee_agrees:
  assumes "\<bar>p\<bar> \<le> 2 ^ 46"
  shows "RoundToRupee (PaiseToRupees p) =
      (of_int ((p + roundOffPaise p) div 100), PaiseToRupees (roundOffPaise p))
    \<and> 100 dvd p + roundOffPaise p \<and> \<bar>roundOffPaise p\<bar> \<le> 50"
  using RoundToRupee_paise [OF assms] roundOffPaise_whole [of p] roundOffPaise_bounds [of p] by auto

theorem round_to_rupee_agrees_witness:
  "RoundToRupee (PaiseToRupees 97050) = (971, PaiseToRupees 50)"
  using round_to_rupee_agrees [of 97050] by (simp add: roundOffPaise_def go_div_nonneg)

end
