(* ===== verification/Schema.thy ===== *)
theory Schema
  imports Prelude GoFloat
begin

text \<open>
  The tenant's database as the engines see it: one record \<open>tenant\<close> with a field per table
  they read or write, a record per row. A JSONB column is an association list of \<open>json\<close>
  values; a number is the rational a float64 holds. Tables are lists in insertion order, so
  a query without ORDER BY reads them in that order. Timestamps are integers (the session
  clock), dates are ISO strings, compared as strings; \<open>t_day_end d\<close> is
  \<open>public.erp_day_start(d + 1)\<close>, the moment the business day after \<open>d\<close> begins.

  The theory holds the readers every engine shares: document lookup, the \<open>->>\<close>
  operator, the settings registry, roles, and the audit trail.
\<close>

section \<open>JSON values\<close>

datatype json =
    JNull
  | JBool bool
  | JNum rat
  | JStr string
  | JArr "json list"
  | JObj "(string \<times> json) list"

type_synonym payload = "(string \<times> json) list"

definition jget :: "payload \<Rightarrow> string \<Rightarrow> json" where
  "jget m k = (case map_of m k of Some v \<Rightarrow> v | None \<Rightarrow> JNull)"

definition jput :: "string \<Rightarrow> json \<Rightarrow> payload \<Rightarrow> payload" where
  "jput k v m = (if map_of m k = None then m @ [(k, v)]
     else map (\<lambda>(k', v'). if k' = k then (k', v) else (k', v')) m)"

lemma map_of_update:
  "map_of (map (\<lambda>(k', v'). if k' = k then (k', v) else (k', v')) m) j =
     (if j = k \<and> map_of m k \<noteq> None then Some v else map_of m j)"
  by (induction m) auto

lemma map_of_jput [simp]: "map_of (jput k v m) j = (if j = k then Some v else map_of m j)"
proof -
  have "map_of (m @ [(k, v)]) j = (if j = k then Some v else map_of m j)"
    if "map_of m k = None"
    using that by (auto simp: map_add_def split: option.splits)
  then show ?thesis by (auto simp: jput_def map_of_update)
qed

lemma jget_jput [simp]: "jget (jput k v m) j = (if j = k then v else jget m j)"
  by (simp add: jget_def)

text \<open>\<open>s, _ := m[k].(string)\<close>\<close>

definition jstr :: "payload \<Rightarrow> string \<Rightarrow> string" where
  "jstr m k = (case jget m k of JStr s \<Rightarrow> s | _ \<Rightarrow> [])"

definition strField :: "payload \<Rightarrow> string \<Rightarrow> string" where
  "strField m k = trim (jstr m k)"

lemma jstr_jput [simp]: "jstr (jput k v m) j = (if j = k then (case v of JStr s \<Rightarrow> s | _ \<Rightarrow> []) else jstr m j)"
  by (simp add: jstr_def)

text \<open>\<open>b, _ := m[k].(bool)\<close>\<close>

definition jbool :: "payload \<Rightarrow> string \<Rightarrow> bool" where
  "jbool m k \<longleftrightarrow> jget m k = JBool True"

section \<open>Numbers as text\<close>

text \<open>
  \<open>strconv.ParseFloat\<close> on plain decimal literals (sign, digits, one point); a literal with
  an exponent, in hexadecimal, or one of the words Inf and NaN is outside the model and is
  read as malformed.
\<close>

definition parse_udec :: "string \<Rightarrow> rat option" where
  "parse_udec s = (case split_at CHR ''.'' s of
     [a] \<Rightarrow> if a \<noteq> [] \<and> list_all is_digit a then Some (of_nat (undec a)) else None
   | [a, b] \<Rightarrow> if a @ b \<noteq> [] \<and> list_all is_digit (a @ b)
                then Some (of_nat (undec (a @ b)) / 10 ^ length b) else None
   | _ \<Rightarrow> None)"

definition parse_float :: "string \<Rightarrow> rat option" where
  "parse_float s = map_option fl (case s of
     [] \<Rightarrow> None
   | c # cs \<Rightarrow> if c = CHR ''-'' then map_option uminus (parse_udec cs)
               else if c = CHR ''+'' then parse_udec cs else parse_udec (c # cs))"

text \<open>
  The text of a JSON number: sign, integer part, and as many decimals as the number has,
  up to 30 (\<open>jsonb\<close> numbers are decimal, so every stored number has finitely many).
\<close>

definition decimals :: "rat \<Rightarrow> nat" where
  "decimals q = (case find (\<lambda>k. snd (quotient_of (q * 10 ^ k)) = 1) [0..<30] of Some k \<Rightarrow> k | None \<Rightarrow> 30)"

definition num_text :: "rat \<Rightarrow> string" where
  "num_text q = (let a = \<bar>q\<bar>; k = decimals a; n = nat \<lfloor>a * 10 ^ k\<rfloor>
     in (if q < 0 then ''-'' else []) @ dec (n div 10 ^ k) @
        (if k = 0 then [] else CHR ''.'' # dec_pad k (n mod 10 ^ k)))"

text \<open>\<open>data->>'k'\<close>: NULL when the key is absent or holds null. Arrays and objects are not read this way.\<close>

fun json_text :: "json \<Rightarrow> string option" where
  "json_text JNull = None"
| "json_text (JBool b) = Some (if b then ''true'' else ''false'')"
| "json_text (JNum q) = Some (num_text q)"
| "json_text (JStr s) = Some s"
| "json_text (JArr _) = Some ''[]''"
| "json_text (JObj _) = Some ''{}''"

definition jtext :: "payload \<Rightarrow> string \<Rightarrow> string option" where
  "jtext m k = json_text (jget m k)"

definition coalesce :: "'a option \<Rightarrow> 'a \<Rightarrow> 'a" where
  "coalesce x d = (case x of Some v \<Rightarrow> v | None \<Rightarrow> d)"

text \<open>\<open>fmt.Sprintf("%v", v)\<close> of a decoded JSON value.\<close>

definition show_json :: "json \<Rightarrow> string" where
  "show_json j = (case json_text j of Some s \<Rightarrow> s | None \<Rightarrow> ''<nil>'')"

definition numFromInterface :: "json \<Rightarrow> rat" where
  "numFromInterface j = (case j of
     JNum n \<Rightarrow> n
   | JStr s \<Rightarrow> (case parse_float s of Some f \<Rightarrow> f | None \<Rightarrow> 0)
   | _ \<Rightarrow> 0)"

definition parityNumber :: "json \<Rightarrow> rat option" where
  "parityNumber j = (case j of JNum n \<Rightarrow> Some n | _ \<Rightarrow> parse_float (trim (show_json j)))"

definition truthy :: "json \<Rightarrow> bool" where
  "truthy j = (case j of
     JBool b \<Rightarrow> b
   | JStr s \<Rightarrow> to_lower (trim s) \<in> {''true'', ''1'', ''yes'', ''on''}
   | JNum n \<Rightarrow> n \<noteq> 0
   | _ \<Rightarrow> False)"

section \<open>Dates\<close>

text \<open>
  An ISO calendar date, \<open>YYYY-MM-DD\<close>: what \<open>time.Parse("2006-01-02", s)\<close> accepts and
  what the engines cast to a SQL date. ISO dates are ordered as strings.
\<close>

definition leap_year :: "nat \<Rightarrow> bool" where
  "leap_year y \<longleftrightarrow> y mod 4 = 0 \<and> (y mod 100 \<noteq> 0 \<or> y mod 400 = 0)"

definition days_in_month :: "nat \<Rightarrow> nat \<Rightarrow> nat" where
  "days_in_month y m = (if m = 2 then (if leap_year y then 29 else 28)
     else if m \<in> {4, 6, 9, 11} then 30 else 31)"

definition parse_date :: "string \<Rightarrow> (nat \<times> nat \<times> nat) option" where
  "parse_date s = (if length s = 10 \<and> s ! 4 = CHR ''-'' \<and> s ! 7 = CHR ''-''
       \<and> list_all is_digit (take 4 s @ take 2 (drop 5 s) @ drop 8 s)
     then (let y = undec (take 4 s); m = undec (take 2 (drop 5 s)); d = undec (drop 8 s)
           in if 1 \<le> m \<and> m \<le> 12 \<and> 1 \<le> d \<and> d \<le> days_in_month y m then Some (y, m, d) else None)
     else None)"

definition is_iso_date :: "string \<Rightarrow> bool" where
  "is_iso_date s \<longleftrightarrow> parse_date s \<noteq> None"

definition format_date :: "nat \<times> nat \<times> nat \<Rightarrow> string" where
  "format_date = (\<lambda>(y, m, d). dec_pad 4 y @ ''-'' @ dec_pad 2 m @ ''-'' @ dec_pad 2 d)"

section \<open>Rows\<close>

record document =
  d_doctype :: string
  d_id :: string
  d_data :: payload
  d_status :: string
  d_created_by :: string
  d_updated_by :: "string option"
  d_deleted :: bool
  d_created_at :: int
  d_updated_at :: int

record accounting_period =
  ap_id :: string
  ap_name :: string
  ap_start :: string
  ap_end :: string
  ap_status :: string
  ap_closed_by :: "string option"
  ap_closed_at :: "int option"
  ap_created_by :: string
  ap_round :: nat
  ap_reopened_by :: "string option"

record close_task =
  ct_period :: string
  ct_key :: string
  ct_title :: string
  ct_owner :: "string option"
  ct_status :: string
  ct_evidence :: "string option"
  ct_evidence_ref :: "string option"
  ct_snapshot :: "bool option"
  ct_signed_by :: "string option"
  ct_round :: nat

record close_log =
  cl_period :: string
  cl_round :: nat
  cl_event :: string
  cl_task :: string
  cl_actor :: string

record gl_account =
  ga_code :: string
  ga_name :: string
  ga_type :: string

record gl_posting =
  gp_account :: string
  gp_debit :: int
  gp_credit :: int
  gp_doctype :: string
  gp_docid :: string
  gp_key :: "string option"
  gp_cost_center :: "string option"
  gp_department :: "string option"
  gp_entity :: "string option"
  gp_project :: "string option"
  gp_currency :: "(string \<times> rat) option"
  gp_transaction :: "rat option"
  gp_created_at :: int

record approval_rule =
  ar_id :: int
  ar_doctype :: string
  ar_min :: rat
  ar_max :: "rat option"
  ar_role :: string

record approval_entry =
  ae_doctype :: string
  ae_docid :: string
  ae_action :: string
  ae_actor :: string
  ae_role :: string
  ae_amount :: rat
  ae_comment :: string

record user =
  u_id :: string
  u_name :: string
  u_active :: bool

record doctype_meta =
  dm_name :: string
  dm_strict :: bool
  dm_status_options :: "string option"

record heartbeat =
  hb_updated_at :: int
  hb_carts :: "string list"

record audit_event =
  au_user :: string
  au_action :: string
  au_result :: string

record tenant =
  t_documents :: "document list"
  t_settings :: "(string \<times> string) list"
  t_periods :: "accounting_period list"
  t_tasks :: "close_task list"
  t_close_log :: "close_log list"
  t_accounts :: "gl_account list"
  t_postings :: "gl_posting list"
  t_rules :: "approval_rule list"
  t_approvals :: "approval_entry list"
  t_users :: "user list"
  t_meta :: "doctype_meta list"
  t_heartbeats :: "heartbeat list"
  t_audit :: "audit_event list"
  t_today :: string
  t_now :: int
  t_day_end :: "string \<Rightarrow> int"
  t_functional :: string

section \<open>Documents\<close>

text \<open>\<open>WHERE doctype = dt AND id = i\<close>: the table's primary key is (doctype, id).\<close>

definition is_doc :: "string \<Rightarrow> string \<Rightarrow> document \<Rightarrow> bool" where
  "is_doc dt i d \<longleftrightarrow> d_doctype d = dt \<and> d_id d = i"

definition find_doc :: "tenant \<Rightarrow> string \<Rightarrow> string \<Rightarrow> document option" where
  "find_doc t dt i = find (is_doc dt i) (t_documents t)"

definition update_docs :: "(document \<Rightarrow> bool) \<Rightarrow> (document \<Rightarrow> document) \<Rightarrow> tenant \<Rightarrow> tenant" where
  "update_docs p f t = t\<lparr>t_documents := map (\<lambda>d. if p d then f d else d) (t_documents t)\<rparr>"

definition insert_doc :: "document \<Rightarrow> tenant \<Rightarrow> tenant" where
  "insert_doc d t = t\<lparr>t_documents := t_documents t @ [d]\<rparr>"

definition new_doc :: "tenant \<Rightarrow> string \<Rightarrow> string \<Rightarrow> payload \<Rightarrow> string \<Rightarrow> string \<Rightarrow> document" where
  "new_doc t dt i data st usr =
     \<lparr>d_doctype = dt, d_id = i, d_data = data, d_status = st, d_created_by = usr,
      d_updated_by = None, d_deleted = False, d_created_at = t_now t, d_updated_at = t_now t\<rparr>"

definition doc_keys :: "tenant \<Rightarrow> (string \<times> string) list" where
  "doc_keys t = map (\<lambda>d. (d_doctype d, d_id d)) (t_documents t)"

lemma find_doc_Some:
  "find_doc t dt i = Some d \<Longrightarrow> d \<in> set (t_documents t) \<and> d_doctype d = dt \<and> d_id d = i"
  by (auto simp: find_doc_def find_Some_iff is_doc_def)

lemma find_map_update:
  assumes "\<And>d. p (f d) = p d"
  shows "find p (map (\<lambda>d. if q d then f d else d) xs) =
    map_option (\<lambda>d. if q d then f d else d) (find p xs)"
  using assms by (induction xs) auto

lemma find_doc_update:
  assumes "\<And>d. is_doc dt i (f d) = is_doc dt i d"
  shows "find_doc (update_docs q f t) dt i = map_option (\<lambda>d. if q d then f d else d) (find_doc t dt i)"
  using assms by (simp add: find_doc_def update_docs_def find_map_update)

lemma update_docs_simps [simp]:
  "t_settings (update_docs p f t) = t_settings t"
  "t_periods (update_docs p f t) = t_periods t"
  "t_tasks (update_docs p f t) = t_tasks t"
  "t_close_log (update_docs p f t) = t_close_log t"
  "t_accounts (update_docs p f t) = t_accounts t"
  "t_postings (update_docs p f t) = t_postings t"
  "t_rules (update_docs p f t) = t_rules t"
  "t_approvals (update_docs p f t) = t_approvals t"
  "t_users (update_docs p f t) = t_users t"
  "t_meta (update_docs p f t) = t_meta t"
  "t_heartbeats (update_docs p f t) = t_heartbeats t"
  "t_audit (update_docs p f t) = t_audit t"
  "t_today (update_docs p f t) = t_today t"
  "t_now (update_docs p f t) = t_now t"
  "t_day_end (update_docs p f t) = t_day_end t"
  "t_functional (update_docs p f t) = t_functional t"
  by (simp_all add: update_docs_def)

lemma insert_doc_simps [simp]:
  "t_settings (insert_doc d t) = t_settings t"
  "t_periods (insert_doc d t) = t_periods t"
  "t_tasks (insert_doc d t) = t_tasks t"
  "t_close_log (insert_doc d t) = t_close_log t"
  "t_accounts (insert_doc d t) = t_accounts t"
  "t_postings (insert_doc d t) = t_postings t"
  "t_rules (insert_doc d t) = t_rules t"
  "t_approvals (insert_doc d t) = t_approvals t"
  "t_users (insert_doc d t) = t_users t"
  "t_meta (insert_doc d t) = t_meta t"
  "t_heartbeats (insert_doc d t) = t_heartbeats t"
  "t_audit (insert_doc d t) = t_audit t"
  "t_today (insert_doc d t) = t_today t"
  "t_now (insert_doc d t) = t_now t"
  "t_day_end (insert_doc d t) = t_day_end t"
  "t_functional (insert_doc d t) = t_functional t"
  by (simp_all add: insert_doc_def)

lemma doc_keys_update:
  assumes "\<And>d. d_doctype (f d) = d_doctype d" "\<And>d. d_id (f d) = d_id d"
  shows "doc_keys (update_docs p f t) = doc_keys t"
  using assms by (simp add: doc_keys_def update_docs_def)

section \<open>Settings, roles and audit\<close>

definition setting_default :: "string \<Rightarrow> string" where
  "setting_default k = coalesce (map_of
     [(''approvals.self_approval'', ''anyone''),
      (''crm.campaign_second_approver'', ''false''),
      (''inventory.reservation_ttl_seconds'', ''86400''),
      (''pim.max_bulk_edit_documents'', ''100''),
      (''loyalty.liability_accounting'', ''redemption''),
      (''loyalty.pending_points'', ''false''),
      (''loyalty.point_expiry_days'', ''365''),
      (''loyalty.recompute_tier_on_earn'', ''true''),
      (''loyalty.redemption_requires_otp'', ''false''),
      (''loyalty.redemption_value_per_point'', ''1''),
      (''loyalty.restored_points_grace_days'', ''30''),
      (''loyalty.rupees_per_point'', ''100''),
      (''loyalty.tier_window_days'', ''0''),
      (''platform.integration_log_retention_days'', ''90''),
      (''platform.job_runner_retention_days'', ''30''),
      (''procurement.po_gst_mode'', ''Inclusive''),
      (''sales.return_window_days'', ''30''),
      (''security.loyalty_max_redemptions_per_day'', ''5''),
      (''security.loyalty_otp_validity_minutes'', ''5'')] k) []"

definition GetSettingString :: "tenant \<Rightarrow> string \<Rightarrow> string" where
  "GetSettingString t k = coalesce (map_of (t_settings t) k) (setting_default k)"

definition SettingIsOverridden :: "tenant \<Rightarrow> string \<Rightarrow> bool" where
  "SettingIsOverridden t k \<longleftrightarrow> map_of (t_settings t) k \<noteq> None"

definition GetSettingBool :: "tenant \<Rightarrow> string \<Rightarrow> bool" where
  "GetSettingBool t k \<longleftrightarrow> equal_fold (trim (GetSettingString t k)) ''true''"

text \<open>\<open>strconv.Atoi\<close>\<close>

definition atoi :: "string \<Rightarrow> int option" where
  "atoi s = (case s of
     [] \<Rightarrow> None
   | c # cs \<Rightarrow> if c = CHR ''-'' \<and> cs \<noteq> [] \<and> list_all is_digit cs then Some (- int (undec cs))
               else if c = CHR ''+'' \<and> cs \<noteq> [] \<and> list_all is_digit cs then Some (int (undec cs))
               else if list_all is_digit s then Some (int (undec s)) else None)"

definition parseSettingInt :: "string \<Rightarrow> string \<Rightarrow> int" where
  "parseSettingInt raw k = (case atoi (trim raw) of
     Some n \<Rightarrow> n
   | None \<Rightarrow> (case atoi (trim (setting_default k)) of Some n \<Rightarrow> n | None \<Rightarrow> 0))"

definition GetSettingInt :: "tenant \<Rightarrow> string \<Rightarrow> int" where
  "GetSettingInt t k = parseSettingInt (GetSettingString t k) k"

definition normalizeRoleKey :: "string \<Rightarrow> string" where
  "normalizeRoleKey role = to_lower (filter (\<lambda>c. c \<noteq> CHR '' '') (trim role))"

definition HasFullAccess :: "string \<Rightarrow> bool" where
  "HasFullAccess role \<longleftrightarrow>
     normalizeRoleKey role \<in> {''superadmin'', ''hr/admin'', ''hradmin'', ''admin''}"

definition IsSuperAdmin :: "string \<Rightarrow> bool" where
  "IsSuperAdmin role \<longleftrightarrow> normalizeRoleKey role \<in> {''superadmin'', ''hr/admin'', ''hradmin''}"

definition CanonicalRole :: "string \<Rightarrow> string" where
  "CanonicalRole role =
     (if IsSuperAdmin role then ''Super Admin'' else if HasFullAccess role then ''Admin'' else role)"

lemma super_admin_full_access: "IsSuperAdmin role \<Longrightarrow> HasFullAccess role"
  by (auto simp: IsSuperAdmin_def HasFullAccess_def)

definition find_user :: "tenant \<Rightarrow> string \<Rightarrow> user option" where
  "find_user t i = find (\<lambda>u. u_id u = i) (t_users t)"

definition usernameForUserID :: "tenant \<Rightarrow> string \<Rightarrow> string" where
  "usernameForUserID t i = (case find_user t i of
     Some u \<Rightarrow> if u_name u = [] then i else u_name u | None \<Rightarrow> i)"

definition LogAuditEvent :: "string \<Rightarrow> string \<Rightarrow> string \<Rightarrow> tenant \<Rightarrow> tenant" where
  "LogAuditEvent usr action result t =
     t\<lparr>t_audit := t_audit t @ [\<lparr>au_user = usr, au_action = action, au_result = result\<rparr>]\<rparr>"

lemma LogAuditEvent_simps [simp]:
  "t_documents (LogAuditEvent u a r t) = t_documents t"
  "t_settings (LogAuditEvent u a r t) = t_settings t"
  "t_periods (LogAuditEvent u a r t) = t_periods t"
  "t_tasks (LogAuditEvent u a r t) = t_tasks t"
  "t_close_log (LogAuditEvent u a r t) = t_close_log t"
  "t_accounts (LogAuditEvent u a r t) = t_accounts t"
  "t_postings (LogAuditEvent u a r t) = t_postings t"
  "t_rules (LogAuditEvent u a r t) = t_rules t"
  "t_approvals (LogAuditEvent u a r t) = t_approvals t"
  "t_users (LogAuditEvent u a r t) = t_users t"
  "t_meta (LogAuditEvent u a r t) = t_meta t"
  "t_heartbeats (LogAuditEvent u a r t) = t_heartbeats t"
  "t_today (LogAuditEvent u a r t) = t_today t"
  "t_now (LogAuditEvent u a r t) = t_now t"
  "t_day_end (LogAuditEvent u a r t) = t_day_end t"
  "t_functional (LogAuditEvent u a r t) = t_functional t"
  "find_doc (LogAuditEvent u a r t) dt i = find_doc t dt i"
  by (simp_all add: LogAuditEvent_def find_doc_def)

text \<open>A tenant with nothing in it.\<close>

definition empty_tenant :: tenant where
  "empty_tenant = \<lparr>t_documents = [], t_settings = [], t_periods = [], t_tasks = [], t_close_log = [],
     t_accounts = [], t_postings = [], t_rules = [], t_approvals = [], t_users = [], t_meta = [],
     t_heartbeats = [], t_audit = [], t_today = ''2026-10-20'', t_now = 0, t_day_end = (\<lambda>_. 0), t_functional = ''INR''\<rparr>"

end
