(* ===== verification/DocIds.thy ===== *)
theory DocIds
  imports Prelude
begin

text \<open>
  Document identifiers (engines/docid.go): \<open>uniqueNanos\<close> as the atomic steps of any number
  of goroutines over the shared \<open>lastIDNanos\<close> (a Load, the clock read, a CompareAndSwap that
  succeeds or sends the goroutine round again), and the identifiers built from it. The
  random suffix of the process is a parameter. Values stay far below \<open>2^63\<close>, so they are
  unbounded here.
\<close>

text \<open>What one round of the loop offers: the clock when it has moved, else the counter.\<close>

definition next_nanos :: "int \<Rightarrow> int \<Rightarrow> int" where
  "next_nanos clock prev = (if clock \<le> prev then prev + 1 else clock)"

text \<open>One call running alone: the value returned is also the new high-water mark.\<close>

definition uniqueNanos :: "int \<Rightarrow> int \<Rightarrow> int" where
  "uniqueNanos clock prev = next_nanos clock prev"

definition NewDocID :: "string \<Rightarrow> string \<Rightarrow> int \<Rightarrow> string" where
  "NewDocID suffix prefix n = prefix @ ''-'' @ dec_int n @ ''-'' @ suffix"

definition NewDocIDCompact :: "string \<Rightarrow> string \<Rightarrow> int \<Rightarrow> string" where
  "NewDocIDCompact suffix prefix n = prefix @ dec_int n @ suffix"

section \<open>Interleaved calls\<close>

datatype id_pc =
    Start
  | Loaded int
  | Ready int int
  | Returned int

record id_state =
  is_last :: int
  is_pc :: "nat \<Rightarrow> id_pc"
  is_out :: "int list"

inductive id_step :: "id_state \<Rightarrow> id_state \<Rightarrow> bool" where
  load: "is_pc s g = Start \<Longrightarrow>
     id_step s (s\<lparr>is_pc := (is_pc s)(g := Loaded (is_last s))\<rparr>)"
| clock: "is_pc s g = Loaded prev \<Longrightarrow>
     id_step s (s\<lparr>is_pc := (is_pc s)(g := Ready prev (next_nanos now prev))\<rparr>)"
| cas_ok: "is_pc s g = Ready prev n \<Longrightarrow> is_last s = prev \<Longrightarrow>
     id_step s (s\<lparr>is_last := n, is_pc := (is_pc s)(g := Returned n), is_out := is_out s @ [n]\<rparr>)"
| cas_lost: "is_pc s g = Ready prev n \<Longrightarrow> is_last s \<noteq> prev \<Longrightarrow>
     id_step s (s\<lparr>is_pc := (is_pc s)(g := Start)\<rparr>)"
| again: "is_pc s g = Returned n \<Longrightarrow>
     id_step s (s\<lparr>is_pc := (is_pc s)(g := Start)\<rparr>)"

definition id_start :: "int \<Rightarrow> id_state" where
  "id_start l = \<lparr>is_last = l, is_pc = (\<lambda>_. Start), is_out = []\<rparr>"

definition ids_ok :: "int \<Rightarrow> id_state \<Rightarrow> bool" where
  "ids_ok l s \<longleftrightarrow> sorted_wrt (<) (is_out s) \<and> (\<forall>x \<in> set (is_out s). l < x \<and> x \<le> is_last s)
     \<and> l \<le> is_last s \<and> (\<forall>g prev n. is_pc s g = Ready prev n \<longrightarrow> prev < n)"

lemma next_nanos_gt: "prev < next_nanos clock prev"
  by (simp add: next_nanos_def)

lemma id_step_ok: "id_step s s' \<Longrightarrow> ids_ok l s \<Longrightarrow> ids_ok l s'"
proof (induction rule: id_step.induct)
  case (cas_ok s g prev n)
  then have lt: "is_last s < n" by (auto simp: ids_ok_def)
  with cas_ok show ?case by (fastforce simp: ids_ok_def sorted_wrt_append)
qed (auto simp: ids_ok_def next_nanos_gt split: if_splits)

lemma dec_int_inj: "dec_int m = dec_int n \<Longrightarrow> m = n"
proof -
  have nd: "\<not> is_digit CHR ''-''" by (simp add: is_digit_iff)
  have h: "dec k \<noteq> CHR ''-'' # xs" for k xs
  proof
    assume "dec k = CHR ''-'' # xs"
    then have "CHR ''-'' \<in> set (dec k)" by simp
    from dec_digits [OF this] nd show False by blast
  qed
  assume "dec_int m = dec_int n"
  then show "m = n"
    using h h [symmetric] dec_inj [of "nat m" "nat n"] dec_inj [of "nat (- m)" "nat (- n)"]
    by (auto simp: dec_int_def split: if_splits)
qed

lemma NewDocID_inj: "NewDocID sfx p m = NewDocID sfx p n \<Longrightarrow> m = n"
  by (auto simp: NewDocID_def dest: dec_int_inj)

lemma NewDocIDCompact_inj: "NewDocIDCompact sfx p m = NewDocIDCompact sfx p n \<Longrightarrow> m = n"
  by (auto simp: NewDocIDCompact_def dest: dec_int_inj)

text \<open>
  C31: however the goroutines of a process interleave and however coarse or backward its
  clock, the identifiers minted under one prefix are pairwise distinct, and each call
  returns a larger value than every call that finished before it.
\<close>
theorem minted_ids_distinct:
  assumes "id_step\<^sup>*\<^sup>* (id_start l) s"
  shows "sorted_wrt (<) (is_out s) \<and> distinct (map (NewDocID sfx p) (is_out s))
    \<and> distinct (map (NewDocIDCompact sfx p) (is_out s))"
proof -
  have "ids_ok l s"
    using assms
  proof (induction rule: rtranclp_induct)
    case base
    show ?case by (simp add: ids_ok_def id_start_def)
  next
    case (step t u)
    then show ?case by (simp add: id_step_ok)
  qed
  then have sw: "sorted_wrt (<) (is_out s)" by (simp add: ids_ok_def)
  then have "distinct (is_out s)" by (simp add: strict_sorted_iff)
  then show ?thesis
    using sw by (auto simp: distinct_map inj_on_def dest: NewDocID_inj NewDocIDCompact_inj)
qed

text \<open>Two goroutines that read the same high-water mark: the second loses and goes round.\<close>

definition raced :: id_state where
  "raced = (id_start 5)\<lparr>is_last := 7, is_pc := (\<lambda>_. Start)(0 := Returned 6, 1 := Returned 7), is_out := [6, 7]\<rparr>"

lemma raced_reachable: "id_step\<^sup>*\<^sup>* (id_start 5) raced"
proof -
  note step = rtranclp.rtrancl_into_rtrancl
  let ?s = "\<lambda>l f out. \<lparr>is_last = l, is_pc = f, is_out = out\<rparr>"
  let ?S = "\<lambda>_ :: nat. Start"
  have "id_step\<^sup>*\<^sup>* (id_start 5) (?s 5 (?S(0 := Loaded 5)) [])"
    using id_step.load [of "id_start 5" 0] by (auto simp: id_start_def)
  from step [OF this id_step.load [of _ 1]]
  have "id_step\<^sup>*\<^sup>* (id_start 5) (?s 5 (?S(0 := Loaded 5, 1 := Loaded 5)) [])" by simp
  from step [OF this id_step.clock [of _ 0 5 3]]
  have "id_step\<^sup>*\<^sup>* (id_start 5) (?s 5 (?S(0 := Ready 5 6, 1 := Loaded 5)) [])"
    by (simp add: next_nanos_def fun_upd_twist)
  from step [OF this id_step.clock [of _ 1 5 3]]
  have "id_step\<^sup>*\<^sup>* (id_start 5) (?s 5 (?S(0 := Ready 5 6, 1 := Ready 5 6)) [])"
    by (simp add: next_nanos_def)
  from step [OF this id_step.cas_ok [of _ 0 5 6]]
  have "id_step\<^sup>*\<^sup>* (id_start 5) (?s 6 (?S(0 := Returned 6, 1 := Ready 5 6)) [6])"
    by (simp add: fun_upd_twist)
  from step [OF this id_step.cas_lost [of _ 1 5 6]]
  have "id_step\<^sup>*\<^sup>* (id_start 5) (?s 6 (?S(0 := Returned 6, 1 := Start)) [6])" by simp
  from step [OF this id_step.load [of _ 1]]
  have "id_step\<^sup>*\<^sup>* (id_start 5) (?s 6 (?S(0 := Returned 6, 1 := Loaded 6)) [6])" by simp
  from step [OF this id_step.clock [of _ 1 6 4]]
  have "id_step\<^sup>*\<^sup>* (id_start 5) (?s 6 (?S(0 := Returned 6, 1 := Ready 6 7)) [6])"
    by (simp add: next_nanos_def)
  from step [OF this id_step.cas_ok [of _ 1 6 7]]
  show ?thesis by (simp add: raced_def id_start_def)
qed

theorem minted_ids_distinct_witness:
  "sorted_wrt (<) (is_out raced) \<and> distinct (map (NewDocID ''k3mq7t2p'' ''TSK'') (is_out raced))
    \<and> distinct (map (NewDocIDCompact ''k3mq7t2p'' ''TSK'') (is_out raced))"
  using minted_ids_distinct [OF raced_reachable, of "''k3mq7t2p''" "''TSK''"] .

end
