(* ===== verification/StockLocations.thy ===== *)
theory StockLocations
  imports Schema DocIds
begin

text \<open>
  The store's stock by location (engines/stock_locations.go, engines/stock_location_txn_defaults.go):
  the state of the stock engine, the buckets of an availability row, the locations a store
  uses, moving stock between two locations, the default location of a receipt, and drawing a
  shortfall from the pools marked sellable.

  \<open>stock\<close> holds the tenant (its documents carry the stock ledger), the rows of
  inventory_availability, the reservations, the location master with the stores' own lists
  and the transactions' default targets, and the balances of the client's own locations.
  Quantities are INT columns: a value outside 32 bits is refused by the database. The
  sellable policy is read from the master; its 30-second cache is not modelled. The number of
  a move (engines/numbering.go) is an argument.
\<close>

section \<open>State\<close>

record availability =
  av_sku :: string
  av_loc :: string
  av_on_hand :: int
  av_available :: int
  av_committed :: int
  av_reserved :: int
  av_safety_stock :: int
  av_blocked :: int
  av_qc_hold :: int
  av_damaged :: int
  av_channel_buffer :: int
  av_hold_qty :: int
  av_inward :: int
  av_in_transit :: int
  av_rtv :: int

record reservation =
  rs_id :: nat
  rs_sku :: string
  rs_loc :: string
  rs_qty :: int
  rs_type :: string
  rs_expires :: int
  rs_created :: int
  rs_order :: "string option"
  rs_line :: "string option"

record stock_location =
  sl_code :: string
  sl_name :: string
  sl_bucket :: string
  sl_sellable :: bool
  sl_applies_to :: string
  sl_default_for_new :: bool
  sl_active :: bool
  sl_display_order :: int
  sl_not_physical :: bool

record balance =
  bl_sku :: string
  bl_loc :: string
  bl_code :: string
  bl_qty :: int

record stock =
  st_t :: tenant
  st_avail :: "availability list"
  st_reservations :: "reservation list"
  st_locations :: "stock_location list"
  st_store_locations :: "(string \<times> string) list"
  st_default_to :: "(string \<times> string) list"
  st_balances :: "balance list"
  st_next_uuid :: nat
  st_last_nanos :: int
  st_suffix :: string

definition at_row :: "string \<Rightarrow> string \<Rightarrow> availability \<Rightarrow> bool" where
  "at_row sku loc r \<longleftrightarrow> av_sku r = sku \<and> av_loc r = loc"

definition find_row :: "stock \<Rightarrow> string \<Rightarrow> string \<Rightarrow> availability option" where
  "find_row s sku loc = find (at_row sku loc) (st_avail s)"

text \<open>A new row: the columns the INSERT does not name take their default 0.\<close>

definition new_row :: "string \<Rightarrow> string \<Rightarrow> int \<Rightarrow> availability" where
  "new_row sku loc q = \<lparr>av_sku = sku, av_loc = loc, av_on_hand = q, av_available = q,
     av_committed = 0, av_reserved = 0, av_safety_stock = 0, av_blocked = 0, av_qc_hold = 0,
     av_damaged = 0, av_channel_buffer = 0, av_hold_qty = 0, av_inward = 0, av_in_transit = 0, av_rtv = 0\<rparr>"

definition int4 :: "int \<Rightarrow> bool" where
  "int4 n \<longleftrightarrow> - (2 ^ 31) \<le> n \<and> n < 2 ^ 31"

definition row_int4 :: "availability \<Rightarrow> bool" where
  "row_int4 r \<longleftrightarrow> list_all int4 [av_on_hand r, av_available r, av_committed r, av_reserved r,
     av_safety_stock r, av_blocked r, av_qc_hold r, av_damaged r, av_channel_buffer r,
     av_hold_qty r, av_inward r, av_in_transit r, av_rtv r]"

definition out_of_range :: err where
  "out_of_range = Plain ''integer out of range''"

text \<open>\<open>UPDATE inventory_availability SET ... WHERE sku = $1 AND location_code = $2\<close>\<close>

definition update_row :: "string \<Rightarrow> string \<Rightarrow> (availability \<Rightarrow> availability) \<Rightarrow> stock \<Rightarrow> stock res" where
  "update_row sku loc f s =
     (if list_ex (\<lambda>r. at_row sku loc r \<and> \<not> row_int4 (f r)) (st_avail s) then Inl out_of_range
      else Inr (s\<lparr>st_avail := map (\<lambda>r. if at_row sku loc r then f r else r) (st_avail s)\<rparr>))"

section \<open>Buckets and locations\<close>

record bucket_rule =
  bu_pool :: bool
  bu_sellable_editable :: bool
  bu_movable :: bool
  bu_wms_condition :: string
  bu_not_physical :: bool
  bu_physical_editable :: bool

definition stockBuckets :: "string \<Rightarrow> bucket_rule" where
  "stockBuckets b = coalesce (map_of
     [(''available'', \<lparr>bu_pool = False, bu_sellable_editable = False, bu_movable = True, bu_wms_condition = ''Good'', bu_not_physical = False, bu_physical_editable = False\<rparr>),
      (''inward'', \<lparr>bu_pool = True, bu_sellable_editable = False, bu_movable = True, bu_wms_condition = [], bu_not_physical = False, bu_physical_editable = False\<rparr>),
      (''in_transit'', \<lparr>bu_pool = True, bu_sellable_editable = False, bu_movable = False, bu_wms_condition = [], bu_not_physical = True, bu_physical_editable = False\<rparr>),
      (''qc_hold'', \<lparr>bu_pool = True, bu_sellable_editable = True, bu_movable = True, bu_wms_condition = ''QC-Hold'', bu_not_physical = False, bu_physical_editable = False\<rparr>),
      (''damaged'', \<lparr>bu_pool = True, bu_sellable_editable = True, bu_movable = True, bu_wms_condition = ''Damaged'', bu_not_physical = False, bu_physical_editable = False\<rparr>),
      (''hold_qty'', \<lparr>bu_pool = False, bu_sellable_editable = False, bu_movable = False, bu_wms_condition = [], bu_not_physical = False, bu_physical_editable = False\<rparr>),
      (''rtv'', \<lparr>bu_pool = True, bu_sellable_editable = False, bu_movable = True, bu_wms_condition = ''RTV'', bu_not_physical = False, bu_physical_editable = False\<rparr>),
      (''custom'', \<lparr>bu_pool = False, bu_sellable_editable = False, bu_movable = True, bu_wms_condition = [], bu_not_physical = False, bu_physical_editable = True\<rparr>)] b)
     \<lparr>bu_pool = False, bu_sellable_editable = False, bu_movable = False, bu_wms_condition = [], bu_not_physical = False, bu_physical_editable = False\<rparr>"

text \<open>\<open>fill\<close>: the part that changes a stored field, and the derived field \<open>Movable\<close>.\<close>

definition fill :: "stock_location \<Rightarrow> stock_location" where
  "fill l = (let b = stockBuckets (sl_bucket l) in
     if bu_physical_editable b then l else l\<lparr>sl_not_physical := bu_not_physical b\<rparr>)"

definition Movable :: "stock_location \<Rightarrow> bool" where
  "Movable l = bu_movable (stockBuckets (sl_bucket l))"

definition listStockLocations :: "stock \<Rightarrow> stock_location list" where
  "listStockLocations s = map fill (sort_key sl_display_order (sort_key sl_name (st_locations s)))"

record ats_policy =
  QCHoldSellable :: bool
  DamagedSellable :: bool

definition atsPolicyFor :: "stock \<Rightarrow> ats_policy" where
  "atsPolicyFor s = foldl (\<lambda>p l.
       if sl_bucket l = ''qc_hold'' then p\<lparr>QCHoldSellable := sl_sellable l\<rparr>
       else if sl_bucket l = ''damaged'' then p\<lparr>DamagedSellable := sl_sellable l\<rparr> else p)
     \<lparr>QCHoldSellable = False, DamagedSellable = False\<rparr>
     (filter (\<lambda>l. sl_active l \<and> sl_bucket l \<in> {''qc_hold'', ''damaged''}) (st_locations s))"

definition storeKind :: "stock \<Rightarrow> string \<Rightarrow> string" where
  "storeKind s store = (case find_doc (st_t s) ''Location'' store of
     Some d \<Rightarrow> if coalesce (jtext (d_data d) ''type'') [] = ''Store'' then ''Store'' else ''Warehouse''
   | None \<Rightarrow> ''Warehouse'')"

definition storeStockLocations :: "stock \<Rightarrow> string \<Rightarrow> stock_location list" where
  "storeStockLocations s store =
     (let chosen = map snd (filter (\<lambda>(st, _). st = store) (st_store_locations s));
          kind = storeKind s store
      in filter (\<lambda>l.
           (sl_active l \<and> (sl_applies_to l = ''Both'' \<or> sl_applies_to l = kind \<or> sl_bucket l = ''available''))
           \<and> (sl_bucket l = ''available'' \<or> (chosen = [] \<and> sl_default_for_new l) \<or> sl_code l \<in> set chosen))
         (listStockLocations s))"

text \<open>\<open>bucketRow.of\<close>\<close>

definition bucket_of :: "availability \<Rightarrow> string \<Rightarrow> int" where
  "bucket_of r b =
     (if b = ''available'' then av_available r - av_blocked r - av_hold_qty r
      else if b = ''inward'' then av_inward r
      else if b = ''in_transit'' then av_in_transit r
      else if b = ''qc_hold'' then av_qc_hold r
      else if b = ''damaged'' then av_damaged r
      else if b = ''hold_qty'' then av_hold_qty r
      else if b = ''rtv'' then av_rtv r else 0)"

text \<open>The column a pool's name is; the other columns are never updated by name.\<close>

definition add_pool :: "string \<Rightarrow> int \<Rightarrow> availability \<Rightarrow> availability" where
  "add_pool b n r =
     (if b = ''inward'' then r\<lparr>av_inward := av_inward r + n\<rparr>
      else if b = ''in_transit'' then r\<lparr>av_in_transit := av_in_transit r + n\<rparr>
      else if b = ''qc_hold'' then r\<lparr>av_qc_hold := av_qc_hold r + n\<rparr>
      else if b = ''damaged'' then r\<lparr>av_damaged := av_damaged r + n\<rparr>
      else if b = ''rtv'' then r\<lparr>av_rtv := av_rtv r + n\<rparr> else r)"

definition custom_qty :: "stock \<Rightarrow> string \<Rightarrow> string \<Rightarrow> string \<Rightarrow> int" where
  "custom_qty s sku loc code =
     (case find (\<lambda>b. bl_sku b = sku \<and> bl_loc b = loc \<and> bl_code b = code) (st_balances s) of
        Some b \<Rightarrow> bl_qty b | None \<Rightarrow> 0)"

record location_qty =
  lq_code :: string
  lq_name :: string
  lq_qty :: int
  lq_sellable :: bool
  lq_enabled :: bool

definition StockLocationBalances :: "stock \<Rightarrow> string \<Rightarrow> string \<Rightarrow> location_qty list" where
  "StockLocationBalances s sku store =
     (let on = map sl_code (storeStockLocations s store);
          b = (case find_row s sku store of Some r \<Rightarrow> r | None \<Rightarrow> new_row sku store 0)
      in List.map_filter (\<lambda>l.
           let qty = (if sl_bucket l = ''custom'' then custom_qty s sku store (sl_code l) else bucket_of b (sl_bucket l))
           in if sl_code l \<notin> set on \<and> qty = 0 then None
              else Some \<lparr>lq_code = sl_code l, lq_name = sl_name l, lq_qty = qty,
                lq_sellable = (sl_sellable l \<and> sl_active l), lq_enabled = (sl_code l \<in> set on)\<rparr>)
         (listStockLocations s))"

section \<open>Moving stock\<close>

definition is_balance :: "string \<Rightarrow> string \<Rightarrow> string \<Rightarrow> balance \<Rightarrow> bool" where
  "is_balance sku loc code b \<longleftrightarrow> bl_sku b = sku \<and> bl_loc b = loc \<and> bl_code b = code"

text \<open>The UPDATE of stock_location_balance: no row, or one the CHECK constraint refuses.\<close>

definition take_balance :: "string \<Rightarrow> string \<Rightarrow> string \<Rightarrow> int \<Rightarrow> stock \<Rightarrow> stock res" where
  "take_balance sku loc code qty s =
     (case find (is_balance sku loc code) (st_balances s) of
        None \<Rightarrow> Inl (Plain ''location holds none'')
      | Some b \<Rightarrow> if bl_qty b + qty < 0 then Inl (Plain ''stock_location_balance_qty_check'')
          else Inr (s\<lparr>st_balances := map (\<lambda>b. if is_balance sku loc code b then b\<lparr>bl_qty := bl_qty b + qty\<rparr> else b) (st_balances s)\<rparr>))"

definition put_balance :: "string \<Rightarrow> string \<Rightarrow> string \<Rightarrow> int \<Rightarrow> stock \<Rightarrow> stock res" where
  "put_balance sku loc code qty s =
     (case find (is_balance sku loc code) (st_balances s) of
        None \<Rightarrow> if int4 qty then Inr (s\<lparr>st_balances := st_balances s @ [\<lparr>bl_sku = sku, bl_loc = loc, bl_code = code, bl_qty = qty\<rparr>]\<rparr>)
                else Inl out_of_range
      | Some b \<Rightarrow> if int4 (bl_qty b + qty) then Inr (s\<lparr>st_balances := map (\<lambda>b. if is_balance sku loc code b then b\<lparr>bl_qty := bl_qty b + qty\<rparr> else b) (st_balances s)\<rparr>)
                  else Inl out_of_range)"

definition applyBucketDeltaTx :: "string \<Rightarrow> string \<Rightarrow> stock_location \<Rightarrow> int \<Rightarrow> stock \<Rightarrow> stock res" where
  "applyBucketDeltaTx sku store l qty s =
     (let carve = update_row sku store (\<lambda>r. r\<lparr>av_available := av_available r + qty, av_blocked := av_blocked r + qty\<rparr>) in
      if sl_bucket l = ''available'' then
        update_row sku store (\<lambda>r. r\<lparr>av_available := av_available r + qty\<rparr>) s
      else if sl_bucket l = ''custom'' \<and> qty < 0 then
        rbind (take_balance sku store (sl_code l) qty s) carve
      else if sl_bucket l = ''custom'' then
        rbind (put_balance sku store (sl_code l) qty s) carve
      else if bu_pool (stockBuckets (sl_bucket l)) then
        update_row sku store (add_pool (sl_bucket l) qty) s
      else Inl (Plain ''stock cannot be moved through this location''))"

record move_request =
  mr_store :: string
  mr_sku :: string
  mr_qty :: int
  mr_from :: string
  mr_to :: string
  mr_reason :: string

definition location_named :: "stock_location list \<Rightarrow> string \<Rightarrow> stock_location option" where
  "location_named ls code = find (\<lambda>l. sl_code l = code) (rev ls)"

definition movable_stock :: "stock \<Rightarrow> string \<Rightarrow> string \<Rightarrow> stock_location \<Rightarrow> int" where
  "movable_stock s sku store l =
     (case find_row s sku store of
        None \<Rightarrow> 0
      | Some b \<Rightarrow>
          if sl_bucket l = ''available'' then bucket_of b ''available'' - av_reserved b
          else if sl_bucket l = ''custom'' then custom_qty s sku store (sl_code l)
          else bucket_of b (sl_bucket l))"

definition item_name :: "stock \<Rightarrow> string \<Rightarrow> string" where
  "item_name s sku = (case find (\<lambda>d. d_doctype d = ''Item'' \<and> (d_id d = sku \<or> jtext (d_data d) ''code'' = Some sku)
       \<and> \<not> d_deleted d) (t_documents (st_t s)) of
     Some d \<Rightarrow> coalesce (jtext (d_data d) ''name'') [] | None \<Rightarrow> [])"

definition with_tenant :: "(tenant \<Rightarrow> tenant) \<Rightarrow> stock \<Rightarrow> stock" where
  "with_tenant f s = s\<lparr>st_t := f (st_t s)\<rparr>"

definition MoveStock :: "string res \<Rightarrow> move_request \<Rightarrow> string \<Rightarrow> string \<Rightarrow> stock \<Rightarrow> (string \<times> stock) res" where
  "MoveStock numbering req userID username s =
     (let store = trim (mr_store req); sku = trim (mr_sku req);
          fc = to_upper (trim (mr_from req)); tc = to_upper (trim (mr_to req));
          all = listStockLocations s
      in
      if store = [] \<or> sku = [] then Inl (Coded ''STKLOC-0863'')
      else if mr_qty req \<le> 0 then Inl (Coded ''STKLOC-0863'')
      else if fc = [] \<or> tc = [] \<or> fc = tc then Inl (Coded ''STKLOC-0863'')
      else case (location_named all fc, location_named all tc) of
        (Some lf, Some lt) \<Rightarrow>
          if \<not> Movable lf \<or> \<not> Movable lt then Inl (Coded ''STKLOC-0863'')
          else if sl_code lt \<notin> sl_code ` set (storeStockLocations s store) then Inl (Coded ''STKLOC-0863'')
          else rbind numbering (\<lambda>number.
            if movable_stock s sku store lf < mr_qty req then Inl (Coded ''STKLOC-0864'')
            else rbind (applyBucketDeltaTx sku store lf (- mr_qty req) s) (\<lambda>s1.
              rbind (applyBucketDeltaTx sku store lt (mr_qty req) s1) (\<lambda>s2.
                if find_doc (st_t s2) ''StockMove'' number \<noteq> None then Inl (Plain ''duplicate key'')
                else Inr (number, with_tenant (\<lambda>t.
                  LogAuditEvent username ''STOCK_MOVED'' number (insert_doc (new_doc t ''StockMove'' number
                    [(''id'', JStr number), (''location'', JStr store), (''sku'', JStr sku),
                     (''item_name'', JStr (item_name s2 sku)), (''qty'', JNum (of_int (mr_qty req))),
                     (''from_location'', JStr (sl_code lf)), (''to_location'', JStr (sl_code lt)),
                     (''reason'', JStr (trim (mr_reason req))), (''moved_by'', JStr username)]
                    ''Posted'' userID) t)) s2))))
      | _ \<Rightarrow> Inl (Coded ''STKLOC-0863''))"

section \<open>Default locations of a receipt\<close>

definition stockDefaultTo :: "stock \<Rightarrow> string \<Rightarrow> string" where
  "stockDefaultTo s txn = coalesce (map_of (st_default_to s) txn) []"

text \<open>\<open>stockDefaultRules\<close>: which transactions let the client choose From and To.\<close>

definition stockDefaultRules :: "string \<Rightarrow> bool \<times> bool" where
  "stockDefaultRules txn = coalesce (map_of
     [(''POS Sale'', True, False), (''Goods Receipt'', False, True), (''Transfer Out'', True, False),
      (''Transfer In'', False, True), (''Sales Return'', False, True), (''Purchase Return'', True, False),
      (''Damage'', True, True), (''Stock Move'', True, True)] txn) (False, False)"

definition stockOverride :: "string \<Rightarrow> bool \<Rightarrow> string option \<Rightarrow> string" where
  "stockOverride txn is_from override = (case override of
     None \<Rightarrow> []
   | Some ov \<Rightarrow> if (is_from \<and> \<not> fst (stockDefaultRules txn)) \<or> (\<not> is_from \<and> \<not> snd (stockDefaultRules txn)) then []
               else to_upper (trim ov))"

definition docStockField :: "stock \<Rightarrow> string \<Rightarrow> string \<Rightarrow> string" where
  "docStockField s i field = (if i = [] then []
     else case find (\<lambda>d. d_id d = i) (t_documents (st_t s)) of
       Some d \<Rightarrow> coalesce (jtext (d_data d) field) [] | None \<Rightarrow> [])"

record posted_line =
  pl_sku :: string
  pl_qty :: int
  pl_batch :: string

definition main_location :: stock_location where
  "main_location = \<lparr>sl_code = ''MAIN'', sl_name = [], sl_bucket = ''available'', sl_sellable = False,
     sl_applies_to = [], sl_default_for_new = False, sl_active = False, sl_display_order = 0, sl_not_physical = False\<rparr>"

definition applyReceiptDefaultTx :: "string \<Rightarrow> string \<Rightarrow> posted_line list \<Rightarrow> string option \<Rightarrow> stock \<Rightarrow> stock res" where
  "applyReceiptDefaultTx txn store lines override s =
     (let ov = stockOverride txn False override;
          to = (if ov \<noteq> [] then ov else stockDefaultTo s txn)
      in if to = [] \<or> to = ''MAIN'' then Inr s
         else case location_named (filter Movable (storeStockLocations s store)) to of
           None \<Rightarrow> Inr s
         | Some target \<Rightarrow>
             if sl_bucket target = ''available'' then Inr s
             else efold (\<lambda>s l. if pl_qty l \<le> 0 then Inr s
                    else rbind (applyBucketDeltaTx (pl_sku l) store main_location (- pl_qty l) s)
                           (applyBucketDeltaTx (pl_sku l) store target (pl_qty l))) s lines)"

section \<open>Drawing a shortfall from the sellable pools\<close>

definition draw_pool :: "string \<Rightarrow> string \<Rightarrow> int \<Rightarrow> stock \<times> int \<Rightarrow> string \<times> bool \<times> int \<Rightarrow> (stock \<times> int) res" where
  "draw_pool sku store shortfall = (\<lambda>(s, covered) (col, on, have).
     if \<not> on \<or> covered \<ge> shortfall \<or> have \<le> 0 then Inr (s, covered)
     else
       let take = (if shortfall - covered > have then have else shortfall - covered) in
       rbind (update_row sku store (\<lambda>r. (add_pool col (- take) r)\<lparr>av_available := av_available r + take\<rparr>) s)
         (\<lambda>s'. Inr (s', covered + take)))"

definition drawFromSellablePoolsTx :: "string \<Rightarrow> string \<Rightarrow> int \<Rightarrow> stock \<Rightarrow> (stock \<times> int) res" where
  "drawFromSellablePoolsTx sku store shortfall s =
     (let p = atsPolicyFor s in
      if shortfall \<le> 0 \<or> (\<not> QCHoldSellable p \<and> \<not> DamagedSellable p) then Inr (s, 0)
      else case find_row s sku store of
        None \<Rightarrow> Inr (s, 0)
      | Some b \<Rightarrow> efold (draw_pool sku store shortfall) (s, 0)
          [(''qc_hold'', QCHoldSellable p, av_qc_hold b), (''damaged'', DamagedSellable p, av_damaged b)])"

section \<open>What a movement between locations keeps\<close>

text \<open>The row of a SKU at a store, all zeros where there is none.\<close>

definition row :: "stock \<Rightarrow> string \<Rightarrow> string \<Rightarrow> availability" where
  "row s sku loc = (case find_row s sku loc of Some r \<Rightarrow> r | None \<Rightarrow> new_row sku loc 0)"

definition has_row :: "stock \<Rightarrow> string \<Rightarrow> string \<Rightarrow> bool" where
  "has_row s sku loc \<longleftrightarrow> find_row s sku loc \<noteq> None"

text \<open>The stock in the locations that are on hand at the store.\<close>

definition held :: "availability \<Rightarrow> int" where
  "held r = av_available r + av_inward r + av_qc_hold r + av_damaged r + av_rtv r"

definition bal_sum :: "balance list \<Rightarrow> string \<Rightarrow> string \<Rightarrow> int" where
  "bal_sum bs sku loc = sum_list (map bl_qty (filter (\<lambda>b. bl_sku b = sku \<and> bl_loc b = loc) bs))"

definition bal_key :: "balance \<Rightarrow> string \<times> string \<times> string" where
  "bal_key b = (bl_sku b, bl_loc b, bl_code b)"

definition balances_ok :: "stock \<Rightarrow> bool" where
  "balances_ok s \<longleftrightarrow> distinct (map bal_key (st_balances s))"

lemma find_row_update:
  assumes "update_row sku loc f s = Inr s'" and "\<And>r a b. at_row a b (f r) = at_row a b r"
  shows "find_row s' a b = map_option (\<lambda>r. if at_row sku loc r then f r else r) (find_row s a b)"
  using assms by (auto simp: update_row_def find_row_def find_map_update split: if_splits)

lemma find_row_at: "find_row s a b = Some r \<Longrightarrow> at_row c d r \<longleftrightarrow> c = a \<and> d = b"
  by (auto simp: find_row_def find_Some_iff at_row_def)

lemma update_row_row:
  assumes "update_row sku loc f s = Inr s'" and "\<And>r a b. at_row a b (f r) = at_row a b r"
  shows "row s' a b = (if a = sku \<and> b = loc \<and> has_row s a b then f (row s a b) else row s a b)
    \<and> has_row s' a b = has_row s a b"
  using find_row_update [OF assms, of a b] find_row_at [of s a b _ sku loc]
  by (auto simp: row_def has_row_def split: option.splits)

definition rows_int4 :: "stock \<Rightarrow> bool" where
  "rows_int4 s \<longleftrightarrow> list_all row_int4 (st_avail s)"

lemma update_row_int4: "update_row sku loc f s = Inr s' \<Longrightarrow> rows_int4 s \<Longrightarrow> rows_int4 s'"
  by (auto simp: update_row_def rows_int4_def list_all_iff list_ex_iff split: if_splits)

text \<open>Everything but the rows and the balances.\<close>

definition others :: "stock \<Rightarrow> stock" where
  "others s = s\<lparr>st_avail := [], st_balances := []\<rparr>"

lemma others_eqD:
  assumes "others s' = others s"
  shows "st_t s' = st_t s \<and> st_reservations s' = st_reservations s \<and> st_locations s' = st_locations s
    \<and> st_store_locations s' = st_store_locations s \<and> st_default_to s' = st_default_to s
    \<and> st_next_uuid s' = st_next_uuid s \<and> st_last_nanos s' = st_last_nanos s \<and> st_suffix s' = st_suffix s"
  using assms unfolding others_def by (cases s; cases s') simp

lemma update_row_frame:
  "update_row sku loc f s = Inr s' \<Longrightarrow> others s' = others s \<and> st_balances s' = st_balances s"
  by (auto simp: update_row_def others_def split: if_splits)

lemma add_pool_keeps [simp]:
  "av_sku (add_pool b n r) = av_sku r" "av_loc (add_pool b n r) = av_loc r"
  "av_on_hand (add_pool b n r) = av_on_hand r" "av_available (add_pool b n r) = av_available r"
  "av_reserved (add_pool b n r) = av_reserved r" "av_blocked (add_pool b n r) = av_blocked r"
  "av_hold_qty (add_pool b n r) = av_hold_qty r" "av_safety_stock (add_pool b n r) = av_safety_stock r"
  "av_channel_buffer (add_pool b n r) = av_channel_buffer r"
  by (simp_all add: add_pool_def)

lemma held_add_pool:
  "b \<in> {''inward'', ''qc_hold'', ''damaged'', ''rtv''} \<Longrightarrow> held (add_pool b n r) = held r + n"
  by (auto simp: held_def add_pool_def)

lemma movable_pool:
  "bu_pool (stockBuckets b) \<Longrightarrow> bu_movable (stockBuckets b) \<Longrightarrow> b \<in> {''inward'', ''qc_hold'', ''damaged'', ''rtv''}"
  by (auto simp: stockBuckets_def coalesce_def split: if_splits)

lemma find_balance_none:
  "find (is_balance sku loc code) bs = None \<longleftrightarrow> (sku, loc, code) \<notin> bal_key ` set bs"
  by (force simp: find_None_iff is_balance_def bal_key_def)

lemma bal_keys_update:
  "bal_key \<circ> (\<lambda>b. if is_balance sku loc code b then b\<lparr>bl_qty := bl_qty b + q\<rparr> else b) = bal_key"
  by (auto simp: bal_key_def)

lemma bal_sum_absent:
  "(sku, loc, code) \<notin> bal_key ` set bs \<Longrightarrow>
     map (\<lambda>b. if is_balance sku loc code b then b\<lparr>bl_qty := bl_qty b + q\<rparr> else b) bs = bs"
  by (rule map_idI) (auto simp: is_balance_def bal_key_def image_iff)

lemma bal_sum_update:
  assumes "distinct (map bal_key bs)" and "(sku, loc, code) \<in> bal_key ` set bs"
  shows "bal_sum (map (\<lambda>b. if is_balance sku loc code b then b\<lparr>bl_qty := bl_qty b + q\<rparr> else b) bs) a c
    = bal_sum bs a c + (if a = sku \<and> c = loc then q else 0)"
  using assms
proof (induction bs)
  case Nil
  then show ?case by simp
next
  case (Cons b bs)
  show ?case
  proof (cases "is_balance sku loc code b")
    case True
    then have k: "bal_key b = (sku, loc, code)" by (simp add: is_balance_def bal_key_def)
    with Cons.prems have n: "(sku, loc, code) \<notin> bal_key ` set bs" by auto
    from True bal_sum_absent [OF n] show ?thesis by (auto simp: bal_sum_def is_balance_def)
  next
    case False
    then have "bal_key b \<noteq> (sku, loc, code)" by (auto simp: is_balance_def bal_key_def)
    with Cons.prems have "(sku, loc, code) \<in> bal_key ` set bs" "distinct (map bal_key bs)" by auto
    from Cons.IH [OF this(2,1)] False show ?thesis by (auto simp: bal_sum_def)
  qed
qed

text \<open>A change of the balances alone: the rows stay, one store's sum moves by \<open>q\<close>.\<close>

definition moves_balance :: "string \<Rightarrow> string \<Rightarrow> int \<Rightarrow> stock \<Rightarrow> stock \<Rightarrow> bool" where
  "moves_balance sku loc q s s' \<longleftrightarrow> others s' = others s \<and> st_avail s' = st_avail s \<and> balances_ok s'
     \<and> (\<forall>a b. bal_sum (st_balances s') a b = bal_sum (st_balances s) a b + (if a = sku \<and> b = loc then q else 0))"

lemma take_balance_moves:
  assumes "take_balance sku loc code q s = Inr s'" "balances_ok s"
  shows "moves_balance sku loc q s s'"
proof -
  from assms(1) have "find (is_balance sku loc code) (st_balances s) \<noteq> None"
    by (auto simp: take_balance_def split: option.splits)
  then have k: "(sku, loc, code) \<in> bal_key ` set (st_balances s)" by (simp add: find_balance_none)
  from assms(1) have "s' = s\<lparr>st_balances := map (\<lambda>b. if is_balance sku loc code b then b\<lparr>bl_qty := bl_qty b + q\<rparr> else b) (st_balances s)\<rparr>"
    by (auto simp: take_balance_def split: option.splits if_splits)
  with assms(2) bal_sum_update [OF _ k] show ?thesis
    by (simp add: moves_balance_def balances_ok_def bal_keys_update others_def)
qed

lemma put_balance_moves:
  assumes "put_balance sku loc code q s = Inr s'" "balances_ok s"
  shows "moves_balance sku loc q s s'"
proof (cases "find (is_balance sku loc code) (st_balances s) = None")
  case True
  with assms(1) have e: "s' = s\<lparr>st_balances := st_balances s @ [\<lparr>bl_sku = sku, bl_loc = loc, bl_code = code, bl_qty = q\<rparr>]\<rparr>"
    by (auto simp: put_balance_def split: if_splits)
  from True have "(sku, loc, code) \<notin> bal_key ` set (st_balances s)" by (simp add: find_balance_none)
  with e assms(2) show ?thesis
    by (auto simp: moves_balance_def balances_ok_def bal_sum_def bal_key_def others_def)
next
  case False
  then have k: "(sku, loc, code) \<in> bal_key ` set (st_balances s)" by (simp add: find_balance_none)
  from False assms(1) have "s' = s\<lparr>st_balances := map (\<lambda>b. if is_balance sku loc code b then b\<lparr>bl_qty := bl_qty b + q\<rparr> else b) (st_balances s)\<rparr>"
    by (auto simp: put_balance_def split: option.splits if_splits)
  with assms(2) bal_sum_update [OF _ k] show ?thesis
    by (simp add: moves_balance_def balances_ok_def bal_keys_update others_def)
qed

text \<open>
  \<open>shifts sku loc q\<close>: what moving \<open>q\<close> units in or out of one location does. The stock held at
  the store changes by \<open>q\<close> and on hand does not; what is blocked beyond the balances of the
  client's own locations stays; reserved stock and all other rows and tables stay.
\<close>

definition shifts :: "string \<Rightarrow> string \<Rightarrow> int \<Rightarrow> stock \<Rightarrow> stock \<Rightarrow> bool" where
  "shifts sku loc q s s' \<longleftrightarrow> others s' = others s \<and> balances_ok s' \<and> (rows_int4 s \<longrightarrow> rows_int4 s')
     \<and> (\<forall>a b. has_row s' a b = has_row s a b
         \<and> held (row s' a b) = held (row s a b) + (if a = sku \<and> b = loc then q else 0)
         \<and> av_on_hand (row s' a b) = av_on_hand (row s a b)
         \<and> av_reserved (row s' a b) = av_reserved (row s a b)
         \<and> av_blocked (row s' a b) - bal_sum (st_balances s') a b = av_blocked (row s a b) - bal_sum (st_balances s) a b)"

lemma shifts_trans: "shifts sku loc p s t \<Longrightarrow> shifts sku loc q t u \<Longrightarrow> shifts sku loc (p + q) s u"
  by (simp add: shifts_def)

lemma shifts_update:
  assumes "update_row sku loc f s = Inr s'" "\<And>r a b. at_row a b (f r) = at_row a b r" "has_row s sku loc" "balances_ok s"
    and "\<And>r. held (f r) = held r + q \<and> av_on_hand (f r) = av_on_hand r \<and> av_reserved (f r) = av_reserved r
      \<and> av_blocked (f r) = av_blocked r"
  shows "shifts sku loc q s s'"
  using update_row_row [OF assms(1,2)] update_row_frame [OF assms(1)] update_row_int4 [OF assms(1)] assms(3-5)
  by (auto simp: shifts_def balances_ok_def)

lemma shifts_carve:
  assumes b: "moves_balance sku loc q s s1" and r: "has_row s sku loc"
    and u: "update_row sku loc (\<lambda>r. r\<lparr>av_available := av_available r + q, av_blocked := av_blocked r + q\<rparr>) s1 = Inr s'"
  shows "shifts sku loc q s s'"
proof -
  from b have rs: "row s1 a c = row s a c" "has_row s1 a c = has_row s a c" for a c
    by (simp_all add: moves_balance_def row_def has_row_def find_row_def)
  have at: "at_row a c (r\<lparr>av_available := x, av_blocked := y\<rparr>) = at_row a c r" for a c r x y
    by (simp add: at_row_def)
  note row = update_row_row [OF u at, unfolded rs]
  have "rows_int4 s \<Longrightarrow> rows_int4 s'"
    using update_row_int4 [OF u] b by (simp add: moves_balance_def rows_int4_def)
  with update_row_frame [OF u] b row r show ?thesis
    by (auto simp: shifts_def moves_balance_def balances_ok_def held_def)
qed

lemma applyBucketDeltaTx_shifts:
  assumes "applyBucketDeltaTx sku store l q s = Inr s'" "has_row s sku store" "balances_ok s" "Movable l"
  shows "shifts sku store q s s'"
proof -
  consider (main) "sl_bucket l = ''available''" | (custom) "sl_bucket l = ''custom''"
    | (pool) "bu_pool (stockBuckets (sl_bucket l))" "sl_bucket l \<noteq> ''available''" "sl_bucket l \<noteq> ''custom''"
    using assms(1) by (auto simp: applyBucketDeltaTx_def Let_def split: if_splits)
  then show ?thesis
  proof cases
    case main
    with assms(1) have "update_row sku store (\<lambda>r. r\<lparr>av_available := av_available r + q\<rparr>) s = Inr s'"
      by (simp add: applyBucketDeltaTx_def)
    from shifts_update [OF this _ assms(2,3)] show ?thesis by (simp add: at_row_def held_def)
  next
    case custom
    with assms(1) obtain s1 where
      "moves_balance sku store q s s1"
      "update_row sku store (\<lambda>r. r\<lparr>av_available := av_available r + q, av_blocked := av_blocked r + q\<rparr>) s1 = Inr s'"
      by (auto simp: applyBucketDeltaTx_def Let_def split: if_splits
          dest: take_balance_moves [OF _ assms(3)] put_balance_moves [OF _ assms(3)])
    from shifts_carve [OF this(1) assms(2) this(2)] show ?thesis .
  next
    case pool
    with assms(1) have u: "update_row sku store (add_pool (sl_bucket l) q) s = Inr s'"
      by (simp add: applyBucketDeltaTx_def)
    from pool(1) assms(4) have "sl_bucket l \<in> {''inward'', ''qc_hold'', ''damaged'', ''rtv''}"
      unfolding Movable_def by (rule movable_pool)
    from shifts_update [OF u _ assms(2,3)] held_add_pool [OF this] show ?thesis by (simp add: at_row_def)
  qed
qed

lemma transfer_shifts:
  assumes "applyBucketDeltaTx sku store lf (- q) s = Inr s1" "applyBucketDeltaTx sku store lt q s1 = Inr s2"
    and "has_row s sku store" "balances_ok s" "Movable lf" "Movable lt"
  shows "shifts sku store 0 s s2"
proof -
  have 1: "shifts sku store (- q) s s1" by (rule applyBucketDeltaTx_shifts [OF assms(1,3,4,5)])
  then have "has_row s1 sku store" "balances_ok s1" using assms(3) by (auto simp: shifts_def)
  from shifts_trans [OF 1 applyBucketDeltaTx_shifts [OF assms(2) this assms(6)]] show ?thesis by simp
qed

lemma location_named_in: "location_named ls c = Some l \<Longrightarrow> l \<in> set ls \<and> sl_code l = c"
  by (auto simp: location_named_def find_Some_iff in_set_conv_nth) (metis length_rev nth_mem set_rev in_set_conv_nth)

end
