(* ===== verification/Approval.thy ===== *)
theory Approval
  imports Schema
begin

text \<open>
  The approval engine (engines/approval.go, engines/approval_hooks.go and
  \<open>DocumentBaseAmount\<close> of engines/currency_documents.go): the amount slabs that route a
  document to a role, submitting, deciding, and re-approval on edit. A doctype's registered
  submit checks, the doctypes registered as dual control and the hooks that run after a
  decision are arguments (\<open>approval_env\<close>), because other engines register them.
\<close>

section \<open>Routing rules\<close>

definition rule_overlaps :: "string \<Rightarrow> int \<Rightarrow> rat \<Rightarrow> rat option \<Rightarrow> approval_rule \<Rightarrow> bool" where
  "rule_overlaps dt ex lo hi r \<longleftrightarrow> ar_doctype r = dt \<and> ar_id r \<noteq> ex
     \<and> (hi = None \<or> ar_min r \<le> the hi) \<and> (ar_max r = None \<or> lo \<le> the (ar_max r))"

text \<open>
  \<open>UpsertApprovalRule\<close>: \<open>new_id\<close> is the id the table's sequence gives to an insert. The
  last test before each write is the table's constraint UNIQUE (doctype, min_amount).
\<close>

definition UpsertApprovalRule ::
  "string \<Rightarrow> rat \<Rightarrow> rat option \<Rightarrow> string \<Rightarrow> int option \<Rightarrow> int \<Rightarrow> tenant \<Rightarrow> (tenant \<times> int) res" where
  "UpsertApprovalRule dt lo hi role ruleID new_id t =
     (if dt = [] \<or> role = [] then Inl (Plain ''doctype and required_role are required'')
      else if hi \<noteq> None \<and> the hi < lo then Inl (Plain ''max_amount cannot be less than min_amount'')
      else if list_ex (rule_overlaps dt (case ruleID of Some i \<Rightarrow> i | None \<Rightarrow> -1) lo hi) (t_rules t)
      then Inl (Plain ''this range overlaps existing approval rule'')
      else case ruleID of
        Some i \<Rightarrow>
          let rules = map (\<lambda>r. if ar_id r = i then r\<lparr>ar_min := lo, ar_max := hi, ar_role := role\<rparr> else r) (t_rules t)
          in if distinct (map (\<lambda>r. (ar_doctype r, ar_min r)) rules) then Inr (t\<lparr>t_rules := rules\<rparr>, i)
             else Inl (Plain ''duplicate key value'')
      | None \<Rightarrow>
          let rules = t_rules t @ [\<lparr>ar_id = new_id, ar_doctype = dt, ar_min = lo, ar_max = hi, ar_role = role\<rparr>]
          in if distinct (map (\<lambda>r. (ar_doctype r, ar_min r)) rules) then Inr (t\<lparr>t_rules := rules\<rparr>, new_id)
             else Inl (Plain ''duplicate key value''))"

definition DeleteApprovalRule :: "int \<Rightarrow> tenant \<Rightarrow> tenant res" where
  "DeleteApprovalRule i t =
     (if list_ex (\<lambda>r. ar_id r = i) (t_rules t)
      then Inr (t\<lparr>t_rules := filter (\<lambda>r. ar_id r \<noteq> i) (t_rules t)\<rparr>)
      else Inl (Plain ''approval rule not found''))"

definition rule_matches :: "string \<Rightarrow> rat \<Rightarrow> approval_rule \<Rightarrow> bool" where
  "rule_matches dt a r \<longleftrightarrow> ar_doctype r = dt \<and> ar_min r \<le> a \<and> (ar_max r = None \<or> a \<le> the (ar_max r))"

text \<open>\<open>ORDER BY min_amount DESC LIMIT 1\<close>; the empty role when no rule matches.\<close>

definition requiredApproverRole :: "tenant \<Rightarrow> string \<Rightarrow> rat \<Rightarrow> string" where
  "requiredApproverRole t dt a =
     (case rev (sort_key ar_min (filter (rule_matches dt a) (t_rules t))) of
        [] \<Rightarrow> [] | r # _ \<Rightarrow> ar_role r)"

definition LowestApproverRoleForDoctype :: "tenant \<Rightarrow> string \<Rightarrow> string \<times> rat" where
  "LowestApproverRoleForDoctype t dt =
     (case sort_key ar_min (filter (\<lambda>r. ar_doctype r = dt) (t_rules t)) of
        [] \<Rightarrow> ([], 0) | r # _ \<Rightarrow> (ar_role r, ar_min r))"

definition IsApprovalGated :: "tenant \<Rightarrow> string \<Rightarrow> bool" where
  "IsApprovalGated t dt \<longleftrightarrow> list_ex (\<lambda>r. ar_doctype r = dt) (t_rules t)"

section \<open>Amounts, log and status writes\<close>

definition amount_of :: "payload \<Rightarrow> string list \<Rightarrow> rat" where
  "amount_of data keys = (case filter (\<lambda>k. case jget data k of JNum _ \<Rightarrow> True | _ \<Rightarrow> False) keys of
     [] \<Rightarrow> 0 | k # _ \<Rightarrow> (case jget data k of JNum n \<Rightarrow> n | _ \<Rightarrow> 0))"

definition extractAmount :: "payload \<Rightarrow> rat" where
  "extractAmount data = amount_of data
     [''total_amount'', ''amount'', ''discount_amount'', ''variance_qty'', ''invoice_amount'', ''points_value'']"

definition documentAmountFields :: "string list" where
  "documentAmountFields = [''total_amount'', ''amount'', ''invoice_amount'', ''discount_amount'']"

definition DocumentBaseAmount :: "payload \<Rightarrow> rat" where
  "DocumentBaseAmount p =
     (case List.map_filter (\<lambda>f. let v = jget p (''base_'' @ f) in if v = JNull then None else parityNumber v)
        documentAmountFields of
        [] \<Rightarrow> extractAmount p | v # _ \<Rightarrow> v)"

definition logApprovalAction ::
  "string \<Rightarrow> string \<Rightarrow> string \<Rightarrow> string \<Rightarrow> string \<Rightarrow> rat \<Rightarrow> string \<Rightarrow> tenant \<Rightarrow> tenant" where
  "logApprovalAction dt i action actor role amount comment t =
     t\<lparr>t_approvals := t_approvals t @
        [\<lparr>ae_doctype = dt, ae_docid = i, ae_action = action, ae_actor = actor, ae_role = role,
          ae_amount = amount, ae_comment = comment\<rparr>]\<rparr>"

definition setDocumentStatus :: "string \<Rightarrow> string \<Rightarrow> string \<Rightarrow> payload \<Rightarrow> tenant \<Rightarrow> tenant" where
  "setDocumentStatus dt i st data t =
     update_docs (is_doc dt i)
       (\<lambda>d. d\<lparr>d_data := jput ''status'' (JStr st) data, d_status := st, d_updated_at := t_now t\<rparr>) t"

definition decidedStatusWriteError :: "bool \<Rightarrow> string \<Rightarrow> string \<Rightarrow> unit res" where
  "decidedStatusWriteError gated prior new =
     (if \<not> gated \<or> new = prior then Inr ()
      else if new \<in> set [''Approved'', ''Rejected''] then Inl (Coded ''GLOBAL-0019'')
      else Inr ())"

section \<open>Submitting and deciding\<close>

record approval_env =
  env_submit_checks :: "string \<Rightarrow> string \<Rightarrow> payload \<Rightarrow> unit res"
  env_dual_control :: "string list"
  env_hooks :: "string \<Rightarrow> string \<Rightarrow> string \<Rightarrow> string \<Rightarrow> tenant \<Rightarrow> tenant"

definition SubmitForApproval ::
  "approval_env \<Rightarrow> string \<Rightarrow> string \<Rightarrow> string \<Rightarrow> string \<Rightarrow> tenant \<Rightarrow> tenant res" where
  "SubmitForApproval env dt i requester role t =
     (case find_doc t dt i of
        None \<Rightarrow> Inl (Plain ''document not found'')
      | Some d \<Rightarrow>
          if d_status d \<noteq> ''Draft'' then Inl (Plain ''only a Draft document can be submitted for approval'')
          else rbind (env_submit_checks env dt i (d_data d)) (\<lambda>_.
            let amount = DocumentBaseAmount (d_data d) in
            if requiredApproverRole t dt amount = [] then Inl (Coded ''ADMINC-0032'')
            else Inr (logApprovalAction dt i ''Submitted'' requester role amount []
                   (setDocumentStatus dt i ''Pending Approval'' (d_data d) t))))"

definition secondAdminDoctypes :: "string list" where
  "secondAdminDoctypes = [''PasswordResetRequest'', ''ItemTreatmentCorrection'']"

definition SubmitterMayDecideOwn :: "approval_env \<Rightarrow> tenant \<Rightarrow> string \<Rightarrow> string \<Rightarrow> bool" where
  "SubmitterMayDecideOwn env t dt role =
     (if dt \<in> set secondAdminDoctypes \<or> dt \<in> set (env_dual_control env) then False
      else if dt = ''Campaign'' \<and> GetSettingBool t ''crm.campaign_second_approver'' then False
      else let s = GetSettingString t ''approvals.self_approval'' in
        if s = ''anyone'' then True else if s = ''admins'' then HasFullAccess role else False)"

text \<open>
  The approval_log rows of one document, in id order, and the rows after its last decision.
\<close>

definition doc_log :: "tenant \<Rightarrow> string \<Rightarrow> string \<Rightarrow> approval_entry list" where
  "doc_log t dt i = filter (\<lambda>e. ae_doctype e = dt \<and> ae_docid e = i) (t_approvals t)"

definition is_decision :: "approval_entry \<Rightarrow> bool" where
  "is_decision e \<longleftrightarrow> ae_action e \<in> {''Approved'', ''Rejected''}"

definition current_round :: "tenant \<Rightarrow> string \<Rightarrow> string \<Rightarrow> approval_entry list" where
  "current_round t dt i = rev (takeWhile (\<lambda>e. \<not> is_decision e) (rev (doc_log t dt i)))"

definition madeApprovalRound :: "tenant \<Rightarrow> string \<Rightarrow> string \<Rightarrow> string \<Rightarrow> bool" where
  "madeApprovalRound t dt i usr =
     (case find_doc t dt i of
        None \<Rightarrow> False
      | Some d \<Rightarrow> coalesce (d_updated_by d) [] = usr \<or>
          list_ex (\<lambda>e. ae_actor e = usr \<and> ae_action e \<in> {''Submitted'', ''Modified''}) (current_round t dt i))"

text \<open>The transaction of \<open>DecideApproval\<close>, up to its commit.\<close>

definition decide_tx ::
  "approval_env \<Rightarrow> string \<Rightarrow> string \<Rightarrow> string \<Rightarrow> string \<Rightarrow> string \<Rightarrow> string \<Rightarrow> string \<Rightarrow> tenant
     \<Rightarrow> (tenant \<times> bool) res" where
  "decide_tx env dt i actor role loc decision comment t =
     (case find_doc t dt i of
        None \<Rightarrow> Inl (Plain ''document not found'')
      | Some d \<Rightarrow>
          if d_status d \<noteq> ''Pending Approval'' then Inl (Plain ''document is not awaiting approval'')
          else
            let self = (actor = d_created_by d);
                own = SubmitterMayDecideOwn env t dt role;
                maker = (if \<not> self \<and> \<not> own then madeApprovalRound t dt i actor else self)
            in if maker \<and> \<not> own then Inl (Coded ''APPROV-0840'')
            else
              let note = (if self then trim (''[decided by the submitter] '' @ comment) else comment);
                  amount = DocumentBaseAmount (d_data d)
              in if \<not> HasFullAccess role \<and> role \<noteq> requiredApproverRole t dt amount
                 then Inl (Plain ''approver role does not match the required approval role of the amount'')
                 else if \<not> HasFullAccess role \<and> jstr (d_data d) ''location'' \<noteq> []
                         \<and> jstr (d_data d) ''location'' \<noteq> loc
                 then Inl (Plain ''this document belongs to a different location'')
                 else Inr (logApprovalAction dt i decision actor role amount note
                        (setDocumentStatus dt i decision (d_data d) t), self))"

definition DecideApproval ::
  "approval_env \<Rightarrow> string \<Rightarrow> string \<Rightarrow> string \<Rightarrow> string \<Rightarrow> string \<Rightarrow> string \<Rightarrow> string \<Rightarrow> tenant \<Rightarrow> tenant res" where
  "DecideApproval env dt i actor role loc decision comment t =
     (if decision \<noteq> ''Approved'' \<and> decision \<noteq> ''Rejected''
      then Inl (Plain ''decision must be Approved or Rejected'')
      else if decision = ''Rejected'' \<and> trim comment = [] then Inl (Coded ''APPROV-0159'')
      else rbind (decide_tx env dt i actor role loc decision comment t) (\<lambda>(t1, self).
        Inr (env_hooks env dt i decision actor
          (if self then LogAuditEvent actor ''APPROVAL_SELF_DECISION'' decision t1 else t1))))"

definition BulkDecideApproval ::
  "approval_env \<Rightarrow> string \<Rightarrow> string list \<Rightarrow> string \<Rightarrow> string \<Rightarrow> string \<Rightarrow> string \<Rightarrow> string \<Rightarrow> tenant
     \<Rightarrow> (tenant \<times> string list \<times> (string \<times> err) list) res" where
  "BulkDecideApproval env dt ids actor role loc decision comment t =
     (if ids = [] then Inl (Plain ''select at least one document'')
      else if int (length ids) > GetSettingInt t ''pim.max_bulk_edit_documents''
      then Inl (Plain ''bulk approval supports at most a number of documents at a time'')
      else Inr (foldl (\<lambda>(s, ok, bad) i.
             case DecideApproval env dt i actor role loc decision comment s of
               Inl e \<Rightarrow> (s, ok, bad @ [(i, e)])
             | Inr s' \<Rightarrow> (s', ok @ [i], bad)) (t, [], []) ids))"

definition ResetToPendingOnEdit ::
  "string \<Rightarrow> string \<Rightarrow> string \<Rightarrow> string \<Rightarrow> payload \<Rightarrow> tenant \<Rightarrow> tenant" where
  "ResetToPendingOnEdit dt i editor role data t =
     logApprovalAction dt i ''Modified'' editor role (DocumentBaseAmount data)
       ''Reset to Pending Approval after edit'' (setDocumentStatus dt i ''Pending Approval'' data t)"

text \<open>
  \<open>ListPendingApprovals\<close>: the newest 500 in the caller's scope, with id and doctype added.
\<close>

definition pendingApprovalsCap :: nat where
  "pendingApprovalsCap = 500"

definition pending_in_scope :: "string \<Rightarrow> string \<Rightarrow> document \<Rightarrow> bool" where
  "pending_in_scope role loc d \<longleftrightarrow> d_status d = ''Pending Approval'' \<and>
     (HasFullAccess role \<or>
      (case (case jtext (d_data d) ''location'' of Some l \<Rightarrow> Some l | None \<Rightarrow> jtext (d_data d) ''location_code'') of
         None \<Rightarrow> True | Some l \<Rightarrow> l = loc))"

definition ListPendingApprovals :: "tenant \<Rightarrow> string \<Rightarrow> string \<Rightarrow> payload list" where
  "ListPendingApprovals t role loc =
     map (\<lambda>d. jput ''doctype'' (JStr (d_doctype d)) (jput ''id'' (JStr (d_id d)) (d_data d)))
       (take pendingApprovalsCap (rev (sort_key d_updated_at (filter (pending_in_scope role loc) (t_documents t)))))"

section \<open>Routing is unambiguous\<close>

definition in_slab :: "approval_rule \<Rightarrow> rat \<Rightarrow> bool" where
  "in_slab r a \<longleftrightarrow> ar_min r \<le> a \<and> (ar_max r = None \<or> a \<le> the (ar_max r))"

definition slabs_meet :: "approval_rule \<Rightarrow> approval_rule \<Rightarrow> bool" where
  "slabs_meet r r' \<longleftrightarrow> ar_doctype r = ar_doctype r'
     \<and> (ar_max r = None \<or> ar_min r' \<le> the (ar_max r))
     \<and> (ar_max r' = None \<or> ar_min r \<le> the (ar_max r'))"

definition slabs_ok :: "approval_rule list \<Rightarrow> bool" where
  "slabs_ok rs \<longleftrightarrow> distinct (map ar_id rs)
     \<and> (\<forall>r \<in> set rs. 0 < ar_id r \<and> (ar_max r = None \<or> ar_min r \<le> the (ar_max r)))
     \<and> (\<forall>r \<in> set rs. \<forall>r' \<in> set rs. ar_id r \<noteq> ar_id r' \<longrightarrow> \<not> slabs_meet r r')"

lemma rule_matches_iff: "rule_matches dt a r \<longleftrightarrow> ar_doctype r = dt \<and> in_slab r a"
  by (simp add: rule_matches_def in_slab_def)

lemma matching_rules_meet: "rule_matches dt a r \<Longrightarrow> rule_matches dt a r' \<Longrightarrow> slabs_meet r r'"
  by (auto simp: rule_matches_def slabs_meet_def)

lemma slabs_meet_commute: "slabs_meet r r' \<longleftrightarrow> slabs_meet r' r"
  by (auto simp: slabs_meet_def)

lemma distinct_map_eq: "distinct (map f xs) \<Longrightarrow> x \<in> set xs \<Longrightarrow> y \<in> set xs \<Longrightarrow> f x = f y \<Longrightarrow> x = y"
  by (auto simp: distinct_map inj_on_def)

lemma slabs_ok_unique:
  assumes "slabs_ok rs" "r \<in> set rs" "r' \<in> set rs" "rule_matches dt a r" "rule_matches dt a r'"
  shows "r = r'"
  using assms matching_rules_meet [OF assms(4,5)]
  by (metis slabs_ok_def distinct_map_eq)

lemma filter_singleton:
  assumes "distinct xs" "x \<in> set xs" "\<And>y. y \<in> set xs \<Longrightarrow> p y \<longleftrightarrow> y = x"
  shows "filter p xs = [x]"
  using assms
proof (induction xs)
  case Nil
  then show ?case by simp
next
  case (Cons y ys)
  show ?case
  proof (cases "y = x")
    case True
    then have "filter p ys = []" using Cons.prems by (auto simp: filter_empty_conv)
    with True Cons.prems show ?thesis by simp
  next
    case False
    then have "filter p ys = [x]" using Cons.prems by (intro Cons.IH) auto
    with False Cons.prems show ?thesis by simp
  qed
qed

lemma required_role_unique:
  assumes "slabs_ok (t_rules t)" "r \<in> set (t_rules t)" "rule_matches dt a r"
  shows "requiredApproverRole t dt a = ar_role r"
proof -
  have "filter (rule_matches dt a) (t_rules t) = [r]"
    using assms slabs_ok_unique [OF assms(1)]
    by (intro filter_singleton) (auto simp: slabs_ok_def distinct_map)
  then show ?thesis by (simp add: requiredApproverRole_def)
qed

lemma required_role_none:
  assumes "\<And>r. r \<in> set (t_rules t) \<Longrightarrow> \<not> rule_matches dt a r"
  shows "requiredApproverRole t dt a = []"
proof -
  have "filter (rule_matches dt a) (t_rules t) = []" using assms by (simp add: filter_empty_conv)
  then show ?thesis by (simp add: requiredApproverRole_def)
qed

lemma slabs_ok_insert:
  assumes "slabs_ok rs" and "0 < ar_id r" and "ar_id r \<notin> ar_id ` set rs"
    and "ar_max r = None \<or> ar_min r \<le> the (ar_max r)"
    and "\<And>r'. r' \<in> set rs \<Longrightarrow> \<not> slabs_meet r r'"
  shows "slabs_ok (rs @ [r])"
  using assms slabs_meet_commute by (auto simp: slabs_ok_def)

lemma slabs_ok_replace:
  assumes "slabs_ok rs" and "\<And>r. ar_id (f r) = ar_id r"
    and "\<And>r. r \<in> set rs \<Longrightarrow> ar_id r = i \<Longrightarrow>
           (ar_max (f r) = None \<or> ar_min (f r) \<le> the (ar_max (f r)))
         \<and> (\<forall>r' \<in> set rs. ar_id r' \<noteq> i \<longrightarrow> \<not> slabs_meet (f r) r')"
  shows "slabs_ok (map (\<lambda>r. if ar_id r = i then f r else r) rs)"
proof -
  have ids: "map ar_id (map (\<lambda>r. if ar_id r = i then f r else r) rs) = map ar_id rs"
    using assms(2) by auto
  show ?thesis
    unfolding slabs_ok_def ids
    using assms slabs_meet_commute by (auto simp: slabs_ok_def)
qed

text \<open>An overlap in the sense of the query is a meeting of slabs with the new rule.\<close>

lemma rule_overlaps_iff:
  assumes "ar_doctype r = dt" "ar_min r = lo" "ar_max r = hi"
  shows "rule_overlaps dt ex lo hi r' \<longleftrightarrow> slabs_meet r r' \<and> ar_id r' \<noteq> ex"
  using assms by (auto simp: rule_overlaps_def slabs_meet_def)

lemma upsert_insert:
  assumes ok: "slabs_ok (t_rules t)" and up: "UpsertApprovalRule dt lo hi role None new t = Inr (t', i)"
    and new: "0 < new" "new \<notin> ar_id ` set (t_rules t)"
  shows "\<exists>r. t' = t\<lparr>t_rules := t_rules t @ [r]\<rparr> \<and> slabs_ok (t_rules t') \<and> i = new
     \<and> r = \<lparr>ar_id = new, ar_doctype = dt, ar_min = lo, ar_max = hi, ar_role = role\<rparr>"
proof -
  define r where "r = \<lparr>ar_id = new, ar_doctype = dt, ar_min = lo, ar_max = hi, ar_role = role\<rparr>"
  from up have t': "t' = t\<lparr>t_rules := t_rules t @ [r]\<rparr>" "i = new"
    and hi: "\<not> (hi \<noteq> None \<and> the hi < lo)"
    and no: "\<not> list_ex (rule_overlaps dt (-1) lo hi) (t_rules t)"
    by (auto simp: UpsertApprovalRule_def r_def Let_def split: if_splits)
  have "\<not> slabs_meet r r'" if "r' \<in> set (t_rules t)" for r'
  proof -
    have "ar_id r' \<noteq> -1" using ok that by (auto simp: slabs_ok_def)
    with no that show ?thesis
      by (auto simp: list_ex_iff rule_overlaps_iff [of r, OF _ _ _] r_def)
  qed
  then have "slabs_ok (t_rules t @ [r])"
    using ok new hi by (intro slabs_ok_insert) (auto simp: r_def)
  with t' show ?thesis by (auto simp: r_def)
qed

lemma upsert_edit:
  assumes ok: "slabs_ok (t_rules t)" and up: "UpsertApprovalRule dt lo hi role (Some i) new t = Inr (t', j)"
    and own: "\<And>r. r \<in> set (t_rules t) \<Longrightarrow> ar_id r = i \<Longrightarrow> ar_doctype r = dt"
  shows "t' = t\<lparr>t_rules := map (\<lambda>r. if ar_id r = i then r\<lparr>ar_min := lo, ar_max := hi, ar_role := role\<rparr> else r) (t_rules t)\<rparr>
    \<and> slabs_ok (t_rules t') \<and> j = i"
proof -
  let ?f = "\<lambda>r. r\<lparr>ar_min := lo, ar_max := hi, ar_role := role\<rparr>"
  from up have t': "t' = t\<lparr>t_rules := map (\<lambda>r. if ar_id r = i then ?f r else r) (t_rules t)\<rparr>" "j = i"
    and hi: "\<not> (hi \<noteq> None \<and> the hi < lo)"
    and no: "\<not> list_ex (rule_overlaps dt i lo hi) (t_rules t)"
    by (auto simp: UpsertApprovalRule_def Let_def split: if_splits)
  have "slabs_ok (map (\<lambda>r. if ar_id r = i then ?f r else r) (t_rules t))"
  proof (rule slabs_ok_replace [OF ok])
    fix r assume r: "r \<in> set (t_rules t)" "ar_id r = i"
    have "\<not> slabs_meet (?f r) r'" if "r' \<in> set (t_rules t)" "ar_id r' \<noteq> i" for r'
    proof -
      have "rule_overlaps dt i lo hi r' \<longleftrightarrow> slabs_meet (?f r) r' \<and> ar_id r' \<noteq> i"
        using own [OF r] by (intro rule_overlaps_iff) simp_all
      with no that show ?thesis by (auto simp: list_ex_iff)
    qed
    with hi show "(ar_max (?f r) = None \<or> ar_min (?f r) \<le> the (ar_max (?f r)))
        \<and> (\<forall>r' \<in> set (t_rules t). ar_id r' \<noteq> i \<longrightarrow> \<not> slabs_meet (?f r) r')" by auto
  qed simp
  with t' show ?thesis by simp
qed

section \<open>What a decision requires\<close>

lemma find_doc_setDocumentStatus:
  "find_doc (setDocumentStatus dt i st data t) dt' i' =
     (if (dt', i') = (dt, i)
      then map_option (\<lambda>d. d\<lparr>d_data := jput ''status'' (JStr st) data, d_status := st, d_updated_at := t_now t\<rparr>)
             (find_doc t dt i)
      else find_doc t dt' i')"
proof -
  have "find_doc (setDocumentStatus dt i st data t) dt' i' =
      map_option (\<lambda>d. if is_doc dt i d
        then d\<lparr>d_data := jput ''status'' (JStr st) data, d_status := st, d_updated_at := t_now t\<rparr> else d)
        (find_doc t dt' i')"
    unfolding setDocumentStatus_def by (rule find_doc_update) (simp add: is_doc_def)
  then show ?thesis
    using find_doc_Some [of t dt' i'] by (cases "find_doc t dt' i'") (auto simp: is_doc_def)
qed

lemma find_doc_logApprovalAction [simp]:
  "find_doc (logApprovalAction dt i a u r m c t) dt' i' = find_doc t dt' i'"
  by (simp add: find_doc_def logApprovalAction_def)

lemma t_rules_approval [simp]:
  "t_rules (logApprovalAction dt i a u r m c t) = t_rules t"
  "t_rules (setDocumentStatus dt i st data t) = t_rules t"
  "t_approvals (setDocumentStatus dt i st data t) = t_approvals t"
  "t_documents (logApprovalAction dt i a u r m c t) = t_documents t"
  by (simp_all add: logApprovalAction_def setDocumentStatus_def)

lemma t_approvals_log [simp]:
  "t_approvals (logApprovalAction dt i a u r m c t) = t_approvals t @
     [\<lparr>ae_doctype = dt, ae_docid = i, ae_action = a, ae_actor = u, ae_role = r, ae_amount = m, ae_comment = c\<rparr>]"
  by (simp add: logApprovalAction_def)

definition may_decide :: "tenant \<Rightarrow> string \<Rightarrow> document \<Rightarrow> string \<Rightarrow> string \<Rightarrow> bool" where
  "may_decide t dt d role loc \<longleftrightarrow> HasFullAccess role \<or>
     role = requiredApproverRole t dt (DocumentBaseAmount (d_data d)) \<and>
     (jstr (d_data d) ''location'' = [] \<or> jstr (d_data d) ''location'' = loc)"

lemma decide_txE:
  assumes "decide_tx env dt i actor role loc decision comment t = Inr (t', self)"
  obtains d where "find_doc t dt i = Some d" "d_status d = ''Pending Approval''"
    "self \<longleftrightarrow> actor = d_created_by d" "may_decide t dt d role loc"
    "SubmitterMayDecideOwn env t dt role \<or> (actor \<noteq> d_created_by d \<and> \<not> madeApprovalRound t dt i actor)"
    "t' = logApprovalAction dt i decision actor role (DocumentBaseAmount (d_data d))
       (if self then trim (''[decided by the submitter] '' @ comment) else comment)
       (setDocumentStatus dt i decision (d_data d) t)"
  using assms
  by (auto simp: decide_tx_def Let_def may_decide_def split: option.splits if_splits)

lemma decide_tx_again:
  assumes "decide_tx env dt i actor role loc decision comment t = Inr (t', self)" and "decision \<noteq> ''Pending Approval''"
  shows "decide_tx env' dt i actor' role' loc' decision' comment' t' = Inl (Plain ''document is not awaiting approval'')"
  using assms(1)
proof (rule decide_txE)
  fix d
  assume "find_doc t dt i = Some d"
    and "t' = logApprovalAction dt i decision actor role (DocumentBaseAmount (d_data d))
       (if self then trim (''[decided by the submitter] '' @ comment) else comment)
       (setDocumentStatus dt i decision (d_data d) t)"
  with assms(2) show ?thesis by (simp add: decide_tx_def find_doc_setDocumentStatus)
qed

section \<open>The approval state machine\<close>

text \<open>
  Every way a document's status or the approval log changes: a document is created, saved
  (\<open>decidedStatusWriteError\<close> guards the written status; a save of an Approved document
  of a gated doctype is followed by \<open>ResetToPendingOnEdit\<close>), submitted, or decided.
  Hooks that run after a decision belong to other engines and are not steps here.
\<close>

definition save_doc :: "string \<Rightarrow> string \<Rightarrow> payload \<Rightarrow> string \<Rightarrow> string \<Rightarrow> string \<Rightarrow> tenant \<Rightarrow> tenant res" where
  "save_doc dt i data st usr role t =
     (case find_doc t dt i of
        None \<Rightarrow> rbind (decidedStatusWriteError (IsApprovalGated t dt) [] st)
                  (\<lambda>_. Inr (insert_doc (new_doc t dt i data st usr) t))
      | Some d \<Rightarrow> rbind (decidedStatusWriteError (IsApprovalGated t dt) (d_status d) st) (\<lambda>_.
          let t1 = update_docs (is_doc dt i)
                (\<lambda>d. d\<lparr>d_data := data, d_status := st, d_updated_by := Some usr, d_updated_at := t_now t\<rparr>) t
          in Inr (if d_status d = ''Approved'' \<and> IsApprovalGated t dt
                  then ResetToPendingOnEdit dt i usr role data t1 else t1)))"

inductive approval_step :: "approval_env \<Rightarrow> tenant \<Rightarrow> tenant \<Rightarrow> bool" for env where
  save: "save_doc dt i data st usr role t = Inr t' \<Longrightarrow> approval_step env t t'"
| submit: "SubmitForApproval env dt i usr role t = Inr t' \<Longrightarrow> approval_step env t t'"
| decide: "decision \<in> {''Approved'', ''Rejected''} \<Longrightarrow>
    decide_tx env dt i actor role loc decision comment t = Inr (t', self) \<Longrightarrow> approval_step env t t'"

inductive_cases approval_stepE: "approval_step env t t'"

definition last_decision :: "approval_entry list \<Rightarrow> string \<Rightarrow> string \<Rightarrow> approval_entry option" where
  "last_decision es dt i = find (\<lambda>e. ae_doctype e = dt \<and> ae_docid e = i \<and> is_decision e) (rev es)"

lemma last_decision_snoc:
  "last_decision (es @ [e]) dt i =
     (if ae_doctype e = dt \<and> ae_docid e = i \<and> is_decision e then Some e else last_decision es dt i)"
  by (simp add: last_decision_def)

definition entry_authorised :: "tenant \<Rightarrow> approval_entry \<Rightarrow> bool" where
  "entry_authorised t e \<longleftrightarrow> HasFullAccess (ae_role e) \<or>
     ae_role e = requiredApproverRole t (ae_doctype e) (ae_amount e)"

definition flow_ok :: "tenant \<Rightarrow> bool" where
  "flow_ok t \<longleftrightarrow>
     (\<forall>d \<in> set (t_documents t). IsApprovalGated t (d_doctype d) \<and> d_status d \<in> {''Approved'', ''Rejected''} \<longrightarrow>
        (\<exists>e. last_decision (t_approvals t) (d_doctype d) (d_id d) = Some e \<and> ae_action e = d_status d))
     \<and> (\<forall>e \<in> set (t_approvals t). is_decision e \<longrightarrow> entry_authorised t e)"

lemma IsApprovalGated_cong: "t_rules t' = t_rules t \<Longrightarrow> IsApprovalGated t' dt = IsApprovalGated t dt"
  by (simp add: IsApprovalGated_def)

lemma requiredApproverRole_cong: "t_rules t' = t_rules t \<Longrightarrow> requiredApproverRole t' dt a = requiredApproverRole t dt a"
  by (simp add: requiredApproverRole_def)

lemma flow_okI:
  assumes "t_rules t' = t_rules t" and "flow_ok t"
    and "\<And>d. d \<in> set (t_documents t') \<Longrightarrow> IsApprovalGated t (d_doctype d) \<Longrightarrow> d_status d \<in> {''Approved'', ''Rejected''} \<Longrightarrow>
      \<exists>e. last_decision (t_approvals t') (d_doctype d) (d_id d) = Some e \<and> ae_action e = d_status d"
    and "\<And>e. e \<in> set (t_approvals t') \<Longrightarrow> is_decision e \<Longrightarrow> e \<notin> set (t_approvals t) \<Longrightarrow> entry_authorised t e"
  shows "flow_ok t'"
proof -
  have "IsApprovalGated t' = IsApprovalGated t" "entry_authorised t' = entry_authorised t"
    using assms(1) by (auto simp: IsApprovalGated_def entry_authorised_def requiredApproverRole_def fun_eq_iff)
  then show ?thesis using assms(2-4) unfolding flow_ok_def by metis
qed

lemma flow_okD:
  assumes "flow_ok t" "d \<in> set (t_documents t)" "IsApprovalGated t (d_doctype d)" "d_status d \<in> {''Approved'', ''Rejected''}"
  shows "\<exists>e. last_decision (t_approvals t) (d_doctype d) (d_id d) = Some e \<and> ae_action e = d_status d"
  using assms by (auto simp: flow_ok_def)

lemma update_docs_mem:
  "x \<in> set (t_documents (update_docs p f t)) \<longleftrightarrow>
     (\<exists>d \<in> set (t_documents t). x = (if p d then f d else d))"
  by (auto simp: update_docs_def)

lemma flow_ok_setStatus_log:
  assumes "flow_ok t"
    and "st \<in> {''Approved'', ''Rejected''} \<Longrightarrow> action = st \<and>
           entry_authorised t \<lparr>ae_doctype = dt, ae_docid = i, ae_action = action, ae_actor = u, ae_role = r, ae_amount = m, ae_comment = c\<rparr>"
    and "st \<notin> {''Approved'', ''Rejected''} \<Longrightarrow> action \<notin> {''Approved'', ''Rejected''}"
  shows "flow_ok (logApprovalAction dt i action u r m c (setDocumentStatus dt i st data t))"
proof (rule flow_okI [OF _ assms(1)])
  let ?t = "logApprovalAction dt i action u r m c (setDocumentStatus dt i st data t)"
  show "t_rules ?t = t_rules t" by simp
  show "entry_authorised t e" if "e \<in> set (t_approvals ?t)" "is_decision e" "e \<notin> set (t_approvals t)" for e
    using that assms(2,3) by (auto simp: is_decision_def)
  fix d assume d: "d \<in> set (t_documents ?t)" "IsApprovalGated t (d_doctype d)" "d_status d \<in> {''Approved'', ''Rejected''}"
  then obtain d0 where d0: "d0 \<in> set (t_documents t)"
    "d = (if is_doc dt i d0 then d0\<lparr>d_data := jput ''status'' (JStr st) data, d_status := st, d_updated_at := t_now t\<rparr> else d0)"
    by (auto simp: setDocumentStatus_def update_docs_mem)
  show "\<exists>e. last_decision (t_approvals ?t) (d_doctype d) (d_id d) = Some e \<and> ae_action e = d_status d"
  proof (cases "is_doc dt i d0")
    case True
    with d0 d(3) assms(2) show ?thesis by (auto simp: last_decision_snoc is_doc_def is_decision_def)
  next
    case False
    with d0 have "d = d0" by simp
    with False d0 d flow_okD [OF assms(1), of d0] show ?thesis
      by (auto simp: last_decision_snoc is_doc_def)
  qed
qed

lemma flow_ok_save:
  assumes "flow_ok t" and "save_doc dt i data st usr role t = Inr t'"
  shows "flow_ok t'"
proof (cases "find_doc t dt i")
  case None
  with assms(2) have t': "t' = insert_doc (new_doc t dt i data st usr) t"
    and st: "IsApprovalGated t dt \<Longrightarrow> st \<notin> {''Approved'', ''Rejected''}"
    by (auto simp: save_doc_def decidedStatusWriteError_def split: if_splits)
  show ?thesis
  proof (rule flow_okI [OF _ assms(1)])
    show "t_rules t' = t_rules t" by (simp add: t')
    show "entry_authorised t e" if "e \<in> set (t_approvals t')" "e \<notin> set (t_approvals t)" for e
      using that by (simp add: t')
    fix d assume "d \<in> set (t_documents t')" "IsApprovalGated t (d_doctype d)" "d_status d \<in> {''Approved'', ''Rejected''}"
    with st flow_okD [OF assms(1), of d]
    show "\<exists>e. last_decision (t_approvals t') (d_doctype d) (d_id d) = Some e \<and> ae_action e = d_status d"
      by (auto simp: t' insert_doc_def new_doc_def)
  qed
next
  case (Some d0)
  define t1 where "t1 = update_docs (is_doc dt i)
      (\<lambda>d. d\<lparr>d_data := data, d_status := st, d_updated_by := Some usr, d_updated_at := t_now t\<rparr>) t"
  from Some assms(2) have t': "t' = (if d_status d0 = ''Approved'' \<and> IsApprovalGated t dt
        then ResetToPendingOnEdit dt i usr role data t1 else t1)"
    and st: "IsApprovalGated t dt \<Longrightarrow> st \<in> {''Approved'', ''Rejected''} \<Longrightarrow> st = d_status d0"
    by (auto simp: save_doc_def t1_def decidedStatusWriteError_def Let_def split: if_splits)
  from Some have d0: "d0 \<in> set (t_documents t)" "d_doctype d0 = dt" "d_id d0 = i" by (auto dest: find_doc_Some)
  have "flow_ok t1"
  proof (rule flow_okI [OF _ assms(1)])
    show "t_rules t1 = t_rules t" by (simp add: t1_def)
    show "entry_authorised t e" if "e \<in> set (t_approvals t1)" "e \<notin> set (t_approvals t)" for e
      using that by (simp add: t1_def)
    fix d assume d: "d \<in> set (t_documents t1)" "IsApprovalGated t (d_doctype d)" "d_status d \<in> {''Approved'', ''Rejected''}"
    then obtain d1 where d1: "d1 \<in> set (t_documents t)"
      "d = (if is_doc dt i d1 then d1\<lparr>d_data := data, d_status := st, d_updated_by := Some usr, d_updated_at := t_now t\<rparr> else d1)"
      by (auto simp: t1_def update_docs_mem)
    have app: "t_approvals t1 = t_approvals t" by (simp add: t1_def)
    show "\<exists>e. last_decision (t_approvals t1) (d_doctype d) (d_id d) = Some e \<and> ae_action e = d_status d"
    proof (cases "is_doc dt i d1")
      case True
      with d d1 st d0 flow_okD [OF assms(1), of d0] show ?thesis by (auto simp: app is_doc_def)
    next
      case False
      with d d1 flow_okD [OF assms(1), of d1] show ?thesis by (auto simp: app)
    qed
  qed
  then show ?thesis by (auto simp: t' ResetToPendingOnEdit_def intro!: flow_ok_setStatus_log)
qed

lemma flow_ok_submit:
  assumes "flow_ok t" and "SubmitForApproval env dt i usr role t = Inr t'"
  shows "flow_ok t'"
  using assms
  by (auto simp: SubmitForApproval_def Let_def split: option.splits if_splits intro!: flow_ok_setStatus_log)

lemma flow_ok_decide:
  assumes "flow_ok t" and "decision \<in> {''Approved'', ''Rejected''}"
    and "decide_tx env dt i actor role loc decision comment t = Inr (t', self)"
  shows "flow_ok t'"
  using assms(3)
proof (rule decide_txE)
  fix d
  assume "may_decide t dt d role loc"
    and "t' = logApprovalAction dt i decision actor role (DocumentBaseAmount (d_data d))
       (if self then trim (''[decided by the submitter] '' @ comment) else comment)
       (setDocumentStatus dt i decision (d_data d) t)"
  with assms(1,2) show ?thesis
    by (auto simp: may_decide_def entry_authorised_def intro!: flow_ok_setStatus_log)
qed

lemma flow_ok_step: "approval_step env t t' \<Longrightarrow> flow_ok t \<Longrightarrow> flow_ok t'"
  by (erule approval_stepE) (auto intro: flow_ok_save flow_ok_submit flow_ok_decide)

lemma flow_ok_reachable: "(approval_step env)\<^sup>*\<^sup>* t t' \<Longrightarrow> flow_ok t \<Longrightarrow> flow_ok t'"
  by (induction rule: rtranclp_induct) (auto intro: flow_ok_step)

lemma last_decision_mem:
  "last_decision es dt i = Some e \<Longrightarrow> e \<in> set es \<and> ae_doctype e = dt \<and> ae_docid e = i \<and> is_decision e"
  by (auto simp: last_decision_def find_Some_iff dest: nth_mem)
     (metis length_rev nth_mem set_rev)

lemma step_rules: "approval_step env t t' \<Longrightarrow> t_rules t' = t_rules t"
proof (erule approval_stepE)
  fix dt i data st usr role assume "save_doc dt i data st usr role t = Inr t'"
  then show ?thesis by (auto simp: save_doc_def ResetToPendingOnEdit_def Let_def split: option.splits if_splits)
next
  fix dt i usr role assume "SubmitForApproval env dt i usr role t = Inr t'"
  then show ?thesis by (auto simp: SubmitForApproval_def Let_def split: option.splits if_splits)
next
  fix dt i actor role loc decision comment self
  assume "decide_tx env dt i actor role loc decision comment t = Inr (t', self)"
  then show ?thesis by (rule decide_txE) simp
qed

section \<open>Properties\<close>

definition no_env :: approval_env where
  "no_env = \<lparr>env_submit_checks = (\<lambda>_ _ _. Inr ()), env_dual_control = [], env_hooks = (\<lambda>_ _ _ _ t. t)\<rparr>"



text \<open>
  An edit that names another doctype than the rule's own is checked against the wrong
  rules. With two disjoint slabs of SalesInvoice, an edit of one of them submitted under
  PurchaseOrder succeeds and leaves the two slabs overlapping.
\<close>
theorem rule_edit_under_other_doctype_overlaps:
  "\<exists>t t'. slabs_ok (t_rules t)
     \<and> UpsertApprovalRule ''PurchaseOrder'' 500 None ''Cashier'' (Some 2) 0 t = Inr (t', 2)
     \<and> \<not> slabs_ok (t_rules t')
     \<and> requiredApproverRole t ''SalesInvoice'' 700 = ''Admin''
     \<and> requiredApproverRole t' ''SalesInvoice'' 700 = ''Cashier''"
proof -
  let ?r = "\<lparr>ar_id = 1, ar_doctype = ''SalesInvoice'', ar_min = 0, ar_max = Some 1000, ar_role = ''Admin''\<rparr>"
  let ?s = "\<lparr>ar_id = 2, ar_doctype = ''SalesInvoice'', ar_min = 1001, ar_max = None, ar_role = ''Owner''\<rparr>"
  let ?s' = "?s\<lparr>ar_min := 500, ar_role := ''Cashier''\<rparr>"
  let ?t = "empty_tenant\<lparr>t_rules := [?r, ?s]\<rparr>"
  let ?t' = "empty_tenant\<lparr>t_rules := [?r, ?s']\<rparr>"
  have "slabs_ok (t_rules ?t)" by (simp add: slabs_ok_def slabs_meet_def)
  moreover have "UpsertApprovalRule ''PurchaseOrder'' 500 None ''Cashier'' (Some 2) 0 ?t = Inr (?t', 2)"
    by (simp add: UpsertApprovalRule_def rule_overlaps_def)
  moreover have "\<not> slabs_ok (t_rules ?t')" by (simp add: slabs_ok_def slabs_meet_def)
  moreover have "requiredApproverRole ?t ''SalesInvoice'' 700 = ''Admin''"
    "requiredApproverRole ?t' ''SalesInvoice'' 700 = ''Cashier''"
    by (simp_all add: requiredApproverRole_def rule_matches_def)
  ultimately show ?thesis by blast
qed


definition sample_doc :: document where
  "sample_doc = \<lparr>d_doctype = ''ExpenseClaim'', d_id = ''X1'', d_data = [(''amount'', JNum 10)],
     d_status = ''Pending Approval'', d_created_by = ''maker'', d_updated_by = None, d_deleted = False,
     d_created_at = 0, d_updated_at = 0\<rparr>"



definition gated_tenant :: tenant where
  "gated_tenant = empty_tenant\<lparr>t_rules := [\<lparr>ar_id = 1, ar_doctype = ''ExpenseClaim'', ar_min = 0, ar_max = None, ar_role = ''Admin''\<rparr>]\<rparr>"


end
