(* ===== verification/Periods.thy ===== *)
theory Periods
  imports Approval
begin

text \<open>
  Accounting periods (engines/accounting_periods.go) and the period close
  (engines/period_close.go): creating, closing and reopening a period, the owned close tasks
  of each close round, and the check that refuses a posting dated in a closed period. The
  live check shown beside a close task reads reports of other engines and is an argument.
  Each operation is one transaction: an error leaves the tenant as it was, except
  \<open>RequestPeriodReopen\<close>, which writes before it submits.
\<close>

section \<open>Tables\<close>

definition find_period :: "tenant \<Rightarrow> string \<Rightarrow> accounting_period option" where
  "find_period t pid = find (\<lambda>p. ap_id p = pid) (t_periods t)"

definition update_period :: "string \<Rightarrow> (accounting_period \<Rightarrow> accounting_period) \<Rightarrow> tenant \<Rightarrow> tenant" where
  "update_period pid f t = t\<lparr>t_periods := map (\<lambda>p. if ap_id p = pid then f p else p) (t_periods t)\<rparr>"

definition find_task :: "tenant \<Rightarrow> string \<Rightarrow> string \<Rightarrow> close_task option" where
  "find_task t pid k = find (\<lambda>c. ct_period c = pid \<and> ct_key c = k) (t_tasks t)"

definition update_tasks :: "(close_task \<Rightarrow> bool) \<Rightarrow> (close_task \<Rightarrow> close_task) \<Rightarrow> tenant \<Rightarrow> tenant" where
  "update_tasks q f t = t\<lparr>t_tasks := map (\<lambda>c. if q c then f c else c) (t_tasks t)\<rparr>"

definition periodCloseTaskDefs :: "(string \<times> string) list" where
  "periodCloseTaskDefs =
     [(''bank'', ''Bank reconciliation''),
      (''stock_valuation'', ''Stock valuation tie-out''),
      (''ap_tieout'', ''Payables (AP) tie-out''),
      (''ar_tieout'', ''Receivables (AR) tie-out''),
      (''settlement'', ''Marketplace / POS settlement'')]"

definition periodCloseTaskDefByKey :: "string \<Rightarrow> string option" where
  "periodCloseTaskDefByKey k = map_of periodCloseTaskDefs k"

definition new_task :: "string \<Rightarrow> nat \<Rightarrow> string \<times> string \<Rightarrow> close_task" where
  "new_task pid r d = \<lparr>ct_period = pid, ct_key = fst d, ct_title = snd d, ct_owner = None,
     ct_status = ''Open'', ct_evidence = None, ct_evidence_ref = None, ct_snapshot = None,
     ct_signed_by = None, ct_round = r\<rparr>"

definition ensurePeriodCloseTasks :: "string \<Rightarrow> nat \<Rightarrow> tenant \<Rightarrow> tenant" where
  "ensurePeriodCloseTasks pid r t =
     t\<lparr>t_tasks := t_tasks t @ map (new_task pid r) (filter (\<lambda>d. find_task t pid (fst d) = None) periodCloseTaskDefs)\<rparr>"

definition writePeriodCloseLog :: "string \<Rightarrow> nat \<Rightarrow> string \<Rightarrow> string \<Rightarrow> string \<Rightarrow> tenant \<Rightarrow> tenant" where
  "writePeriodCloseLog pid r event task actor t =
     t\<lparr>t_close_log := t_close_log t @
        [\<lparr>cl_period = pid, cl_round = r, cl_event = event, cl_task = task, cl_actor = actor\<rparr>]\<rparr>"

definition CanManagePeriodClose :: "string \<Rightarrow> bool" where
  "CanManagePeriodClose role \<longleftrightarrow> HasFullAccess role \<or> equal_fold (trim role) ''Accountant''
     \<or> equal_fold (trim role) ''Finance Head''"

section \<open>Creating a period\<close>

text \<open>The overlap query casts both dates, so a value that is not a date is an error of the database.\<close>

definition CreateAccountingPeriod ::
  "string \<Rightarrow> string \<Rightarrow> string \<Rightarrow> string \<Rightarrow> string \<Rightarrow> tenant \<Rightarrow> (tenant \<times> string) res" where
  "CreateAccountingPeriod name s e usr new_id t =
     (if s \<noteq> [] \<and> e \<noteq> [] \<and> e < s then Inl (Coded ''GLOBAL-0012'')
      else if \<not> is_iso_date s \<or> \<not> is_iso_date e then Inl (Plain ''invalid input syntax for type date'')
      else if list_ex (\<lambda>p. ap_start p \<le> e \<and> s \<le> ap_end p) (t_periods t)
      then Inl (Plain ''date range overlaps existing period'')
      else Inr (LogAuditEvent usr ''CREATE_ACCOUNTING_PERIOD'' ''SUCCESS''
        (t\<lparr>t_periods := t_periods t @ [\<lparr>ap_id = new_id, ap_name = name, ap_start = s, ap_end = e,
            ap_status = ''Open'', ap_closed_by = None, ap_closed_at = None, ap_created_by = usr,
            ap_round = 1, ap_reopened_by = None\<rparr>]\<rparr>), new_id))"

section \<open>Close tasks\<close>

definition lockOpenPeriod :: "tenant \<Rightarrow> string \<Rightarrow> accounting_period res" where
  "lockOpenPeriod t pid = (case find_period t pid of
     None \<Rightarrow> Inl (Coded ''FIN-0502'')
   | Some p \<Rightarrow> if ap_status p \<noteq> ''Open'' then Inl (Coded ''FIN-0503'') else Inr p)"

definition active_user :: "tenant \<Rightarrow> string \<Rightarrow> bool" where
  "active_user t n \<longleftrightarrow> list_ex (\<lambda>u. u_name u = n \<and> u_active u) (t_users t)"

definition is_task :: "string \<Rightarrow> string \<Rightarrow> close_task \<Rightarrow> bool" where
  "is_task pid k c \<longleftrightarrow> ct_period c = pid \<and> ct_key c = k"

definition AssignPeriodCloseTask ::
  "string \<Rightarrow> string \<Rightarrow> string \<Rightarrow> string \<Rightarrow> string \<Rightarrow> tenant \<Rightarrow> tenant res" where
  "AssignPeriodCloseTask pid k owner0 actor role t =
     (if \<not> CanManagePeriodClose role then Inl (Coded ''FIN-0504'')
      else if periodCloseTaskDefByKey k = None then Inl (Coded ''FIN-0502'')
      else let owner = trim owner0 in
        if owner = [] \<or> \<not> active_user t owner then Inl (Coded ''FIN-0505'')
        else rbind (lockOpenPeriod t pid) (\<lambda>p.
          let t1 = ensurePeriodCloseTasks pid (ap_round p) t in
          case find_task t1 pid k of
            None \<Rightarrow> Inl (Plain ''no rows in result set'')
          | Some c \<Rightarrow>
              if ct_status c \<noteq> ''Open'' then Inl (Coded ''FIN-0506'')
              else Inr (LogAuditEvent actor ''PERIOD_CLOSE_TASK_ASSIGNED'' ''SUCCESS''
                (writePeriodCloseLog pid (ap_round p) ''TASK_ASSIGNED'' k actor
                  (update_tasks (is_task pid k) (\<lambda>c. c\<lparr>ct_owner := Some owner\<rparr>) t1)))))"

definition SignOffPeriodCloseTask ::
  "(string \<Rightarrow> string \<Rightarrow> string \<Rightarrow> tenant \<Rightarrow> bool) \<Rightarrow> string \<Rightarrow> string \<Rightarrow> string \<Rightarrow> string \<Rightarrow> string \<Rightarrow> string
     \<Rightarrow> tenant \<Rightarrow> tenant res" where
  "SignOffPeriodCloseTask check pid k st evidence0 ref actor t =
     (if periodCloseTaskDefByKey k = None then Inl (Coded ''FIN-0502'')
      else if st \<noteq> ''Done'' \<and> st \<noteq> ''Not applicable'' then Inl (Coded ''FIN-0507'')
      else let evidence = trim evidence0 in
        if length evidence < 10 then Inl (Coded ''FIN-0507'')
        else rbind (lockOpenPeriod t pid) (\<lambda>p.
          let t1 = ensurePeriodCloseTasks pid (ap_round p) t in
          case find_task t1 pid k of
            None \<Rightarrow> Inl (Plain ''no rows in result set'')
          | Some c \<Rightarrow>
              if ct_status c \<noteq> ''Open'' then Inl (Coded ''FIN-0506'')
              else if coalesce (ct_owner c) [] = [] then Inl (Coded ''FIN-0508'')
              else if coalesce (ct_owner c) [] \<noteq> actor then Inl (Coded ''FIN-0508'')
              else Inr (LogAuditEvent actor ''PERIOD_CLOSE_TASK_SIGNED'' ''SUCCESS''
                (writePeriodCloseLog pid (ap_round p) ''TASK_SIGNED'' k actor
                  (update_tasks (is_task pid k) (\<lambda>c. c\<lparr>ct_status := st, ct_evidence := Some evidence,
                     ct_evidence_ref := (if trim ref = [] then None else Some (trim ref)),
                     ct_snapshot := Some (check k (ap_start p) (ap_end p) t1),
                     ct_signed_by := Some actor, ct_round := ap_round p\<rparr>) t1)))))"

definition reopen_task :: "close_task \<Rightarrow> close_task" where
  "reopen_task c = c\<lparr>ct_status := ''Open'', ct_evidence := None, ct_evidence_ref := None,
     ct_snapshot := None, ct_signed_by := None\<rparr>"

definition UndoPeriodCloseTaskSignOff ::
  "string \<Rightarrow> string \<Rightarrow> string \<Rightarrow> string \<Rightarrow> string \<Rightarrow> tenant \<Rightarrow> tenant res" where
  "UndoPeriodCloseTaskSignOff pid k reason actor role t =
     (if periodCloseTaskDefByKey k = None then Inl (Coded ''FIN-0502'')
      else if trim reason = [] then Inl (Coded ''FIN-0507'')
      else rbind (lockOpenPeriod t pid) (\<lambda>p.
        case find_task t pid k of
          None \<Rightarrow> Inl (Coded ''FIN-0502'')
        | Some c \<Rightarrow>
            if ct_status c = ''Open'' then Inl (Coded ''FIN-0506'')
            else if actor \<noteq> coalesce (ct_owner c) [] \<and> \<not> CanManagePeriodClose role then Inl (Coded ''FIN-0508'')
            else Inr (LogAuditEvent actor ''PERIOD_CLOSE_TASK_UNDONE'' ''SUCCESS''
              (writePeriodCloseLog pid (ap_round p) ''TASK_UNDONE'' k actor
                (update_tasks (is_task pid k) reopen_task t)))))"

section \<open>Closing\<close>

definition requireSignedCloseTasks :: "string \<Rightarrow> nat \<Rightarrow> tenant \<Rightarrow> tenant res" where
  "requireSignedCloseTasks pid r t =
     (let t1 = ensurePeriodCloseTasks pid r t in
      if list_ex (\<lambda>c. ct_period c = pid \<and> ct_status c = ''Open'') (t_tasks t1)
      then Inl (Coded ''FIN-0501'') else Inr t1)"

definition periodTillBlockers :: "tenant \<Rightarrow> string \<Rightarrow> nat \<times> nat" where
  "periodTillBlockers t e =
     (length (filter (\<lambda>d. d_doctype d = ''POSSession'' \<and> \<not> d_deleted d
        \<and> d_status d \<in> {''Open'', ''Draft'', ''Pending Approval''} \<and> d_created_at d < t_day_end t e) (t_documents t)),
      length (filter (\<lambda>n. find_doc t ''POSCart'' n = None)
        (concat (map hb_carts (filter (\<lambda>h. hb_updated_at h < t_day_end t e) (t_heartbeats t))))))"

definition CloseAccountingPeriod :: "string \<Rightarrow> string \<Rightarrow> tenant \<Rightarrow> tenant res" where
  "CloseAccountingPeriod pid usr t = (case find_period t pid of
     None \<Rightarrow> Inl (Plain ''period not found'')
   | Some p \<Rightarrow>
       if ap_status p \<noteq> ''Open'' then Inl (Plain ''period is already closed'')
       else rbind (requireSignedCloseTasks pid (ap_round p) t) (\<lambda>t1.
         if periodTillBlockers t1 (ap_end p) \<noteq> (0, 0) then Inl (Coded ''FIN-0501'')
         else Inr (LogAuditEvent usr ''CLOSE_ACCOUNTING_PERIOD'' ''SUCCESS''
           (writePeriodCloseLog pid (ap_round p) ''CLOSED'' [] (usernameForUserID t usr)
             (update_period pid (\<lambda>p. p\<lparr>ap_status := ''Closed'', ap_closed_by := Some usr,
                ap_closed_at := Some (t_now t)\<rparr>) t1)))))"

section \<open>Reopening\<close>

definition reopen_outstanding :: "string \<Rightarrow> document \<Rightarrow> bool" where
  "reopen_outstanding pid d \<longleftrightarrow> d_doctype d = ''PeriodReopenRequest'' \<and> jtext (d_data d) ''period_id'' = Some pid
     \<and> (d_status d = ''Pending Approval'' \<or> (d_status d = ''Approved'' \<and> \<not> jbool (d_data d) ''applied''))"

text \<open>
  \<open>RequestPeriodReopen\<close>: the request is inserted as a Draft before it is submitted; when
  the submission is refused the request stays, marked Failed.
\<close>

definition RequestPeriodReopen ::
  "approval_env \<Rightarrow> string \<Rightarrow> string \<Rightarrow> string \<Rightarrow> string \<Rightarrow> string \<Rightarrow> string \<Rightarrow> tenant \<Rightarrow> tenant \<times> string res" where
  "RequestPeriodReopen env pid reason0 uid uname role new_id t =
     (if \<not> CanManagePeriodClose role then (t, Inl (Coded ''FIN-0504''))
      else let reason = trim reason0 in
        if length reason < 10 then (t, Inl (Coded ''FIN-0507''))
        else case find_period t pid of
          None \<Rightarrow> (t, Inl (Coded ''FIN-0502''))
        | Some p \<Rightarrow>
            if ap_status p \<noteq> ''Closed'' then (t, Inl (Coded ''FIN-0509''))
            else if list_ex (reopen_outstanding pid) (t_documents t) then (t, Inl (Coded ''FIN-0509''))
            else
              let data = [(''period_id'', JStr pid), (''period_name'', JStr (ap_name p)),
                          (''reason'', JStr reason), (''requested_by'', JStr uname), (''status'', JStr ''Draft'')];
                  t1 = insert_doc (new_doc t ''PeriodReopenRequest'' new_id data ''Draft'' uid) t
              in case SubmitForApproval env ''PeriodReopenRequest'' new_id uid role t1 of
                   Inl e \<Rightarrow> (update_docs (is_doc ''PeriodReopenRequest'' new_id) (\<lambda>d. d\<lparr>d_status := ''Failed''\<rparr>) t1, Inl e)
                 | Inr t2 \<Rightarrow> (LogAuditEvent uid ''PERIOD_REOPEN_REQUESTED'' ''SUCCESS''
                     (writePeriodCloseLog pid (ap_round p) ''REOPEN_REQUESTED'' [] uname t2), Inr new_id))"

definition ApplyApprovedPeriodReopen :: "string \<Rightarrow> string \<Rightarrow> tenant \<Rightarrow> tenant res" where
  "ApplyApprovedPeriodReopen req approver0 t = (case find_doc t ''PeriodReopenRequest'' req of
     None \<Rightarrow> Inl (Coded ''FIN-0502'')
   | Some d \<Rightarrow>
       if d_status d \<noteq> ''Approved'' then Inl (Coded ''FIN-0509'')
       else if jbool (d_data d) ''applied'' then Inr t
       else case find_period t (jstr (d_data d) ''period_id'') of
         None \<Rightarrow> Inl (Coded ''FIN-0502'')
       | Some p \<Rightarrow>
           let pid = ap_id p;
               approver = (if approver0 = []
                 then (case rev (filter (\<lambda>e. ae_action e = ''Approved'') (doc_log t ''PeriodReopenRequest'' req)) of
                         [] \<Rightarrow> [] | e # _ \<Rightarrow> ae_actor e) else approver0);
               name = usernameForUserID t approver;
               t1 = (if ap_status p = ''Closed'' then
                   writePeriodCloseLog pid (Suc (ap_round p)) ''REOPENED'' [] name
                    (update_tasks (\<lambda>c. ct_period c = pid) (\<lambda>c. (reopen_task c)\<lparr>ct_round := Suc (ap_round p)\<rparr>)
                     (foldl (\<lambda>s c. writePeriodCloseLog pid (ap_round p) ''TASK_RESET'' (ct_key c) name s)
                       (update_period pid (\<lambda>q. q\<lparr>ap_status := ''Open'', ap_round := Suc (ap_round p), ap_closed_by := None,
                          ap_closed_at := None, ap_reopened_by := Some name\<rparr>) t)
                       (filter (\<lambda>c. ct_period c = pid) (t_tasks t))))
                 else t);
               t2 = update_docs (is_doc ''PeriodReopenRequest'' req)
                 (\<lambda>d. d\<lparr>d_data := jput ''applied'' (JBool True) (d_data d), d_updated_at := t_now t\<rparr>) t1
           in Inr (if ap_status p = ''Closed'' then LogAuditEvent approver ''PERIOD_REOPENED'' ''SUCCESS'' t2 else t2))"

section \<open>The guard on postings\<close>

definition isBackdatedPostingApproved :: "tenant \<Rightarrow> string \<Rightarrow> string \<Rightarrow> string \<Rightarrow> bool" where
  "isBackdatedPostingApproved t dt i txdate \<longleftrightarrow> i \<noteq> [] \<and>
     (let eff = (if txdate = [] then t_today t else txdate) in
      list_ex (\<lambda>d. d_doctype d = ''BackdatedPostingRequest'' \<and> d_status d = ''Approved''
        \<and> jtext (d_data d) ''target_doctype'' = Some dt \<and> jtext (d_data d) ''target_document_id'' = Some i
        \<and> jtext (d_data d) ''transaction_date'' = Some eff) (t_documents t))"

definition covers :: "string \<Rightarrow> accounting_period \<Rightarrow> bool" where
  "covers d p \<longleftrightarrow> ap_start p \<le> d \<and> d \<le> ap_end p"

definition rejectIfCurrentPeriodClosed :: "tenant \<Rightarrow> string \<Rightarrow> string \<Rightarrow> string \<Rightarrow> unit res" where
  "rejectIfCurrentPeriodClosed t dt i txdate =
     (if txdate \<noteq> [] \<and> \<not> is_iso_date txdate then Inl (Plain ''invalid input syntax for type date'')
      else if \<not> list_ex (\<lambda>p. ap_status p = ''Closed'' \<and> covers (if txdate = [] then t_today t else txdate) p) (t_periods t)
      then Inr ()
      else if isBackdatedPostingApproved t dt i txdate then Inr ()
      else Inl (Coded ''FIN-0260''))"

section \<open>The invariant of periods and close tasks\<close>

definition disjoint_ranges :: "accounting_period \<Rightarrow> accounting_period \<Rightarrow> bool" where
  "disjoint_ranges p q \<longleftrightarrow> ap_end p < ap_start q \<or> ap_end q < ap_start p"

definition periods_ok :: "accounting_period list \<Rightarrow> bool" where
  "periods_ok ps \<longleftrightarrow> distinct (map ap_id ps)
     \<and> (\<forall>p \<in> set ps. ap_start p \<le> ap_end p \<and> ap_status p \<in> {''Open'', ''Closed''})
     \<and> (\<forall>p \<in> set ps. \<forall>q \<in> set ps. ap_id p \<noteq> ap_id q \<longrightarrow> disjoint_ranges p q)"

definition task_signed :: "close_task \<Rightarrow> bool" where
  "task_signed c \<longleftrightarrow> ct_status c \<in> {''Done'', ''Not applicable''}
     \<and> (\<exists>ow. ow \<noteq> [] \<and> ct_owner c = Some ow \<and> ct_signed_by c = Some ow)
     \<and> (\<exists>ev. ct_evidence c = Some ev \<and> 10 \<le> length ev)"

definition task_ok :: "accounting_period list \<Rightarrow> close_task \<Rightarrow> bool" where
  "task_ok ps c \<longleftrightarrow> (\<exists>p \<in> set ps. ap_id p = ct_period c \<and> ap_round p = ct_round c)
     \<and> (ct_status c = ''Open'' \<or> task_signed c)"

definition closed_signed :: "accounting_period list \<Rightarrow> close_task list \<Rightarrow> bool" where
  "closed_signed ps ts \<longleftrightarrow> (\<forall>p \<in> set ps. ap_status p = ''Closed'' \<longrightarrow>
     (\<forall>c \<in> set ts. ct_period c = ap_id p \<longrightarrow> ct_status c \<noteq> ''Open'')
     \<and> (\<forall>k \<in> fst ` set periodCloseTaskDefs. \<exists>c \<in> set ts. is_task (ap_id p) k c))"

definition close_inv :: "accounting_period list \<Rightarrow> close_task list \<Rightarrow> bool" where
  "close_inv ps ts \<longleftrightarrow> periods_ok ps \<and> distinct (map (\<lambda>c. (ct_period c, ct_key c)) ts)
     \<and> (\<forall>c \<in> set ts. task_ok ps c) \<and> closed_signed ps ts"

lemma close_invD:
  assumes "close_inv ps ts"
  shows "periods_ok ps" "distinct (map (\<lambda>c. (ct_period c, ct_key c)) ts)"
    "\<And>c. c \<in> set ts \<Longrightarrow> task_ok ps c" "closed_signed ps ts"
  using assms by (auto simp: close_inv_def)

lemma period_id_inj:
  "periods_ok ps \<Longrightarrow> p \<in> set ps \<Longrightarrow> q \<in> set ps \<Longrightarrow> ap_id p = ap_id q \<Longrightarrow> p = q"
  by (auto simp: periods_ok_def intro: distinct_map_eq)

lemma closed_signedD:
  "closed_signed ps ts \<Longrightarrow> p \<in> set ps \<Longrightarrow> ap_status p = ''Closed'' \<Longrightarrow> k \<in> fst ` set periodCloseTaskDefs \<Longrightarrow>
    \<exists>c \<in> set ts. is_task (ap_id p) k c"
  unfolding closed_signed_def by blast

lemma task_round:
  assumes "close_inv ps ts" "p \<in> set ps" "c \<in> set ts" "ct_period c = ap_id p"
  shows "ct_round c = ap_round p"
proof -
  from close_invD(3) [OF assms(1,3)] obtain q where "q \<in> set ps" "ap_id q = ct_period c" "ap_round q = ct_round c"
    by (auto simp: task_ok_def)
  with assms(2,4) period_id_inj [OF close_invD(1) [OF assms(1)], of q p] show ?thesis by simp
qed

lemma task_key_inj:
  assumes "close_inv ps ts" "c \<in> set ts" "c' \<in> set ts" "ct_period c = ct_period c'" "ct_key c = ct_key c'"
  shows "c = c'"
  using distinct_map_eq [OF close_invD(2) [OF assms(1)], of c c'] assms(2-5) by simp

lemma find_periodD: "find_period t pid = Some p \<Longrightarrow> p \<in> set (t_periods t) \<and> ap_id p = pid"
  by (auto simp: find_period_def find_Some_iff)

lemma find_taskD: "find_task t pid k = Some c \<Longrightarrow> c \<in> set (t_tasks t) \<and> is_task pid k c"
  by (auto simp: find_task_def find_Some_iff is_task_def)

lemma find_task_None: "find_task t pid k = None \<longleftrightarrow> (\<forall>c \<in> set (t_tasks t). \<not> is_task pid k c)"
  by (auto simp: find_task_def find_None_iff is_task_def)

lemma lockOpenPeriodD:
  "lockOpenPeriod t pid = Inr p \<Longrightarrow> p \<in> set (t_periods t) \<and> ap_id p = pid \<and> ap_status p = ''Open''"
  by (auto simp: lockOpenPeriod_def dest: find_periodD split: option.splits if_splits)

lemma distinct_task_defs: "distinct (map fst periodCloseTaskDefs)"
  by (simp add: periodCloseTaskDefs_def)

lemma ensure_simps [simp]:
  "t_periods (ensurePeriodCloseTasks pid r t) = t_periods t"
  "t_documents (ensurePeriodCloseTasks pid r t) = t_documents t"
  by (simp_all add: ensurePeriodCloseTasks_def)

lemma close_inv_ensure:
  assumes "close_inv (t_periods t) (t_tasks t)" "p \<in> set (t_periods t)" "ap_id p = pid" "ap_status p = ''Open''"
  shows "close_inv (t_periods t) (t_tasks (ensurePeriodCloseTasks pid (ap_round p) t))"
proof -
  note inv = close_invD [OF assms(1)]
  let ?new = "map (new_task pid (ap_round p)) (filter (\<lambda>d. find_task t pid (fst d) = None) periodCloseTaskDefs)"
  have ts: "t_tasks (ensurePeriodCloseTasks pid (ap_round p) t) = t_tasks t @ ?new"
    by (simp add: ensurePeriodCloseTasks_def)
  have "distinct (map (\<lambda>c. (ct_period c, ct_key c)) ?new)"
    using distinct_task_defs by (auto simp: new_task_def comp_def distinct_map inj_on_def)
  moreover have "(\<lambda>c. (ct_period c, ct_key c)) ` set (t_tasks t) \<inter> (\<lambda>c. (ct_period c, ct_key c)) ` set ?new = {}"
    by (auto simp: new_task_def find_task_None is_task_def)
  moreover have "task_ok (t_periods t) c" if "c \<in> set ?new" for c
    using that assms(2,3) by (auto simp: task_ok_def new_task_def)
  moreover have "closed_signed (t_periods t) (t_tasks t @ ?new)"
    unfolding closed_signed_def
  proof (intro ballI impI conjI)
    fix q assume q: "q \<in> set (t_periods t)" "ap_status q = ''Closed''"
    then have ne: "ap_id q \<noteq> pid" using period_id_inj [OF inv(1), of q p] assms(2-4) by auto
    show "ct_status c \<noteq> ''Open''" if "c \<in> set (t_tasks t @ ?new)" "ct_period c = ap_id q" for c
      using that ne q inv(4) by (auto simp: new_task_def closed_signed_def)
    show "\<exists>c \<in> set (t_tasks t @ ?new). is_task (ap_id q) k c" if "k \<in> fst ` set periodCloseTaskDefs" for k
      using closed_signedD [OF inv(4) q that] by auto
  qed
  ultimately show ?thesis using inv unfolding close_inv_def ts by auto
qed

lemma close_inv_update_tasks:
  assumes "close_inv ps ts" and "p \<in> set ps" "ap_status p = ''Open''"
    and "\<And>c. c \<in> set ts \<Longrightarrow> q c \<Longrightarrow> ct_period c = ap_id p"
    and "\<And>c. ct_period (f c) = ct_period c" "\<And>c. ct_key (f c) = ct_key c"
    and "\<And>c. c \<in> set ts \<Longrightarrow> q c \<Longrightarrow> ct_round (f c) = ap_round p \<and> (ct_status (f c) = ''Open'' \<or> task_signed (f c))"
  shows "close_inv ps (map (\<lambda>c. if q c then f c else c) ts)"
proof -
  note inv = close_invD [OF assms(1)]
  let ?g = "\<lambda>c. if q c then f c else c"
  have key: "map (\<lambda>c. (ct_period c, ct_key c)) (map ?g ts) = map (\<lambda>c. (ct_period c, ct_key c)) ts"
    using assms(5,6) by simp
  have "task_ok ps (?g c)" if "c \<in> set ts" for c
    using inv(3) [OF that] assms(2,4-7) that by (auto simp: task_ok_def)
  moreover have "closed_signed ps (map ?g ts)"
    unfolding closed_signed_def
  proof (intro ballI impI conjI)
    fix r assume r: "r \<in> set ps" "ap_status r = ''Closed''"
    then have ne: "ap_id r \<noteq> ap_id p" using period_id_inj [OF inv(1), of r p] assms(2,3) by auto
    show "ct_status c \<noteq> ''Open''" if "c \<in> set (map ?g ts)" "ct_period c = ap_id r" for c
      using that ne r inv(4) assms(4,5) by (auto simp: closed_signed_def split: if_splits)
    fix k assume "k \<in> fst ` set periodCloseTaskDefs"
    with closed_signedD [OF inv(4) r] obtain c where c: "c \<in> set ts" "is_task (ap_id r) k c" by blast
    then have "is_task (ap_id r) k (?g c)" using assms(5,6) by (simp add: is_task_def)
    moreover have "?g c \<in> set (map ?g ts)" unfolding set_map using c(1) by (rule imageI)
    ultimately show "\<exists>c \<in> set (map ?g ts). is_task (ap_id r) k c" by blast
  qed
  ultimately show ?thesis using inv(1,2) unfolding close_inv_def key
    by (metis (no_types, lifting) imageE set_map)
qed

lemma t_tables_close [simp]:
  "t_periods (writePeriodCloseLog pid r e k a t) = t_periods t"
  "t_tasks (writePeriodCloseLog pid r e k a t) = t_tasks t"
  "t_documents (writePeriodCloseLog pid r e k a t) = t_documents t"
  "t_periods (update_tasks q f t) = t_periods t"
  "t_tasks (update_tasks q f t) = map (\<lambda>c. if q c then f c else c) (t_tasks t)"
  "t_documents (update_tasks q f t) = t_documents t"
  "t_periods (update_period pid g t) = map (\<lambda>p. if ap_id p = pid then g p else p) (t_periods t)"
  "t_tasks (update_period pid g t) = t_tasks t"
  "t_documents (update_period pid g t) = t_documents t"
  by (simp_all add: writePeriodCloseLog_def update_tasks_def update_period_def)

lemma create_inv [inv_intros]:
  assumes "close_inv (t_periods t) (t_tasks t)" and "CreateAccountingPeriod name s e usr new t = Inr (t', i)"
    and "new \<notin> ap_id ` set (t_periods t)"
  shows "close_inv (t_periods t') (t_tasks t')"
proof -
  note inv = close_invD [OF assms(1)]
  define p where "p = \<lparr>ap_id = new, ap_name = name, ap_start = s, ap_end = e, ap_status = ''Open'',
      ap_closed_by = None, ap_closed_at = None, ap_created_by = usr, ap_round = 1, ap_reopened_by = None\<rparr>"
  from assms(2) have ord: "s = [] \<or> e = [] \<or> s \<le> e" and iso: "is_iso_date s" "is_iso_date e"
    and no: "\<And>q. q \<in> set (t_periods t) \<Longrightarrow> \<not> (ap_start q \<le> e \<and> s \<le> ap_end q)"
    and t': "t_periods t' = t_periods t @ [p]" "t_tasks t' = t_tasks t"
    by (auto simp: CreateAccountingPeriod_def list_ex_iff p_def split: if_splits)
  have "s \<le> e" using ord iso by (auto simp: is_iso_date_def parse_date_def)
  moreover have "disjoint_ranges p q \<and> disjoint_ranges q p" if "q \<in> set (t_periods t)" for q
    using no [OF that] by (auto simp: disjoint_ranges_def p_def)
  ultimately have "periods_ok (t_periods t')"
    using inv(1) assms(3) by (auto simp: t' periods_ok_def p_def [symmetric]) (auto simp: p_def)
  moreover have "task_ok (t_periods t') c" if "c \<in> set (t_tasks t)" for c
    using inv(3) [OF that] by (auto simp: t' task_ok_def)
  moreover have "closed_signed (t_periods t') (t_tasks t)"
    using inv(4) by (simp add: t' closed_signed_def) (simp add: p_def)
  ultimately show ?thesis using inv unfolding close_inv_def t'(2) by auto
qed

lemma assign_inv [inv_intros]:
  assumes "close_inv (t_periods t) (t_tasks t)" and "AssignPeriodCloseTask pid k ow actor role t = Inr t'"
  shows "close_inv (t_periods t') (t_tasks t')"
proof -
  from assms(2) obtain p c where p: "lockOpenPeriod t pid = Inr p"
    and c: "find_task (ensurePeriodCloseTasks pid (ap_round p) t) pid k = Some c" "ct_status c = ''Open''"
    and t': "t' = LogAuditEvent actor ''PERIOD_CLOSE_TASK_ASSIGNED'' ''SUCCESS''
                (writePeriodCloseLog pid (ap_round p) ''TASK_ASSIGNED'' k actor
                  (update_tasks (is_task pid k) (\<lambda>c. c\<lparr>ct_owner := Some (trim ow)\<rparr>) (ensurePeriodCloseTasks pid (ap_round p) t)))"
    by (auto simp: AssignPeriodCloseTask_def Let_def split: if_splits option.splits)
  note P = lockOpenPeriodD [OF p]
  from P assms(1) have inv: "close_inv (t_periods t) (t_tasks (ensurePeriodCloseTasks pid (ap_round p) t))"
    by (intro close_inv_ensure) auto
  show ?thesis unfolding t'
  proof (simp, rule close_inv_update_tasks [OF inv, of p])
    fix d assume d: "d \<in> set (t_tasks (ensurePeriodCloseTasks pid (ap_round p) t))" "is_task pid k d"
    with find_taskD [OF c(1)] have "d = c" by (intro task_key_inj [OF inv]) (auto simp: is_task_def)
    moreover have "ct_round d = ap_round p"
      using d P by (intro task_round [OF inv]) (auto simp: is_task_def)
    ultimately show "ct_round (d\<lparr>ct_owner := Some (trim ow)\<rparr>) = ap_round p
      \<and> (ct_status (d\<lparr>ct_owner := Some (trim ow)\<rparr>) = ''Open'' \<or> task_signed (d\<lparr>ct_owner := Some (trim ow)\<rparr>))"
      using c(2) by simp
  qed (use P in \<open>auto simp: is_task_def\<close>)
qed

lemma sign_inv [inv_intros]:
  assumes "close_inv (t_periods t) (t_tasks t)" and "SignOffPeriodCloseTask chk pid k st ev ref actor t = Inr t'"
  shows "close_inv (t_periods t') (t_tasks t')"
proof -
  from assms(2) obtain p c where p: "lockOpenPeriod t pid = Inr p"
    and c: "find_task (ensurePeriodCloseTasks pid (ap_round p) t) pid k = Some c"
    and st: "st \<in> {''Done'', ''Not applicable''}" and ev: "10 \<le> length (trim ev)"
    and ow: "coalesce (ct_owner c) [] = actor" "actor \<noteq> []"
    and t': "t' = LogAuditEvent actor ''PERIOD_CLOSE_TASK_SIGNED'' ''SUCCESS''
                (writePeriodCloseLog pid (ap_round p) ''TASK_SIGNED'' k actor
                  (update_tasks (is_task pid k) (\<lambda>c. c\<lparr>ct_status := st, ct_evidence := Some (trim ev),
                     ct_evidence_ref := (if trim ref = [] then None else Some (trim ref)),
                     ct_snapshot := Some (chk k (ap_start p) (ap_end p) (ensurePeriodCloseTasks pid (ap_round p) t)),
                     ct_signed_by := Some actor, ct_round := ap_round p\<rparr>) (ensurePeriodCloseTasks pid (ap_round p) t)))"
    by (auto simp: SignOffPeriodCloseTask_def Let_def split: if_splits option.splits)
  note P = lockOpenPeriodD [OF p]
  from ow have owner: "ct_owner c = Some actor" by (auto simp: coalesce_def split: option.splits)
  from P assms(1) have inv: "close_inv (t_periods t) (t_tasks (ensurePeriodCloseTasks pid (ap_round p) t))"
    by (intro close_inv_ensure) auto
  have same: "d = c" if "d \<in> set (t_tasks (ensurePeriodCloseTasks pid (ap_round p) t))" "is_task pid k d" for d
    using that find_taskD [OF c] by (intro task_key_inj [OF inv]) (auto simp: is_task_def)
  show ?thesis unfolding t' LogAuditEvent_simps t_tables_close ensure_simps
    by (rule close_inv_update_tasks [OF inv, of p])
       (use P st ev ow owner same in \<open>auto simp: is_task_def task_signed_def\<close>)
qed

lemma undo_inv [inv_intros]:
  assumes "close_inv (t_periods t) (t_tasks t)" and "UndoPeriodCloseTaskSignOff pid k reason actor role t = Inr t'"
  shows "close_inv (t_periods t') (t_tasks t')"
proof -
  from assms(2) obtain p where p: "lockOpenPeriod t pid = Inr p"
    and t': "t' = LogAuditEvent actor ''PERIOD_CLOSE_TASK_UNDONE'' ''SUCCESS''
              (writePeriodCloseLog pid (ap_round p) ''TASK_UNDONE'' k actor (update_tasks (is_task pid k) reopen_task t))"
    by (auto simp: UndoPeriodCloseTaskSignOff_def split: if_splits option.splits)
  note P = lockOpenPeriodD [OF p]
  show ?thesis unfolding t'
  proof (simp, rule close_inv_update_tasks [OF assms(1), of p])
    fix d assume d: "d \<in> set (t_tasks t)" "is_task pid k d"
    then have "ct_round d = ap_round p"
      using P by (intro task_round [OF assms(1)]) (auto simp: is_task_def)
    then show "ct_round (reopen_task d) = ap_round p \<and> (ct_status (reopen_task d) = ''Open'' \<or> task_signed (reopen_task d))"
      by (simp add: reopen_task_def)
  qed (use P in \<open>auto simp: is_task_def reopen_task_def\<close>)
qed

text \<open>Closing and reopening change one period and possibly all of its tasks.\<close>

lemma periods_ok_update:
  assumes "periods_ok ps"
    and "\<And>p. ap_id (g p) = ap_id p \<and> ap_start (g p) = ap_start p \<and> ap_end (g p) = ap_end p"
    and "\<And>p. ap_status (g p) \<in> {''Open'', ''Closed''}"
  shows "periods_ok (map (\<lambda>p. if ap_id p = pid then g p else p) ps)"
proof -
  define h where "h = (\<lambda>p. if ap_id p = pid then g p else p)"
  have h: "ap_id (h p) = ap_id p" "ap_start (h p) = ap_start p" "ap_end (h p) = ap_end p" for p
    using assms(2) by (simp_all add: h_def)
  have st: "ap_status (h p) \<in> {''Open'', ''Closed''}" if "p \<in> set ps" for p
    using assms(1,3) that by (auto simp: h_def periods_ok_def)
  have ids: "map ap_id (map h ps) = map ap_id ps" by (simp add: h)
  have "periods_ok (map h ps)"
    unfolding periods_ok_def ids set_map ball_simps disjoint_ranges_def h
    using assms(1) st unfolding periods_ok_def disjoint_ranges_def by blast
  then show ?thesis by (simp add: h_def)
qed

lemma close_period_inv [inv_intros]:
  assumes "close_inv (t_periods t) (t_tasks t)" and "CloseAccountingPeriod pid usr t = Inr t'"
  shows "close_inv (t_periods t') (t_tasks t')"
proof -
  from assms(2) obtain p where p: "find_period t pid = Some p" "ap_status p = ''Open''"
    and no: "\<And>c. c \<in> set (t_tasks (ensurePeriodCloseTasks pid (ap_round p) t)) \<Longrightarrow> ct_period c = pid \<Longrightarrow> ct_status c \<noteq> ''Open''"
    and t': "t_periods t' = map (\<lambda>q. if ap_id q = pid then q\<lparr>ap_status := ''Closed'', ap_closed_by := Some usr,
                ap_closed_at := Some (t_now t)\<rparr> else q) (t_periods t)"
        "t_tasks t' = t_tasks (ensurePeriodCloseTasks pid (ap_round p) t)"
    by (auto simp: CloseAccountingPeriod_def requireSignedCloseTasks_def Let_def list_ex_iff split: option.splits if_splits)
  note P = find_periodD [OF p(1)]
  from P assms(1) p have inv: "close_inv (t_periods t) (t_tasks t')"
    unfolding t'(2) by (intro close_inv_ensure) auto
  have all: "\<exists>c \<in> set (t_tasks t'). is_task pid k c" if "k \<in> fst ` set periodCloseTaskDefs" for k
  proof (cases "find_task t pid k")
    case None
    from that obtain d where d: "d \<in> set periodCloseTaskDefs" "fst d = k" by auto
    with None have "new_task pid (ap_round p) d \<in> set (t_tasks t')"
      by (auto simp: t'(2) ensurePeriodCloseTasks_def)
    then show ?thesis by (rule bexI [rotated]) (simp add: is_task_def new_task_def d(2))
  next
    case (Some c)
    from find_taskD [OF this] have "c \<in> set (t_tasks t') \<and> is_task pid k c"
      by (simp add: t'(2) ensurePeriodCloseTasks_def)
    then show ?thesis by blast
  qed
  have "task_ok (t_periods t') c" if "c \<in> set (t_tasks t')" for c
  proof -
    from close_invD(3) [OF inv that] obtain q
      where q: "q \<in> set (t_periods t)" "ap_id q = ct_period c" "ap_round q = ct_round c"
      and st: "ct_status c = ''Open'' \<or> task_signed c" by (auto simp: task_ok_def)
    from q(1) have "(if ap_id q = pid then q\<lparr>ap_status := ''Closed'', ap_closed_by := Some usr,
        ap_closed_at := Some (t_now t)\<rparr> else q) \<in> set (t_periods t')" unfolding t'(1) set_map by (rule imageI)
    moreover have "ap_id (if ap_id q = pid then q\<lparr>ap_status := ''Closed'', ap_closed_by := Some usr,
        ap_closed_at := Some (t_now t)\<rparr> else q) = ct_period c"
      "ap_round (if ap_id q = pid then q\<lparr>ap_status := ''Closed'', ap_closed_by := Some usr,
        ap_closed_at := Some (t_now t)\<rparr> else q) = ct_round c" using q by simp_all
    ultimately show ?thesis using st unfolding task_ok_def by blast
  qed
  moreover have "closed_signed (t_periods t') (t_tasks t')"
    unfolding closed_signed_def
  proof (intro ballI impI)
    fix q assume "q \<in> set (t_periods t')" "ap_status q = ''Closed''"
    then consider "ap_id q = pid" | "q \<in> set (t_periods t)" by (auto simp: t'(1) split: if_splits)
    then show "(\<forall>c \<in> set (t_tasks t'). ct_period c = ap_id q \<longrightarrow> ct_status c \<noteq> ''Open'')
        \<and> (\<forall>k \<in> fst ` set periodCloseTaskDefs. \<exists>c \<in> set (t_tasks t'). is_task (ap_id q) k c)"
    proof cases
      case 1
      with no all show ?thesis unfolding t'(2) by blast
    next
      case 2
      with close_invD(4) [OF inv] \<open>ap_status q = ''Closed''\<close> show ?thesis unfolding closed_signed_def by blast
    qed
  qed
  moreover have "periods_ok (t_periods t')"
    unfolding t'(1) by (rule periods_ok_update [OF close_invD(1) [OF inv]]) simp_all
  ultimately show ?thesis using close_invD(2) [OF inv] unfolding close_inv_def by blast
qed

definition reopened :: "string \<Rightarrow> nat \<Rightarrow> string \<Rightarrow> accounting_period list \<Rightarrow> accounting_period list" where
  "reopened pid r name = map (\<lambda>q. if ap_id q = pid
     then q\<lparr>ap_status := ''Open'', ap_round := r, ap_closed_by := None, ap_closed_at := None,
            ap_reopened_by := Some name\<rparr> else q)"

definition reset_tasks :: "string \<Rightarrow> nat \<Rightarrow> close_task list \<Rightarrow> close_task list" where
  "reset_tasks pid r = map (\<lambda>c. if ct_period c = pid then (reopen_task c)\<lparr>ct_round := r\<rparr> else c)"

lemma foldl_log_tables:
  "t_periods (foldl (\<lambda>s c. writePeriodCloseLog pid r e (g c) a s) t cs) = t_periods t
   \<and> t_tasks (foldl (\<lambda>s c. writePeriodCloseLog pid r e (g c) a s) t cs) = t_tasks t
   \<and> t_documents (foldl (\<lambda>s c. writePeriodCloseLog pid r e (g c) a s) t cs) = t_documents t"
  by (induction cs arbitrary: t) simp_all

lemma apply_reopen_cases:
  assumes "ApplyApprovedPeriodReopen req approver t = Inr t'"
  obtains (same) "t_periods t' = t_periods t" "t_tasks t' = t_tasks t"
  | (reopen) d p name where "find_doc t ''PeriodReopenRequest'' req = Some d" "d_status d = ''Approved''"
      "\<not> jbool (d_data d) ''applied''" "find_period t (jstr (d_data d) ''period_id'') = Some p" "ap_status p = ''Closed''"
      "t_periods t' = reopened (ap_id p) (Suc (ap_round p)) name (t_periods t)"
      "t_tasks t' = reset_tasks (ap_id p) (Suc (ap_round p)) (t_tasks t)"
proof -
  from assms obtain d where d: "find_doc t ''PeriodReopenRequest'' req = Some d" "d_status d = ''Approved''"
    by (auto simp: ApplyApprovedPeriodReopen_def split: option.splits if_splits)
  show ?thesis
  proof (cases "jbool (d_data d) ''applied''")
    case True
    with assms d have "t' = t" by (simp add: ApplyApprovedPeriodReopen_def)
    with same show ?thesis by simp
  next
    case False
    with assms d obtain p where p: "find_period t (jstr (d_data d) ''period_id'') = Some p"
      by (auto simp: ApplyApprovedPeriodReopen_def split: option.splits)
    show ?thesis
    proof (cases "ap_status p = ''Closed''")
      case True
      show ?thesis
      proof (rule reopen [OF d False p True])
        show "t_periods t' = reopened (ap_id p) (Suc (ap_round p)) (usernameForUserID t
            (if approver = [] then (case rev (filter (\<lambda>e. ae_action e = ''Approved'') (doc_log t ''PeriodReopenRequest'' req)) of
                         [] \<Rightarrow> [] | e # _ \<Rightarrow> ae_actor e) else approver)) (t_periods t)"
          using assms d False p True
          by (auto simp: ApplyApprovedPeriodReopen_def Let_def foldl_log_tables reopened_def)
        show "t_tasks t' = reset_tasks (ap_id p) (Suc (ap_round p)) (t_tasks t)"
          using assms d False p True
          by (auto simp: ApplyApprovedPeriodReopen_def Let_def foldl_log_tables reset_tasks_def)
      qed
    next
      case False
      with assms d \<open>\<not> jbool (d_data d) ''applied''\<close> p same show ?thesis
        by (auto simp: ApplyApprovedPeriodReopen_def Let_def)
    qed
  qed
qed

lemma reopen_inv [inv_intros]:
  assumes inv: "close_inv (t_periods t) (t_tasks t)" and "ApplyApprovedPeriodReopen req approver t = Inr t'"
  shows "close_inv (t_periods t') (t_tasks t')"
  using assms(2)
proof (cases rule: apply_reopen_cases)
  case same
  with inv show ?thesis by simp
next
  case (reopen d p name)
  note P = find_periodD [OF reopen(4)]
  let ?pid = "ap_id p" and ?r = "Suc (ap_round p)"
  let ?g = "\<lambda>q. if ap_id q = ?pid then q\<lparr>ap_status := ''Open'', ap_round := ?r, ap_closed_by := None,
      ap_closed_at := None, ap_reopened_by := Some name\<rparr> else q"
  have "map (\<lambda>c. (ct_period c, ct_key c)) (reset_tasks ?pid ?r (t_tasks t)) = map (\<lambda>c. (ct_period c, ct_key c)) (t_tasks t)"
    by (simp add: reset_tasks_def reopen_task_def)
  then have 1: "distinct (map (\<lambda>c. (ct_period c, ct_key c)) (t_tasks t'))"
    using close_invD(2) [OF inv] by (simp add: reopen)
  have 2: "periods_ok (t_periods t')"
    unfolding reopen reopened_def by (rule periods_ok_update [OF close_invD(1) [OF inv]]) simp_all
  have 3: "task_ok (t_periods t') c" if "c \<in> set (t_tasks t')" for c
  proof -
    from that obtain c0 where c0: "c0 \<in> set (t_tasks t)"
      "c = (if ct_period c0 = ?pid then (reopen_task c0)\<lparr>ct_round := ?r\<rparr> else c0)"
      unfolding reopen reset_tasks_def by auto
    from close_invD(3) [OF inv c0(1)] obtain q where q: "q \<in> set (t_periods t)" "ap_id q = ct_period c0" "ap_round q = ct_round c0"
      and st: "ct_status c0 = ''Open'' \<or> task_signed c0" by (auto simp: task_ok_def)
    have "?g q \<in> set (t_periods t')" unfolding reopen reopened_def set_map using q(1) by (rule imageI)
    moreover have "ap_id (?g q) = ct_period c \<and> ap_round (?g q) = ct_round c"
      using q c0(2) by (simp add: reopen_task_def)
    moreover have "ct_status c = ''Open'' \<or> task_signed c" using st c0(2) by (simp add: reopen_task_def)
    ultimately show ?thesis unfolding task_ok_def by blast
  qed
  have 4: "closed_signed (t_periods t') (t_tasks t')"
    unfolding closed_signed_def
  proof (intro ballI impI conjI)
    fix q assume "q \<in> set (t_periods t')" "ap_status q = ''Closed''"
    then have q: "q \<in> set (t_periods t)" "ap_id q \<noteq> ?pid" "ap_status q = ''Closed''"
      unfolding reopen reopened_def by (auto split: if_splits)
    show "ct_status c \<noteq> ''Open''" if "c \<in> set (t_tasks t')" "ct_period c = ap_id q" for c
      using that q close_invD(4) [OF inv] unfolding reopen
      by (auto simp: reset_tasks_def closed_signed_def reopen_task_def split: if_splits)
    fix k assume "k \<in> fst ` set periodCloseTaskDefs"
    from closed_signedD [OF close_invD(4) [OF inv] q(1,3) this] obtain c
      where "c \<in> set (t_tasks t)" "is_task (ap_id q) k c" by blast
    moreover from this q(2) have "c \<in> set (t_tasks t')"
      unfolding reopen reset_tasks_def by (force simp: is_task_def)
    ultimately show "\<exists>c \<in> set (t_tasks t'). is_task (ap_id q) k c" by blast
  qed
  from 1 2 3 4 show ?thesis by (simp add: close_inv_def)
qed

section \<open>The close as a state machine\<close>

text \<open>
  \<open>other\<close> is any step of another engine: it writes neither the periods nor their tasks
  (approvals, postings, saves of documents, \<open>RequestPeriodReopen\<close>).
\<close>

inductive period_step :: "tenant \<Rightarrow> tenant \<Rightarrow> bool" where
  create: "CreateAccountingPeriod name s e usr new t = Inr (t', i) \<Longrightarrow> new \<notin> ap_id ` set (t_periods t) \<Longrightarrow> period_step t t'"
| assign: "AssignPeriodCloseTask pid k ow actor role t = Inr t' \<Longrightarrow> period_step t t'"
| sign: "SignOffPeriodCloseTask chk pid k st ev ref actor t = Inr t' \<Longrightarrow> period_step t t'"
| undo: "UndoPeriodCloseTaskSignOff pid k reason actor role t = Inr t' \<Longrightarrow> period_step t t'"
| close: "CloseAccountingPeriod pid usr t = Inr t' \<Longrightarrow> period_step t t'"
| reopen: "ApplyApprovedPeriodReopen req approver t = Inr t' \<Longrightarrow> period_step t t'"
| other: "t_periods t' = t_periods t \<Longrightarrow> t_tasks t' = t_tasks t \<Longrightarrow> period_step t t'"

inductive_cases period_stepE: "period_step t t'"

lemma period_step_inv: "period_step t t' \<Longrightarrow> close_inv (t_periods t) (t_tasks t) \<Longrightarrow> close_inv (t_periods t') (t_tasks t')"
  by (induction rule: period_step.induct) (auto intro: inv_intros)

lemma period_reachable_inv:
  "period_step\<^sup>*\<^sup>* t t' \<Longrightarrow> close_inv (t_periods t) (t_tasks t) \<Longrightarrow> close_inv (t_periods t') (t_tasks t')"
  by (induction rule: rtranclp_induct) (auto intro: period_step_inv)

lemma close_inv_empty [simp]: "close_inv [] []"
  by (simp add: close_inv_def periods_ok_def closed_signed_def)

lemma t_tables_submit:
  assumes "SubmitForApproval env dt i usr role t = Inr t'"
  shows "t_periods t' = t_periods t" "t_tasks t' = t_tasks t"
  using assms by (auto simp: SubmitForApproval_def Let_def logApprovalAction_def setDocumentStatus_def
      split: option.splits if_splits)

text \<open>\<open>RequestPeriodReopen\<close> is one of the other steps: it asks, and changes no period.\<close>

lemma RequestPeriodReopen_step: "period_step t (fst (RequestPeriodReopen env pid reason uid uname role new t))"
  by (rule other; auto simp: RequestPeriodReopen_def Let_def t_tables_submit split: option.splits sum.splits)

section \<open>Properties\<close>

text \<open>
  C9: a closed period was signed off. From a state that satisfies the invariant \<open>close_inv\<close>, such as
  one without periods and tasks (\<open>close_inv_empty\<close>), after any sequence of creations, assignments, sign-offs, undos, closes, reopens and steps of other
  engines, each of the five close tasks of a Closed period is signed in the period's
  current close round as Done or Not applicable, by its owner, with evidence of at least
  ten characters.
\<close>
theorem closed_period_signed_off:
  assumes "period_step\<^sup>*\<^sup>* t0 t" and "close_inv (t_periods t0) (t_tasks t0)"
    and "p \<in> set (t_periods t)" and "ap_status p = ''Closed''"
    and "k \<in> fst ` set periodCloseTaskDefs"
  shows "\<exists>c ow ev. find_task t (ap_id p) k = Some c \<and> ct_round c = ap_round p
    \<and> ct_status c \<in> {''Done'', ''Not applicable''} \<and> ow \<noteq> []
    \<and> ct_owner c = Some ow \<and> ct_signed_by c = Some ow \<and> ct_evidence c = Some ev \<and> 10 \<le> length ev"
proof -
  have inv: "close_inv (t_periods t) (t_tasks t)" by (rule period_reachable_inv [OF assms(1,2)])
  from closed_signedD [OF close_invD(4) [OF inv] assms(3-5)] obtain c
    where c: "c \<in> set (t_tasks t)" "is_task (ap_id p) k c" by blast
  then obtain c' where c': "find_task t (ap_id p) k = Some c'" by (cases "find_task t (ap_id p) k") (auto simp: find_task_None)
  note F = find_taskD [OF c']
  have "ct_status c' \<noteq> ''Open''"
    using close_invD(4) [OF inv] assms(3,4) F by (auto simp: closed_signed_def is_task_def)
  with close_invD(3) [OF inv, of c'] F have "task_signed c'" by (auto simp: task_ok_def)
  moreover have "ct_round c' = ap_round p" using F by (intro task_round [OF inv assms(3)]) (auto simp: is_task_def)
  ultimately show ?thesis using c' by (auto simp: task_signed_def)
qed

definition demo_task :: "string \<Rightarrow> close_task" where
  "demo_task k = \<lparr>ct_period = ''P1'', ct_key = k, ct_title = k, ct_owner = Some ''asha'', ct_status = ''Done'',
     ct_evidence = Some ''all matched'', ct_evidence_ref = None, ct_snapshot = Some True,
     ct_signed_by = Some ''asha'', ct_round = 1\<rparr>"

definition demo_period :: accounting_period where
  "demo_period = \<lparr>ap_id = ''P1'', ap_name = ''Oct'', ap_start = ''2026-10-01'', ap_end = ''2026-10-31'',
     ap_status = ''Open'', ap_closed_by = None, ap_closed_at = None, ap_created_by = ''u1'', ap_round = 1,
     ap_reopened_by = None\<rparr>"

text \<open>A period with its five tasks signed, and the state after it is closed.\<close>

definition demo_open :: tenant where
  "demo_open = empty_tenant\<lparr>t_periods := [demo_period], t_tasks := map demo_task (map fst periodCloseTaskDefs)\<rparr>"

definition demo_closed :: tenant where
  "demo_closed = LogAuditEvent ''u1'' ''CLOSE_ACCOUNTING_PERIOD'' ''SUCCESS''
     (writePeriodCloseLog ''P1'' 1 ''CLOSED'' [] ''u1''
       (update_period ''P1'' (\<lambda>p. p\<lparr>ap_status := ''Closed'', ap_closed_by := Some ''u1'', ap_closed_at := Some 0\<rparr>) demo_open))"

lemma demo_dates: "''2026-10-01'' \<le> ''2026-10-31''"
  by (simp add: less_eq_list_code less_eq_char_def)

lemma demo_open_inv: "close_inv (t_periods demo_open) (t_tasks demo_open)"
  using demo_dates
  by (simp add: close_inv_def demo_open_def demo_period_def demo_task_def periodCloseTaskDefs_def
      periods_ok_def task_ok_def task_signed_def closed_signed_def)

lemma demo_close_step: "CloseAccountingPeriod ''P1'' ''u1'' demo_open = Inr demo_closed"
proof -
  have "ensurePeriodCloseTasks ''P1'' 1 demo_open = demo_open"
    by (simp add: ensurePeriodCloseTasks_def demo_open_def find_task_def periodCloseTaskDefs_def demo_task_def)
  then have "requireSignedCloseTasks ''P1'' 1 demo_open = Inr demo_open"
    by (simp add: requireSignedCloseTasks_def demo_open_def demo_task_def list_ex_iff periodCloseTaskDefs_def)
  then show ?thesis
    by (simp add: CloseAccountingPeriod_def find_period_def demo_closed_def)
      (simp add: demo_open_def demo_period_def periodTillBlockers_def empty_tenant_def usernameForUserID_def find_user_def)
qed

lemma demo_steps: "period_step\<^sup>*\<^sup>* demo_open demo_closed"
  by (rule r_into_rtranclp) (rule period_step.close [OF demo_close_step])

lemma demo_closed_tables:
  "t_periods demo_closed = [demo_period\<lparr>ap_status := ''Closed'', ap_closed_by := Some ''u1'', ap_closed_at := Some 0\<rparr>]"
  "t_tasks demo_closed = t_tasks demo_open"
  by (simp_all add: demo_closed_def) (simp add: demo_open_def demo_period_def)

theorem closed_period_signed_off_witness:
  "\<exists>c. find_task demo_closed ''P1'' ''bank'' = Some c \<and> ct_signed_by c \<noteq> None"
proof -
  have k: "''bank'' \<in> fst ` set periodCloseTaskDefs" by (simp add: periodCloseTaskDefs_def)
  have "\<exists>c ow ev. find_task demo_closed (ap_id (hd (t_periods demo_closed))) ''bank'' = Some c
      \<and> ct_round c = ap_round (hd (t_periods demo_closed))
    \<and> ct_status c \<in> {''Done'', ''Not applicable''} \<and> ow \<noteq> []
    \<and> ct_owner c = Some ow \<and> ct_signed_by c = Some ow \<and> ct_evidence c = Some ev \<and> 10 \<le> length ev"
    by (rule closed_period_signed_off [OF demo_steps demo_open_inv _ _ k]) (simp_all add: demo_closed_tables)
  then show ?thesis by (auto simp: demo_closed_tables demo_period_def)
qed

text \<open>
  C23: accounting periods never overlap. In every reachable state a date lies in at most
  one period, so "the date is inside a closed period" has one answer.
\<close>
theorem periods_never_overlap:
  assumes "period_step\<^sup>*\<^sup>* t0 t" and "close_inv (t_periods t0) (t_tasks t0)"
    and "p \<in> set (t_periods t)" "q \<in> set (t_periods t)" and "covers d p" "covers d q"
  shows "p = q"
proof -
  have ok: "periods_ok (t_periods t)" by (rule close_invD(1) [OF period_reachable_inv [OF assms(1,2)]])
  show ?thesis
  proof (rule period_id_inj [OF ok assms(3,4)], rule ccontr)
    assume "ap_id p \<noteq> ap_id q"
    with ok assms(3,4) have "disjoint_ranges p q" by (auto simp: periods_ok_def)
    with assms(5,6) show False by (auto simp: disjoint_ranges_def covers_def)
  qed
qed

theorem periods_never_overlap_witness:
  "\<exists>!p. p \<in> set (t_periods demo_closed) \<and> covers ''2026-10-31'' p"
proof -
  have "covers ''2026-10-31'' (hd (t_periods demo_closed))"
    using demo_dates by (simp add: demo_closed_tables covers_def demo_period_def)
  then show ?thesis
    using periods_never_overlap [OF demo_steps demo_open_inv, of _ _ "''2026-10-31''"]
    by (auto simp: demo_closed_tables)
qed

text \<open>
  C20: a closed period opens again only through an approved request. Any step after which a
  Closed period is Open applied a \<open>PeriodReopenRequest\<close> for that period that was
  Approved and not applied before; the period is then in the next close round and every
  one of its tasks is Open again, unsigned and without evidence.
\<close>
theorem reopened_only_by_approved_request:
  assumes "period_step t t'" and "close_inv (t_periods t) (t_tasks t)"
    and "p \<in> set (t_periods t)" "ap_status p = ''Closed''"
    and "p' \<in> set (t_periods t')" "ap_id p' = ap_id p" "ap_status p' = ''Open''"
  shows "(\<exists>req d. find_doc t ''PeriodReopenRequest'' req = Some d \<and> d_status d = ''Approved''
       \<and> \<not> jbool (d_data d) ''applied'' \<and> jstr (d_data d) ''period_id'' = ap_id p)
    \<and> ap_round p' = Suc (ap_round p)
    \<and> (\<forall>c \<in> set (t_tasks t'). ct_period c = ap_id p \<longrightarrow>
         ct_status c = ''Open'' \<and> ct_signed_by c = None \<and> ct_evidence c = None \<and> ct_round c = ap_round p')"
proof -
  have inj: "q = p" if "q \<in> set (t_periods t)" "ap_id q = ap_id p" for q
    using period_id_inj [OF close_invD(1) [OF assms(2)] that(1) assms(3) that(2)] .
  have same: False if "t_periods t' = t_periods t"
    using that inj [of p'] assms(4-7) by simp
  from assms(1) show ?thesis
  proof (cases rule: period_step.cases)
    case (create name s e usr new i)
    then have "p' \<in> set (t_periods t) \<or> ap_id p' = new"
      using assms(5) by (auto simp: CreateAccountingPeriod_def split: if_splits)
    with inj [of p'] assms(3-7) create(2) show ?thesis by force
  next
    case (assign pid k ow actor role)
    then have "t_periods t' = t_periods t"
      by (auto simp: AssignPeriodCloseTask_def Let_def split: if_splits option.splits)
    with same show ?thesis by blast
  next
    case (sign chk pid k st ev ref actor)
    then have "t_periods t' = t_periods t"
      by (auto simp: SignOffPeriodCloseTask_def Let_def split: if_splits option.splits)
    with same show ?thesis by blast
  next
    case (undo pid k reason actor role)
    then have "t_periods t' = t_periods t"
      by (auto simp: UndoPeriodCloseTaskSignOff_def split: if_splits option.splits)
    with same show ?thesis by blast
  next
    case (close pid usr)
    then have "t_periods t' = map (\<lambda>q. if ap_id q = pid then q\<lparr>ap_status := ''Closed'', ap_closed_by := Some usr,
                ap_closed_at := Some (t_now t)\<rparr> else q) (t_periods t)"
      by (auto simp: CloseAccountingPeriod_def requireSignedCloseTasks_def Let_def split: option.splits if_splits)
    with assms(5) obtain q where "q \<in> set (t_periods t)" "p' = (if ap_id q = pid then q\<lparr>ap_status := ''Closed'', ap_closed_by := Some usr,
                ap_closed_at := Some (t_now t)\<rparr> else q)" by auto
    with inj [of q] assms(4,6,7) show ?thesis by (auto split: if_splits)
  next
    case (reopen req approver)
    then show ?thesis
    proof (cases rule: apply_reopen_cases)
      case same
      with \<open>t_periods t' = t_periods t \<Longrightarrow> False\<close> show ?thesis by blast
    next
      case (reopen d r name)
      note R = find_periodD [OF reopen(4)]
      from assms(5) reopen(6) obtain q where q: "q \<in> set (t_periods t)" "p' = (if ap_id q = ap_id r
           then q\<lparr>ap_status := ''Open'', ap_round := Suc (ap_round r), ap_closed_by := None, ap_closed_at := None,
            ap_reopened_by := Some name\<rparr> else q)" unfolding reopened_def by auto
      have "ap_id q = ap_id p'" by (simp add: q(2))
      with inj [OF q(1)] assms(6) have qp: "q = p" by simp
      have pr: "ap_id p = ap_id r"
      proof (rule ccontr)
        assume "ap_id p \<noteq> ap_id r"
        then have "p' = p" by (simp add: q(2) qp)
        with assms(4,7) show False by simp
      qed
      have rp: "r = p" by (rule inj [OF R [THEN conjunct1] pr [symmetric]])
      have round: "ap_round p' = Suc (ap_round p)" by (simp add: q(2) qp rp)
      have "\<forall>c \<in> set (t_tasks t'). ct_period c = ap_id p \<longrightarrow>
         ct_status c = ''Open'' \<and> ct_signed_by c = None \<and> ct_evidence c = None \<and> ct_round c = ap_round p'"
        unfolding reopen(7) rp reset_tasks_def set_map ball_simps round
        by (simp add: reopen_task_def)
      moreover have "jstr (d_data d) ''period_id'' = ap_id p" using R rp by simp
      ultimately show ?thesis using reopen(1-3) round by blast
    qed
  next
    case other
    with same show ?thesis by blast
  qed
qed

definition demo_request :: document where
  "demo_request = \<lparr>d_doctype = ''PeriodReopenRequest'', d_id = ''R1'', d_data = [(''period_id'', JStr ''P1'')],
     d_status = ''Approved'', d_created_by = ''u1'', d_updated_by = None, d_deleted = False,
     d_created_at = 0, d_updated_at = 0\<rparr>"

theorem reopened_only_by_approved_request_witness:
  "\<exists>t' p'. period_step (demo_closed\<lparr>t_documents := [demo_request]\<rparr>) t' \<and> p' \<in> set (t_periods t')
     \<and> ap_status p' = ''Open'' \<and> ap_round p' = 2"
proof -
  define t where "t = demo_closed\<lparr>t_documents := [demo_request]\<rparr>"
  obtain p where p: "t_periods t = [p]" "ap_status p = ''Closed''" "ap_id p = ''P1''" "ap_round p = 1"
    by (simp add: t_def demo_closed_tables demo_period_def)
  have inv: "close_inv (t_periods t) (t_tasks t)"
    using period_reachable_inv [OF demo_steps demo_open_inv] by (simp add: t_def)
  have find: "find_doc t ''PeriodReopenRequest'' ''R1'' = Some demo_request"
    by (simp add: t_def find_doc_def is_doc_def demo_request_def)
  have req: "\<not> jbool (d_data demo_request) ''applied''" "jstr (d_data demo_request) ''period_id'' = ''P1''"
    "d_status demo_request = ''Approved''"
    by (simp_all add: demo_request_def jbool_def jget_def jstr_def)
  have per: "find_period t ''P1'' = Some p" by (simp add: find_period_def p)
  from find per req obtain t' where t': "ApplyApprovedPeriodReopen ''R1'' ''boss'' t = Inr t'"
    by (simp add: ApplyApprovedPeriodReopen_def Let_def)
  have step: "period_step t t'" by (rule period_step.reopen [OF t'])
  have "t_periods t' = reopened ''P1'' 2 (usernameForUserID t ''boss'') (t_periods t)"
    using t' find per req p by (auto simp: ApplyApprovedPeriodReopen_def Let_def foldl_log_tables reopened_def)
  then obtain p' where p': "p' \<in> set (t_periods t')" "ap_status p' = ''Open''" "ap_id p' = ap_id p"
    by (simp add: reopened_def p)
  have "p \<in> set (t_periods t)" by (simp add: p)
  from reopened_only_by_approved_request [OF step inv this p(2) p'(1,3,2)]
  have "ap_round p' = 2" by (simp add: p)
  with step p' show ?thesis unfolding t_def [symmetric] by blast
qed

text \<open>
  The guard on postings. A posting is let through exactly when its date (today when it
  names none) is a date and lies in no Closed period, or an Approved
  \<open>BackdatedPostingRequest\<close> names this very document and date; otherwise the refusal is
  FIN-0260 (or the database's, when the date is none).
\<close>
theorem closed_period_guard:
  "rejectIfCurrentPeriodClosed t dt i txdate = Inr () \<longleftrightarrow>
     (txdate = [] \<or> is_iso_date txdate)
     \<and> ((\<forall>p \<in> set (t_periods t). ap_status p = ''Closed'' \<longrightarrow> \<not> covers (if txdate = [] then t_today t else txdate) p)
        \<or> isBackdatedPostingApproved t dt i txdate)"
  by (auto simp: rejectIfCurrentPeriodClosed_def list_ex_iff)

lemma demo_date_order:
  "''2026-10-01'' \<le> ''2026-10-05''" "''2026-10-05'' \<le> ''2026-10-31''" "\<not> ''2026-11-05'' \<le> ''2026-10-31''"
  by (simp_all add: less_eq_list_code less_eq_char_def less_char_def)

theorem closed_period_guard_witness:
  "rejectIfCurrentPeriodClosed demo_closed ''JournalVoucher'' ''JV1'' ''2026-11-05'' = Inr ()
   \<and> rejectIfCurrentPeriodClosed demo_closed ''JournalVoucher'' ''JV1'' ''2026-10-05'' \<noteq> Inr ()"
proof -
  have iso: "is_iso_date ''2026-10-05''" "is_iso_date ''2026-11-05''" by code_simp+
  have "\<not> isBackdatedPostingApproved demo_closed ''JournalVoucher'' ''JV1'' ''2026-10-05''"
    by (simp add: isBackdatedPostingApproved_def demo_closed_def)
      (simp add: demo_open_def empty_tenant_def)
  with iso demo_date_order show ?thesis
    using closed_period_guard [of demo_closed "''JournalVoucher''" "''JV1''" "''2026-11-05''"]
      closed_period_guard [of demo_closed "''JournalVoucher''" "''JV1''" "''2026-10-05''"]
    by (simp add: demo_closed_tables covers_def demo_period_def)
qed

end
