(* ===== verification/Ledger.thy ===== *)
theory Ledger
  imports Periods
begin

text \<open>
  The general ledger (engines/finance.go, the reference checks of engines/gl_cost_center.go
  and engines/intercompany.go): \<open>PostDoubleEntryTx\<close> with its balance check, closed-period
  guard, idempotency key, currency columns and dimensions; the sale, GST and exempt-turnover
  postings of the POS; the trial balance. Amounts are paise in an int64: the sums Go computes
  wrap at 64 bits (\<open>wrap64\<close>). A Go map of amounts is an association list with distinct
  keys, in the order the range loop takes.

  Arguments (\<open>posting_env\<close>): the dimensions derived from a source document
  (engines/location_cost_center.go), the posting time bound to the request, and the instant
  the database reads from a date or time text.
\<close>

section \<open>Options and reference checks\<close>

type_synonym amounts = "(string \<times> int) list"

definition paise_of :: "string \<Rightarrow> amounts \<Rightarrow> int" where
  "paise_of k m = (case map_of m k of Some v \<Rightarrow> v | None \<Rightarrow> 0)"

text \<open>\<open>m[k] += v\<close>\<close>

definition add_paise :: "string \<Rightarrow> int \<Rightarrow> amounts \<Rightarrow> amounts" where
  "add_paise k v m = (if map_of m k = None then m @ [(k, v)]
     else map (\<lambda>(k', v'). if k' = k then (k', wrap64 (v' + v)) else (k', v')) m)"

record posting_opts =
  po_cost_center :: string
  po_department :: string
  po_entity :: string
  po_project :: string
  po_currency :: string
  po_rate :: rat
  po_tx_debits :: "(string \<times> rat) list"
  po_tx_credits :: "(string \<times> rat) list"
  po_posted_at :: string

definition no_opts :: posting_opts where
  "no_opts = \<lparr>po_cost_center = [], po_department = [], po_entity = [], po_project = [],
     po_currency = [], po_rate = 0, po_tx_debits = [], po_tx_credits = [], po_posted_at = []\<rparr>"

record posting_env =
  pe_dims :: "tenant \<Rightarrow> string \<Rightarrow> string \<times> string \<times> string"
  pe_bound_time :: string
  pe_instant :: "string \<Rightarrow> int"

definition validateReference :: "string \<Rightarrow> string \<Rightarrow> tenant \<Rightarrow> unit res" where
  "validateReference dt code t =
     (if code = [] then Inr ()
      else case find (\<lambda>d. is_doc dt code d \<and> \<not> d_deleted d) (t_documents t) of
        None \<Rightarrow> Inl (Plain ''is not registered'')
      | Some d \<Rightarrow> if d_status d \<noteq> ''Active'' then Inl (Plain ''is not Active'') else Inr ())"

definition validateCostCenterReference :: "string \<Rightarrow> tenant \<Rightarrow> unit res" where
  "validateCostCenterReference = validateReference ''CostCenter''"

definition validateDepartmentReference :: "string \<Rightarrow> tenant \<Rightarrow> unit res" where
  "validateDepartmentReference = validateReference ''Department''"

definition validateLegalEntityReference :: "string \<Rightarrow> tenant \<Rightarrow> unit res" where
  "validateLegalEntityReference = validateReference ''LegalEntity''"

definition validateProjectReference :: "string \<Rightarrow> tenant \<Rightarrow> unit res" where
  "validateProjectReference = validateReference ''Project''"

definition validateGLAccountCode :: "tenant \<Rightarrow> string \<Rightarrow> string res" where
  "validateGLAccountCode t code = (case find (\<lambda>a. ga_code a = code) (t_accounts t) of
     None \<Rightarrow> Inl (Plain ''account code is not a registered GL account'')
   | Some a \<Rightarrow> Inr (ga_type a))"

text \<open>
  \<open>postedAtSQL\<close> accepts a date, \<open>2006-01-02 15:04:05\<close>, or RFC 3339 with an optional
  fraction of a second.
\<close>

definition is_clock :: "string \<Rightarrow> bool" where
  "is_clock s \<longleftrightarrow> length s = 8 \<and> s ! 2 = CHR '':'' \<and> s ! 5 = CHR '':''
     \<and> list_all is_digit (take 2 s @ take 2 (drop 3 s) @ drop 6 s)
     \<and> undec (take 2 s) < 24 \<and> undec (take 2 (drop 3 s)) < 60 \<and> undec (drop 6 s) < 60"

definition is_zone :: "string \<Rightarrow> bool" where
  "is_zone s \<longleftrightarrow> s = ''Z'' \<or> (length s = 6 \<and> s ! 0 \<in> {CHR ''+'', CHR ''-''} \<and> s ! 3 = CHR '':''
     \<and> list_all is_digit (take 2 (drop 1 s) @ drop 4 s)
     \<and> undec (take 2 (drop 1 s)) \<le> 24 \<and> undec (drop 4 s) < 60)"

definition is_fraction_zone :: "string \<Rightarrow> bool" where
  "is_fraction_zone s \<longleftrightarrow> is_zone s \<or>
     (case s of c # cs \<Rightarrow> c = CHR ''.'' \<and> takeWhile is_digit cs \<noteq> [] \<and> is_zone (dropWhile is_digit cs)
      | [] \<Rightarrow> False)"

definition is_posting_time :: "string \<Rightarrow> bool" where
  "is_posting_time s \<longleftrightarrow> is_iso_date s
     \<or> (is_iso_date (take 10 s) \<and> take 1 (drop 10 s) = '' '' \<and> is_clock (drop 11 s))
     \<or> (is_iso_date (take 10 s) \<and> take 1 (drop 10 s) = ''T'' \<and> is_clock (take 8 (drop 11 s))
        \<and> is_fraction_zone (drop 19 s))"

definition postedAtSQL :: "posting_env \<Rightarrow> string \<Rightarrow> int res" where
  "postedAtSQL env s = (if is_posting_time s then Inr (pe_instant env s)
     else Inl (Plain ''posting time is not a date or a time''))"

definition currencyPostingArgs :: "tenant \<Rightarrow> posting_opts \<Rightarrow> (string \<times> rat) option" where
  "currencyPostingArgs t opt = (let code = to_upper (trim (po_currency opt)) in
     if code = [] \<or> code = t_functional t then None
     else Some (code, if po_rate opt \<le> 0 then 1 else po_rate opt))"

section \<open>Posting\<close>

definition sum_paise :: "amounts \<Rightarrow> int" where
  "sum_paise m = foldl (\<lambda>s (_, v). wrap64 (s + v)) 0 m"

definition transactionAmount :: "(string \<times> rat) option \<Rightarrow> (string \<times> rat) list \<Rightarrow> string \<Rightarrow> int \<Rightarrow> rat option" where
  "transactionAmount cur source code functional = (case cur of
     None \<Rightarrow> None
   | Some (_, rate) \<Rightarrow> (case map_of source code of
       Some v \<Rightarrow> Some v
     | None \<Rightarrow> if rate > 0 then Some (fl (of_int functional / rate)) else None))"

text \<open>An empty dimension is stored as NULL.\<close>

definition nullable :: "string \<Rightarrow> string option" where
  "nullable s = (if s = [] then None else Some s)"

text \<open>One INSERT of the debit loop or the credit loop; the account is a foreign key.\<close>

definition posting_row ::
  "bool \<Rightarrow> string \<Rightarrow> string \<Rightarrow> string \<Rightarrow> posting_opts \<Rightarrow> (string \<times> rat) option \<Rightarrow> int \<Rightarrow> string \<Rightarrow> int \<Rightarrow> gl_posting" where
  "posting_row dr dt i key opt cur moment code val =
     \<lparr>gp_account = code, gp_debit = (if dr then val else 0), gp_credit = (if dr then 0 else val),
      gp_doctype = dt, gp_docid = i, gp_key = nullable key, gp_cost_center = nullable (po_cost_center opt),
      gp_department = nullable (po_department opt), gp_entity = nullable (po_entity opt),
      gp_project = nullable (po_project opt), gp_currency = cur,
      gp_transaction = transactionAmount cur (if dr then po_tx_debits opt else po_tx_credits opt) code val,
      gp_created_at = moment\<rparr>"

definition insert_side ::
  "bool \<Rightarrow> string \<Rightarrow> string \<Rightarrow> string \<Rightarrow> posting_opts \<Rightarrow> (string \<times> rat) option \<Rightarrow> int \<Rightarrow> amounts \<Rightarrow> tenant \<Rightarrow> tenant res" where
  "insert_side dr dt i key opt cur moment m t = efold (\<lambda>t (code, val).
     if val \<le> 0 then Inr t
     else if \<not> list_ex (\<lambda>a. ga_code a = code) (t_accounts t)
     then Inl (Plain (if dr then ''error posting debit for account'' else ''error posting credit for account''))
     else Inr (t\<lparr>t_postings := t_postings t @ [posting_row dr dt i key opt cur moment code val]\<rparr>)) t m"

definition with_dimensions :: "posting_env \<Rightarrow> tenant \<Rightarrow> string \<Rightarrow> posting_opts \<Rightarrow> posting_opts" where
  "with_dimensions env t i opt =
     (if po_cost_center opt = [] \<or> po_entity opt = [] \<or> po_department opt = [] then
        (case pe_dims env t i of (cc, en, dp) \<Rightarrow>
          opt\<lparr>po_cost_center := (if po_cost_center opt = [] then cc else po_cost_center opt),
              po_entity := (if po_entity opt = [] then en else po_entity opt),
              po_department := (if po_department opt = [] then dp else po_department opt)\<rparr>)
      else opt)"

definition key_posted :: "tenant \<Rightarrow> string \<Rightarrow> bool" where
  "key_posted t key \<longleftrightarrow> list_ex (\<lambda>p. gp_key p = Some key) (t_postings t)"

definition PostDoubleEntryTx ::
  "posting_env \<Rightarrow> string \<Rightarrow> string \<Rightarrow> amounts \<Rightarrow> amounts \<Rightarrow> string \<Rightarrow> string \<Rightarrow> posting_opts \<Rightarrow> tenant \<Rightarrow> tenant res" where
  "PostDoubleEntryTx env dt i debits credits txdate key opt0 t =
     rbind (validateCostCenterReference (po_cost_center opt0) t) (\<lambda>_.
     rbind (validateDepartmentReference (po_department opt0) t) (\<lambda>_.
     rbind (validateLegalEntityReference (po_entity opt0) t) (\<lambda>_.
     rbind (validateProjectReference (po_project opt0) t) (\<lambda>_.
       let opt = with_dimensions env t i opt0 in
       if sum_paise debits \<noteq> sum_paise credits then Inl (Plain ''unbalanced double-entry journal'')
       else rbind (rejectIfCurrentPeriodClosed t dt i txdate) (\<lambda>_.
         if key \<noteq> [] \<and> key_posted t key then Inr t
         else
           let cur = currencyPostingArgs t opt;
               stamp = (if po_posted_at opt = [] then pe_bound_time env else po_posted_at opt)
           in rbind (if stamp = [] then Inr (t_now t) else postedAtSQL env stamp) (\<lambda>moment.
              rbind (insert_side True dt i key opt cur moment debits t) (\<lambda>t1.
                insert_side False dt i key opt cur moment credits t1)))))))"

text \<open>\<open>PostDoubleEntry\<close> runs the same body in a transaction of its own.\<close>

definition PostDoubleEntry ::
  "posting_env \<Rightarrow> string \<Rightarrow> string \<Rightarrow> amounts \<Rightarrow> amounts \<Rightarrow> string \<Rightarrow> string \<Rightarrow> posting_opts \<Rightarrow> tenant \<Rightarrow> tenant res" where
  "PostDoubleEntry = PostDoubleEntryTx"

section \<open>Trial balance\<close>

record report_filter =
  rf_cost_center :: string
  rf_department :: string
  rf_entity :: string

definition no_filter :: report_filter where
  "no_filter = \<lparr>rf_cost_center = [], rf_department = [], rf_entity = []\<rparr>"

text \<open>\<open>dimensionJoinClause\<close>: the first dimension that is set, and only that one.\<close>

definition dimensionJoinClause :: "report_filter \<Rightarrow> gl_posting \<Rightarrow> bool" where
  "dimensionJoinClause f p =
     (if rf_cost_center f \<noteq> [] then gp_cost_center p = Some (rf_cost_center f)
      else if rf_department f \<noteq> [] then gp_department p = Some (rf_department f)
      else if rf_entity f \<noteq> [] then gp_entity p = Some (rf_entity f)
      else True)"

record account_balance =
  ab_code :: string
  ab_name :: string
  ab_type :: string
  ab_debit :: rat
  ab_credit :: rat

record trial_balance =
  tb_balances :: "account_balance list"
  tb_total_debits :: rat
  tb_total_credits :: rat
  tb_status :: string
  tb_balanced :: bool
  tb_as_of :: string

definition account_rows :: "tenant \<Rightarrow> string \<Rightarrow> report_filter \<Rightarrow> gl_account \<Rightarrow> gl_posting list" where
  "account_rows t asof f a = filter (\<lambda>p. gp_account p = ga_code a \<and> gp_created_at p < t_day_end t asof
     \<and> dimensionJoinClause f p) (t_postings t)"

definition debit_sum :: "gl_posting list \<Rightarrow> int" where
  "debit_sum ps = sum_list (map gp_debit ps)"

definition credit_sum :: "gl_posting list \<Rightarrow> int" where
  "credit_sum ps = sum_list (map gp_credit ps)"

definition GetTrialBalance :: "tenant \<Rightarrow> string \<Rightarrow> report_filter \<Rightarrow> trial_balance res" where
  "GetTrialBalance t asof f =
     (if asof = [] then Inl (Coded ''GLOBAL-0001'')
      else if \<not> is_iso_date asof then Inl (Plain ''invalid input syntax for type date'')
      else
        let rows = map (\<lambda>a. (a, debit_sum (account_rows t asof f a), credit_sum (account_rows t asof f a)))
              (sort_key ga_code (t_accounts t));
            dr = foldl (\<lambda>s (_, d, _). wrap64 (s + d)) 0 rows;
            cr = foldl (\<lambda>s (_, _, c). wrap64 (s + c)) 0 rows
        in Inr \<lparr>tb_balances = map (\<lambda>(a, d, c). \<lparr>ab_code = ga_code a, ab_name = ga_name a, ab_type = ga_type a,
                   ab_debit = PaiseToRupees d, ab_credit = PaiseToRupees c\<rparr>) rows,
                tb_total_debits = PaiseToRupees dr, tb_total_credits = PaiseToRupees cr,
                tb_status = (if dr = cr then ''Balanced trial ledger'' else ''Unbalanced trial ledger exception detected''),
                tb_balanced = (dr = cr), tb_as_of = asof\<rparr>)"

section \<open>What a posting writes\<close>

text \<open>The exact sum of a map of amounts; \<open>sum_paise\<close> is its wrapped value.\<close>

definition total_of :: "amounts \<Rightarrow> int" where
  "total_of m = sum_list (map snd m)"

lemma foldl_wrap64: "foldl (\<lambda>s x. wrap64 (s + g x)) (wrap64 a) xs = wrap64 (a + sum_list (map g xs))"
proof (induction xs arbitrary: a)
  case Nil
  then show ?case by simp
next
  case (Cons x xs)
  have "foldl (\<lambda>s x. wrap64 (s + g x)) (wrap64 a) (x # xs)
      = foldl (\<lambda>s x. wrap64 (s + g x)) (wrap64 (a + g x)) xs"
    by (simp add: wrap64_add)
  with Cons.IH [of "a + g x"] show ?case by (simp add: add.assoc)
qed

lemma foldl_wrap64_0: "foldl (\<lambda>s x. wrap64 (s + g x)) 0 xs = wrap64 (sum_list (map g xs))"
  using foldl_wrap64 [of g 0 xs] by (simp add: wrap64_id)

lemma sum_paise_eq: "sum_paise m = wrap64 (total_of m)"
proof -
  have "(\<lambda>s (_ :: string, v). wrap64 (s + v)) = (\<lambda>s x. wrap64 (s + snd x))" by (auto simp: fun_eq_iff)
  then show ?thesis by (simp add: sum_paise_def total_of_def foldl_wrap64_0)
qed

definition positives :: "amounts \<Rightarrow> amounts" where
  "positives m = filter (\<lambda>(_, v). 0 < v) m"

lemma total_of_positives: "\<forall>(_, v) \<in> set m. 0 \<le> v \<Longrightarrow> total_of (positives m) = total_of m"
  by (induction m) (auto simp: total_of_def positives_def)

lemma insert_side_postings:
  assumes "insert_side dr dt i key opt cur moment m t = Inr t'"
  shows "t' = t\<lparr>t_postings := t_postings t @ map (\<lambda>(code, val). posting_row dr dt i key opt cur moment code val) (positives m)\<rparr>
    \<and> (\<forall>(code, _) \<in> set (positives m). list_ex (\<lambda>a. ga_code a = code) (t_accounts t))"
  using assms
proof (induction m arbitrary: t)
  case Nil
  then show ?case by (simp add: insert_side_def positives_def)
next
  case (Cons x m)
  obtain code val where x: "x = (code, val)" by fastforce
  show ?case
  proof (cases "val \<le> 0")
    case True
    with Cons.prems x have "insert_side dr dt i key opt cur moment m t = Inr t'" by (simp add: insert_side_def)
    from Cons.IH [OF this] True x show ?thesis by (simp add: positives_def)
  next
    case False
    with Cons.prems x have a: "list_ex (\<lambda>a. ga_code a = code) (t_accounts t)"
      and "insert_side dr dt i key opt cur moment m (t\<lparr>t_postings := t_postings t @ [posting_row dr dt i key opt cur moment code val]\<rparr>) = Inr t'"
      by (auto simp: insert_side_def split: if_splits)
    from Cons.IH [OF this(2)] a False x show ?thesis by (simp add: positives_def)
  qed
qed

text \<open>The rows of one posting.\<close>

definition voucher_rows ::
  "string \<Rightarrow> string \<Rightarrow> string \<Rightarrow> posting_opts \<Rightarrow> (string \<times> rat) option \<Rightarrow> int \<Rightarrow> amounts \<Rightarrow> amounts \<Rightarrow> gl_posting list" where
  "voucher_rows dt i key opt cur moment debits credits =
     map (\<lambda>(code, val). posting_row True dt i key opt cur moment code val) (positives debits)
     @ map (\<lambda>(code, val). posting_row False dt i key opt cur moment code val) (positives credits)"

lemma PostDoubleEntryTxE:
  assumes "PostDoubleEntryTx env dt i debits credits txdate key opt t = Inr t'"
  obtains (posted_before) "key \<noteq> []" "key_posted t key" "t' = t"
      "sum_paise debits = sum_paise credits"
      "rejectIfCurrentPeriodClosed t dt i txdate = Inr ()"
  | (posts) opt' cur moment where "key = [] \<or> \<not> key_posted t key"
      "t' = t\<lparr>t_postings := t_postings t @ voucher_rows dt i key opt' cur moment debits credits\<rparr>"
      "sum_paise debits = sum_paise credits"
      "rejectIfCurrentPeriodClosed t dt i txdate = Inr ()"
      "\<forall>(code, _) \<in> set (positives debits) \<union> set (positives credits). list_ex (\<lambda>a. ga_code a = code) (t_accounts t)"
proof (cases "key \<noteq> [] \<and> key_posted t key")
  case True
  with assms have "t' = t" "sum_paise debits = sum_paise credits" "rejectIfCurrentPeriodClosed t dt i txdate = Inr ()"
    by (auto simp: PostDoubleEntryTx_def Let_def split: if_splits)
  with True posted_before show ?thesis by blast
next
  case False
  let ?opt = "with_dimensions env t i opt"
  from assms False obtain moment t1
    where bal: "sum_paise debits = sum_paise credits" and per: "rejectIfCurrentPeriodClosed t dt i txdate = Inr ()"
      and d: "insert_side True dt i key ?opt (currencyPostingArgs t ?opt) moment debits t = Inr t1"
      and c: "insert_side False dt i key ?opt (currencyPostingArgs t ?opt) moment credits t1 = Inr t'"
    unfolding PostDoubleEntryTx_def Let_def by (auto split: if_splits)
  from insert_side_postings [OF d] insert_side_postings [OF c] False bal per
  show ?thesis by (intro posts [of ?opt "currencyPostingArgs t ?opt" moment]) (auto simp: voucher_rows_def)
qed

lemma debit_sum_append [simp]: "debit_sum (xs @ ys) = debit_sum xs + debit_sum ys"
  by (simp add: debit_sum_def)

lemma credit_sum_append [simp]: "credit_sum (xs @ ys) = credit_sum xs + credit_sum ys"
  by (simp add: credit_sum_def)

lemma voucher_sums:
  "debit_sum (voucher_rows dt i key opt cur moment debits credits) = total_of (positives debits)"
  "credit_sum (voucher_rows dt i key opt cur moment debits credits) = total_of (positives credits)"
proof -
  have 1: "sum_list (map gp_debit (map (\<lambda>(c, v). posting_row dr dt i key opt cur moment c v) m)) = (if dr then total_of m else 0)"
    for dr m by (induction m) (auto simp: posting_row_def total_of_def)
  have 2: "sum_list (map gp_credit (map (\<lambda>(c, v). posting_row dr dt i key opt cur moment c v) m)) = (if dr then 0 else total_of m)"
    for dr m by (induction m) (auto simp: posting_row_def total_of_def)
  show "debit_sum (voucher_rows dt i key opt cur moment debits credits) = total_of (positives debits)"
    "credit_sum (voucher_rows dt i key opt cur moment debits credits) = total_of (positives credits)"
    unfolding voucher_rows_def debit_sum_append credit_sum_append
    unfolding debit_sum_def credit_sum_def 1 2 by simp_all
qed

section \<open>Balanced books\<close>

text \<open>
  A voucher: its debits equal its credits, and its rows agree on everything a report
  selects by (moment and dimensions), so no report takes a part of it. Balanced books are a
  sequence of vouchers.
\<close>

definition same_slice :: "gl_posting \<Rightarrow> gl_posting \<Rightarrow> bool" where
  "same_slice p q \<longleftrightarrow> gp_created_at p = gp_created_at q \<and> gp_cost_center p = gp_cost_center q
     \<and> gp_department p = gp_department q \<and> gp_entity p = gp_entity q"

definition voucher :: "gl_posting list \<Rightarrow> bool" where
  "voucher v \<longleftrightarrow> debit_sum v = credit_sum v \<and> (\<forall>p \<in> set v. \<forall>q \<in> set v. same_slice p q)"

inductive balanced_books :: "gl_posting list \<Rightarrow> bool" where
  empty: "balanced_books []"
| add: "balanced_books ps \<Longrightarrow> voucher v \<Longrightarrow> balanced_books (ps @ v)"

definition slice_pred :: "(gl_posting \<Rightarrow> bool) \<Rightarrow> bool" where
  "slice_pred P \<longleftrightarrow> (\<forall>p q. same_slice p q \<longrightarrow> P p = P q)"

lemma voucher_filter:
  assumes "voucher v" "slice_pred P"
  shows "debit_sum (filter P v) = credit_sum (filter P v)"
proof (cases "\<exists>p \<in> set v. P p")
  case True
  with assms have "\<forall>p \<in> set v. P p" unfolding voucher_def slice_pred_def by blast
  then have "filter P v = v" by (simp add: filter_id_conv)
  with assms(1) show ?thesis by (simp add: voucher_def)
next
  case False
  then have "filter P v = []" by (simp add: filter_empty_conv)
  then show ?thesis by (simp add: debit_sum_def credit_sum_def)
qed

lemma balanced_books_filter:
  "balanced_books ps \<Longrightarrow> slice_pred P \<Longrightarrow> debit_sum (filter P ps) = credit_sum (filter P ps)"
proof (induction rule: balanced_books.induct)
  case empty
  then show ?case by (simp add: debit_sum_def credit_sum_def)
next
  case (add ps v)
  then show ?case using voucher_filter by simp
qed

definition amounts_ok :: "amounts \<Rightarrow> bool" where
  "amounts_ok m \<longleftrightarrow> (\<forall>(_, v) \<in> set m. 0 \<le> v) \<and> total_of m < 2 ^ 63"

lemma amounts_ok_sum: "amounts_ok m \<Longrightarrow> sum_paise m = total_of m \<and> total_of (positives m) = total_of m"
proof -
  assume ok: "amounts_ok m"
  then have "0 \<le> total_of m" by (force simp: amounts_ok_def total_of_def intro!: sum_list_nonneg)
  with ok show ?thesis by (simp add: sum_paise_eq wrap64_id amounts_ok_def total_of_positives)
qed

lemma voucher_rows_voucher:
  assumes "amounts_ok debits" "amounts_ok credits" "sum_paise debits = sum_paise credits"
  shows "voucher (voucher_rows dt i key opt cur moment debits credits)"
proof -
  have "same_slice p q" if "p \<in> set (voucher_rows dt i key opt cur moment debits credits)"
    "q \<in> set (voucher_rows dt i key opt cur moment debits credits)" for p q
    using that by (auto simp: voucher_rows_def posting_row_def same_slice_def)
  then show ?thesis
    using assms amounts_ok_sum by (simp add: voucher_def voucher_sums)
qed

definition books_ok :: "tenant \<Rightarrow> bool" where
  "books_ok t \<longleftrightarrow> balanced_books (t_postings t) \<and> distinct (map ga_code (t_accounts t))
     \<and> (\<forall>p \<in> set (t_postings t). gp_account p \<in> ga_code ` set (t_accounts t))"

lemma PostDoubleEntryTx_frame:
  "PostDoubleEntryTx env dt i debits credits txdate key opt t = Inr t' \<Longrightarrow>
     \<exists>rows. t' = t\<lparr>t_postings := t_postings t @ rows\<rparr>"
  by (erule PostDoubleEntryTxE) (auto intro: exI [of _ "[]"])

lemma books_ok_post [inv_intros]:
  assumes "books_ok t" and "amounts_ok debits" "amounts_ok credits"
    and "PostDoubleEntryTx env dt i debits credits txdate key opt t = Inr t'"
  shows "books_ok t'"
  using assms(4)
proof (cases rule: PostDoubleEntryTxE)
  case posted_before
  with assms(1) show ?thesis by simp
next
  case (posts opt' cur moment)
  have "gp_account p \<in> ga_code ` set (t_accounts t)"
    if "p \<in> set (voucher_rows dt i key opt' cur moment debits credits)" for p
    using that posts(5) by (force simp: voucher_rows_def posting_row_def list_ex_iff)
  with assms(1) posts(2) voucher_rows_voucher [OF assms(2,3) posts(3)] show ?thesis
    by (auto simp: books_ok_def intro: balanced_books.add)
qed

lemma sum_list_partition:
  assumes "distinct cs" and "\<forall>p \<in> set ps. f p \<in> set cs"
  shows "sum_list (map (\<lambda>c. sum_list (map g (filter (\<lambda>p. f p = c \<and> Q p) ps))) cs)
    = (sum_list (map g (filter Q ps)) :: int)"
  using assms(2)
proof (induction ps)
  case Nil
  then show ?case by simp
next
  case (Cons p ps)
  from Cons.prems have fp: "f p \<in> set cs" by simp
  have one: "sum_list (map (\<lambda>c. if f p = c \<and> Q p then g p + h c else h c) cs)
      = (if Q p then g p else 0) + sum_list (map h cs)" for h
    using assms(1) fp
  proof (induction cs)
    case Nil
    then show ?case by simp
  next
    case (Cons c cs)
    show ?case
    proof (cases "f p = c")
      case True
      with Cons.prems have m: "map (\<lambda>c. if f p = c \<and> Q p then g p + h c else h c) cs = map h cs"
        by (auto intro: map_cong)
      show ?thesis unfolding list.map(2) m using True by simp
    next
      case False
      with Cons.prems have "f p \<in> set cs" by simp
      with Cons.IH Cons.prems have "sum_list (map (\<lambda>c. if f p = c \<and> Q p then g p + h c else h c) cs)
        = (if Q p then g p else 0) + sum_list (map h cs)" by simp
      with False show ?thesis by simp
    qed
  qed
  have m: "map (\<lambda>c. sum_list (map g (filter (\<lambda>q. f q = c \<and> Q q) (p # ps)))) cs
      = map (\<lambda>c. if f p = c \<and> Q p then g p + sum_list (map g (filter (\<lambda>q. f q = c \<and> Q q) ps))
                 else sum_list (map g (filter (\<lambda>q. f q = c \<and> Q q) ps))) cs" by simp
  show ?case unfolding m one using Cons.IH Cons.prems by simp
qed

lemma trial_totals:
  fixes asof f
  assumes "books_ok t"
  defines "P \<equiv> \<lambda>p. gp_created_at p < t_day_end t asof \<and> dimensionJoinClause f p"
  shows "sum_list (map (\<lambda>a. debit_sum (account_rows t asof f a)) (sort_key ga_code (t_accounts t))) = debit_sum (filter P (t_postings t))"
    "sum_list (map (\<lambda>a. credit_sum (account_rows t asof f a)) (sort_key ga_code (t_accounts t))) = credit_sum (filter P (t_postings t))"
proof -
  have d: "distinct (map ga_code (sort_key ga_code (t_accounts t)))"
    using assms(1) by (auto simp: books_ok_def distinct_map)
  have m: "\<forall>p \<in> set (t_postings t). gp_account p \<in> set (map ga_code (sort_key ga_code (t_accounts t)))"
    using assms(1) by (auto simp: books_ok_def)
  show "sum_list (map (\<lambda>a. debit_sum (account_rows t asof f a)) (sort_key ga_code (t_accounts t))) = debit_sum (filter P (t_postings t))"
    "sum_list (map (\<lambda>a. credit_sum (account_rows t asof f a)) (sort_key ga_code (t_accounts t))) = credit_sum (filter P (t_postings t))"
    using sum_list_partition [OF d m, of gp_debit P] sum_list_partition [OF d m, of gp_credit P]
    by (simp_all add: debit_sum_def credit_sum_def account_rows_def P_def comp_def)
qed

lemma slice_pred_report: "slice_pred (\<lambda>p. gp_created_at p < x \<and> dimensionJoinClause f p)"
  by (auto simp: slice_pred_def same_slice_def dimensionJoinClause_def)

lemma trial_balance_of_books_ok:
  assumes "books_ok t" "GetTrialBalance t asof f = Inr tb"
  shows "tb_balanced tb" "tb_total_debits tb = tb_total_credits tb"
proof -
  let ?rows = "map (\<lambda>a. (a, debit_sum (account_rows t asof f a), credit_sum (account_rows t asof f a))) (sort_key ga_code (t_accounts t))"
  let ?P = "\<lambda>p. gp_created_at p < t_day_end t asof \<and> dimensionJoinClause f p"
  have "(\<lambda>s (_ :: gl_account, d :: int, _ :: int). wrap64 (s + d)) = (\<lambda>s x. wrap64 (s + fst (snd x)))"
    "(\<lambda>s (_ :: gl_account, _ :: int, c :: int). wrap64 (s + c)) = (\<lambda>s x. wrap64 (s + snd (snd x)))"
    by (auto simp: fun_eq_iff)
  then have "foldl (\<lambda>s (_, d, _). wrap64 (s + d)) 0 ?rows = wrap64 (debit_sum (filter ?P (t_postings t)))"
    "foldl (\<lambda>s (_, _, c). wrap64 (s + c)) 0 ?rows = wrap64 (credit_sum (filter ?P (t_postings t)))"
    using trial_totals [OF assms(1), of asof f] by (simp_all add: foldl_wrap64_0 comp_def)
  moreover have "debit_sum (filter ?P (t_postings t)) = credit_sum (filter ?P (t_postings t))"
    using assms(1) balanced_books_filter [OF _ slice_pred_report] by (simp add: books_ok_def)
  ultimately show "tb_balanced tb" "tb_total_debits tb = tb_total_credits tb"
    using assms(2) by (auto simp: GetTrialBalance_def Let_def split: if_splits)
qed

section \<open>The interface posting clients rely on\<close>

text \<open>
  What every engine that books money relies on: an operation \<open>post\<close> on some state that
  keeps an invariant of the books when the amounts are not negative and fit, and that does
  nothing under a key already posted.
\<close>

locale posting =
  fixes post :: "string \<Rightarrow> string \<Rightarrow> amounts \<Rightarrow> amounts \<Rightarrow> string \<Rightarrow> string \<Rightarrow> 's \<Rightarrow> 's res"
    and good :: "'s \<Rightarrow> bool" and done_key :: "'s \<Rightarrow> string \<Rightarrow> bool"
  assumes post_good: "good s \<Longrightarrow> amounts_ok debits \<Longrightarrow> amounts_ok credits \<Longrightarrow>
      post dt i debits credits txdate key s = Inr s' \<Longrightarrow> good s'"
    and post_again: "key \<noteq> [] \<Longrightarrow> done_key s key \<Longrightarrow> post dt i debits credits txdate key s = Inr s' \<Longrightarrow> s' = s"
    and post_keeps: "post dt i debits credits txdate key s = Inr s' \<Longrightarrow> done_key s k \<Longrightarrow> done_key s' k"
begin

text \<open>A list of vouchers (doctype, document, debits, credits, date, key) posted one after the other.\<close>

definition post_all :: "(string \<times> string \<times> amounts \<times> amounts \<times> string \<times> string) list \<Rightarrow> 's \<Rightarrow> 's res" where
  "post_all vs s = efold (\<lambda>s (dt, i, d, c, x, k). post dt i d c x k s) s vs"

lemma post_all_good:
  assumes "post_all vs s = Inr s'" "good s"
    and "\<forall>(dt, i, d, c, x, k) \<in> set vs. amounts_ok d \<and> amounts_ok c"
  shows "good s'"
  using assms(1) unfolding post_all_def
proof (rule efold_invariant [where I = good])
  show "good s" by (rule assms(2))
  fix v s0 s1
  assume "v \<in> set vs" "good s0" "(case v of (dt, i, d, c, x, k) \<Rightarrow> post dt i d c x k s0) = Inr s1"
  moreover obtain dt i d c x k where "v = (dt, i, d, c, x, k)" by (cases v) auto
  ultimately show "good s1" using assms(3) post_good [of s0 d c dt i x k s1] by auto
qed

text \<open>A retry of vouchers that are all posted under their keys changes nothing.\<close>

lemma post_all_again:
  assumes "post_all vs s = Inr s'" and "\<forall>(dt, i, d, c, x, k) \<in> set vs. k \<noteq> [] \<and> done_key s k"
  shows "s' = s"
  using assms(1) unfolding post_all_def
proof (rule efold_invariant [where I = "\<lambda>u. u = s"])
  fix v s0 s1 assume v: "v \<in> set vs" "s0 = s" "(case v of (dt, i, d, c, x, k) \<Rightarrow> post dt i d c x k s0) = Inr s1"
  obtain dt i d c x k where "v = (dt, i, d, c, x, k)" by (cases v) auto
  with v assms(2) show "s1 = s" using post_again [of k s dt i d c x s1] by auto
qed simp

end

lemma key_posted_append: "key_posted t k \<Longrightarrow> key_posted (t\<lparr>t_postings := t_postings t @ rows\<rparr>) k"
  by (simp add: key_posted_def)

interpretation gl: posting "\<lambda>dt i d c x k t. PostDoubleEntryTx env dt i d c x k opt t" books_ok key_posted
  for env opt
proof
  show "books_ok s'" if "books_ok s" "amounts_ok debits" "amounts_ok credits"
    "PostDoubleEntryTx env dt i debits credits txdate key opt s = Inr s'" for s debits credits dt i txdate key s'
    using that by (rule books_ok_post)
  show "s' = s" if "key \<noteq> []" "key_posted s key" "PostDoubleEntryTx env dt i debits credits txdate key opt s = Inr s'"
    for key s dt i debits credits txdate s'
    using that(3,1,2) by (cases rule: PostDoubleEntryTxE) auto
  show "key_posted s' k" if "PostDoubleEntryTx env dt i debits credits txdate key opt s = Inr s'" "key_posted s k"
    for dt i debits credits txdate key s s' k
    using PostDoubleEntryTx_frame [OF that(1)] key_posted_append [OF that(2)] by auto
qed

section \<open>Properties\<close>

text \<open>
  The steps the books can take: a posting with amounts that are not negative and fit an
  int64, or any step that writes neither the postings nor the accounts.
\<close>

inductive books_step :: "posting_env \<Rightarrow> tenant \<Rightarrow> tenant \<Rightarrow> bool" for env where
  posting: "PostDoubleEntryTx env dt i debits credits txdate key opt t = Inr t' \<Longrightarrow>
      amounts_ok debits \<Longrightarrow> amounts_ok credits \<Longrightarrow> books_step env t t'"
| other: "t_postings t' = t_postings t \<Longrightarrow> t_accounts t' = t_accounts t \<Longrightarrow> books_step env t t'"

lemma books_step_ok: "books_step env t t' \<Longrightarrow> books_ok t \<Longrightarrow> books_ok t'"
proof (induction rule: books_step.induct)
  case (posting dt i debits credits txdate key opt t t')
  from posting(4,2,3,1) show ?case by (rule books_ok_post)
next
  case (other t' t)
  then show ?case by (simp add: books_ok_def)
qed

lemma books_reachable: "(books_step env)\<^sup>*\<^sup>* t t' \<Longrightarrow> books_ok t \<Longrightarrow> books_ok t'"
  by (induction rule: rtranclp_induct) (auto intro: books_step_ok)

definition plain_env :: posting_env where
  "plain_env = \<lparr>pe_dims = (\<lambda>_ _. ([], [], [])), pe_bound_time = [], pe_instant = (\<lambda>_. 0)\<rparr>"

definition two_accounts :: tenant where
  "two_accounts = empty_tenant\<lparr>t_accounts :=
     [\<lparr>ga_code = ''1100'', ga_name = ''Cash'', ga_type = ''Asset''\<rparr>,
      \<lparr>ga_code = ''4100'', ga_name = ''Sales'', ga_type = ''Revenue''\<rparr>]\<rparr>"

lemma two_accounts_facts:
  "t_documents two_accounts = []" "t_periods two_accounts = []" "t_postings two_accounts = []"
  "map ga_code (t_accounts two_accounts) = [''1100'', ''4100'']" "t_now two_accounts = 0"
  by (simp_all add: two_accounts_def empty_tenant_def)

definition cash_row :: "int \<Rightarrow> gl_posting" where
  "cash_row v = posting_row True ''POSCart'' ''C1'' ''K'' no_opts None 0 ''1100'' v"

definition sales_row :: "int \<Rightarrow> gl_posting" where
  "sales_row v = posting_row False ''POSCart'' ''C1'' ''K'' no_opts None 0 ''4100'' v"

text \<open>Postings where no period is closed, for the witnesses.\<close>

lemma insert_side_ok:
  assumes "\<forall>(code, v) \<in> set m. code \<in> ga_code ` set (t_accounts t)"
  shows "insert_side dr dt i key opt cur moment m t
    = Inr (t\<lparr>t_postings := t_postings t @ map (\<lambda>(code, val). posting_row dr dt i key opt cur moment code val) (positives m)\<rparr>)"
  using assms
proof (induction m arbitrary: t)
  case Nil
  then show ?case by (simp add: insert_side_def positives_def)
next
  case (Cons x m)
  obtain code v where x: "x = (code, v)" by fastforce
  let ?t = "if v \<le> 0 then t else t\<lparr>t_postings := t_postings t @ [posting_row dr dt i key opt cur moment code v]\<rparr>"
  have "list_ex (\<lambda>a. ga_code a = code) (t_accounts t)" using Cons.prems x by (auto simp: list_ex_iff)
  then have "insert_side dr dt i key opt cur moment (x # m) t = insert_side dr dt i key opt cur moment m ?t"
    by (simp add: insert_side_def x)
  with Cons.IH [of ?t] Cons.prems x show ?case by (simp add: positives_def)
qed

lemma post_open:
  assumes "t_periods t = []" "\<forall>(code, v) \<in> set ds \<union> set cs. code \<in> ga_code ` set (t_accounts t)" "sum_paise ds = sum_paise cs"
    and "key = [] \<or> \<not> key_posted t key" "date = [] \<or> is_iso_date date" "stamp = [] \<or> is_posting_time stamp"
  shows "PostDoubleEntryTx plain_env dt i ds cs date key (no_opts\<lparr>po_posted_at := stamp\<rparr>) t
    = Inr (t\<lparr>t_postings := t_postings t @ voucher_rows dt i key (no_opts\<lparr>po_posted_at := stamp\<rparr>) None (if stamp = [] then t_now t else 0) ds cs\<rparr>)"
proof -
  let ?opt = "no_opts\<lparr>po_posted_at := stamp\<rparr>"
  have w: "with_dimensions plain_env t i ?opt = ?opt"
    by (simp add: with_dimensions_def plain_env_def no_opts_def)
  have cur: "currencyPostingArgs t ?opt = None"
    by (simp add: currencyPostingArgs_def no_opts_def trim_def to_upper_def)
  have per: "rejectIfCurrentPeriodClosed t dt i date = Inr ()"
    using assms(1,5) by (auto simp: rejectIfCurrentPeriodClosed_def)
  have refs: "validateCostCenterReference (po_cost_center ?opt) t = Inr ()" "validateDepartmentReference (po_department ?opt) t = Inr ()"
    "validateLegalEntityReference (po_entity ?opt) t = Inr ()" "validateProjectReference (po_project ?opt) t = Inr ()"
    by (simp_all add: no_opts_def validateCostCenterReference_def validateDepartmentReference_def
        validateLegalEntityReference_def validateProjectReference_def validateReference_def)
  have mom: "(if stamp = [] then Inr (t_now t) else postedAtSQL plain_env stamp) = Inr (if stamp = [] then t_now t else 0)"
    using assms(6) by (auto simp: postedAtSQL_def plain_env_def)
  have d: "insert_side True dt i key ?opt None m ds t
      = Inr (t\<lparr>t_postings := t_postings t @ map (\<lambda>(code, val). posting_row True dt i key ?opt None m code val) (positives ds)\<rparr>)" for m
    using assms(2) by (intro insert_side_ok) auto
  have c: "insert_side False dt i key ?opt None m cs (t\<lparr>t_postings := x\<rparr>)
      = Inr (t\<lparr>t_postings := x @ map (\<lambda>(code, val). posting_row False dt i key ?opt None m code val) (positives cs)\<rparr>)" for m x
    using insert_side_ok [of cs "t\<lparr>t_postings := x\<rparr>"] assms(2) by auto
  have stamp: "(if po_posted_at ?opt = [] then pe_bound_time plain_env else po_posted_at ?opt) = stamp"
    by (simp add: plain_env_def)
  show ?thesis
    unfolding PostDoubleEntryTx_def Let_def refs rbind_simps w cur stamp per mom d c
    using assms(3,4) by (auto simp: voucher_rows_def)
qed

lemma post_pair:
  assumes "t_periods t = []" "{x, y} \<subseteq> ga_code ` set (t_accounts t)" "0 < a" "0 < b" "sum_paise [(x, a)] = sum_paise [(y, b)]"
    and "key = [] \<or> \<not> key_posted t key"
  shows "PostDoubleEntryTx plain_env dt i [(x, a)] [(y, b)] [] key no_opts t
    = Inr (t\<lparr>t_postings := t_postings t @ [posting_row True dt i key no_opts None (t_now t) x a,
         posting_row False dt i key no_opts None (t_now t) y b]\<rparr>)"
proof -
  have "no_opts\<lparr>po_posted_at := []\<rparr> = no_opts" by (simp add: no_opts_def)
  with post_open [of t "[(x, a)]" "[(y, b)]" key "[]" "[]" dt i] assms show ?thesis
    by (simp add: voucher_rows_def positives_def)
qed

lemma post_two_accounts:
  assumes "sum_paise [(''1100'', a)] = sum_paise [(''4100'', b)]" "0 < a" "0 < b"
  shows "PostDoubleEntryTx plain_env ''POSCart'' ''C1'' [(''1100'', a)] [(''4100'', b)] [] ''K'' no_opts two_accounts
    = Inr (two_accounts\<lparr>t_postings := [cash_row a, sales_row b]\<rparr>)"
proof -
  have "\<not> key_posted two_accounts ''K''" by (simp add: key_posted_def two_accounts_facts)
  moreover have "{''1100'', ''4100''} \<subseteq> ga_code ` set (t_accounts two_accounts)" by (simp add: two_accounts_def)
  ultimately show ?thesis
    using post_pair [of two_accounts "''1100''" "''4100''" a b "''K''" "''POSCart''" "''C1''"] assms
    by (simp add: two_accounts_facts cash_row_def sales_row_def)
qed

text \<open>
  C1: the trial balance always balances. From books that are balanced (an empty ledger is),
  after any sequence of postings of amounts that are not negative, the trial balance as of
  any date, for all accounts or for one cost center, department or legal entity, reports
  equal totals and \<open>balanced\<close>.
\<close>
theorem trial_balance_always_balances:
  assumes "(books_step env)\<^sup>*\<^sup>* t0 t" and "books_ok t0" and "GetTrialBalance t asof f = Inr tb"
  shows "tb_balanced tb \<and> tb_total_debits tb = tb_total_credits tb \<and> tb_status tb = ''Balanced trial ledger''"
proof -
  have ok: "books_ok t" by (rule books_reachable [OF assms(1,2)])
  from trial_balance_of_books_ok [OF ok assms(3)] have b: "tb_balanced tb" "tb_total_debits tb = tb_total_credits tb" .
  from assms(3) b(1) have "tb_status tb = ''Balanced trial ledger''"
    by (auto simp: GetTrialBalance_def Let_def split: if_splits)
  with b show ?thesis by simp
qed

theorem trial_balance_always_balances_witness:
  "\<exists>t tb. (books_step plain_env)\<^sup>*\<^sup>* two_accounts t \<and> length (t_postings t) = 2
     \<and> GetTrialBalance t ''2026-10-20'' no_filter = Inr tb \<and> tb_balanced tb"
proof -
  let ?t = "two_accounts\<lparr>t_postings := [cash_row 500, sales_row 500]\<rparr>"
  have "PostDoubleEntryTx plain_env ''POSCart'' ''C1'' [(''1100'', 500)] [(''4100'', 500)] [] ''K'' no_opts two_accounts = Inr ?t"
    by (rule post_two_accounts) (simp_all add: sum_paise_def)
  then have "books_step plain_env two_accounts ?t"
    by (rule books_step.posting) (simp_all add: amounts_ok_def total_of_def)
  then have steps: "(books_step plain_env)\<^sup>*\<^sup>* two_accounts ?t" by (rule r_into_rtranclp)
  have ok: "books_ok two_accounts"
    using two_accounts_facts by (simp add: books_ok_def balanced_books.empty)
  have iso: "is_iso_date ''2026-10-20''" by code_simp
  then obtain tb where tb: "GetTrialBalance ?t ''2026-10-20'' no_filter = Inr tb"
    by (simp add: GetTrialBalance_def Let_def)
  have "length (t_postings ?t) = 2" by simp
  with trial_balance_always_balances [OF steps ok tb] steps tb show ?thesis by blast
qed



text \<open>
  A negative amount gets past the balance check. The sums are compared with the
  negative amounts in them, but a row is written only for a positive amount: a posting of
  100 and -50 against 50 succeeds and leaves debits of 100 against credits of 50.
\<close>
theorem negative_amount_unbalances_the_ledger:
  "\<exists>t t'. books_ok t
     \<and> PostDoubleEntryTx plain_env ''JournalVoucher'' ''J1'' [(''1100'', 100), (''4100'', -50)] [(''4100'', 50)] [] [] no_opts t = Inr t'
     \<and> debit_sum (t_postings t') = 100 \<and> credit_sum (t_postings t') = 50"
proof -
  have ok: "books_ok two_accounts"
    using two_accounts_facts by (simp add: books_ok_def balanced_books.empty)
  have w: "with_dimensions plain_env two_accounts ''J1'' no_opts = no_opts"
    by (simp add: with_dimensions_def plain_env_def no_opts_def)
  have cur: "currencyPostingArgs two_accounts no_opts = None"
    by (simp add: currencyPostingArgs_def no_opts_def trim_def to_upper_def)
  have per: "rejectIfCurrentPeriodClosed two_accounts ''JournalVoucher'' ''J1'' [] = Inr ()"
    by (simp add: rejectIfCurrentPeriodClosed_def two_accounts_facts)
  have bal: "sum_paise [(''1100'', 100), (''4100'', -50)] = sum_paise [(''4100'', 50)]" by (simp add: sum_paise_def wrap64_def)
  let ?rows = "[posting_row True ''JournalVoucher'' ''J1'' [] no_opts None 0 ''1100'' 100,
      posting_row False ''JournalVoucher'' ''J1'' [] no_opts None 0 ''4100'' 50]"
  have "insert_side True ''JournalVoucher'' ''J1'' [] no_opts None 0 [(''1100'', 100), (''4100'', -50)] two_accounts
      = Inr (two_accounts\<lparr>t_postings := [?rows ! 0]\<rparr>)"
    "insert_side False ''JournalVoucher'' ''J1'' [] no_opts None 0 [(''4100'', 50)] (two_accounts\<lparr>t_postings := [?rows ! 0]\<rparr>)
      = Inr (two_accounts\<lparr>t_postings := ?rows\<rparr>)"
    by (simp_all add: insert_side_def two_accounts_def empty_tenant_def)
  then have "PostDoubleEntryTx plain_env ''JournalVoucher'' ''J1'' [(''1100'', 100), (''4100'', -50)] [(''4100'', 50)] [] [] no_opts two_accounts
      = Inr (two_accounts\<lparr>t_postings := ?rows\<rparr>)"
    using w cur per bal two_accounts_facts(5)
    by (simp add: PostDoubleEntryTx_def Let_def)
      (simp add: no_opts_def plain_env_def validateCostCenterReference_def validateDepartmentReference_def
        validateLegalEntityReference_def validateProjectReference_def validateReference_def)
  moreover have "debit_sum ?rows = 100" "credit_sum ?rows = 50"
    by (simp_all add: debit_sum_def credit_sum_def posting_row_def)
  ultimately show ?thesis
    using ok by (intro exI [of _ two_accounts] exI [of _ "two_accounts\<lparr>t_postings := ?rows\<rparr>"]) simp
qed

text \<open>
  A retry under a posted key is not silent once its period is closed. A posting under a
  key succeeds; after the period that holds today is closed, the same call is refused with
  FIN-0260 instead of doing nothing.
\<close>
theorem retry_after_close_is_refused:
  "\<exists>t p t1. PostDoubleEntryTx plain_env ''POSCart'' ''C1'' [(''1100'', 500)] [(''4100'', 500)] [] ''K'' no_opts t = Inr t1
     \<and> key_posted t1 ''K''
     \<and> PostDoubleEntryTx plain_env ''POSCart'' ''C1'' [(''1100'', 500)] [(''4100'', 500)] [] ''K'' no_opts
         (t1\<lparr>t_periods := [p]\<rparr>) = Inl (Coded ''FIN-0260'')"
proof -
  let ?t1 = "two_accounts\<lparr>t_postings := [cash_row 500, sales_row 500]\<rparr>"
  let ?p = "\<lparr>ap_id = ''P1'', ap_name = ''Oct'', ap_start = t_today two_accounts, ap_end = t_today two_accounts,
     ap_status = ''Closed'', ap_closed_by = None, ap_closed_at = None, ap_created_by = [], ap_round = 1, ap_reopened_by = None\<rparr>"
  have 1: "PostDoubleEntryTx plain_env ''POSCart'' ''C1'' [(''1100'', 500)] [(''4100'', 500)] [] ''K'' no_opts two_accounts = Inr ?t1"
    by (rule post_two_accounts) (simp_all add: sum_paise_def)
  have 2: "key_posted ?t1 ''K''" by (simp add: key_posted_def cash_row_def posting_row_def nullable_def)
  have "rejectIfCurrentPeriodClosed (?t1\<lparr>t_periods := [?p]\<rparr>) ''POSCart'' ''C1'' [] = Inl (Coded ''FIN-0260'')"
    by (simp add: rejectIfCurrentPeriodClosed_def covers_def isBackdatedPostingApproved_def two_accounts_facts)
  then have 3: "PostDoubleEntryTx plain_env ''POSCart'' ''C1'' [(''1100'', 500)] [(''4100'', 500)] [] ''K'' no_opts
      (?t1\<lparr>t_periods := [?p]\<rparr>) = Inl (Coded ''FIN-0260'')"
    by (simp add: PostDoubleEntryTx_def Let_def sum_paise_def)
      (simp add: no_opts_def validateCostCenterReference_def validateDepartmentReference_def
        validateLegalEntityReference_def validateProjectReference_def validateReference_def)
  from 1 2 3 show ?thesis by blast
qed

end
