(* ===== verification/Gst.thy ===== *)
theory Gst
  imports Ledger
begin

text \<open>
  GST (engines/gst.go) with the item lookup it rests on (engines/item_lookup.go,
  engines/barcode_policy.go), scheduled tax changes (engines/item_tax_change.go) and the
  refusal of fixed-asset items (engines/asset_items.go, engines/item_types.go); the sale,
  GST and exempt postings of a POS sale (engines/finance.go).

  Amounts are float64 rupees: every arithmetic operation is followed by \<open>fl\<close>. The item
  lookup follows registered barcodes from item to item and may not return, so what it and its
  callers compute is an option: \<open>None\<close> is a call that never returns. The tenant's item
  types (\<open>types\<close>, lower-cased name and fixed-asset flag) and the decoding of a purchase
  order's items text are arguments.
\<close>

section \<open>Results of calls that may not return\<close>

type_synonym 'a outcome = "'a res option"

definition obind :: "'a outcome \<Rightarrow> ('a \<Rightarrow> 'b outcome) \<Rightarrow> 'b outcome" where
  "obind x f = (case x of None \<Rightarrow> None | Some (Inl e) \<Rightarrow> Some (Inl e) | Some (Inr a) \<Rightarrow> f a)"

lemma obind_simps [simp]:
  "obind None f = None"
  "obind (Some (Inl e)) f = Some (Inl e)"
  "obind (Some (Inr a)) f = f a"
  by (simp_all add: obind_def)

lemma obind_InrE:
  assumes "obind x f = Some (Inr b)"
  obtains a where "x = Some (Inr a)" "f a = Some (Inr b)"
  using assms by (auto simp: obind_def split: option.splits sum.splits)

fun ofold :: "('s \<Rightarrow> 'a \<Rightarrow> 's outcome) \<Rightarrow> 's \<Rightarrow> 'a list \<Rightarrow> 's outcome" where
  "ofold f s [] = Some (Inr s)"
| "ofold f s (x # xs) = obind (f s x) (\<lambda>s'. ofold f s' xs)"

lemma ofold_invariant:
  assumes "ofold f s xs = Some (Inr t)" and "I s"
    and "\<And>s x s'. x \<in> set xs \<Longrightarrow> I s \<Longrightarrow> f s x = Some (Inr s') \<Longrightarrow> I s'"
  shows "I t"
  using assms
proof (induction xs arbitrary: s)
  case Nil
  then show ?case by simp
next
  case (Cons x xs)
  from Cons.prems(1) obtain s' where s': "f s x = Some (Inr s')" "ofold f s' xs = Some (Inr t)"
    by (auto elim: obind_InrE)
  from Cons.prems(2,3) s'(1) have "I s'" by auto
  with s'(2) Cons.prems(3) show ?case by (auto intro: Cons.IH)
qed

lemma rbind_eq_Inl: "rbind r f = Inl e \<longleftrightarrow> r = Inl e \<or> (\<exists>x. r = Inr x \<and> f x = Inl e)"
  by (cases r) simp_all

section \<open>Item lookup\<close>

record resolved_item =
  ri_id :: string
  ri_status :: string
  ri_data :: payload
  ri_matched_on :: string

definition item_with :: "tenant \<Rightarrow> (document \<Rightarrow> bool) \<Rightarrow> document option" where
  "item_with t p = find (\<lambda>d. d_doctype d = ''Item'' \<and> \<not> d_deleted d \<and> p d) (t_documents t)"

text \<open>The query of \<open>ResolveItemBySKU\<close>: code before barcode before id.\<close>

definition direct_match :: "tenant \<Rightarrow> string \<Rightarrow> resolved_item option" where
  "direct_match t sku =
     (let found = (\<lambda>d m. Some \<lparr>ri_id = d_id d, ri_status = d_status d, ri_data = d_data d, ri_matched_on = m\<rparr>) in
      case item_with t (\<lambda>d. jtext (d_data d) ''code'' = Some sku) of
        Some d \<Rightarrow> found d ''code''
      | None \<Rightarrow> (case item_with t (\<lambda>d. jtext (d_data d) ''barcode'' = Some sku) of
          Some d \<Rightarrow> found d ''barcode''
        | None \<Rightarrow> (case item_with t (\<lambda>d. d_id d = sku) of
            Some d \<Rightarrow> found d ''id''
          | None \<Rightarrow> None)))"

definition resolveRegisteredBarcode :: "tenant \<Rightarrow> string \<Rightarrow> string" where
  "resolveRegisteredBarcode t code =
     (case find (\<lambda>d. d_doctype d = ''ItemBarcode'' \<and> \<not> d_deleted d \<and> d_status d = ''Active''
          \<and> (d_id d = code \<or> jtext (d_data d) ''code'' = Some code)) (t_documents t) of
        None \<Rightarrow> [] | Some d \<Rightarrow> coalesce (jtext (d_data d) ''item'') [])"

definition ErrItemNotFound :: err where
  "ErrItemNotFound = Plain ''item not found''"

partial_function (option) ResolveItemBySKU :: "tenant \<Rightarrow> string \<Rightarrow> resolved_item outcome" where
  "ResolveItemBySKU t sku =
     (if sku = [] then Some (Inl ErrItemNotFound)
      else case direct_match t sku of
        Some r \<Rightarrow> Some (Inr r)
      | None \<Rightarrow>
          (let item = resolveRegisteredBarcode t sku in
           if item \<noteq> [] \<and> item \<noteq> sku then
             Option.bind (ResolveItemBySKU t item) (\<lambda>r. Some (case r of
               Inl e \<Rightarrow> Inl e | Inr x \<Rightarrow> Inr (x\<lparr>ri_matched_on := ''registered_barcode''\<rparr>)))
           else Some (Inl ErrItemNotFound)))"

definition ItemTypeName :: "payload \<Rightarrow> string" where
  "ItemTypeName data = (let n = trim (jstr data ''item_type'') in
     if n = [] \<or> equal_fold n ''Stock'' then ''Product'' else n)"

definition IsFixedAssetItem :: "(string \<times> bool) list \<Rightarrow> payload \<Rightarrow> bool" where
  "IsFixedAssetItem types data = (let n = ItemTypeName data in
     case map_of types (to_lower n) of Some b \<Rightarrow> b | None \<Rightarrow> equal_fold ''Fixed Asset'' n)"

definition RejectNonSellableItem :: "(string \<times> bool) list \<Rightarrow> tenant \<Rightarrow> string \<Rightarrow> unit outcome" where
  "RejectNonSellableItem types t sku =
     (case ResolveItemBySKU t sku of
        None \<Rightarrow> None
      | Some (Inl e) \<Rightarrow> if e = ErrItemNotFound then Some (Inr ()) else Some (Inl e)
      | Some (Inr item) \<Rightarrow> if IsFixedAssetItem types (ri_data item) then Some (Inl (Coded ''ASSET-0273'')) else Some (Inr ()))"

section \<open>Tax classification\<close>

definition taxTreatmentAliases :: "(string \<times> string) list" where
  "taxTreatmentAliases =
     [(''taxable'', ''Taxable''), (''exempt'', ''Exempt''), (''exempted'', ''Exempt''),
      (''nilrated'', ''Nil-Rated''), (''nil'', ''Nil-Rated''), (''zerorated'', ''Zero-Rated''),
      (''zero'', ''Zero-Rated''), (''export'', ''Zero-Rated''), (''exports'', ''Zero-Rated'')]"

definition NormalizeTaxTreatment :: "string \<Rightarrow> string option" where
  "NormalizeTaxTreatment raw = (let cleaned = to_lower (trim raw) in
     if cleaned = [] then Some ''Taxable''
     else map_of taxTreatmentAliases (filter (\<lambda>c. c \<notin> {CHR '' '', CHR ''_'', CHR ''-''}) cleaned))"

definition IsTaxableTreatment :: "string \<Rightarrow> bool" where
  "IsTaxableTreatment treatment \<longleftrightarrow> treatment = ''Taxable''"

definition scheduledTaxChange :: "payload \<Rightarrow> string \<Rightarrow> (rat \<times> string) option" where
  "scheduledTaxChange data today =
     (let f = trim (strField data ''tax_change_from'') in
      if f = [] \<or> today < f then None
      else let rate = numFromInterface (jget data ''tax_change_gst_rate'');
               hsn = trim (strField data ''tax_change_hsn'')
           in if rate > 0 \<or> hsn \<noteq> [] then Some (rate, hsn) else None)"

definition withTaxChangeInForce :: "string \<Rightarrow> payload \<Rightarrow> payload" where
  "withTaxChangeInForce today data = (case scheduledTaxChange data today of
     None \<Rightarrow> data
   | Some (rate, hsn) \<Rightarrow>
       let d1 = (if rate > 0 then jput ''gst_rate'' (JNum rate) data else data)
       in if hsn \<noteq> [] then jput ''hsn_code'' (JStr hsn) d1 else d1)"

record item_tax_info =
  it_hsn :: string
  it_rate :: rat
  it_treatment :: string

definition tax_info_of :: "payload \<Rightarrow> item_tax_info res" where
  "tax_info_of data =
     (if jstr data ''hsn_code'' = [] then Inl (Coded ''ADMINC-0034'')
      else case NormalizeTaxTreatment (jstr data ''tax_treatment'') of
        None \<Rightarrow> Inl (Coded ''ADMINC-0034'')
      | Some tr \<Rightarrow>
          if \<not> IsTaxableTreatment tr then Inr \<lparr>it_hsn = jstr data ''hsn_code'', it_rate = 0, it_treatment = tr\<rparr>
          else (case jget data ''gst_rate'' of
              JNum rate \<Rightarrow> if rate > 0 then Inr \<lparr>it_hsn = jstr data ''hsn_code'', it_rate = rate, it_treatment = tr\<rparr>
                           else Inl (Coded ''ADMINC-0034'')
            | _ \<Rightarrow> Inl (Coded ''ADMINC-0034'')))"

definition GetItemTaxInfo :: "tenant \<Rightarrow> string \<Rightarrow> item_tax_info outcome" where
  "GetItemTaxInfo t sku = obind (ResolveItemBySKU t sku)
     (\<lambda>item. Some (tax_info_of (withTaxChangeInForce (t_today t) (ri_data item))))"

definition GetItemGSTInfo :: "tenant \<Rightarrow> string \<Rightarrow> (string \<times> rat) outcome" where
  "GetItemGSTInfo t sku = obind (GetItemTaxInfo t sku) (\<lambda>i. Some (Inr (it_hsn i, it_rate i)))"

section \<open>The GST computation\<close>

record gst_breakdown =
  gb_taxable :: rat
  gb_rate :: rat
  gb_interstate :: bool
  gb_cgst :: rat
  gb_sgst :: rat
  gb_igst :: rat
  gb_total_tax :: rat
  gb_total :: rat
  gb_exempt :: rat
  gb_nil :: rat
  gb_zero :: rat

definition empty_breakdown :: "bool \<Rightarrow> gst_breakdown" where
  "empty_breakdown ist = \<lparr>gb_taxable = 0, gb_rate = 0, gb_interstate = ist, gb_cgst = 0, gb_sgst = 0,
     gb_igst = 0, gb_total_tax = 0, gb_total = 0, gb_exempt = 0, gb_nil = 0, gb_zero = 0\<rparr>"

definition NonTaxableAmount :: "gst_breakdown \<Rightarrow> rat" where
  "NonTaxableAmount b = round2 (fl (fl (gb_exempt b + gb_nil b) + gb_zero b))"

definition CalculateGST :: "rat \<Rightarrow> rat \<Rightarrow> bool \<Rightarrow> gst_breakdown res" where
  "CalculateGST taxable rate ist =
     (if taxable < 0 then Inl (Plain ''taxable_amount cannot be negative'')
      else if rate < 0 then Inl (Plain ''gst_rate cannot be negative'')
      else
        let tax = round2 (fl (fl (taxable * rate) / 100));
            b = (empty_breakdown ist)\<lparr>gb_taxable := taxable, gb_rate := rate, gb_total_tax := tax,
                  gb_total := round2 (fl (taxable + tax))\<rparr>
        in Inr (if ist then b\<lparr>gb_igst := tax\<rparr>
                else let c = round2 (fl (tax / 2)) in b\<lparr>gb_cgst := c, gb_sgst := fl (tax - c)\<rparr>))"

record gst_line =
  gl_sku :: string
  gl_qty :: int
  gl_rate :: rat

text \<open>A line of an exempt, nil-rated or zero-rated item: its gross goes to its bucket and the total.\<close>

definition add_untaxed :: "string \<Rightarrow> rat \<Rightarrow> gst_breakdown \<Rightarrow> gst_breakdown" where
  "add_untaxed tr gross acc =
     (let b = (if tr = ''Exempt'' then acc\<lparr>gb_exempt := round2 (fl (gb_exempt acc + gross))\<rparr>
               else if tr = ''Nil-Rated'' then acc\<lparr>gb_nil := round2 (fl (gb_nil acc + gross))\<rparr>
               else if tr = ''Zero-Rated'' then acc\<lparr>gb_zero := round2 (fl (gb_zero acc + gross))\<rparr>
               else acc)
      in b\<lparr>gb_total := round2 (fl (gb_total b + gross))\<rparr>)"

lemma add_untaxed_keeps [simp]:
  "gb_interstate (add_untaxed tr g acc) = gb_interstate acc"
  "gb_cgst (add_untaxed tr g acc) = gb_cgst acc"
  "gb_sgst (add_untaxed tr g acc) = gb_sgst acc"
  "gb_igst (add_untaxed tr g acc) = gb_igst acc"
  "gb_taxable (add_untaxed tr g acc) = gb_taxable acc"
  "gb_total_tax (add_untaxed tr g acc) = gb_total_tax acc"
  by (simp_all add: add_untaxed_def Let_def)

definition gst_line_step :: "(string \<Rightarrow> item_tax_info outcome) \<Rightarrow> bool \<Rightarrow> bool \<Rightarrow> gst_breakdown \<Rightarrow> gst_line \<Rightarrow> gst_breakdown outcome" where
  "gst_line_step info ist inclusive acc line =
     (if gl_qty line \<le> 0 then Some (Inr acc)
      else obind (info (gl_sku line)) (\<lambda>i.
        let gross = fl (gl_rate line * fl (of_int (gl_qty line))) in
        if \<not> IsTaxableTreatment (it_treatment i) then
          Some (Inr (add_untaxed (it_treatment i) gross acc))
        else
          let taxable = (if inclusive then fl (gross / fl (1 + fl (it_rate i / 100))) else gross)
          in obind (Some (CalculateGST taxable (it_rate i) ist)) (\<lambda>b. Some (Inr (acc\<lparr>
               gb_taxable := fl (gb_taxable acc + gb_taxable b),
               gb_cgst := fl (gb_cgst acc + gb_cgst b),
               gb_sgst := fl (gb_sgst acc + gb_sgst b),
               gb_igst := fl (gb_igst acc + gb_igst b),
               gb_total_tax := fl (gb_total_tax acc + gb_total_tax b),
               gb_total := fl (gb_total acc + gb_total b)\<rparr>)))))"

definition finish_breakdown :: "gst_breakdown \<Rightarrow> gst_breakdown" where
  "finish_breakdown acc =
     (let b = acc\<lparr>gb_taxable := round2 (gb_taxable acc), gb_cgst := round2 (gb_cgst acc),
                gb_sgst := round2 (gb_sgst acc), gb_igst := round2 (gb_igst acc),
                gb_total_tax := round2 (gb_total_tax acc), gb_total := round2 (gb_total acc)\<rparr>
      in if gb_taxable b > 0 then b\<lparr>gb_rate := round2 (fl (fl (gb_total_tax b / gb_taxable b) * 100))\<rparr> else b)"

definition ComputeGSTForLinesMode :: "tenant \<Rightarrow> gst_line list \<Rightarrow> bool \<Rightarrow> string \<Rightarrow> gst_breakdown outcome" where
  "ComputeGSTForLinesMode t ls ist mode =
     obind (ofold (gst_line_step (GetItemTaxInfo t) ist (mode \<noteq> ''Exclusive'')) (empty_breakdown ist) ls)
       (\<lambda>acc. Some (Inr (finish_breakdown acc)))"

definition ComputeGSTForLines :: "(string \<times> bool) list \<Rightarrow> tenant \<Rightarrow> gst_line list \<Rightarrow> bool \<Rightarrow> gst_breakdown outcome" where
  "ComputeGSTForLines types t ls ist =
     obind (ofold (\<lambda>_ line. if gl_qty line \<le> 0 then Some (Inr ()) else RejectNonSellableItem types t (gl_sku line)) () ls)
       (\<lambda>_. ComputeGSTForLinesMode t ls ist ''Inclusive'')"

section \<open>The GST mode of a purchase order\<close>

definition ResolvePOGSTMode :: "tenant \<Rightarrow> payload \<Rightarrow> string" where
  "ResolvePOGSTMode t p = (let mode = trim (jstr p ''gst_mode'') in
     if mode = ''Exclusive'' then ''Exclusive''
     else if mode = ''Inclusive'' then ''Inclusive''
     else if SettingIsOverridden t ''procurement.po_gst_mode''
             \<and> GetSettingString t ''procurement.po_gst_mode'' = ''Inclusive'' then ''Inclusive''
     else ''Exclusive'')"

definition DefaultPOGSTMode :: "tenant \<Rightarrow> string" where
  "DefaultPOGSTMode t = (if GetSettingString t ''procurement.po_gst_mode'' = ''Exclusive'' then ''Exclusive'' else ''Inclusive'')"

definition StampNewPOGSTMode :: "tenant \<Rightarrow> payload \<Rightarrow> payload" where
  "StampNewPOGSTMode t p = (let m = trim (jstr p ''gst_mode'') in
     if m \<noteq> ''Exclusive'' \<and> m \<noteq> ''Inclusive'' then jput ''gst_mode'' (JStr (DefaultPOGSTMode t)) p else p)"

definition ComputePurchaseOrderGST ::
  "(string \<Rightarrow> gst_line list option) \<Rightarrow> tenant \<Rightarrow> payload \<Rightarrow> gst_breakdown outcome" where
  "ComputePurchaseOrderGST decode t p =
     (if jstr p ''items'' = [] then Some (Inr (empty_breakdown False))
      else case decode (jstr p ''items'') of
        None \<Rightarrow> Some (Inl (Plain ''could not parse items JSON''))
      | Some [] \<Rightarrow> Some (Inr (empty_breakdown False))
      | Some ls \<Rightarrow> ComputeGSTForLinesMode t ls (truthy (jget p ''interstate'')) (ResolvePOGSTMode t p))"

section \<open>The postings of a POS sale\<close>

definition paymentModeClearingAccount :: "string \<Rightarrow> string" where
  "paymentModeClearingAccount mode = (if mode = ''Card'' then ''1101'' else if mode = ''UPI'' then ''1102'' else ''1100'')"

definition accountRoundOff :: string where
  "accountRoundOff = ''5280''"

text \<open>The maps of the revenue voucher.\<close>

definition sale_bill :: "int \<Rightarrow> int \<Rightarrow> int \<times> int" where
  "sale_bill salePrice roundOff = (let bill = wrap64 (salePrice + roundOff) in
     if salePrice = 0 \<or> bill < 0 then (salePrice, 0) else (bill, roundOff))"

definition revenue_maps :: "int \<Rightarrow> int \<Rightarrow> int \<Rightarrow> string \<Rightarrow> int \<Rightarrow> amounts \<times> amounts" where
  "revenue_maps salePrice bill roundOff mode loyalty =
     (let cash = wrap64 (bill - loyalty) in
      ((if cash > 0 then [(paymentModeClearingAccount mode, cash)] else [])
         @ (if loyalty > 0 then [(''5250'', loyalty)] else [])
         @ (if roundOff < 0 then [(accountRoundOff, - roundOff)] else []),
       (''4100'', salePrice) # (if roundOff > 0 then [(accountRoundOff, roundOff)] else [])))"

definition postSalesFinanceBookingRoundedTx ::
  "posting_env \<Rightarrow> string \<Rightarrow> int \<Rightarrow> int \<Rightarrow> int \<Rightarrow> string \<Rightarrow> int \<Rightarrow> tenant \<Rightarrow> tenant res" where
  "postSalesFinanceBookingRoundedTx env cart salePrice roundOff0 costPrice mode loyalty t =
     (if salePrice < 0 then Inl (Plain ''sale price cannot be negative'')
      else if costPrice < 0 then Inl (Plain ''cost price cannot be negative'')
      else if loyalty < 0 then Inl (Plain ''loyalty discount cannot be negative'')
      else case sale_bill salePrice roundOff0 of (bill, roundOff) \<Rightarrow>
        if loyalty > bill then Inl (Plain ''loyalty discount cannot exceed the sale value'')
        else case revenue_maps salePrice bill roundOff mode loyalty of (debits, credits) \<Rightarrow>
          rbind (if salePrice > 0
                 then PostDoubleEntryTx env ''POSCart'' cart debits credits [] (''POSCart:'' @ cart @ '':SALE_REVENUE'') no_opts t
                 else Inr t) (\<lambda>t1.
            if costPrice = 0 then Inr t1
            else PostDoubleEntryTx env ''POSCart'' cart [(''5100'', costPrice)] [(''1200'', costPrice)] []
                   (''POSCart:'' @ cart @ '':SALE_COGS'') no_opts t1))"

definition PostSalesFinanceBookingTx ::
  "posting_env \<Rightarrow> string \<Rightarrow> int \<Rightarrow> int \<Rightarrow> string \<Rightarrow> int \<Rightarrow> tenant \<Rightarrow> tenant res" where
  "PostSalesFinanceBookingTx env cart salePrice costPrice mode loyalty t =
     postSalesFinanceBookingRoundedTx env cart salePrice 0 costPrice mode loyalty t"

definition gst_maps :: "gst_breakdown \<Rightarrow> amounts \<times> amounts" where
  "gst_maps b =
     (let c = RupeesToPaise (gb_cgst b); s = RupeesToPaise (gb_sgst b); i = RupeesToPaise (gb_igst b)
      in ([(''4100'', wrap64 (wrap64 (c + s) + i))],
          if gb_interstate b then [(''2202'', i)] else [(''2200'', c), (''2201'', s)]))"

definition PostSalesGSTBookingTx :: "posting_env \<Rightarrow> string \<Rightarrow> gst_breakdown \<Rightarrow> tenant \<Rightarrow> tenant res" where
  "PostSalesGSTBookingTx env cart b t = (case gst_maps b of (debits, credits) \<Rightarrow>
     if snd (hd debits) \<le> 0 then Inr t
     else PostDoubleEntryTx env ''POSCart'' cart debits credits [] (''POSCart:'' @ cart @ '':SALE_GST'') no_opts t)"

definition exempt_maps :: "gst_breakdown \<Rightarrow> amounts \<times> amounts" where
  "exempt_maps b =
     (let e = RupeesToPaise (gb_exempt b); n = RupeesToPaise (gb_nil b); z = RupeesToPaise (gb_zero b)
      in ([(''4100'', wrap64 (wrap64 (e + n) + z))],
          (if e > 0 then [(''4110'', e)] else []) @ (if n > 0 then [(''4111'', n)] else [])
            @ (if z > 0 then [(''4112'', z)] else [])))"

definition PostExemptSalesReclassTx :: "posting_env \<Rightarrow> string \<Rightarrow> gst_breakdown \<Rightarrow> tenant \<Rightarrow> tenant res" where
  "PostExemptSalesReclassTx env cart b t = (case exempt_maps b of (debits, credits) \<Rightarrow>
     if snd (hd debits) \<le> 0 then Inr t
     else PostDoubleEntryTx env ''POSCart'' cart debits credits [] (''POSCart:'' @ cart @ '':SALE_EXEMPT'') no_opts t)"

definition PostGRNFinanceBooking :: "posting_env \<Rightarrow> string \<Rightarrow> int \<Rightarrow> tenant \<Rightarrow> tenant res" where
  "PostGRNFinanceBooking env grn amount t =
     (if amount \<le> 0 then Inl (Plain ''GRN transaction value must be positive'')
      else let p = RupeesToPaise (fl (of_int amount)) in
        PostDoubleEntry env ''GRN'' grn [(''1200'', p)] [(''2100'', p)] [] (''GRN:'' @ grn @ '':RECEIPT'') no_opts t)"

section \<open>The item lookup returns\<close>

lemma ResolveItemBySKU_direct: "sku \<noteq> [] \<Longrightarrow> direct_match t sku = Some r \<Longrightarrow> ResolveItemBySKU t sku = Some (Inr r)"
  by (subst ResolveItemBySKU.simps) simp

lemma find_some_cases: "find p xs = Some x \<Longrightarrow> x \<in> set xs \<and> p x"
  by (auto simp: find_Some_iff)

text \<open>Every active registered barcode names a live item by its code, barcode or id.\<close>

definition barcodes_live :: "tenant \<Rightarrow> bool" where
  "barcodes_live t \<longleftrightarrow> (\<forall>d \<in> set (t_documents t).
     d_doctype d = ''ItemBarcode'' \<and> \<not> d_deleted d \<and> d_status d = ''Active'' \<longrightarrow>
       coalesce (jtext (d_data d) ''item'') [] = [] \<or> direct_match t (coalesce (jtext (d_data d) ''item'') []) \<noteq> None)"

lemma ResolveItemBySKU_returns:
  assumes "barcodes_live t"
  shows "ResolveItemBySKU t sku \<noteq> None"
proof (cases "sku = [] \<or> direct_match t sku \<noteq> None")
  case True
  then show ?thesis by (subst ResolveItemBySKU.simps) auto
next
  case False
  let ?i = "resolveRegisteredBarcode t sku"
  have "?i = [] \<or> direct_match t ?i \<noteq> None"
  proof (cases "find (\<lambda>d. d_doctype d = ''ItemBarcode'' \<and> \<not> d_deleted d \<and> d_status d = ''Active''
          \<and> (d_id d = sku \<or> jtext (d_data d) ''code'' = Some sku)) (t_documents t)")
    case None
    then show ?thesis by (simp add: resolveRegisteredBarcode_def)
  next
    case (Some d)
    from find_some_cases [OF this] assms Some show ?thesis
      unfolding resolveRegisteredBarcode_def barcodes_live_def by auto
  qed
  with False ResolveItemBySKU_direct [of ?i t] show ?thesis
    by (subst ResolveItemBySKU.simps) (auto simp: Let_def)
qed

section \<open>Paise of the GST split\<close>

lemma abs_less_cases: "\<bar>x\<bar> \<le> (b :: rat) \<longleftrightarrow> - b \<le> x \<and> x \<le> b" by linarith

lemma half_split:
  assumes T: "\<bar>T\<bar> \<le> 2 ^ 46"
  defines "tax \<equiv> PaiseToRupees T" and "C \<equiv> RupeesToPaise (fl (PaiseToRupees T / 2))"
  shows "\<bar>2 * C - T\<bar> \<le> 1" and "RupeesToPaise (fl (tax - PaiseToRupees C)) = T - C"
proof -
  have t: "\<bar>tax - of_int T / 100\<bar> \<le> 1/8192" unfolding tax_def by (rule PaiseToRupees_near' [OF T])
  have Tb: "\<bar>of_int T\<bar> \<le> (70368744177664 :: rat)" using abs_of_int_le [OF T] by simp
  have tb: "\<bar>tax\<bar> \<le> 1099511627776" using t Tb by linarith
  have h: "\<bar>fl (tax / 2) - tax / 2\<bar> \<le> 1/8192"
    using fl_error [of "tax / 2"] tb by simp
  then have hb: "\<bar>fl (tax / 2) * 100 - of_int T / 2\<bar> \<le> 1/32" using t by linarith
  then have "\<bar>fl (tax / 2) * 100\<bar> \<le> 70368744177664" using Tb by linarith
  then have "\<bar>fl (fl (tax / 2) * 100) - fl (tax / 2) * 100\<bar> \<le> 1/64"
    using fl_error [of "fl (tax / 2) * 100"] by simp
  with hb have "\<bar>fl (fl (tax / 2) * 100) - of_int T / 2\<bar> \<le> 1/16" by linarith
  moreover have "\<bar>fl (fl (tax / 2) * 100) - of_int C\<bar> \<le> 1/2"
    unfolding C_def RupeesToPaise_def tax_def by (rule math_round_error)
  ultimately have "\<bar>2 * of_int C - of_int T\<bar> < (2 :: rat)" by linarith
  then have "of_int \<bar>2 * C - T\<bar> < (of_int 2 :: rat)" by simp
  then show CT: "\<bar>2 * C - T\<bar> \<le> 1" by (simp only: of_int_less_iff)
  with T have Cb: "\<bar>C\<bar> \<le> 2 ^ 46" and D: "\<bar>T - C\<bar> \<le> 2 ^ 50" by simp_all
  have c: "\<bar>PaiseToRupees C - of_int C / 100\<bar> \<le> 1/8192" by (rule PaiseToRupees_near' [OF Cb])
  have "\<bar>of_int C\<bar> \<le> (70368744177664 :: rat)" using abs_of_int_le [OF Cb] by simp
  with c have "\<bar>PaiseToRupees C\<bar> \<le> 1099511627776" by linarith
  with tb have "\<bar>tax - PaiseToRupees C\<bar> \<le> 2199023255552" by linarith
  then have "\<bar>fl (tax - PaiseToRupees C) - (tax - PaiseToRupees C)\<bar> \<le> 1/4096"
    using fl_error [of "tax - PaiseToRupees C"] by simp
  with t c have "\<bar>fl (tax - PaiseToRupees C) * 100 - of_int (T - C)\<bar> \<le> 1/8"
    unfolding of_int_diff by linarith
  then show "RupeesToPaise (fl (tax - PaiseToRupees C)) = T - C" by (rule RupeesToPaise_near [OF D])
qed

section \<open>The breakdown keeps IGST and the split apart\<close>

definition split_ok :: "gst_breakdown \<Rightarrow> bool" where
  "split_ok b \<longleftrightarrow> (if gb_interstate b then gb_cgst b = 0 \<and> gb_sgst b = 0 else gb_igst b = 0)"

lemma round2_0 [simp]: "round2 0 = 0"
  using math_round_of_int [of 0] by (simp add: round2_def)

lemma RupeesToPaise_0 [simp]: "RupeesToPaise 0 = 0"
  using math_round_of_int [of 0] by (simp add: RupeesToPaise_def)

lemma CalculateGST_split: "CalculateGST x r ist = Inr b \<Longrightarrow> split_ok b \<and> gb_interstate b = ist"
  by (auto simp: CalculateGST_def split_ok_def empty_breakdown_def Let_def split: if_splits)

lemma gst_line_step_split:
  assumes "gst_line_step info ist inc acc line = Some (Inr t')" and "split_ok acc \<and> gb_interstate acc = ist"
  shows "split_ok t' \<and> gb_interstate t' = ist"
proof (cases "gl_qty line \<le> 0")
  case True
  with assms show ?thesis by (simp add: gst_line_step_def)
next
  case False
  with assms(1) obtain i where i: "info (gl_sku line) = Some (Inr i)"
    by (auto simp: gst_line_step_def elim: obind_InrE)
  show ?thesis
  proof (cases "IsTaxableTreatment (it_treatment i)")
    case True
    with False i assms(1) obtain x b where b: "CalculateGST x (it_rate i) ist = Inr b"
      and t': "t' = acc\<lparr>gb_taxable := fl (gb_taxable acc + gb_taxable b), gb_cgst := fl (gb_cgst acc + gb_cgst b),
               gb_sgst := fl (gb_sgst acc + gb_sgst b), gb_igst := fl (gb_igst acc + gb_igst b),
               gb_total_tax := fl (gb_total_tax acc + gb_total_tax b), gb_total := fl (gb_total acc + gb_total b)\<rparr>"
      by (auto simp: gst_line_step_def Let_def elim!: obind_InrE)
    from CalculateGST_split [OF b] assms(2) show ?thesis by (auto simp: t' split_ok_def)
  next
    case False
    with \<open>\<not> gl_qty line \<le> 0\<close> i assms show ?thesis by (auto simp: gst_line_step_def Let_def split_ok_def)
  qed
qed

lemma ComputeGSTForLinesMode_split:
  assumes "ComputeGSTForLinesMode t ls ist mode = Some (Inr b)"
  shows "split_ok b \<and> gb_interstate b = ist"
proof -
  from assms obtain acc where fold: "ofold (gst_line_step (GetItemTaxInfo t) ist (mode \<noteq> ''Exclusive'')) (empty_breakdown ist) ls = Some (Inr acc)"
    and b: "b = finish_breakdown acc"
    by (auto simp: ComputeGSTForLinesMode_def elim: obind_InrE)
  have "split_ok acc \<and> gb_interstate acc = ist"
    using fold
  proof (rule ofold_invariant)
    show "split_ok (empty_breakdown ist) \<and> gb_interstate (empty_breakdown ist) = ist"
      by (simp add: empty_breakdown_def split_ok_def)
  qed (rule gst_line_step_split)
  then show ?thesis by (auto simp: b finish_breakdown_def split_ok_def Let_def)
qed

lemma wrap64_idem [simp]: "wrap64 (wrap64 x) = wrap64 x"
  using wrap64_add [of x 0] by simp

lemma gst_maps_balance:
  assumes "split_ok b"
  shows "sum_paise (fst (gst_maps b)) = sum_paise (snd (gst_maps b))"
  using assms
  by (auto simp: gst_maps_def Let_def sum_paise_eq total_of_def split_ok_def wrap64_add)

lemma exempt_maps_balance:
  assumes "0 \<le> RupeesToPaise (gb_exempt b)" "0 \<le> RupeesToPaise (gb_nil b)" "0 \<le> RupeesToPaise (gb_zero b)"
  shows "sum_paise (fst (exempt_maps b)) = sum_paise (snd (exempt_maps b))"
proof -
  define e n z where d: "e = RupeesToPaise (gb_exempt b)" "n = RupeesToPaise (gb_nil b)" "z = RupeesToPaise (gb_zero b)"
  have "total_of (snd (exempt_maps b)) = e + n + z"
    using assms by (auto simp: exempt_maps_def Let_def total_of_def d [symmetric])
  moreover have "wrap64 (total_of (fst (exempt_maps b))) = wrap64 (e + n + z)"
    by (simp add: exempt_maps_def Let_def total_of_def d [symmetric] wrap64_add)
  ultimately show ?thesis by (simp add: sum_paise_eq)
qed

lemma revenue_maps_balance:
  assumes "0 < salePrice" "0 \<le> loyalty" "loyalty \<le> bill" "bill = salePrice + roundOff" "bill < 2 ^ 63"
  shows "sum_paise (fst (revenue_maps salePrice bill roundOff mode loyalty))
       = sum_paise (snd (revenue_maps salePrice bill roundOff mode loyalty))"
proof -
  have w: "wrap64 (bill - loyalty) = bill - loyalty" using assms by (intro wrap64_id) simp_all
  have s: "salePrice = bill - roundOff" using assms(4) by simp
  have "total_of (fst (revenue_maps salePrice bill roundOff mode loyalty))
      = total_of (snd (revenue_maps salePrice bill roundOff mode loyalty))"
    using assms(1-3) s by (auto simp: revenue_maps_def Let_def w total_of_def)
  then show ?thesis by (simp add: sum_paise_eq)
qed

lemma post_not_unbalanced:
  assumes "sum_paise debits = sum_paise credits"
  shows "PostDoubleEntryTx env dt i debits credits x k no_opts s \<noteq> Inl (Plain ''unbalanced double-entry journal'')"
proof
  let ?e = "Plain ''unbalanced double-entry journal''"
  assume a: "PostDoubleEntryTx env dt i debits credits x k no_opts s = Inl ?e"
  have ref: "validateReference dt code s \<noteq> Inl ?e" for dt code
    by (auto simp: validateReference_def split: option.splits)
  have per: "rejectIfCurrentPeriodClosed s dt i x \<noteq> Inl ?e" by (simp add: rejectIfCurrentPeriodClosed_def)
  have ins: "insert_side dr dt i k o' cur m a u \<noteq> Inl ?e" for dr o' cur m a u
    by (auto simp: insert_side_def dest!: efold_error split: if_splits)
  have tim: "postedAtSQL env y \<noteq> Inl ?e" for y by (simp add: postedAtSQL_def)
  have tim2: "(if y = [] then Inr (t_now s) else postedAtSQL env y) \<noteq> Inl ?e" for y using tim by simp
  from a assms show False
    unfolding PostDoubleEntryTx_def Let_def rbind_eq_Inl validateCostCenterReference_def validateDepartmentReference_def
      validateLegalEntityReference_def validateProjectReference_def
    using ref per ins tim2 by (auto simp only: rbind_eq_Inl split: if_split_asm)
qed

section \<open>Properties\<close>

text \<open>
  CGST and SGST share the tax to the paisa. For an intra-state line whose tax is at
  most 2^46 paise, \<open>CalculateGST\<close> charges no IGST, the paise of CGST and SGST add up to
  the paise of the total tax although all three are float64 rupees, and the two halves
  differ by at most one paisa.
\<close>
theorem cgst_sgst_share_the_tax:
  assumes "CalculateGST taxable rate False = Inr b"
    and "\<bar>RupeesToPaise (fl (fl (taxable * rate) / 100))\<bar> \<le> 2 ^ 46"
  shows "RupeesToPaise (gb_cgst b) + RupeesToPaise (gb_sgst b) = RupeesToPaise (gb_total_tax b)
    \<and> \<bar>RupeesToPaise (gb_cgst b) - RupeesToPaise (gb_sgst b)\<bar> \<le> 1 \<and> gb_igst b = 0"
proof -
  define T where "T = RupeesToPaise (fl (fl (taxable * rate) / 100))"
  define C where "C = RupeesToPaise (fl (PaiseToRupees T / 2))"
  have T: "\<bar>T\<bar> \<le> 2 ^ 46" using assms(2) by (simp add: T_def)
  have b: "gb_total_tax b = PaiseToRupees T" "gb_cgst b = PaiseToRupees C"
    "gb_sgst b = fl (PaiseToRupees T - PaiseToRupees C)" "gb_igst b = 0"
    using assms(1) by (auto simp: CalculateGST_def Let_def round2_PaiseToRupees T_def C_def empty_breakdown_def split: if_splits)
  note H = half_split [OF T, folded C_def]
  have "\<bar>C\<bar> \<le> 2 ^ 50" "\<bar>T\<bar> \<le> 2 ^ 50" using H(1) T by simp_all
  then have "RupeesToPaise (gb_cgst b) = C" "RupeesToPaise (gb_total_tax b) = T" "RupeesToPaise (gb_sgst b) = T - C"
    using H(2) by (simp_all add: b RupeesToPaise_PaiseToRupees)
  with H(1) b(4) show ?thesis by simp
qed

lemma sample_tax: "fl (fl 18000 / 100) = 180" "RupeesToPaise 180 = 18000" "RupeesToPaise (round2 180) = 18000"
proof -
  have "fl (of_int 18000) = (of_int 18000 :: rat)" "fl (of_int 180) = (of_int 180 :: rat)" by (rule fl_of_int, simp)+
  then show "fl (fl 18000 / 100) = 180" "RupeesToPaise 180 = 18000"
    using math_round_of_int [of 18000] by (simp_all add: RupeesToPaise_def)
  then show "RupeesToPaise (round2 180) = 18000"
    by (simp add: round2_PaiseToRupees RupeesToPaise_PaiseToRupees)
qed

theorem cgst_sgst_share_the_tax_witness:
  "\<exists>b. CalculateGST 1000 18 False = Inr b
     \<and> RupeesToPaise (gb_cgst b) + RupeesToPaise (gb_sgst b) = RupeesToPaise (gb_total_tax b)"
proof -
  obtain b where b: "CalculateGST 1000 18 False = Inr b" by (simp add: CalculateGST_def Let_def)
  then have "gb_total_tax b = round2 180"
    by (auto simp: CalculateGST_def Let_def sample_tax empty_breakdown_def split: if_splits)
  with sample_tax cgst_sgst_share_the_tax [OF b] b show ?thesis by auto
qed

text \<open>
  C21: the GST posting of a computed breakdown never fails the balance check. Whatever the
  lines, rates and mode, the breakdown \<open>ComputeGSTForLinesMode\<close> returns charges either
  IGST or CGST and SGST and never both, and the voucher \<open>PostSalesGSTBookingTx\<close> builds
  from it has equal sums on both sides.
\<close>
theorem computed_gst_posting_balances:
  assumes "ComputeGSTForLinesMode t ls ist mode = Some (Inr b)"
  shows "(if ist then gb_cgst b = 0 \<and> gb_sgst b = 0 else gb_igst b = 0)
    \<and> sum_paise (fst (gst_maps b)) = sum_paise (snd (gst_maps b))
    \<and> PostSalesGSTBookingTx env cart b s \<noteq> Inl (Plain ''unbalanced double-entry journal'')"
proof -
  from ComputeGSTForLinesMode_split [OF assms] have sp: "split_ok b" and i: "gb_interstate b = ist" by auto
  from gst_maps_balance [OF sp] have bal: "sum_paise (fst (gst_maps b)) = sum_paise (snd (gst_maps b))" .
  note post_not_unbalanced [of "fst (gst_maps b)" "snd (gst_maps b)"]
  with bal have "PostSalesGSTBookingTx env cart b s \<noteq> Inl (Plain ''unbalanced double-entry journal'')"
    by (auto simp: PostSalesGSTBookingTx_def split: prod.splits)
  with sp i bal show ?thesis by (simp add: split_ok_def)
qed

theorem computed_gst_posting_balances_witness:
  "sum_paise (fst (gst_maps (empty_breakdown True))) = sum_paise (snd (gst_maps (empty_breakdown True)))"
proof -
  have "ComputeGSTForLinesMode empty_tenant [] True ''Inclusive'' = Some (Inr (empty_breakdown True))"
    by (simp add: ComputeGSTForLinesMode_def finish_breakdown_def empty_breakdown_def)
  from computed_gst_posting_balances [OF this, of plain_env "''C1''" empty_tenant] show ?thesis by blast
qed

text \<open>
  The revenue voucher of a sale balances in every case. For a sale that fits an int64,
  any round-off between -50 and 50 paise, any payment mode and any loyalty discount up to
  the bill, the debits (clearing account, points, round-off) equal the credits (sales,
  round-off), and the customer's cash, points and round-off account for the bill.
\<close>
theorem sale_voucher_balances:
  assumes "0 < salePrice" "salePrice < 2 ^ 62" "\<bar>roundOff\<bar> \<le> 50" "0 \<le> loyalty"
    and "sale_bill salePrice roundOff = (bill, r)" and "loyalty \<le> bill"
    and "revenue_maps salePrice bill r mode loyalty = (debits, credits)"
  shows "sum_paise debits = sum_paise credits \<and> amounts_ok debits \<and> amounts_ok credits
    \<and> bill = salePrice + r \<and> total_of (filter (\<lambda>(a, _). a \<noteq> accountRoundOff) debits) = bill"
proof -
  have w: "wrap64 (salePrice + roundOff) = salePrice + roundOff" using assms(1-3) by (intro wrap64_id) simp_all
  with assms(1,5) have b: "bill = salePrice + r" "r = roundOff \<or> r = 0" "0 \<le> bill"
    by (auto simp: sale_bill_def Let_def split: if_splits)
  with assms(2,3) have lt: "bill < 2 ^ 63" "\<bar>r\<bar> \<le> 50" by auto
  from b assms(1-3) have pos: "0 \<le> bill" and fit: "bill \<le> 2 ^ 62 + 50" "salePrice + \<bar>r\<bar> < 2 ^ 63" by auto
  have bal: "sum_paise debits = sum_paise credits"
    using revenue_maps_balance [OF assms(1,4,6) b(1) lt(1), of mode] assms(7) by simp
  have w2: "wrap64 (bill - loyalty) = bill - loyalty" using assms(4,6) lt(1) by (intro wrap64_id) simp_all
  have "amounts_ok debits" "amounts_ok credits"
    using assms(1,2,4,6,7) lt pos fit
    by (auto simp: revenue_maps_def Let_def w2 amounts_ok_def total_of_def split: if_splits)
  moreover have "total_of (filter (\<lambda>(a, _). a \<noteq> accountRoundOff) debits) = bill"
    using assms(4,6,7)
    by (auto simp: revenue_maps_def Let_def w2 total_of_def accountRoundOff_def paymentModeClearingAccount_def split: if_splits)
  ultimately show ?thesis using bal b(1) by blast
qed

theorem sale_voucher_balances_witness:
  "sum_paise [(''1102'', 89950), (''5250'', 10000), (''5280'', 49)] = sum_paise [(''4100'', 99999)]"
proof -
  have "sale_bill 99999 (-49) = (99950, -49)" by (simp add: sale_bill_def wrap64_def)
  moreover have "revenue_maps 99999 99950 (-49) ''UPI'' 10000
      = ([(''1102'', 89950), (''5250'', 10000), (''5280'', 49)], [(''4100'', 99999)])"
    by (simp add: revenue_maps_def wrap64_def paymentModeClearingAccount_def accountRoundOff_def)
  ultimately show ?thesis
    using sale_voucher_balances [of 99999 "-49" 10000 99950 "-49" "''UPI''"] by simp
qed



definition barcode_doc :: "string \<Rightarrow> string \<Rightarrow> document" where
  "barcode_doc i item = \<lparr>d_doctype = ''ItemBarcode'', d_id = i, d_data = [(''item'', JStr item)], d_status = ''Active'',
     d_created_by = ''u1'', d_updated_by = None, d_deleted = False, d_created_at = 0, d_updated_at = 0\<rparr>"

definition barcode_ring :: tenant where
  "barcode_ring = empty_tenant\<lparr>t_documents := [barcode_doc ''A'' ''B'', barcode_doc ''B'' ''A'']\<rparr>"

lemma barcode_ring_facts:
  "direct_match barcode_ring sku = None"
  "resolveRegisteredBarcode barcode_ring ''A'' = ''B''" "resolveRegisteredBarcode barcode_ring ''B'' = ''A''"
  by (simp_all add: direct_match_def item_with_def barcode_ring_def barcode_doc_def resolveRegisteredBarcode_def
      jtext_def jget_def coalesce_def Let_def)

lemma barcode_ring_loops:
  assumes "ResolveItemBySKU t sku = Some y"
  shows "t = barcode_ring \<and> sku \<in> {''A'', ''B''} \<longrightarrow> False"
proof (rule ResolveItemBySKU.raw_induct [where P = "\<lambda>t sku y. t = barcode_ring \<and> sku \<in> {''A'', ''B''} \<longrightarrow> False", OF _ assms])
  fix f t sku ta
  assume ih: "\<And>sku b y. f sku b = Some y \<Longrightarrow> sku = barcode_ring \<and> b \<in> {''A'', ''B''} \<longrightarrow> False"
    and eq: "(if sku = [] then Some (Inl ErrItemNotFound)
        else case direct_match t sku of
             None \<Rightarrow>
               let item = resolveRegisteredBarcode t sku
               in if item \<noteq> [] \<and> item \<noteq> sku
                  then Option.bind (f t item)
                        (\<lambda>r. Some (case r of Inl e \<Rightarrow> Inl e
                               | Inr x \<Rightarrow> Inr (x\<lparr>ri_matched_on := ''registered_barcode''\<rparr>)))
                  else Some (Inl ErrItemNotFound)
             | Some r \<Rightarrow> Some (Inr r)) = Some ta"
  show "t = barcode_ring \<and> sku \<in> {''A'', ''B''} \<longrightarrow> False"
  proof
    assume t: "t = barcode_ring \<and> sku \<in> {''A'', ''B''}"
    with eq have "(\<exists>y. f barcode_ring ''B'' = Some y) \<or> (\<exists>y. f barcode_ring ''A'' = Some y)"
      by (auto simp: barcode_ring_facts Let_def bind_eq_Some_conv)
    with ih show False by blast
  qed
qed

text \<open>
  Two registered barcodes that name each other, neither of them a live item, send the
  lookup round for ever: only a barcode that names itself is caught.
\<close>
theorem barcode_ring_never_returns:
  "ResolveItemBySKU barcode_ring ''A'' = None \<and> GetItemTaxInfo barcode_ring ''A'' = None"
proof -
  have "ResolveItemBySKU barcode_ring ''A'' = None"
    using barcode_ring_loops [of barcode_ring "''A''"] by (cases "ResolveItemBySKU barcode_ring ''A''") auto
  then show ?thesis by (simp add: GetItemTaxInfo_def)
qed

end
