(* ===== verification/Inventory.thy ===== *)
theory Inventory
  imports StockLocations Gst
begin

text \<open>
  The stock engine (engines/inventory.go, engines/negative_stock_policy.go,
  engines/reservation_sweeper.go): posting a document's lines to a store's stock with the
  floor check, the append-only stock ledger and its replay keys, available to sell,
  reservations, and the sweep of reservations nothing waits on.

  A line is a decoded JSON map or something else; the mark \<open>negativeStockMark\<close>, a Go type no
  JSON text decodes into, is a flag beside the map. An error rolls the transaction back, so
  an operation returns either an error or the new state. Times are seconds. The virtual
  bundle branch of \<open>GetAvailableToSell\<close> is an argument.
\<close>

section \<open>The stock ledger\<close>

record ledger_entry =
  le_item :: string
  le_warehouse :: string
  le_qty :: rat
  le_voucher_type :: string
  le_voucher :: string
  le_key :: string
  le_from_location :: string
  le_to_location :: string
  le_from_status :: string
  le_to_status :: string
  le_user :: string
  le_device :: string
  le_batch :: string
  le_serial :: string
  le_owner :: string

definition is_sle :: "document \<Rightarrow> bool" where
  "is_sle d \<longleftrightarrow> d_doctype d = ''StockLedgerEntry''"

text \<open>\<open>(data->>'qty')::numeric\<close>: NULL, a number, or a text that must be one.\<close>

definition as_numeric :: "payload \<Rightarrow> string \<Rightarrow> rat option res" where
  "as_numeric m k = (case jget m k of
     JNull \<Rightarrow> Inr None
   | JNum q \<Rightarrow> Inr (Some q)
   | JStr s \<Rightarrow> (case trim s of
       [] \<Rightarrow> Inl (Plain ''invalid input syntax for type numeric'')
     | c # cs \<Rightarrow> (case (if c = CHR ''-'' then map_option uminus (parse_udec cs)
                       else if c = CHR ''+'' then parse_udec cs else parse_udec (c # cs)) of
         Some q \<Rightarrow> Inr (Some q)
       | None \<Rightarrow> Inl (Plain ''invalid input syntax for type numeric'')))
   | _ \<Rightarrow> Inl (Plain ''invalid input syntax for type numeric''))"

definition stock_sum :: "document list \<Rightarrow> string \<Rightarrow> string \<Rightarrow> rat res" where
  "stock_sum ds item wh = efold (\<lambda>acc d.
     if is_sle d \<and> jtext (d_data d) ''item_id'' = Some item \<and> jtext (d_data d) ''warehouse_id'' = Some wh
     then rbind (as_numeric (d_data d) ''qty'') (\<lambda>q. Inr (acc + coalesce q 0)) else Inr acc) 0 ds"

definition GetStockBalance :: "stock \<Rightarrow> string \<Rightarrow> string \<Rightarrow> rat res" where
  "GetStockBalance s item wh = rbind (stock_sum (t_documents (st_t s)) item wh) (\<lambda>q. Inr (fl q))"

definition key_written :: "stock \<Rightarrow> string \<Rightarrow> bool" where
  "key_written s key \<longleftrightarrow> list_ex (\<lambda>d. is_sle d \<and> jget (d_data d) ''idempotency_key'' = JStr key) (t_documents (st_t s))"

definition optional_field :: "string \<Rightarrow> string \<Rightarrow> payload" where
  "optional_field k v = (if v \<noteq> [] then [(k, JStr v)] else [])"

definition entry_payload :: "string \<Rightarrow> ledger_entry \<Rightarrow> payload" where
  "entry_payload i e =
     [(''id'', JStr i), (''code'', JStr i), (''item_id'', JStr (le_item e)),
      (''warehouse_id'', JStr (le_warehouse e)), (''qty'', JNum (le_qty e)),
      (''voucher_type'', JStr (le_voucher_type e)), (''voucher_id'', JStr (le_voucher e)),
      (''status'', JStr ''Active'')]
     @ optional_field ''idempotency_key'' (le_key e)
     @ optional_field ''from_location_id'' (le_from_location e)
     @ optional_field ''to_location_id'' (le_to_location e)
     @ optional_field ''from_status'' (le_from_status e)
     @ optional_field ''to_status'' (le_to_status e)
     @ optional_field ''user_id'' (le_user e) @ optional_field ''device_id'' (le_device e)
     @ optional_field ''batch_no'' (le_batch e) @ optional_field ''serial_no'' (le_serial e)
     @ optional_field ''owner_id'' (le_owner e)"

text \<open>The identifier is fresh (theory DocIds), so the INSERT does not meet an existing key.\<close>

definition insertStockLedgerEntry :: "stock \<Rightarrow> ledger_entry \<Rightarrow> stock" where
  "insertStockLedgerEntry s e =
     (if le_key e \<noteq> [] \<and> key_written s (le_key e) then s
      else
        let n = uniqueNanos (t_now (st_t s)) (st_last_nanos s);
            i = NewDocIDCompact (st_suffix s) ''SLE'' n
        in with_tenant (\<lambda>t. insert_doc (new_doc t ''StockLedgerEntry'' i (entry_payload i e) ''Active'' ''system'') t)
             (s\<lparr>st_last_nanos := n\<rparr>))"

text \<open>\<open>merged\<close>: the lines of one SKU and lot become one, where the first of them stood.\<close>

fun merge_lines :: "posted_line list \<Rightarrow> posted_line list \<Rightarrow> posted_line list" where
  "merge_lines merged [] = merged"
| "merge_lines merged (p # ps) =
     (if list_ex (\<lambda>m. pl_sku m = pl_sku p \<and> pl_batch m = pl_batch p) merged
      then merge_lines (map (\<lambda>m. if pl_sku m = pl_sku p \<and> pl_batch m = pl_batch p
                                 then m\<lparr>pl_qty := pl_qty m + pl_qty p\<rparr> else m) merged) ps
      else merge_lines (merged @ [p]) ps)"

definition ledger_key :: "string \<Rightarrow> string \<Rightarrow> string \<Rightarrow> string \<Rightarrow> string \<Rightarrow> string" where
  "ledger_key vt vid loc sku batch =
     join '':'' [vt, vid, loc, sku] @ (if batch \<noteq> [] then CHR '':'' # batch else [])"

definition entry_for :: "string \<Rightarrow> string \<Rightarrow> string \<Rightarrow> string \<Rightarrow> posted_line \<Rightarrow> ledger_entry" where
  "entry_for loc vt vid user p =
     \<lparr>le_item = pl_sku p, le_warehouse = loc, le_qty = fl (of_int (pl_qty p)), le_voucher_type = vt,
      le_voucher = vid, le_key = (if vid \<noteq> [] then ledger_key vt vid loc (pl_sku p) (pl_batch p) else []),
      le_from_location = [], le_to_location = [], le_from_status = [], le_to_status = [],
      le_user = user, le_device = [], le_batch = pl_batch p, le_serial = [], le_owner = []\<rparr>"

definition stockLedgerEntriesFor :: "string \<Rightarrow> string \<Rightarrow> string \<Rightarrow> string \<Rightarrow> posted_line list \<Rightarrow> ledger_entry list" where
  "stockLedgerEntriesFor loc vt vid user ps =
     map (entry_for loc vt vid user) (if vid \<noteq> [] then merge_lines [] ps else ps)"

definition writeStockLedgerLinesInTx :: "string \<Rightarrow> string \<Rightarrow> string \<Rightarrow> string \<Rightarrow> posted_line list \<Rightarrow> stock \<Rightarrow> stock" where
  "writeStockLedgerLinesInTx loc vt vid user ps s =
     foldl insertStockLedgerEntry s (stockLedgerEntriesFor loc vt vid user ps)"

text \<open>engines/command_spine.go: the same lines, refused when dated in a closed period.\<close>

definition WriteStockLedgerLinesTx :: "string \<Rightarrow> string \<Rightarrow> string \<Rightarrow> string \<Rightarrow> string \<Rightarrow> posted_line list \<Rightarrow> stock \<Rightarrow> stock res" where
  "WriteStockLedgerLinesTx loc vt vid user date ps s =
     rbind (rejectIfCurrentPeriodClosed (st_t s) vt vid date) (\<lambda>_.
       Inr (writeStockLedgerLinesInTx loc vt vid user ps s))"

section \<open>Posting lines to stock\<close>

datatype stock_item =
    Malformed
  | Line payload bool

record negative_event =
  ne_sku :: string
  ne_loc :: string
  ne_shortfall :: int
  ne_resulting :: int

definition stockItemSKU :: "stock_item \<Rightarrow> string" where
  "stockItemSKU it = (case it of Malformed \<Rightarrow> [] | Line m _ \<Rightarrow> jstr m ''sku'')"

definition line_qty :: "payload \<Rightarrow> int" where
  "line_qty m = (case jget m ''qty'' of JNum q \<Rightarrow> go_trunc q | _ \<Rightarrow> 0)"

definition floor_check :: "string \<Rightarrow> string \<Rightarrow> int \<Rightarrow> bool \<Rightarrow> bool \<Rightarrow> stock \<Rightarrow> (stock \<times> negative_event list) res" where
  "floor_check sku loc qty allows honours s =
     (if find_row s sku loc = None \<and> \<not> allows then Inl (InsufficientStockError sku loc 0 (- qty) 0)
      else
        let r = row s sku loc;
            cur = bucket_of r ''available'';
            heldForOrders = (if honours \<and> \<not> allows \<and> 0 < av_reserved r then av_reserved r else 0);
            cur1 = cur - heldForOrders
        in rbind (if cur1 + qty < 0 then drawFromSellablePoolsTx sku loc (- (cur1 + qty)) s else Inr (s, 0))
             (\<lambda>(s1, covered).
               let cur2 = cur1 + covered in
               if 0 \<le> cur2 + qty then Inr (s1, [])
               else if \<not> allows then
                 Inl (InsufficientStockError sku loc
                   (if 0 < heldForOrders \<and> cur2 < 0 then 0 else cur2) (- qty) heldForOrders)
               else Inr (s1, [\<lparr>ne_sku = sku, ne_loc = loc, ne_shortfall = - (cur2 + qty), ne_resulting = cur2 + qty\<rparr>])))"

text \<open>\<open>INSERT ... ON CONFLICT (sku, location_code) DO UPDATE\<close>\<close>

definition upsert_stock :: "string \<Rightarrow> string \<Rightarrow> int \<Rightarrow> stock \<Rightarrow> stock res" where
  "upsert_stock sku loc q s =
     (if \<not> int4 q then Inl out_of_range
      else case find_row s sku loc of
        None \<Rightarrow> Inr (s\<lparr>st_avail := st_avail s @ [new_row sku loc q]\<rparr>)
      | Some _ \<Rightarrow> update_row sku loc
          (\<lambda>r. r\<lparr>av_on_hand := av_on_hand r + q, av_available := av_available r + q\<rparr>) s)"

definition post_line ::
  "string \<Rightarrow> bool \<Rightarrow> stock \<times> negative_event list \<times> posted_line list \<Rightarrow> stock_item \<Rightarrow>
     (stock \<times> negative_event list \<times> posted_line list) res" where
  "post_line loc allowNegative = (\<lambda>(s, events, posted) it. case it of
     Malformed \<Rightarrow> Inr (s, events, posted)
   | Line m mark \<Rightarrow>
       let sku = jstr m ''sku''; qty = line_qty m; allows = (allowNegative \<or> mark) in
       if sku = [] \<or> qty = 0 then Inr (s, events, posted)
       else rbind (if qty < 0 then floor_check sku loc qty allows (jbool m ''respect_reserved'') s else Inr (s, []))
         (\<lambda>(s1, evs). rbind (upsert_stock sku loc qty s1) (\<lambda>s2.
           Inr (s2, events @ evs, posted @ [\<lparr>pl_sku = sku, pl_qty = qty, pl_batch = trim (jstr m ''batch_no'')\<rparr>]))))"

definition PostInventoryLedgerWithVoucherTx ::
  "string \<Rightarrow> stock_item list \<Rightarrow> bool \<Rightarrow> stock \<Rightarrow> (stock \<times> negative_event list \<times> posted_line list) res" where
  "PostInventoryLedgerWithVoucherTx loc items allowNegative s =
     efold (post_line loc allowNegative) (s, [], []) (sort_key stockItemSKU items)"

definition PostInventoryLedgerWithVoucher ::
  "string \<Rightarrow> stock_item list \<Rightarrow> bool \<Rightarrow> string \<Rightarrow> string \<Rightarrow> string \<Rightarrow> stock \<Rightarrow> (negative_event list \<times> stock) res" where
  "PostInventoryLedgerWithVoucher loc items allowNegative vt vid user s =
     (if items = [] then Inr ([], s)
      else rbind (PostInventoryLedgerWithVoucherTx loc items allowNegative s) (\<lambda>(s1, events, posted).
        rbind (if vt = ''GRN'' then applyReceiptDefaultTx ''Goods Receipt'' loc posted (Some (docStockField s1 vid ''stock_to'')) s1
               else Inr s1)
          (\<lambda>s2. Inr (events, writeStockLedgerLinesInTx loc vt vid user posted s2))))"

definition PostInventoryLedger :: "string \<Rightarrow> stock_item list \<Rightarrow> bool \<Rightarrow> stock \<Rightarrow> (negative_event list \<times> stock) res" where
  "PostInventoryLedger loc items allowNegative s =
     PostInventoryLedgerWithVoucher loc items allowNegative ''StockAdjustment'' [] [] s"

text \<open>engines/negative_stock_policy.go. The item lookup may not return (theory Gst).\<close>

definition productTypeAllowsNegative :: "tenant \<Rightarrow> string \<Rightarrow> bool option" where
  "productTypeAllowsNegative t sku = (case ResolveItemBySKU t sku of
     None \<Rightarrow> None
   | Some (Inl _) \<Rightarrow> Some False
   | Some (Inr item) \<Rightarrow>
       let pt = trim (strField (ri_data item) ''product_type'') in
       if pt = [] then Some False
       else Some (case find (\<lambda>d. d_doctype d = ''ProductType'' \<and> \<not> d_deleted d \<and>
               (d_id d = pt \<or> jtext (d_data d) ''code'' = Some pt \<or> jtext (d_data d) ''name'' = Some pt)) (t_documents t) of
             Some d \<Rightarrow> equal_fold (trim (coalesce (jtext (d_data d) ''allow_negative_stock'') [])) ''Yes''
           | None \<Rightarrow> False))"

text \<open>The cache of the loop holds what the lookup returned, and the lookup is a function of the state.\<close>

fun markNegativeStockAllowed :: "tenant \<Rightarrow> stock_item list \<Rightarrow> stock_item list option" where
  "markNegativeStockAllowed t [] = Some []"
| "markNegativeStockAllowed t (Malformed # its) = map_option ((#) Malformed) (markNegativeStockAllowed t its)"
| "markNegativeStockAllowed t (Line m mark # its) =
     Option.bind (productTypeAllowsNegative t (strField m ''sku'')) (\<lambda>allow.
       map_option ((#) (Line m (allow \<or> mark))) (markNegativeStockAllowed t its))"

section \<open>Available to sell and reservations\<close>

definition computeATS :: "ats_policy \<Rightarrow> availability \<Rightarrow> int" where
  "computeATS p r =
     av_available r - av_reserved r - av_safety_stock r - av_blocked r - av_channel_buffer r - av_hold_qty r
     + (if QCHoldSellable p then av_qc_hold r else 0) + (if DamagedSellable p then av_damaged r else 0)"

record available_to_sell =
  as_row :: availability
  as_ats :: int
  as_locations :: "location_qty list"

definition GetAvailableToSell :: "(stock \<Rightarrow> string \<Rightarrow> string \<Rightarrow> int option) \<Rightarrow> stock \<Rightarrow> string \<Rightarrow> string \<Rightarrow> int + available_to_sell" where
  "GetAvailableToSell bundle s sku loc = (case bundle s sku loc of
     Some ats \<Rightarrow> Inl ats
   | None \<Rightarrow> (case find_row s sku loc of
       None \<Rightarrow> Inr \<lparr>as_row = new_row sku loc 0, as_ats = 0, as_locations = []\<rparr>
     | Some r \<Rightarrow> Inr \<lparr>as_row = r, as_ats = computeATS (atsPolicyFor s) r,
                  as_locations = StockLocationBalances s sku loc\<rparr>))"

definition nonempty :: "string \<Rightarrow> string option" where
  "nonempty v = (if trim v = [] then None else Some (trim v))"

definition new_reservation ::
  "stock \<Rightarrow> string \<Rightarrow> string \<Rightarrow> int \<Rightarrow> string \<Rightarrow> int \<Rightarrow> (string \<times> string) option \<Rightarrow> reservation" where
  "new_reservation s sku loc qty resType expirySec attribution =
     (let expiry = (if expirySec \<le> 0 then GetSettingInt (st_t s) ''inventory.reservation_ttl_seconds'' else expirySec)
      in \<lparr>rs_id = st_next_uuid s, rs_sku = sku, rs_loc = loc, rs_qty = qty, rs_type = resType,
          rs_expires = t_now (st_t s) + expiry, rs_created = t_now (st_t s),
          rs_order = Option.bind attribution (\<lambda>(ord, _). nonempty ord),
          rs_line = Option.bind attribution (\<lambda>(_, line). nonempty line)\<rparr>)"

definition CreateReservation ::
  "string \<Rightarrow> string \<Rightarrow> int \<Rightarrow> string \<Rightarrow> int \<Rightarrow> (string \<times> string) option \<Rightarrow> stock \<Rightarrow> (nat \<times> stock) res" where
  "CreateReservation sku loc qty resType expirySec attribution s =
     (case find_row s sku loc of
        None \<Rightarrow> Inl (Plain ''insufficient stock for reservation of SKU'')
      | Some r \<Rightarrow>
          if computeATS (atsPolicyFor s) r < qty then Inl (Plain ''insufficient stock available for reservation'')
          else if \<not> int4 qty then Inl out_of_range
          else rbind (update_row sku loc (\<lambda>r. r\<lparr>av_reserved := av_reserved r + qty\<rparr>)
              (s\<lparr>st_reservations := st_reservations s @ [new_reservation s sku loc qty resType expirySec attribution],
                 st_next_uuid := Suc (st_next_uuid s)\<rparr>))
            (\<lambda>s'. Inr (st_next_uuid s, s')))"

section \<open>The sweeper\<close>

definition line_status :: "document \<Rightarrow> string" where
  "line_status l = coalesce (jtext (d_data l) ''line_status'') (d_status l)"

text \<open>A line of an order that still holds its stock.\<close>

definition live_line :: "tenant \<Rightarrow> string option \<Rightarrow> bool" where
  "live_line t line \<longleftrightarrow> list_ex (\<lambda>l. d_doctype l = ''SalesOrderLine'' \<and> Some (d_id l) = line \<and> \<not> d_deleted l
     \<and> line_status l \<in> {''Reserved'', ''Allocated'', ''Picking'', ''Picked'', ''Packed''}) (t_documents t)"

definition doomed :: "tenant \<Rightarrow> reservation \<Rightarrow> bool" where
  "doomed t r \<longleftrightarrow> (rs_order r = None \<and> rs_expires r < t_now t)
     \<or> (rs_order r \<noteq> None \<and> \<not> live_line t (rs_line r))"

definition reservationSweepBatch :: nat where
  "reservationSweepBatch = 500"

record sweep_result =
  sw_expired :: nat
  sw_orphaned :: nat
  sw_released :: int

definition sweep_batch :: "stock \<Rightarrow> reservation list" where
  "sweep_batch s = take reservationSweepBatch (sort_key rs_created (filter (doomed (st_t s)) (st_reservations s)))"

definition release_row :: "stock \<times> sweep_result \<Rightarrow> reservation \<Rightarrow> (stock \<times> sweep_result) res" where
  "release_row = (\<lambda>(s, res) d.
     rbind (update_row (rs_sku d) (rs_loc d) (\<lambda>r. r\<lparr>av_reserved := max (av_reserved r - rs_qty d) 0\<rparr>)
         (s\<lparr>st_reservations := filter (\<lambda>r. rs_id r \<noteq> rs_id d) (st_reservations s)\<rparr>))
       (\<lambda>s'. Inr (s', res\<lparr>sw_released := sw_released res + rs_qty d,
          sw_orphaned := sw_orphaned res + (if rs_order d \<noteq> None then 1 else 0),
          sw_expired := sw_expired res + (if rs_order d \<noteq> None then 0 else 1)\<rparr>)))"

definition sweepReservationsForSchema :: "stock \<Rightarrow> (stock \<times> sweep_result) res" where
  "sweepReservationsForSchema s = efold release_row (s, \<lparr>sw_expired = 0, sw_orphaned = 0, sw_released = 0\<rparr>) (sweep_batch s)"

section \<open>What posting a line does\<close>

text \<open>\<open>q\<close> units drawn from QC Hold and \<open>d\<close> from Damage.\<close>

definition draw_row :: "int \<Rightarrow> int \<Rightarrow> availability \<Rightarrow> availability" where
  "draw_row q d r = r\<lparr>av_available := av_available r + q + d, av_qc_hold := av_qc_hold r - q, av_damaged := av_damaged r - d\<rparr>"

text \<open>Only one row changes, by \<open>f\<close>; it may be new.\<close>

definition row_change :: "string \<Rightarrow> string \<Rightarrow> (availability \<Rightarrow> availability) \<Rightarrow> stock \<Rightarrow> stock \<Rightarrow> bool" where
  "row_change sku loc f s s' \<longleftrightarrow> others s' = others s \<and> st_balances s' = st_balances s
     \<and> (\<forall>a b. row s' a b = (if a = sku \<and> b = loc then f (row s a b) else row s a b))
     \<and> (\<forall>a b. has_row s a b \<longrightarrow> has_row s' a b) \<and> (rows_int4 s \<longrightarrow> rows_int4 s')"

lemma row_change_refl: "row_change sku loc (\<lambda>r. r) s s"
  by (simp add: row_change_def)

lemma draw_row_0: "draw_row 0 0 = (\<lambda>r. r)"
  by (simp add: fun_eq_iff draw_row_def)

lemma row_change_trans:
  "row_change sku loc f s t \<Longrightarrow> row_change sku loc g t u \<Longrightarrow> row_change sku loc (\<lambda>r. g (f r)) s u"
  by (simp add: row_change_def)

lemma row_change_update:
  assumes "update_row sku loc f s = Inr s'" "\<And>r a b. at_row a b (f r) = at_row a b r" "has_row s sku loc"
  shows "row_change sku loc f s s'"
  using update_row_row [OF assms(1,2)] update_row_frame [OF assms(1)] update_row_int4 [OF assms(1)] assms(3)
  by (auto simp: row_change_def)

lemma efold_two: "efold f s [x, y] = Inr t \<Longrightarrow> \<exists>u. f s x = Inr u \<and> f u y = Inr t"
  by (auto split: sum.splits)

lemma draw_pool_change:
  assumes "draw_pool sku loc k (s, c) (col, on, have) = Inr (s', c')" "has_row s sku loc" "0 \<le> c"
  obtains t where "0 \<le> t" "0 < t \<longrightarrow> on \<and> t \<le> have \<and> c + t \<le> k" "c' = c + t"
    "row_change sku loc (\<lambda>r. (add_pool col (- t) r)\<lparr>av_available := av_available r + t\<rparr>) s s'"
proof (cases "\<not> on \<or> c \<ge> k \<or> have \<le> 0")
  case True
  have id: "(add_pool col 0 r)\<lparr>av_available := av_available r\<rparr> = r" for r by (simp add: add_pool_def)
  from True assms(1) have "s' = s" "c' = c" by (auto simp: draw_pool_def)
  then show ?thesis using that [of 0] row_change_refl by (simp add: id)
next
  case False
  define t where "t = (if k - c > have then have else k - c)"
  have at: "at_row a b ((add_pool col (- t) r)\<lparr>av_available := av_available r + t\<rparr>) = at_row a b r" for r a b
    by (simp add: at_row_def)
  from False assms(1) have u: "update_row sku loc (\<lambda>r. (add_pool col (- t) r)\<lparr>av_available := av_available r + t\<rparr>) s = Inr s'"
    and c: "c' = c + t" by (auto simp: draw_pool_def t_def Let_def)
  from False c row_change_update [OF u at assms(2)] show ?thesis by (intro that [of t]) (auto simp: t_def)
qed

lemma drawFromSellablePoolsTx_change:
  assumes "drawFromSellablePoolsTx sku loc k s = Inr (s', covered)"
  obtains q d where "0 \<le> q" "0 \<le> d" "covered = q + d" "q + d \<le> max 0 k"
    "0 < q \<longrightarrow> QCHoldSellable (atsPolicyFor s) \<and> q \<le> av_qc_hold (row s sku loc)"
    "0 < d \<longrightarrow> DamagedSellable (atsPolicyFor s) \<and> d \<le> av_damaged (row s sku loc)"
    "row_change sku loc (draw_row q d) s s'"
proof (cases "k \<le> 0 \<or> (\<not> QCHoldSellable (atsPolicyFor s) \<and> \<not> DamagedSellable (atsPolicyFor s)) \<or> find_row s sku loc = None")
  case True
  with assms have "s' = s" "covered = 0" by (auto simp: drawFromSellablePoolsTx_def Let_def split: if_splits)
  then show ?thesis using that [of 0 0] row_change_refl by (simp add: draw_row_0)
next
  case False
  then obtain b where b: "find_row s sku loc = Some b" and k: "0 < k" by auto
  then have r: "row s sku loc = b" "has_row s sku loc" by (simp_all add: row_def has_row_def)
  from False assms b have "efold (draw_pool sku loc k) (s, 0)
      [(''qc_hold'', QCHoldSellable (atsPolicyFor s), av_qc_hold b),
       (''damaged'', DamagedSellable (atsPolicyFor s), av_damaged b)] = Inr (s', covered)"
    unfolding drawFromSellablePoolsTx_def Let_def by (auto split: if_splits simp del: efold.simps)
  from efold_two [OF this] obtain u where
    u: "draw_pool sku loc k (s, 0) (''qc_hold'', QCHoldSellable (atsPolicyFor s), av_qc_hold b) = Inr u"
      "draw_pool sku loc k u (''damaged'', DamagedSellable (atsPolicyFor s), av_damaged b) = Inr (s', covered)" by blast
  obtain s1 c1 where "u = (s1, c1)" by fastforce
  note 1 = u(1) [unfolded this] and 2 = u(2) [unfolded this]
  obtain q where q: "0 \<le> q" "0 < q \<longrightarrow> QCHoldSellable (atsPolicyFor s) \<and> q \<le> av_qc_hold b \<and> 0 + q \<le> k" "c1 = 0 + q"
    "row_change sku loc (\<lambda>r. (add_pool ''qc_hold'' (- q) r)\<lparr>av_available := av_available r + q\<rparr>) s s1"
    using draw_pool_change [OF 1 r(2) order_refl] by blast
  then have h1: "has_row s1 sku loc" "0 \<le> c1" using r(2) by (simp_all add: row_change_def)
  obtain d where d: "0 \<le> d" "0 < d \<longrightarrow> DamagedSellable (atsPolicyFor s) \<and> d \<le> av_damaged b \<and> c1 + d \<le> k" "covered = c1 + d"
    "row_change sku loc (\<lambda>r. (add_pool ''damaged'' (- d) r)\<lparr>av_available := av_available r + d\<rparr>) s1 s'"
    using draw_pool_change [OF 2 h1] by blast
  have "draw_row q d = (\<lambda>r. (add_pool ''damaged'' (- d) ((add_pool ''qc_hold'' (- q) r)\<lparr>av_available := av_available r + q\<rparr>))\<lparr>av_available :=
      av_available ((add_pool ''qc_hold'' (- q) r)\<lparr>av_available := av_available r + q\<rparr>) + d\<rparr>)"
    by (simp add: fun_eq_iff draw_row_def add_pool_def)
  with row_change_trans [OF q(4) d(4)] have "row_change sku loc (draw_row q d) s s'" by simp
  then show ?thesis using q(1-3) d(1-3) r(1) k by (intro that [of q d]) auto
qed

definition post_row :: "int \<Rightarrow> availability \<Rightarrow> availability" where
  "post_row n r = r\<lparr>av_on_hand := av_on_hand r + n, av_available := av_available r + n\<rparr>"

lemma upsert_stock_change:
  assumes "upsert_stock sku loc n s = Inr s'"
  shows "row_change sku loc (post_row n) s s' \<and> has_row s' sku loc \<and> int4 n"
proof (cases "find_row s sku loc")
  case None
  with assms have s': "s' = s\<lparr>st_avail := st_avail s @ [new_row sku loc n]\<rparr>" and n: "int4 n"
    by (auto simp: upsert_stock_def split: if_splits)
  have f: "find_row s' a b = (case find_row s a b of Some r \<Rightarrow> Some r
      | None \<Rightarrow> if a = sku \<and> b = loc then Some (new_row sku loc n) else None)" for a b
    unfolding s' find_row_def by (auto simp: find_append at_row_def new_row_def split: option.splits)
  show ?thesis
    unfolding row_change_def row_def has_row_def f
    using None n by (auto simp: s' others_def post_row_def new_row_def rows_int4_def row_int4_def int4_def split: option.splits)
next
  case (Some r)
  have at: "at_row a b (post_row n r) = at_row a b r" for a b r by (simp add: at_row_def post_row_def)
  from Some assms have u: "update_row sku loc (post_row n) s = Inr s'" "int4 n"
    unfolding post_row_def [abs_def] by (auto simp: upsert_stock_def split: if_splits)
  moreover have h: "has_row s sku loc" using Some by (simp add: has_row_def)
  ultimately show ?thesis using row_change_update [OF u(1) at h] by (simp add: row_change_def)
qed

definition main_stock :: "availability \<Rightarrow> int" where
  "main_stock r = av_available r - av_blocked r - av_hold_qty r"

text \<open>The units a line must leave in Main.\<close>

definition kept_for_orders :: "bool \<Rightarrow> availability \<Rightarrow> int" where
  "kept_for_orders honours r = (if honours then max 0 (av_reserved r) else 0)"

lemma floor_check_change:
  assumes "floor_check sku loc n allows honours s = Inr (s', evs)" "n < 0"
  obtains q d where "0 \<le> q" "0 \<le> d"
    "0 < q \<longrightarrow> QCHoldSellable (atsPolicyFor s) \<and> q \<le> av_qc_hold (row s sku loc)"
    "0 < d \<longrightarrow> DamagedSellable (atsPolicyFor s) \<and> d \<le> av_damaged (row s sku loc)"
    "row_change sku loc (draw_row q d) s s'"
    "\<not> allows \<longrightarrow> evs = [] \<and> kept_for_orders honours (row s sku loc) \<le> main_stock (row s sku loc) + q + d + n"
    "allows \<longrightarrow> evs = (if main_stock (row s sku loc) + q + d + n < 0 then
        [\<lparr>ne_sku = sku, ne_loc = loc, ne_shortfall = - (main_stock (row s sku loc) + q + d + n),
          ne_resulting = main_stock (row s sku loc) + q + d + n\<rparr>] else [])"
    "0 < q + d \<longrightarrow> main_stock (row s sku loc) + q + d + n \<le> kept_for_orders (honours \<and> \<not> allows) (row s sku loc)"
proof -
  let ?r = "row s sku loc"
  let ?h = "kept_for_orders (honours \<and> \<not> allows) ?r"
  have m: "bucket_of ?r ''available'' = main_stock ?r" by (simp add: bucket_of_def main_stock_def)
  have h: "(if honours \<and> \<not> allows \<and> 0 < av_reserved ?r then av_reserved ?r else 0) = ?h"
    by (simp add: kept_for_orders_def)
  let ?c = "main_stock ?r - ?h"
  from assms obtain cov where
    d: "(if ?c + n < 0 then drawFromSellablePoolsTx sku loc (- (?c + n)) s else Inr (s, 0)) = Inr (s', cov)" and
    e: "(if 0 \<le> ?c + cov + n then Inr (s', []) else if \<not> allows then
          Inl (InsufficientStockError sku loc (if 0 < ?h \<and> ?c + cov < 0 then 0 else ?c + cov) (- n) ?h)
        else Inr (s', [\<lparr>ne_sku = sku, ne_loc = loc, ne_shortfall = - (?c + cov + n), ne_resulting = ?c + cov + n\<rparr>]))
      = Inr (s', evs)"
    unfolding floor_check_def Let_def m h by (auto split: if_splits)
  obtain q w where qw: "0 \<le> q" "0 \<le> w" "cov = q + w" "cov \<le> max 0 (- (?c + n))"
    "0 < q \<longrightarrow> QCHoldSellable (atsPolicyFor s) \<and> q \<le> av_qc_hold ?r"
    "0 < w \<longrightarrow> DamagedSellable (atsPolicyFor s) \<and> w \<le> av_damaged ?r"
    "row_change sku loc (draw_row q w) s s'"
  proof (cases "?c + n < 0")
    case True
    with d have "drawFromSellablePoolsTx sku loc (- (?c + n)) s = Inr (s', cov)" by simp
    from drawFromSellablePoolsTx_change [OF this] that show ?thesis by metis
  next
    case False
    with d have "s' = s" "cov = 0" by auto
    then show ?thesis using that [of 0 0] row_change_refl by (simp add: draw_row_0)
  qed
  have nh: "allows \<longrightarrow> ?h = 0" by (simp add: kept_for_orders_def)
  show ?thesis
  proof (rule that [of q w])
    show "\<not> allows \<longrightarrow> evs = [] \<and> kept_for_orders honours ?r \<le> main_stock ?r + q + w + n"
      using e qw(3) by (auto split: if_splits)
    show "allows \<longrightarrow> evs = (if main_stock ?r + q + w + n < 0 then
        [\<lparr>ne_sku = sku, ne_loc = loc, ne_shortfall = - (main_stock ?r + q + w + n),
          ne_resulting = main_stock ?r + q + w + n\<rparr>] else [])"
      using e qw(3) nh by (auto simp: algebra_simps split: if_splits)
    show "0 < q + w \<longrightarrow> main_stock ?r + q + w + n \<le> ?h" using qw(3,4) by linarith
  qed (use qw in auto)
qed

lemma post_lineE:
  assumes "post_line loc neg (s, ev, po) it = Inr (s', ev', po')"
  obtains (skip) "s' = s" "ev' = ev" "po' = po" "\<And>m k. it = Line m k \<Longrightarrow> jstr m ''sku'' = [] \<or> line_qty m = 0"
  | (post) m k sku n q d where "it = Line m k" "sku = jstr m ''sku''" "n = line_qty m" "sku \<noteq> []" "n \<noteq> 0"
      "po' = po @ [\<lparr>pl_sku = sku, pl_qty = n, pl_batch = trim (jstr m ''batch_no'')\<rparr>]"
      "row_change sku loc (\<lambda>r. post_row n (draw_row q d r)) s s'" "has_row s' sku loc" "int4 n" "0 \<le> q" "0 \<le> d"
      "0 < q \<longrightarrow> QCHoldSellable (atsPolicyFor s) \<and> q \<le> av_qc_hold (row s sku loc)"
      "0 < d \<longrightarrow> DamagedSellable (atsPolicyFor s) \<and> d \<le> av_damaged (row s sku loc)"
      "\<not> (neg \<or> k) \<longrightarrow> ev' = ev" "0 < n \<longrightarrow> q = 0 \<and> d = 0"
      "n < 0 \<and> \<not> (neg \<or> k) \<longrightarrow>
         kept_for_orders (jbool m ''respect_reserved'') (row s sku loc) \<le> main_stock (row s sku loc) + q + d + n"
proof (cases "\<exists>m k. it = Line m k \<and> jstr m ''sku'' \<noteq> [] \<and> line_qty m \<noteq> 0")
  case False
  with assms have "s' = s" "ev' = ev" "po' = po" by (auto simp: post_line_def Let_def split: stock_item.splits)
  with False skip show ?thesis by blast
next
  case True
  then obtain m k where it: "it = Line m k" "jstr m ''sku'' \<noteq> []" "line_qty m \<noteq> 0" by blast
  let ?sku = "jstr m ''sku''" and ?n = "line_qty m"
  from assms it obtain s1 evs where
    f: "(if ?n < 0 then floor_check ?sku loc ?n (neg \<or> k) (jbool m ''respect_reserved'') s else Inr (s, [])) = Inr (s1, evs)" and
    u: "upsert_stock ?sku loc ?n s1 = Inr s'" and
    o: "ev' = ev @ evs" "po' = po @ [\<lparr>pl_sku = ?sku, pl_qty = ?n, pl_batch = trim (jstr m ''batch_no'')\<rparr>]"
    by (auto simp: post_line_def Let_def)
  note up = upsert_stock_change [OF u]
  show ?thesis
  proof (cases "?n < 0")
    case True
    with f have fc: "floor_check ?sku loc ?n (neg \<or> k) (jbool m ''respect_reserved'') s = Inr (s1, evs)" by simp
    show ?thesis
    proof (rule floor_check_change [OF fc True])
      fix q d
      assume qd: "0 \<le> q" "0 \<le> d"
        "0 < q \<longrightarrow> QCHoldSellable (atsPolicyFor s) \<and> q \<le> av_qc_hold (row s ?sku loc)"
        "0 < d \<longrightarrow> DamagedSellable (atsPolicyFor s) \<and> d \<le> av_damaged (row s ?sku loc)"
        "row_change ?sku loc (draw_row q d) s s1"
        "\<not> (neg \<or> k) \<longrightarrow> evs = [] \<and> kept_for_orders (jbool m ''respect_reserved'') (row s ?sku loc) \<le> main_stock (row s ?sku loc) + q + d + ?n"
      from row_change_trans [OF qd(5)] up have "row_change ?sku loc (\<lambda>r. post_row ?n (draw_row q d r)) s s'" by blast
      then show ?thesis using it o qd(1-4,6) up True by (intro post [of m k ?sku ?n q d]) simp_all
    qed
  next
    case False
    with f have "s1 = s" "evs = []" by auto
    with False it o up show ?thesis by (intro post [of m k ?sku ?n 0 0]) (auto simp: draw_row_0)
  qed
qed

lemma post_draw_fields [simp]:
  "main_stock (post_row n (draw_row q d r)) = main_stock r + q + d + n"
  "av_reserved (post_row n (draw_row q d r)) = av_reserved r"
  "av_blocked (post_row n (draw_row q d r)) = av_blocked r"
  "av_qc_hold (post_row n (draw_row q d r)) = av_qc_hold r - q"
  "av_damaged (post_row n (draw_row q d r)) = av_damaged r - d"
  "av_on_hand (post_row n (draw_row q d r)) = av_on_hand r + n"
  "held (post_row n (draw_row q d r)) = held r + n"
  by (simp_all add: main_stock_def post_row_def draw_row_def held_def)

lemma kept_cong: "av_reserved r = av_reserved r' \<Longrightarrow> kept_for_orders h r = kept_for_orders h r'"
  by (simp add: kept_for_orders_def)

lemma post_line_row:
  assumes "row_change sku loc (\<lambda>r. post_row n (draw_row q d r)) s s'"
  shows "row s' a b = (if a = sku \<and> b = loc then post_row n (draw_row q d (row s a b)) else row s a b)
    \<and> others s' = others s \<and> st_balances s' = st_balances s \<and> (rows_int4 s \<longrightarrow> rows_int4 s')"
  using assms by (simp add: row_change_def)

definition line_honours :: "stock_item \<Rightarrow> bool" where
  "line_honours it = (case it of Malformed \<Rightarrow> True | Line m _ \<Rightarrow> jbool m ''respect_reserved'')"

definition line_marked :: "stock_item \<Rightarrow> bool" where
  "line_marked it = (case it of Malformed \<Rightarrow> False | Line _ k \<Rightarrow> k)"

text \<open>Main holds at least the units kept for orders, and no pool is negative.\<close>

definition floor_ok :: "bool \<Rightarrow> availability \<Rightarrow> bool" where
  "floor_ok honours r \<longleftrightarrow> kept_for_orders honours r \<le> main_stock r \<and> 0 \<le> av_qc_hold r \<and> 0 \<le> av_damaged r"

lemma post_line_floor:
  assumes "post_line loc False (s, ev, po) it = Inr (s', ev', po')" "\<not> line_marked it" "h \<longrightarrow> line_honours it"
    "floor_ok h (row s a b)"
  shows "floor_ok h (row s' a b) \<and> ev' = ev"
  using assms(1)
proof (cases rule: post_lineE)
  case skip
  then show ?thesis using assms(4) by simp
next
  case (post m k sku n q d)
  from post(1) assms(2) have "\<not> k" by (simp add: line_marked_def)
  with post have n: "n < 0 \<longrightarrow> kept_for_orders (jbool m ''respect_reserved'') (row s sku loc) \<le> main_stock (row s sku loc) + q + d + n"
    and ev: "ev' = ev" by auto
  have hm: "h \<longrightarrow> jbool m ''respect_reserved''" using assms(3) post(1) by (simp add: line_honours_def)
  note row = post_line_row [OF post(7), of a b]
  show ?thesis
  proof (cases "a = sku \<and> b = loc")
    case False
    with row assms(4) ev show ?thesis by (simp add: if_not_P)
  next
    case True
    have "kept_for_orders h (row s a b) \<le> main_stock (row s a b) + q + d + n"
    proof (cases "n < 0")
      case True
      then have "kept_for_orders (jbool m ''respect_reserved'') (row s a b) \<le> main_stock (row s a b) + q + d + n"
        using n \<open>a = sku \<and> b = loc\<close> by blast
      then show ?thesis using hm by (auto simp: kept_for_orders_def split: if_splits)
    next
      case False
      then show ?thesis using assms(4) post(10,11) by (simp add: floor_ok_def)
    qed
    moreover have "q \<le> av_qc_hold (row s a b)" "d \<le> av_damaged (row s a b)"
      using True post(10-13) assms(4) by (auto simp: floor_ok_def le_less)
    ultimately show ?thesis
      using True row ev kept_cong [of "post_row n (draw_row q d (row s a b))" "row s a b" h]
      by (simp add: floor_ok_def)
  qed
qed

text \<open>The line a stock item posts, when it posts one.\<close>

definition posted_of :: "stock_item \<Rightarrow> posted_line option" where
  "posted_of it = (case it of Malformed \<Rightarrow> None | Line m _ \<Rightarrow>
     if jstr m ''sku'' = [] \<or> line_qty m = 0 then None
     else Some \<lparr>pl_sku = jstr m ''sku'', pl_qty = line_qty m, pl_batch = trim (jstr m ''batch_no'')\<rparr>)"

definition qty_of :: "posted_line list \<Rightarrow> string \<Rightarrow> int" where
  "qty_of ps sku = sum_list (map pl_qty (filter (\<lambda>p. pl_sku p = sku) ps))"

lemma qty_of_append [simp]: "qty_of (ps @ qs) sku = qty_of ps sku + qty_of qs sku"
  by (simp add: qty_of_def)

text \<open>What posting \<open>ps\<close> to a store does to every row and table.\<close>

definition posts :: "string \<Rightarrow> posted_line list \<Rightarrow> stock \<Rightarrow> stock \<Rightarrow> bool" where
  "posts loc ps s s' \<longleftrightarrow> others s' = others s \<and> st_balances s' = st_balances s \<and> (rows_int4 s \<longrightarrow> rows_int4 s')
     \<and> (\<forall>p \<in> set ps. has_row s' (pl_sku p) loc \<and> int4 (pl_qty p))
     \<and> (\<forall>a b. (has_row s a b \<longrightarrow> has_row s' a b)
          \<and> av_on_hand (row s' a b) = av_on_hand (row s a b) + (if b = loc then qty_of ps a else 0)
          \<and> held (row s' a b) = held (row s a b) + (if b = loc then qty_of ps a else 0)
          \<and> av_reserved (row s' a b) = av_reserved (row s a b) \<and> av_blocked (row s' a b) = av_blocked (row s a b))"

lemma post_line_posts:
  assumes "post_line loc neg (s, ev, po) it = Inr (s', ev', po')"
  shows "po' = po @ (case posted_of it of None \<Rightarrow> [] | Some p \<Rightarrow> [p])
    \<and> posts loc (case posted_of it of None \<Rightarrow> [] | Some p \<Rightarrow> [p]) s s'"
  using assms
proof (cases rule: post_lineE)
  case skip
  then have "posted_of it = None" by (auto simp: posted_of_def split: stock_item.splits)
  with skip show ?thesis by (simp add: posts_def qty_of_def)
next
  case (post m k sku n q d)
  then have p: "posted_of it = Some \<lparr>pl_sku = sku, pl_qty = n, pl_batch = trim (jstr m ''batch_no'')\<rparr>"
    by (simp add: posted_of_def)
  have "has_row s a b \<Longrightarrow> has_row s' a b" for a b using post(7) by (simp add: row_change_def)
  then show ?thesis
    using post(6,8,9) post_line_row [OF post(7)] by (auto simp: p posts_def qty_of_def)
qed

lemma posts_trans: "posts loc ps s t \<Longrightarrow> posts loc qs t u \<Longrightarrow> posts loc (ps @ qs) s u"
  by (auto simp: posts_def)

lemma post_lines_posts:
  assumes "efold (post_line loc neg) (s, ev, po) its = Inr (s', ev', po')"
  shows "po' = po @ List.map_filter posted_of its \<and> posts loc (List.map_filter posted_of its) s s'"
  using assms
proof (induction its arbitrary: s ev po)
  case Nil
  then show ?case by (simp add: posts_def qty_of_def map_filter_simps)
next
  case (Cons it its)
  from Cons.prems obtain s1 ev1 po1 where
    1: "post_line loc neg (s, ev, po) it = Inr (s1, ev1, po1)" and
    2: "efold (post_line loc neg) (s1, ev1, po1) its = Inr (s', ev', po')"
    by (auto split: sum.splits)
  from post_line_posts [OF 1] Cons.IH [OF 2] show ?case
    by (auto simp: map_filter_simps split: option.splits intro: posts_trans dest: posts_trans)
qed

section \<open>Posting keeps the floor and moves exactly the lines\<close>

text \<open>
  C19: a posting whose lines may not take stock negative never takes Main (available less
  what is blocked or held inside it) below zero nor a pool below zero, and where every line
  leaves reserved units alone Main keeps at least the reserved units; no negative-stock
  event is reported.
\<close>
theorem stock_floor_holds:
  assumes "PostInventoryLedgerWithVoucherTx loc items False s = Inr (s', events, posted)"
    and "list_all (\<lambda>it. \<not> line_marked it) items"
    and "floor_ok (list_all line_honours items) (row s a b)"
  shows "floor_ok (list_all line_honours items) (row s' a b) \<and> events = []"
proof -
  let ?h = "list_all line_honours items"
  let ?I = "\<lambda>(s :: stock, ev :: negative_event list, po :: posted_line list). floor_ok ?h (row s a b) \<and> ev = []"
  have "?I (s', events, posted)"
  proof (rule efold_invariant [of "post_line loc False" "(s, [], [])" "sort_key stockItemSKU items" "(s', events, posted)" ?I])
    show "efold (post_line loc False) (s, [], []) (sort_key stockItemSKU items) = Inr (s', events, posted)"
      using assms(1) by (simp add: PostInventoryLedgerWithVoucherTx_def)
    show "?I (s, [], [])" using assms(3) by simp
    fix u it v
    assume it: "it \<in> set (sort_key stockItemSKU items)" and I: "?I u" and st: "post_line loc False u it = Inr v"
    obtain su eu pu where u: "u = (su, eu, pu)" by (metis surj_pair)
    obtain sv ev pv where v: "v = (sv, ev, pv)" by (metis surj_pair)
    have l: "\<not> line_marked it" "?h \<longrightarrow> line_honours it" using it assms(2) by (auto simp: list_all_iff)
    have "floor_ok ?h (row su a b)" using I by (simp add: u)
    from post_line_floor [OF st [unfolded u v] l this] I show "?I v" by (simp add: u v)
  qed
  then show ?thesis by simp
qed

text \<open>
  A posting that succeeds posts exactly the lines with a SKU and a quantity, in SKU
  order; each row's on-hand stock and the stock held across its locations change by the sum
  of its lines, and reserved stock, blocked stock, balances and every other table stay.
\<close>
theorem posting_moves_exactly_the_lines:
  assumes "PostInventoryLedgerWithVoucherTx loc items neg s = Inr (s', events, posted)"
  shows "posted = List.map_filter posted_of (sort_key stockItemSKU items) \<and> posts loc posted s s'"
  using post_lines_posts [of loc neg s "[]" "[]" "sort_key stockItemSKU items" s' events posted] assms
  by (simp add: PostInventoryLedgerWithVoucherTx_def)

text \<open>A store with ten pieces, three of them reserved, and two in a sellable QC Hold.\<close>

definition demo_tenant :: tenant where
  "demo_tenant = empty_tenant\<lparr>t_now := 1000\<rparr>"

definition demo_stock :: stock where
  "demo_stock = \<lparr>st_t = demo_tenant,
     st_avail = [(new_row ''A'' ''S'' 10)\<lparr>av_on_hand := 12, av_reserved := 3, av_qc_hold := 2\<rparr>],
     st_reservations = [\<lparr>rs_id = 0, rs_sku = ''A'', rs_loc = ''S'', rs_qty = 3, rs_type = ''Cart'',
       rs_expires = 900, rs_created = 100, rs_order = None, rs_line = None\<rparr>],
     st_locations = [\<lparr>sl_code = ''QCHOLD'', sl_name = ''QC Hold'', sl_bucket = ''qc_hold'', sl_sellable = True,
       sl_applies_to = ''Both'', sl_default_for_new = True, sl_active = True, sl_display_order = 40, sl_not_physical = False\<rparr>],
     st_store_locations = [], st_default_to = [], st_balances = [],
     st_next_uuid = 1, st_last_nanos = 0, st_suffix = ''x''\<rparr>"

text \<open>Eight pieces sold, leaving the reserved ones alone: seven from Main and one from QC Hold.\<close>

definition demo_sale :: "stock_item list" where
  "demo_sale = [Malformed, Line [(''sku'', JStr ''A''), (''qty'', JNum (- 8)), (''respect_reserved'', JBool True)] False]"

definition demo_sold :: stock where
  "demo_sold = demo_stock\<lparr>st_avail := [(new_row ''A'' ''S'' 3)\<lparr>av_on_hand := 4, av_reserved := 3, av_qc_hold := 1\<rparr>]\<rparr>"

lemma demo_sale_lines: "sort_key stockItemSKU demo_sale = demo_sale" "jstr [(''sku'', JStr ''A''), (''qty'', JNum (- 8)), (''respect_reserved'', JBool True)] ''sku'' = ''A''"
  "line_qty [(''sku'', JStr ''A''), (''qty'', JNum (- 8)), (''respect_reserved'', JBool True)] = - 8"
  "jbool [(''sku'', JStr ''A''), (''qty'', JNum (- 8)), (''respect_reserved'', JBool True)] ''respect_reserved''"
  by (simp_all add: demo_sale_def stockItemSKU_def jstr_def jget_def line_qty_def go_trunc_def jbool_def)

lemma demo_policy: "atsPolicyFor demo_stock = \<lparr>QCHoldSellable = True, DamagedSellable = False\<rparr>"
  by (simp add: atsPolicyFor_def demo_stock_def)

lemma demo_sale_posts:
  "PostInventoryLedgerWithVoucherTx ''S'' demo_sale False demo_stock
     = Inr (demo_sold, [], [\<lparr>pl_sku = ''A'', pl_qty = - 8, pl_batch = []\<rparr>])"
proof -
  let ?r = "(new_row ''A'' ''S'' 10)\<lparr>av_on_hand := 12, av_reserved := 3, av_qc_hold := 2\<rparr>"
  have a: "st_avail demo_stock = [?r]" by (simp add: demo_stock_def)
  have f: "find_row demo_stock ''A'' ''S'' = Some ?r"
    by (simp add: find_row_def a at_row_def new_row_def)
  let ?s1 = "demo_stock\<lparr>st_avail := [?r\<lparr>av_qc_hold := 1, av_available := 11\<rparr>]\<rparr>"
  have i: "row_int4 (new_row ''A'' ''S'' 10\<lparr>av_on_hand := 12, av_reserved := 3, av_qc_hold := 1, av_available := 11\<rparr>)"
    "row_int4 (new_row ''A'' ''S'' 10\<lparr>av_on_hand := 4, av_reserved := 3, av_qc_hold := 1, av_available := 3\<rparr>)"
    by (simp_all add: row_int4_def int4_def new_row_def)
  have d: "drawFromSellablePoolsTx ''A'' ''S'' 1 demo_stock = Inr (?s1, 1)"
    using i(1) by (simp add: drawFromSellablePoolsTx_def demo_policy f draw_pool_def update_row_def a add_pool_def at_row_def new_row_def)
  have "floor_check ''A'' ''S'' (- 8) False True demo_stock = Inr (?s1, [])"
    using d by (simp add: floor_check_def f row_def bucket_of_def new_row_def)
  moreover have "upsert_stock ''A'' ''S'' (- 8) ?s1 = Inr demo_sold"
    using i(2) by (simp add: upsert_stock_def find_row_def at_row_def new_row_def update_row_def demo_sold_def int4_def)
  ultimately show ?thesis
    unfolding PostInventoryLedgerWithVoucherTx_def demo_sale_lines(1)
    by (simp add: demo_sale_def post_line_def demo_sale_lines Let_def trim_def jstr_def jget_def)
qed

theorem stock_floor_holds_witness:
  "floor_ok True (row demo_sold ''A'' ''S'') \<and> av_qc_hold (row demo_sold ''A'' ''S'') = 1"
proof -
  have h: "list_all line_honours demo_sale = True" "list_all (\<lambda>it. \<not> line_marked it) demo_sale"
    by (simp_all add: demo_sale_def line_honours_def line_marked_def jbool_def jget_def)
  have f: "floor_ok True (row demo_stock ''A'' ''S'')"
    by (simp add: floor_ok_def row_def find_row_def at_row_def demo_stock_def new_row_def kept_for_orders_def main_stock_def)
  show ?thesis
    using stock_floor_holds [OF demo_sale_posts h(2), unfolded h(1), OF f]
    by (simp add: row_def find_row_def demo_sold_def at_row_def new_row_def)
qed

theorem posting_moves_exactly_the_lines_witness:
  "posts ''S'' [\<lparr>pl_sku = ''A'', pl_qty = - 8, pl_batch = []\<rparr>] demo_stock demo_sold
     \<and> av_on_hand (row demo_sold ''A'' ''S'') = 4"
proof -
  have "av_on_hand (row demo_sold ''A'' ''S'') = 4"
    by (simp add: row_def find_row_def demo_sold_def at_row_def new_row_def)
  with posting_moves_exactly_the_lines [OF demo_sale_posts] show ?thesis by blast
qed

section \<open>The ledger\<close>

lemma entry_payload_fields:
  "jget (entry_payload i e) ''item_id'' = JStr (le_item e)"
  "jget (entry_payload i e) ''warehouse_id'' = JStr (le_warehouse e)"
  "jget (entry_payload i e) ''qty'' = JNum (le_qty e)"
  "jget (entry_payload i e) ''idempotency_key'' = (if le_key e = [] then JNull else JStr (le_key e))"
  by (simp_all add: entry_payload_def optional_field_def jget_def)

lemma stock_sum_snoc:
  "stock_sum (ds @ [d]) item wh = rbind (stock_sum ds item wh) (\<lambda>acc.
     if is_sle d \<and> jtext (d_data d) ''item_id'' = Some item \<and> jtext (d_data d) ''warehouse_id'' = Some wh
     then rbind (as_numeric (d_data d) ''qty'') (\<lambda>q. Inr (acc + coalesce q 0)) else Inr acc)"
  by (auto simp: stock_sum_def efold_append rbind_def split: sum.splits)

lemma stock_sum_filter: "stock_sum (filter is_sle ds) item wh = stock_sum ds item wh"
proof -
  have "efold (\<lambda>acc d. if is_sle d \<and> P d then f acc d else Inr acc) acc (filter is_sle ds)
      = efold (\<lambda>acc d. if is_sle d \<and> P d then f acc d else Inr acc) acc ds" for P f and acc :: rat
    by (induction ds arbitrary: acc) (auto split: sum.splits)
  then show ?thesis by (simp add: stock_sum_def)
qed

text \<open>Inserting one entry: nothing when its key is written, else one document.\<close>

definition adds_entry :: "ledger_entry \<Rightarrow> stock \<Rightarrow> stock \<Rightarrow> bool" where
  "adds_entry e s s' \<longleftrightarrow>
     (\<forall>a b. stock_sum (t_documents (st_t s')) a b =
        rbind (stock_sum (t_documents (st_t s)) a b) (\<lambda>x. Inr (x + (if le_item e = a \<and> le_warehouse e = b then le_qty e else 0))))
     \<and> (\<forall>k. k \<noteq> [] \<longrightarrow> key_written s' k = (key_written s k \<or> le_key e = k))"

definition same_stock :: "stock \<Rightarrow> stock \<Rightarrow> bool" where
  "same_stock s s' \<longleftrightarrow> st_avail s' = st_avail s \<and> st_reservations s' = st_reservations s
     \<and> st_balances s' = st_balances s \<and> st_locations s' = st_locations s \<and> st_next_uuid s' = st_next_uuid s
     \<and> t_now (st_t s') = t_now (st_t s)"

lemma insert_entry_new:
  assumes "le_key e = [] \<or> \<not> key_written s (le_key e)"
  shows "adds_entry e s (insertStockLedgerEntry s e)"
proof -
  let ?n = "uniqueNanos (t_now (st_t s)) (st_last_nanos s)"
  let ?d = "new_doc (st_t s) ''StockLedgerEntry'' (NewDocIDCompact (st_suffix s) ''SLE'' ?n)
     (entry_payload (NewDocIDCompact (st_suffix s) ''SLE'' ?n) e) ''Active'' ''system''"
  from assms have docs: "t_documents (st_t (insertStockLedgerEntry s e)) = t_documents (st_t s) @ [?d]"
    by (auto simp: insertStockLedgerEntry_def Let_def with_tenant_def insert_doc_def new_doc_def)
  have sle: "is_sle ?d" and d: "d_data ?d = entry_payload (NewDocIDCompact (st_suffix s) ''SLE'' ?n) e"
    by (simp_all add: is_sle_def new_doc_def)
  have q: "as_numeric (d_data ?d) ''qty'' = Inr (Some (le_qty e))"
    unfolding d as_numeric_def entry_payload_fields by simp
  have k: "jtext (d_data ?d) ''item_id'' = Some (le_item e)" "jtext (d_data ?d) ''warehouse_id'' = Some (le_warehouse e)"
    unfolding d jtext_def entry_payload_fields by simp_all
  show ?thesis
    unfolding adds_entry_def docs stock_sum_snoc q k key_written_def
    using sle by (auto simp: d entry_payload_fields coalesce_def rbind_def split: sum.splits)
qed

lemma insert_entry_replayed:
  "le_key e \<noteq> [] \<Longrightarrow> key_written s (le_key e) \<Longrightarrow> insertStockLedgerEntry s e = s"
  by (simp add: insertStockLedgerEntry_def)

lemma insert_entry_stock: "same_stock s (insertStockLedgerEntry s e)"
  by (simp add: same_stock_def insertStockLedgerEntry_def with_tenant_def Let_def insert_doc_def)

lemma insert_entries_stock: "same_stock s (foldl insertStockLedgerEntry s es)"
proof (induction es arbitrary: s)
  case Nil
  show ?case by (simp add: same_stock_def)
next
  case (Cons e es)
  from Cons [of "insertStockLedgerEntry s e"] insert_entry_stock [of s e] show ?case
    by (simp add: same_stock_def)
qed

definition entries_qty :: "ledger_entry list \<Rightarrow> string \<Rightarrow> string \<Rightarrow> rat" where
  "entries_qty es a b = sum_list (map le_qty (filter (\<lambda>e. le_item e = a \<and> le_warehouse e = b) es))"

lemma insert_entries_new:
  assumes "\<forall>e \<in> set es. le_key e \<noteq> [] \<longrightarrow> \<not> key_written s (le_key e)"
    and "distinct (filter (\<lambda>k. k \<noteq> []) (map le_key es))"
  shows "stock_sum (t_documents (st_t (foldl insertStockLedgerEntry s es))) a b
      = rbind (stock_sum (t_documents (st_t s)) a b) (\<lambda>x. Inr (x + entries_qty es a b))"
    (is "?P s es")
  using assms
proof (induction es arbitrary: s)
  case Nil
  then show ?case by (simp add: entries_qty_def rbind_def split: sum.splits)
next
  case (Cons e es)
  have e: "adds_entry e s (insertStockLedgerEntry s e)" using Cons.prems(1) by (intro insert_entry_new) auto
  have "?P (insertStockLedgerEntry s e) es"
    by (rule Cons.IH) (use Cons.prems e in \<open>auto simp: adds_entry_def split: if_splits\<close>)
  with e show ?case by (auto simp: adds_entry_def entries_qty_def rbind_def split: sum.splits)
qed

lemma insert_entries_keys:
  assumes "k \<noteq> []"
  shows "key_written (foldl insertStockLedgerEntry s es) k \<longleftrightarrow> key_written s k \<or> k \<in> le_key ` set es"
proof (induction es arbitrary: s)
  case Nil
  show ?case by simp
next
  case (Cons e es)
  have "key_written (insertStockLedgerEntry s e) k \<longleftrightarrow> key_written s k \<or> le_key e = k"
  proof (cases "le_key e \<noteq> [] \<and> key_written s (le_key e)")
    case True
    then show ?thesis using insert_entry_replayed [of e s] by auto
  next
    case False
    then show ?thesis using insert_entry_new [of e s] assms by (auto simp: adds_entry_def)
  qed
  with Cons show ?case by auto
qed

section \<open>Merging and keys\<close>

definition line_key :: "posted_line \<Rightarrow> string \<times> string" where
  "line_key p = (pl_sku p, pl_batch p)"

lemma merge_hit: "list_ex (\<lambda>m. pl_sku m = pl_sku p \<and> pl_batch m = pl_batch p) ms \<longleftrightarrow> line_key p \<in> line_key ` set ms"
  by (auto simp: list_ex_iff line_key_def image_iff) metis

lemma merge_update_keys:
  "map line_key (map (\<lambda>m. if pl_sku m = pl_sku p \<and> pl_batch m = pl_batch p then m\<lparr>pl_qty := x m\<rparr> else m) ms) = map line_key ms"
  by (simp add: line_key_def)

lemma merge_update_qty:
  "distinct (map line_key ms) \<Longrightarrow> line_key p \<in> line_key ` set ms \<Longrightarrow>
     qty_of (map (\<lambda>m. if pl_sku m = pl_sku p \<and> pl_batch m = pl_batch p then m\<lparr>pl_qty := pl_qty m + pl_qty p\<rparr> else m) ms) a
       = qty_of ms a + (if pl_sku p = a then pl_qty p else 0)"
proof (induction ms)
  case Nil
  then show ?case by simp
next
  case (Cons m ms)
  show ?case
  proof (cases "line_key m = line_key p")
    case True
    with Cons.prems have n: "line_key p \<notin> line_key ` set ms" by auto
    then have "map (\<lambda>m. if pl_sku m = pl_sku p \<and> pl_batch m = pl_batch p then m\<lparr>pl_qty := pl_qty m + pl_qty p\<rparr> else m) ms = ms"
      by (intro map_idI) (auto simp: line_key_def image_iff)
    with True show ?thesis by (simp add: qty_of_def line_key_def)
  next
    case False
    with Cons.prems have "line_key p \<in> line_key ` set ms" "distinct (map line_key ms)" by auto
    from Cons.IH [OF this(2,1)] False show ?thesis by (auto simp: qty_of_def line_key_def)
  qed
qed

lemma merge_lines_ok:
  "distinct (map line_key ms) \<Longrightarrow>
     distinct (map line_key (merge_lines ms ps)) \<and> qty_of (merge_lines ms ps) a = qty_of ms a + qty_of ps a
     \<and> pl_sku ` set (merge_lines ms ps) \<subseteq> pl_sku ` (set ms \<union> set ps)"
proof (induction ps arbitrary: ms)
  case Nil
  then show ?case by (simp add: qty_of_def)
next
  case (Cons p ps)
  show ?case
  proof (cases "line_key p \<in> line_key ` set ms")
    case True
    let ?ms = "map (\<lambda>m. if pl_sku m = pl_sku p \<and> pl_batch m = pl_batch p then m\<lparr>pl_qty := pl_qty m + pl_qty p\<rparr> else m) ms"
    have d: "distinct (map line_key ?ms)" unfolding merge_update_keys using Cons.prems by simp
    have s: "pl_sku ` set ?ms = pl_sku ` set ms"
      unfolding set_map image_image by (rule image_cong) auto
    from True have "merge_lines ms (p # ps) = merge_lines ?ms ps" by (simp add: merge_hit)
    with Cons.IH [OF d] merge_update_qty [OF Cons.prems True, of a] s show ?thesis
      by (simp add: qty_of_def) blast
  next
    case False
    then have d: "distinct (map line_key (ms @ [p]))" using Cons.prems by auto
    from False have "merge_lines ms (p # ps) = merge_lines (ms @ [p]) ps" by (simp add: merge_hit)
    with Cons.IH [OF d] show ?thesis by (auto simp: qty_of_def)
  qed
qed

lemma colon_free_prefix:
  assumes "CHR '':'' \<notin> set u" "CHR '':'' \<notin> set v"
    and "u @ x = v @ y" "x = [] \<or> hd x = CHR '':''" "y = [] \<or> hd y = CHR '':''"
  shows "u = v \<and> x = y"
proof -
  have tw: "takeWhile (\<lambda>c. c \<noteq> CHR '':'') (w @ z) = w" if "CHR '':'' \<notin> set w" "z = [] \<or> hd z = CHR '':''" for w z
    using that by (cases z) (auto simp: takeWhile_append)
  have "u = v" using tw [OF assms(1,4)] tw [OF assms(2,5)] assms(3) by metis
  with assms(3) show ?thesis by simp
qed

lemma ledger_key_inj:
  assumes "CHR '':'' \<notin> set u" "CHR '':'' \<notin> set v"
    and "ledger_key vt vid loc u b = ledger_key vt vid loc v c"
  shows "u = v \<and> b = c"
proof -
  have "u @ (if b \<noteq> [] then CHR '':'' # b else []) = v @ (if c \<noteq> [] then CHR '':'' # c else [])"
    using assms(3) by (simp add: ledger_key_def)
  moreover have "(if b \<noteq> [] then CHR '':'' # b else []) = [] \<or> hd (if b \<noteq> [] then CHR '':'' # b else []) = CHR '':''" for b
    by simp
  ultimately have "u = v \<and> (if b \<noteq> [] then CHR '':'' # b else []) = (if c \<noteq> [] then CHR '':'' # c else [])"
    by (intro colon_free_prefix assms(1,2))
  then show ?thesis by (auto split: if_splits)
qed

lemma ledger_key_nonempty [simp]: "ledger_key vt vid loc u b \<noteq> []"
  by (simp add: ledger_key_def)

text \<open>The units the lines move, without sign.\<close>

definition units :: "posted_line list \<Rightarrow> int" where
  "units ps = sum_list (map (\<lambda>p. \<bar>pl_qty p\<bar>) ps)"

lemma units_update:
  "distinct (map line_key ms) \<Longrightarrow>
     units (map (\<lambda>m. if pl_sku m = pl_sku p \<and> pl_batch m = pl_batch p then m\<lparr>pl_qty := pl_qty m + pl_qty p\<rparr> else m) ms)
       \<le> units ms + \<bar>pl_qty (p :: posted_line)\<bar>"
proof (induction ms)
  case Nil
  then show ?case by (simp add: units_def)
next
  case (Cons m ms)
  show ?case
  proof (cases "line_key m = line_key p")
    case True
    with Cons.prems have n: "line_key p \<notin> line_key ` set ms" by auto
    then have "map (\<lambda>m. if pl_sku m = pl_sku p \<and> pl_batch m = pl_batch p then m\<lparr>pl_qty := pl_qty m + pl_qty p\<rparr> else m) ms = ms"
      by (intro map_idI) (auto simp: line_key_def image_iff)
    with True show ?thesis by (simp add: units_def line_key_def)
  next
    case False
    with Cons show ?thesis by (auto simp: units_def line_key_def)
  qed
qed

lemma units_merge: "distinct (map line_key ms) \<Longrightarrow> units (merge_lines ms ps) \<le> units ms + units ps"
proof (induction ps arbitrary: ms)
  case Nil
  then show ?case by (simp add: units_def)
next
  case (Cons p ps)
  show ?case
  proof (cases "line_key p \<in> line_key ` set ms")
    case True
    let ?ms = "map (\<lambda>m. if pl_sku m = pl_sku p \<and> pl_batch m = pl_batch p then m\<lparr>pl_qty := pl_qty m + pl_qty p\<rparr> else m) ms"
    have d: "distinct (map line_key ?ms)" unfolding merge_update_keys using Cons.prems by simp
    from True have "merge_lines ms (p # ps) = merge_lines ?ms ps" by (simp add: merge_hit)
    with Cons.IH [OF d] units_update [OF Cons.prems, of p] show ?thesis by (simp add: units_def)
  next
    case False
    then have d: "distinct (map line_key (ms @ [p]))" using Cons.prems by auto
    from False have "merge_lines ms (p # ps) = merge_lines (ms @ [p]) ps" by (simp add: merge_hit)
    with Cons.IH [OF d] show ?thesis by (simp add: units_def)
  qed
qed

lemma units_member: "p \<in> set ps \<Longrightarrow> \<bar>pl_qty p\<bar> \<le> units ps"
  unfolding units_def by (rule member_le_sum_list) auto

definition ledger_lines :: "string \<Rightarrow> posted_line list \<Rightarrow> posted_line list" where
  "ledger_lines vid ps = (if vid \<noteq> [] then merge_lines [] ps else ps)"

lemma ledger_lines_ok:
  "qty_of (ledger_lines vid ps) a = qty_of ps a" "units (ledger_lines vid ps) \<le> units ps"
  "pl_sku ` set (ledger_lines vid ps) \<subseteq> pl_sku ` set ps"
  "vid \<noteq> [] \<Longrightarrow> distinct (map line_key (ledger_lines vid ps))"
  using merge_lines_ok [of "[]" ps a] units_merge [of "[]" ps]
  by (auto simp: ledger_lines_def qty_of_def units_def)

lemma entries_qty_lines:
  assumes "units ps < 2 ^ 53"
  shows "entries_qty (map (entry_for loc vt vid user) ps) a b = (if b = loc then of_int (qty_of ps a) else 0)"
  using assms
proof (induction ps)
  case Nil
  then show ?case by (simp add: entries_qty_def qty_of_def)
next
  case (Cons p ps)
  have nn: "0 \<le> units ps" unfolding units_def by (rule sum_list_nonneg) auto
  with Cons.prems have p: "\<bar>pl_qty p\<bar> < 2 ^ 53" "units ps < 2 ^ 53" by (auto simp: units_def)
  show ?case
  proof (cases "b = loc")
    case True
    with Cons.IH [OF p(2)] fl_of_int [OF p(1)] show ?thesis
      by (simp add: entries_qty_def entry_for_def qty_of_def)
  next
    case False
    with Cons.IH [OF p(2)] show ?thesis by (simp add: entries_qty_def entry_for_def)
  qed
qed

lemma entry_keys:
  assumes "vid \<noteq> []"
  shows "map le_key (stockLedgerEntriesFor loc vt vid user ps) = map (\<lambda>p. ledger_key vt vid loc (pl_sku p) (pl_batch p)) (ledger_lines vid ps)"
  using assms by (simp add: stockLedgerEntriesFor_def entry_for_def ledger_lines_def)

lemma entry_keys_distinct:
  assumes "list_all (\<lambda>p. CHR '':'' \<notin> set (pl_sku p)) ps"
  shows "distinct (filter (\<lambda>k. k \<noteq> []) (map le_key (stockLedgerEntriesFor loc vt vid user ps)))"
proof (cases "vid = []")
  case True
  then have "filter (\<lambda>k. k \<noteq> []) (map le_key (stockLedgerEntriesFor loc vt vid user ps)) = []"
    by (simp add: stockLedgerEntriesFor_def entry_for_def filter_empty_conv)
  then show ?thesis by (metis distinct.simps(1))
next
  case False
  have cf: "CHR '':'' \<notin> set (pl_sku p)" if "p \<in> set (ledger_lines vid ps)" for p
    using that assms ledger_lines_ok(3) [of vid ps] by (auto simp: list_all_iff image_subset_iff)
  have d: "distinct (map line_key (ledger_lines vid ps))" by (rule ledger_lines_ok(4) [OF False])
  have "inj_on (\<lambda>p. ledger_key vt vid loc (pl_sku p) (pl_batch p)) (set (ledger_lines vid ps))"
  proof (rule inj_onI)
    fix p q
    assume pq: "p \<in> set (ledger_lines vid ps)" "q \<in> set (ledger_lines vid ps)"
      "ledger_key vt vid loc (pl_sku p) (pl_batch p) = ledger_key vt vid loc (pl_sku q) (pl_batch q)"
    from ledger_key_inj [OF cf [OF pq(1)] cf [OF pq(2)] pq(3)] have "line_key p = line_key q" by (simp add: line_key_def)
    with pq(1,2) d show "p = q" by (simp add: distinct_map inj_on_def)
  qed
  moreover have "distinct (ledger_lines vid ps)" using d by (simp add: distinct_map)
  ultimately have "distinct (map (\<lambda>p. ledger_key vt vid loc (pl_sku p) (pl_batch p)) (ledger_lines vid ps))"
    by (simp add: distinct_map)
  then show ?thesis using entry_keys [OF False, of loc vt user ps] by (metis distinct_filter)
qed

lemma insert_entries_replayed:
  "\<forall>e \<in> set es. le_key e \<noteq> [] \<and> key_written s (le_key e) \<Longrightarrow> foldl insertStockLedgerEntry s es = s"
  by (induction es) (auto simp: insert_entry_replayed)

text \<open>No entry of a voucher at a store has been written yet.\<close>

definition voucher_unwritten :: "stock \<Rightarrow> string \<Rightarrow> string \<Rightarrow> string \<Rightarrow> posted_line list \<Rightarrow> bool" where
  "voucher_unwritten s vt vid loc ps \<longleftrightarrow> vid = [] \<or>
     list_all (\<lambda>p. \<not> key_written s (ledger_key vt vid loc (pl_sku p) (pl_batch p))) (ledger_lines vid ps)"

lemma write_lines_sum:
  assumes "voucher_unwritten s vt vid loc ps" "list_all (\<lambda>p. CHR '':'' \<notin> set (pl_sku p)) ps" "units ps < 2 ^ 53"
  shows "stock_sum (t_documents (st_t (writeStockLedgerLinesInTx loc vt vid user ps s))) a b
    = rbind (stock_sum (t_documents (st_t s)) a b) (\<lambda>x. Inr (x + (if b = loc then of_int (qty_of ps a) else 0)))"
proof -
  have es: "stockLedgerEntriesFor loc vt vid user ps = map (entry_for loc vt vid user) (ledger_lines vid ps)"
    by (simp add: stockLedgerEntriesFor_def ledger_lines_def)
  have u: "units (ledger_lines vid ps) < 2 ^ 53" using ledger_lines_ok(2) [of vid ps] assms(3) by linarith
  have "\<forall>e \<in> set (stockLedgerEntriesFor loc vt vid user ps). le_key e \<noteq> [] \<longrightarrow> \<not> key_written s (le_key e)"
    using assms(1) unfolding es by (auto simp: voucher_unwritten_def entry_for_def list_all_iff)
  from insert_entries_new [OF this entry_keys_distinct [OF assms(2)], of a b] entries_qty_lines [OF u] ledger_lines_ok(1) [of vid ps a]
  show ?thesis by (simp add: writeStockLedgerLinesInTx_def es)
qed

text \<open>
  The ledger lines of a voucher whose SKUs have no colon, not written before, add exactly
  what was posted of each SKU to the stock balance of the store, however the lines repeat a
  SKU or a lot; writing them again, as a retried call does, changes nothing.
\<close>
theorem voucher_reaches_the_ledger_once:
  assumes "vid \<noteq> []" "voucher_unwritten s vt vid loc ps"
    and "list_all (\<lambda>p. CHR '':'' \<notin> set (pl_sku p)) ps" "units ps < 2 ^ 53"
  shows "stock_sum (t_documents (st_t (writeStockLedgerLinesInTx loc vt vid user ps s))) a loc
      = rbind (stock_sum (t_documents (st_t s)) a loc) (\<lambda>x. Inr (x + of_int (qty_of ps a)))
    \<and> writeStockLedgerLinesInTx loc vt vid user ps (writeStockLedgerLinesInTx loc vt vid user ps s)
      = writeStockLedgerLinesInTx loc vt vid user ps s"
proof
  show "stock_sum (t_documents (st_t (writeStockLedgerLinesInTx loc vt vid user ps s))) a loc
      = rbind (stock_sum (t_documents (st_t s)) a loc) (\<lambda>x. Inr (x + of_int (qty_of ps a)))"
    using write_lines_sum [OF assms(2-4), of user a loc] by simp
  let ?es = "stockLedgerEntriesFor loc vt vid user ps"
  have ne: "\<forall>e \<in> set ?es. le_key e \<noteq> []"
    using assms(1) by (auto simp: stockLedgerEntriesFor_def entry_for_def)
  have "\<forall>e \<in> set ?es. key_written (foldl insertStockLedgerEntry s ?es) (le_key e)"
    using ne insert_entries_keys by auto
  with ne show "writeStockLedgerLinesInTx loc vt vid user ps (writeStockLedgerLinesInTx loc vt vid user ps s)
      = writeStockLedgerLinesInTx loc vt vid user ps s"
    unfolding writeStockLedgerLinesInTx_def by (intro insert_entries_replayed) auto
qed

text \<open>
  The replay key joins its parts with colons. A line of SKU A in lot B and a line of a
  SKU written A:B, on one voucher, share a key, so the second entry is taken for a replay
  and the ledger shows none of its five pieces.
\<close>
theorem colon_in_sku_loses_a_ledger_line:
  "let ps = [\<lparr>pl_sku = ''A'', pl_qty = 2, pl_batch = ''B''\<rparr>, \<lparr>pl_sku = ''A:B'', pl_qty = 5, pl_batch = []\<rparr>];
       s' = writeStockLedgerLinesInTx ''S'' ''GRN'' ''7'' ''u'' ps demo_stock
   in GetStockBalance s' ''A'' ''S'' = Inr 2 \<and> GetStockBalance s' ''A:B'' ''S'' = Inr 0"
proof -
  let ?p = "\<lparr>pl_sku = ''A'', pl_qty = 2, pl_batch = ''B''\<rparr>"
  let ?q = "\<lparr>pl_sku = ''A:B'', pl_qty = 5, pl_batch = []\<rparr>"
  let ?e = "entry_for ''S'' ''GRN'' ''7'' ''u''"
  have docs: "t_documents (st_t demo_stock) = []" by (simp add: demo_stock_def demo_tenant_def empty_tenant_def)
  have es: "stockLedgerEntriesFor ''S'' ''GRN'' ''7'' ''u'' [?p, ?q] = [?e ?p, ?e ?q]"
    by (simp add: stockLedgerEntriesFor_def)
  have k: "le_key (?e ?p) = le_key (?e ?q)" "le_key (?e ?p) \<noteq> []"
    by (simp_all add: entry_for_def ledger_key_def)
  have nk: "\<not> key_written demo_stock (le_key (?e ?p))" by (simp add: key_written_def docs)
  note new = insert_entry_new [OF disjI2 [OF nk]]
  have "key_written (insertStockLedgerEntry demo_stock (?e ?p)) (le_key (?e ?q))"
    using new k by (simp add: adds_entry_def)
  then have "writeStockLedgerLinesInTx ''S'' ''GRN'' ''7'' ''u'' [?p, ?q] demo_stock = insertStockLedgerEntry demo_stock (?e ?p)"
    unfolding writeStockLedgerLinesInTx_def es using k insert_entry_replayed by simp
  moreover have "stock_sum (t_documents (st_t (insertStockLedgerEntry demo_stock (?e ?p)))) ''A'' ''S'' = Inr 2"
    "stock_sum (t_documents (st_t (insertStockLedgerEntry demo_stock (?e ?p)))) ''A:B'' ''S'' = Inr 0"
    using new fl_of_int [of 2] by (simp_all add: adds_entry_def docs stock_sum_def entry_for_def)
  ultimately show ?thesis using fl_of_int [of 2] by (simp add: Let_def GetStockBalance_def)
qed

theorem voucher_reaches_the_ledger_once_witness:
  "let ps = [\<lparr>pl_sku = ''A'', pl_qty = 2, pl_batch = ''L''\<rparr>, \<lparr>pl_sku = ''A'', pl_qty = 4, pl_batch = ''L''\<rparr>];
       s' = writeStockLedgerLinesInTx ''S'' ''GRN'' ''7'' ''u'' ps demo_stock
   in stock_sum (t_documents (st_t s')) ''A'' ''S'' = Inr 6
     \<and> writeStockLedgerLinesInTx ''S'' ''GRN'' ''7'' ''u'' ps s' = s'"
proof -
  let ?ps = "[\<lparr>pl_sku = ''A'', pl_qty = 2, pl_batch = ''L''\<rparr>, \<lparr>pl_sku = ''A'', pl_qty = 4, pl_batch = ''L''\<rparr>]"
  have docs: "t_documents (st_t demo_stock) = []" by (simp add: demo_stock_def demo_tenant_def empty_tenant_def)
  have 1: "voucher_unwritten demo_stock ''GRN'' ''7'' ''S'' ?ps"
    by (simp add: voucher_unwritten_def key_written_def docs list_all_iff)
  have 2: "units ?ps < 2 ^ 53" by (simp add: units_def)
  have 3: "stock_sum [] ''A'' ''S'' = Inr 0" by (simp add: stock_sum_def)
  from voucher_reaches_the_ledger_once [of "''7''", OF _ 1 _ 2, of "''u''" "''A''"] 3
  show ?thesis by (simp add: Let_def docs qty_of_def)
qed

section \<open>Reconciliation\<close>

definition res_sum :: "reservation list \<Rightarrow> string \<Rightarrow> string \<Rightarrow> int" where
  "res_sum rs sku loc = sum_list (map rs_qty (filter (\<lambda>r. rs_sku r = sku \<and> rs_loc r = loc) rs))"

definition reservations_ok :: "stock \<Rightarrow> bool" where
  "reservations_ok s \<longleftrightarrow> distinct (map rs_id (st_reservations s))
     \<and> (\<forall>r \<in> set (st_reservations s). rs_id r < st_next_uuid s \<and> 0 \<le> rs_qty r)"

text \<open>
  A row agrees with the rest of the tenant: on hand is what its locations hold and what the
  ledger says came in and went out, blocked is what the client's own locations hold, reserved
  is what the reservations ask for.
\<close>

definition agrees :: "stock \<Rightarrow> string \<Rightarrow> string \<Rightarrow> bool" where
  "agrees s a b \<longleftrightarrow> av_on_hand (row s a b) = held (row s a b)
     \<and> av_blocked (row s a b) = bal_sum (st_balances s) a b
     \<and> av_reserved (row s a b) = res_sum (st_reservations s) a b
     \<and> stock_sum (t_documents (st_t s)) a b = Inr (of_int (av_on_hand (row s a b)))"

definition reconciled :: "stock \<Rightarrow> bool" where
  "reconciled s \<longleftrightarrow> balances_ok s \<and> rows_int4 s \<and> reservations_ok s \<and> (\<forall>a b. agrees s a b)"

inductive stock_step :: "stock \<Rightarrow> stock \<Rightarrow> bool" where
  post: "PostInventoryLedgerWithVoucher loc items neg vt vid user s = Inr (events, s') \<Longrightarrow>
    length items \<le> 2 ^ 20 \<Longrightarrow> list_all (\<lambda>it. CHR '':'' \<notin> set (stockItemSKU it)) items \<Longrightarrow>
    voucher_unwritten s vt vid loc (List.map_filter posted_of (sort_key stockItemSKU items)) \<Longrightarrow> stock_step s s'"
| move: "MoveStock numbering req userID username s = Inr (number, s') \<Longrightarrow> stock_step s s'"
| reserve: "CreateReservation sku loc qty ty secs att s = Inr (i, s') \<Longrightarrow> 0 \<le> qty \<Longrightarrow> stock_step s s'"
| sweep: "sweepReservationsForSchema s = Inr (s', res) \<Longrightarrow> stock_step s s'"
| other: "filter is_sle (t_documents t') = filter is_sle (t_documents (st_t s)) \<Longrightarrow>
    stock_step s (s\<lparr>st_t := t', st_locations := ls, st_store_locations := sl, st_default_to := dt\<rparr>)"

lemma row_cong: "st_avail s' = st_avail s \<Longrightarrow> row s' = row s"
  by (simp add: fun_eq_iff row_def find_row_def)

lemma shifts_refl: "balances_ok s \<Longrightarrow> shifts a b 0 s s"
  by (simp add: shifts_def)

lemma shifts_0: "shifts a b 0 s s' \<Longrightarrow> shifts c d 0 s s'"
  by (simp add: shifts_def)

lemma receipt_shifts:
  assumes "applyReceiptDefaultTx txn store lines ov s = Inr s'" "balances_ok s"
    and "\<forall>l \<in> set lines. has_row s (pl_sku l) store"
  shows "shifts x y 0 s s'"
proof -
  let ?f = "\<lambda>target s l. if pl_qty l \<le> 0 then Inr s
     else rbind (applyBucketDeltaTx (pl_sku l) store main_location (- pl_qty l) s)
       (applyBucketDeltaTx (pl_sku l) store target (pl_qty l))"
  have main: "Movable main_location" by (simp add: Movable_def main_location_def stockBuckets_def coalesce_def)
  from assms(1) consider "s' = s" | target where "Movable target" "efold (?f target) s lines = Inr s'"
    by (auto simp: applyReceiptDefaultTx_def Let_def split: if_splits option.splits dest!: location_named_in)
  then show ?thesis
  proof cases
    case 1
    then show ?thesis using shifts_refl [OF assms(2)] by simp
  next
    case (2 target)
    show ?thesis
    proof (rule efold_invariant [OF 2(2), of "\<lambda>u. shifts x y 0 s u"])
      show "shifts x y 0 s s" by (rule shifts_refl [OF assms(2)])
      fix u l v
      assume l: "l \<in> set lines" and I: "shifts x y 0 s u" and st: "?f target u l = Inr v"
      have u: "has_row u (pl_sku l) store" "balances_ok u" using I l assms(3) by (auto simp: shifts_def)
      show "shifts x y 0 s v"
      proof (cases "pl_qty l \<le> 0")
        case True
        with st I show ?thesis by simp
      next
        case False
        with st obtain w where "applyBucketDeltaTx (pl_sku l) store main_location (- pl_qty l) u = Inr w"
          "applyBucketDeltaTx (pl_sku l) store target (pl_qty l) w = Inr v" by auto
        from transfer_shifts [OF this u main 2(1)] have "shifts x y 0 u v" by (rule shifts_0)
        from shifts_trans [OF I this] show ?thesis by simp
      qed
    qed
  qed
qed

lemma reconciled_shifts:
  assumes "shifts x y 0 s s'" "reconciled s"
  shows "reconciled s'"
proof -
  have o: "others s' = others s" using assms(1) by (simp add: shifts_def)
  note o = others_eqD [OF o]
  have "agrees s' a b" for a b
  proof -
    have "held (row s' a b) = held (row s a b)" "av_on_hand (row s' a b) = av_on_hand (row s a b)"
      "av_reserved (row s' a b) = av_reserved (row s a b)"
      "av_blocked (row s' a b) - bal_sum (st_balances s') a b = av_blocked (row s a b) - bal_sum (st_balances s) a b"
      using assms(1) unfolding shifts_def by simp_all
    moreover have "agrees s a b" using assms(2) by (simp add: reconciled_def)
    ultimately show ?thesis using o by (simp add: agrees_def)
  qed
  with assms o show ?thesis by (simp add: reconciled_def shifts_def reservations_ok_def)
qed

lemma reconciled_docs:
  assumes "same_stock s s'" "reconciled s" "\<And>a b. stock_sum (t_documents (st_t s')) a b = stock_sum (t_documents (st_t s)) a b"
  shows "reconciled s'"
proof -
  have "row s' = row s" using assms(1) by (intro row_cong) (simp add: same_stock_def)
  with assms show ?thesis
    by (simp add: reconciled_def agrees_def same_stock_def balances_ok_def rows_int4_def reservations_ok_def)
qed

lemma posted_units:
  assumes "posts loc ps s s'"
  shows "units ps \<le> int (length ps) * 2 ^ 31"
proof -
  have "\<bar>pl_qty p\<bar> \<le> 2 ^ 31" if "p \<in> set ps" for p
    using assms that by (auto simp: posts_def int4_def)
  then show ?thesis
  proof (induction ps)
    case Nil
    then show ?case by (simp add: units_def)
  next
    case (Cons p ps)
    then have "units ps \<le> int (length ps) * 2 ^ 31" "\<bar>pl_qty p\<bar> \<le> 2 ^ 31" by simp_all
    then show ?case by (simp add: units_def algebra_simps)
  qed
qed

lemma map_filter_length: "length (List.map_filter f xs) \<le> length xs"
  by (induction xs) (auto simp: map_filter_simps split: option.splits)

lemma post_reconciled:
  assumes p: "PostInventoryLedgerWithVoucher loc items neg vt vid user s = Inr (events, s')"
    and len: "length items \<le> 2 ^ 20" and colon: "list_all (\<lambda>it. CHR '':'' \<notin> set (stockItemSKU it)) items"
    and unw: "voucher_unwritten s vt vid loc (List.map_filter posted_of (sort_key stockItemSKU items))"
    and rec: "reconciled s"
  shows "reconciled s'"
proof (cases "items = []")
  case True
  with p rec show ?thesis by (simp add: PostInventoryLedgerWithVoucher_def)
next
  case False
  let ?ps = "List.map_filter posted_of (sort_key stockItemSKU items)"
  from p False obtain s1 ev ps s2 where
    1: "PostInventoryLedgerWithVoucherTx loc items neg s = Inr (s1, ev, ps)" and
    2: "(if vt = ''GRN'' then applyReceiptDefaultTx ''Goods Receipt'' loc ps (Some (docStockField s1 vid ''stock_to'')) s1 else Inr s1) = Inr s2" and
    3: "s' = writeStockLedgerLinesInTx loc vt vid user ps s2"
    by (auto simp: PostInventoryLedgerWithVoucher_def)
  have ps: "ps = ?ps" and po: "posts loc ps s s1"
    using post_lines_posts [of loc neg s "[]" "[]" "sort_key stockItemSKU items" s1 ev ps] 1
    by (simp_all add: PostInventoryLedgerWithVoucherTx_def)
  have b1: "balances_ok s1" using po rec by (simp add: posts_def reconciled_def balances_ok_def)
  have sh: "shifts x y 0 s1 s2" for x y
    using 2 receipt_shifts [of "''Goods Receipt''" loc ps _ s1 s2 x y] shifts_refl [OF b1] b1 po
    by (auto simp: posts_def split: if_splits)
  have o1: "others s1 = others s" using po by (simp add: posts_def)
  have o2: "others s2 = others s1" using sh by (simp add: shifts_def)
  note o = others_eqD [OF o1] others_eqD [OF o2]
  have u: "units ps < 2 ^ 53"
  proof -
    have "length ps \<le> 2 ^ 20" using map_filter_length [of posted_of "sort_key stockItemSKU items"] len ps by simp
    then have "int (length ps) * 2 ^ 31 \<le> 2 ^ 51" by simp
    with posted_units [OF po] show ?thesis by simp
  qed
  have c: "list_all (\<lambda>p. CHR '':'' \<notin> set (pl_sku p)) ps"
    using colon unfolding ps list_all_iff
    by (auto simp: map_filter_def posted_of_def stockItemSKU_def split: stock_item.splits if_splits)
  have un: "voucher_unwritten s2 vt vid loc ps" using unw o unfolding ps by (simp add: voucher_unwritten_def key_written_def)
  note ws = write_lines_sum [OF un c u, of user]
  have st: "same_stock s2 s'" unfolding 3 writeStockLedgerLinesInTx_def by (rule insert_entries_stock)
  have rows: "row s' = row s2" using st by (intro row_cong) (simp add: same_stock_def)
  have "agrees s' a b" for a b
  proof -
    have "held (row s2 a b) = held (row s1 a b)" "av_on_hand (row s2 a b) = av_on_hand (row s1 a b)"
      "av_reserved (row s2 a b) = av_reserved (row s1 a b)"
      "av_blocked (row s2 a b) - bal_sum (st_balances s2) a b = av_blocked (row s1 a b) - bal_sum (st_balances s1) a b"
      using sh unfolding shifts_def by simp_all
    moreover have "av_on_hand (row s1 a b) = av_on_hand (row s a b) + (if b = loc then qty_of ps a else 0)"
      "held (row s1 a b) = held (row s a b) + (if b = loc then qty_of ps a else 0)"
      "av_reserved (row s1 a b) = av_reserved (row s a b)" "av_blocked (row s1 a b) = av_blocked (row s a b)"
      "st_balances s1 = st_balances s"
      using po unfolding posts_def by simp_all
    moreover have "agrees s a b" using rec by (simp add: reconciled_def)
    ultimately show ?thesis
      using ws [of a b] st o by (simp add: agrees_def rows 3 [symmetric] same_stock_def)
  qed
  moreover have "rows_int4 s'" "balances_ok s'" "reservations_ok s'"
    using rec po sh st o by (simp_all add: reconciled_def posts_def shifts_def same_stock_def rows_int4_def balances_ok_def reservations_ok_def)
  ultimately show ?thesis by (simp add: reconciled_def)
qed

lemma move_reconciled:
  assumes mv: "MoveStock numbering req userID username s = Inr (number, s')" and rec: "reconciled s"
  shows "reconciled s'"
proof -
  let ?sku = "trim (mr_sku req)" and ?st = "trim (mr_store req)"
  from mv obtain lf lt s1 s2 d where
    m: "Movable lf" "Movable lt" and q: "0 < mr_qty req" "mr_qty req \<le> movable_stock s ?sku ?st lf" and
    d1: "applyBucketDeltaTx ?sku ?st lf (- mr_qty req) s = Inr s1" and
    d2: "applyBucketDeltaTx ?sku ?st lt (mr_qty req) s1 = Inr s2" and
    s': "s' = with_tenant (\<lambda>t. LogAuditEvent username ''STOCK_MOVED'' number (insert_doc (d t) t)) s2" and
    nd: "\<And>t. \<not> is_sle (d t)"
    unfolding MoveStock_def Let_def
    by (auto split: if_splits option.splits simp: is_sle_def new_doc_def)
  have h: "has_row s ?sku ?st" using q by (auto simp: movable_stock_def has_row_def split: option.splits)
  have "balances_ok s" using rec by (simp add: reconciled_def)
  from transfer_shifts [OF d1 d2 h this m] have r2: "reconciled s2" using reconciled_shifts rec by blast
  show ?thesis
  proof (rule reconciled_docs [OF _ r2])
    show "same_stock s2 s'" by (simp add: s' same_stock_def with_tenant_def insert_doc_def LogAuditEvent_def)
    show "stock_sum (t_documents (st_t s')) a b = stock_sum (t_documents (st_t s2)) a b" for a b
      using nd by (simp add: s' with_tenant_def insert_doc_def stock_sum_snoc) (simp add: rbind_def split: sum.splits)
  qed
qed

lemma res_sum_nonneg: "\<forall>r \<in> set rs. 0 \<le> rs_qty r \<Longrightarrow> 0 \<le> res_sum rs a b"
  unfolding res_sum_def by (rule sum_list_nonneg) auto

lemma reserve_reconciled:
  assumes cr: "CreateReservation sku loc qty ty secs att s = Inr (i, s')" and q: "0 \<le> qty" and rec: "reconciled s"
  shows "reconciled s'"
proof -
  define rs where "rs = new_reservation s sku loc qty ty secs att"
  have rs: "rs_id rs = st_next_uuid s" "rs_sku rs = sku" "rs_loc rs = loc" "rs_qty rs = qty"
    by (simp_all add: rs_def new_reservation_def Let_def)
  from cr have h: "has_row s sku loc" and
    u: "update_row sku loc (\<lambda>r. r\<lparr>av_reserved := av_reserved r + qty\<rparr>)
          (s\<lparr>st_reservations := st_reservations s @ [rs], st_next_uuid := Suc (st_next_uuid s)\<rparr>) = Inr s'"
    unfolding CreateReservation_def rs_def
    by (auto simp: has_row_def split: option.splits if_splits)
  let ?t = "s\<lparr>st_reservations := st_reservations s @ [rs], st_next_uuid := Suc (st_next_uuid s)\<rparr>"
  have t: "row ?t = row s" "has_row ?t sku loc" using h by (simp_all add: fun_eq_iff row_def has_row_def find_row_def)
  have at: "at_row a b (r\<lparr>av_reserved := av_reserved r + qty\<rparr>) = at_row a b r" for a b r by (simp add: at_row_def)
  note rc = row_change_update [OF u at t(2)]
  note o = others_eqD [of s' ?t]
  have "agrees s' a b" for a b
  proof -
    have "row s' a b = (if a = sku \<and> b = loc then (row s a b)\<lparr>av_reserved := av_reserved (row s a b) + qty\<rparr> else row s a b)"
      using rc t(1) by (simp add: row_change_def)
    moreover have "agrees s a b" using rec by (simp add: reconciled_def)
    ultimately show ?thesis
      using rc rs o by (auto simp: agrees_def row_change_def res_sum_def held_def)
  qed
  with rec rc rs q o show ?thesis
    by (auto simp: reconciled_def row_change_def balances_ok_def reservations_ok_def rows_int4_def less_Suc_eq)
qed

lemma res_sum_remove:
  assumes "d \<in> set rs" "distinct (map rs_id rs)"
  shows "res_sum rs a b = res_sum (filter (\<lambda>r. rs_id r \<noteq> rs_id d) rs) a b
    + (if rs_sku d = a \<and> rs_loc d = b then rs_qty d else 0)"
  using assms
proof (induction rs)
  case Nil
  then show ?case by simp
next
  case (Cons r rs)
  show ?case
  proof (cases "r = d")
    case True
    with Cons.prems(2) have "\<forall>r \<in> set rs. rs_id r \<noteq> rs_id d" by (auto simp: image_iff)
    then have "filter (\<lambda>r. rs_id r \<noteq> rs_id d) rs = rs" by simp
    with True show ?thesis by (simp add: res_sum_def)
  next
    case False
    with Cons.prems have d: "d \<in> set rs" and n: "rs_id r \<noteq> rs_id d" by force+
    from Cons.IH [OF d] Cons.prems(2) n show ?thesis by (auto simp: res_sum_def)
  qed
qed

lemma release_reconciled:
  assumes rl: "release_row (s, res) d = Inr (s', res')" and d: "d \<in> set (st_reservations s)" and rec: "reconciled s"
  shows "reconciled s' \<and> st_reservations s' = filter (\<lambda>r. rs_id r \<noteq> rs_id d) (st_reservations s) \<and> st_t s' = st_t s"
proof -
  let ?f = "\<lambda>r. r\<lparr>av_reserved := max (av_reserved r - rs_qty d) 0\<rparr>"
  let ?t = "s\<lparr>st_reservations := filter (\<lambda>r. rs_id r \<noteq> rs_id d) (st_reservations s)\<rparr>"
  from rl have u: "update_row (rs_sku d) (rs_loc d) ?f ?t = Inr s'" by (auto simp: release_row_def)
  have at: "at_row a b (?f r) = at_row a b r" for a b r by (simp add: at_row_def)
  have t: "row ?t = row s" "has_row ?t = has_row s" by (simp_all add: fun_eq_iff row_def has_row_def find_row_def)
  have ok: "reservations_ok s" using rec by (simp add: reconciled_def)
  then have nn: "\<forall>r \<in> set (st_reservations s). 0 \<le> rs_qty r" and ds: "distinct (map rs_id (st_reservations s))"
    by (auto simp: reservations_ok_def)
  note row = update_row_row [OF u at, unfolded t]
  note fr = update_row_frame [OF u]
  note o = others_eqD [OF conjunct1 [OF fr]]
  have "agrees s' a b" for a b
  proof -
    have ag: "agrees s a b" using rec by (simp add: reconciled_def)
    have sum: "res_sum (st_reservations s) a b = res_sum (st_reservations s') a b
        + (if rs_sku d = a \<and> rs_loc d = b then rs_qty d else 0)"
      using res_sum_remove [OF d ds, of a b] o by simp
    have n: "0 \<le> res_sum (st_reservations s') a b" using o nn by (intro res_sum_nonneg) auto
    have q: "0 \<le> rs_qty d" using d nn by blast
    show ?thesis
    proof (cases "a = rs_sku d \<and> b = rs_loc d \<and> has_row s a b")
      case True
      have "row s' a b = ?f (row s a b)" using row [of a b, unfolded if_P [OF True]] by (rule conjunct1)
      with True ag sum n o fr show ?thesis by (simp add: agrees_def held_def)
    next
      case False
      then have same: "row s' a b = row s a b" using row [of a b] by auto
      have "res_sum (st_reservations s') a b = res_sum (st_reservations s) a b"
      proof (cases "rs_sku d = a \<and> rs_loc d = b")
        case True
        with False have "\<not> has_row s a b" by auto
        then have "av_reserved (row s a b) = 0" by (simp add: has_row_def row_def new_row_def)
        with ag sum n q True show ?thesis by (simp add: agrees_def)
      next
        case False
        with sum show ?thesis by auto
      qed
      with ag same o fr show ?thesis by (simp add: agrees_def)
    qed
  qed
  moreover have "rows_int4 s'" using rec update_row_int4 [OF u] by (simp add: reconciled_def rows_int4_def)
  moreover have "reservations_ok s'" using ok o by (auto simp: reservations_ok_def distinct_map inj_on_def)
  moreover have "balances_ok s'" using rec fr by (simp add: reconciled_def balances_ok_def)
  ultimately show ?thesis using o by (simp add: reconciled_def)
qed

lemma release_all:
  assumes "efold release_row (s, res) ds = Inr (s', res')"
    and "set ds \<subseteq> set (st_reservations s)" "distinct (map rs_id ds)" "reconciled s"
  shows "reconciled s' \<and> st_reservations s' = filter (\<lambda>r. rs_id r \<notin> rs_id ` set ds) (st_reservations s) \<and> st_t s' = st_t s"
  using assms
proof (induction ds arbitrary: s res)
  case Nil
  then show ?case by simp
next
  case (Cons d ds)
  from Cons.prems(1) obtain u ru where 1: "release_row (s, res) d = Inr (u, ru)" and
    2: "efold release_row (u, ru) ds = Inr (s', res')" by (auto split: sum.splits)
  from release_reconciled [OF 1 _ Cons.prems(4)] Cons.prems(2)
  have u: "reconciled u" "st_reservations u = filter (\<lambda>r. rs_id r \<noteq> rs_id d) (st_reservations s)" "st_t u = st_t s" by auto
  have "x \<in> set (st_reservations u)" if "x \<in> set ds" for x
    using that Cons.prems(2,3) u(2) by (auto simp: image_iff)
  then have "set ds \<subseteq> set (st_reservations u)" by blast
  from Cons.IH [OF 2 this _ u(1)] Cons.prems(3) u(2,3) show ?case
    by (auto intro!: filter_cong)
qed

text \<open>The order the sweep takes reservations in does not matter to what it removes.\<close>

lemma sweep_batch_subset:
  "set (sweep_batch s) \<subseteq> set (filter (doomed (st_t s)) (st_reservations s))"
  by (auto simp: sweep_batch_def dest: in_set_takeD)

lemma sweep_batch_ids: "reservations_ok s \<Longrightarrow> distinct (map rs_id (sweep_batch s))"
proof -
  assume "reservations_ok s"
  then have "distinct (map rs_id (filter (doomed (st_t s)) (st_reservations s)))"
    by (auto simp: reservations_ok_def distinct_map inj_on_def)
  then have "distinct (map rs_id (sort_key rs_created (filter (doomed (st_t s)) (st_reservations s))))"
    by (auto simp: distinct_map)
  then show ?thesis unfolding sweep_batch_def take_map [symmetric] by (rule distinct_take)
qed

lemma filter_ids:
  assumes "distinct (map rs_id rs)" "set ds \<subseteq> set rs"
  shows "filter (\<lambda>r. rs_id r \<notin> rs_id ` set ds) rs = filter (\<lambda>r. r \<notin> set ds) rs"
  using assms by (intro filter_cong) (auto simp: distinct_map inj_on_def subset_iff)

lemma sweep_reconciled:
  assumes "sweepReservationsForSchema s = Inr (s', res)" "reconciled s"
  shows "reconciled s' \<and> st_reservations s' = filter (\<lambda>r. r \<notin> set (sweep_batch s)) (st_reservations s) \<and> st_t s' = st_t s"
proof -
  have ok: "reservations_ok s" using assms(2) by (simp add: reconciled_def)
  have sub: "set (sweep_batch s) \<subseteq> set (st_reservations s)" using sweep_batch_subset by fastforce
  from release_all [OF assms(1) [unfolded sweepReservationsForSchema_def] sub sweep_batch_ids [OF ok] assms(2)]
    filter_ids [OF _ sub] ok show ?thesis by (simp add: reservations_ok_def)
qed

lemma other_reconciled:
  assumes "filter is_sle (t_documents t') = filter is_sle (t_documents (st_t s))" "reconciled s"
  shows "reconciled (s\<lparr>st_t := t', st_locations := ls, st_store_locations := sl, st_default_to := dt\<rparr>)"
proof -
  let ?u = "s\<lparr>st_t := t', st_locations := ls, st_store_locations := sl, st_default_to := dt\<rparr>"
  have "stock_sum (t_documents t') a b = stock_sum (t_documents (st_t s)) a b" for a b
    using stock_sum_filter [of "t_documents t'" a b] stock_sum_filter [of "t_documents (st_t s)" a b] assms(1) by simp
  moreover have "row ?u = row s" by (rule row_cong) simp
  ultimately show ?thesis
    using assms(2) by (simp add: reconciled_def agrees_def balances_ok_def rows_int4_def reservations_ok_def)
qed

lemma stock_step_reconciled: "stock_step s s' \<Longrightarrow> reconciled s \<Longrightarrow> reconciled s'"
proof (induction rule: stock_step.induct)
  case post
  then show ?case using post_reconciled by blast
next
  case move
  then show ?case using move_reconciled by blast
next
  case reserve
  then show ?case using reserve_reconciled by blast
next
  case sweep
  then show ?case using sweep_reconciled by blast
next
  case other
  then show ?case using other_reconciled by blast
qed

definition empty_stock :: "tenant \<Rightarrow> stock" where
  "empty_stock t = \<lparr>st_t = t, st_avail = [], st_reservations = [], st_locations = [], st_store_locations = [],
     st_default_to = [], st_balances = [], st_next_uuid = 0, st_last_nanos = 0, st_suffix = []\<rparr>"

lemma empty_stock_reconciled:
  assumes "filter is_sle (t_documents t) = []"
  shows "reconciled (empty_stock t)"
proof -
  have "stock_sum (t_documents t) a b = Inr 0" for a b
    using stock_sum_filter [of "t_documents t" a b] assms by (simp add: stock_sum_def)
  then show ?thesis
    by (simp add: reconciled_def empty_stock_def agrees_def row_def find_row_def new_row_def held_def bal_sum_def res_sum_def
        balances_ok_def rows_int4_def reservations_ok_def)
qed

lemma row_int4_row: "rows_int4 s \<Longrightarrow> int4 (av_on_hand (row s a b))"
  by (auto simp: row_def new_row_def int4_def find_row_def rows_int4_def list_all_iff row_int4_def find_Some_iff
      split: option.splits)


section \<open>A receipt, a hold and its expiry\<close>

definition demo_receipt :: "stock_item list" where
  "demo_receipt = [Line [(''sku'', JStr ''A''), (''qty'', JNum 5)] False]"

definition stocked :: stock where
  "stocked = writeStockLedgerLinesInTx ''S'' ''StockAdjustment'' ''7'' ''u'' [\<lparr>pl_sku = ''A'', pl_qty = 5, pl_batch = []\<rparr>]
     ((empty_stock demo_tenant)\<lparr>st_avail := [new_row ''A'' ''S'' 5]\<rparr>)"

definition on_hold :: stock where
  "on_hold = stocked\<lparr>st_avail := [(new_row ''A'' ''S'' 5)\<lparr>av_reserved := 2\<rparr>],
     st_reservations := [new_reservation stocked ''A'' ''S'' 2 ''Cart'' 300 None], st_next_uuid := 1\<rparr>"

definition hold_expired :: stock where
  "hold_expired = on_hold\<lparr>st_t := (st_t on_hold)\<lparr>t_now := 2000\<rparr>\<rparr>"

lemma demo_tenant_docs: "t_documents demo_tenant = []" "t_now demo_tenant = 1000"
  by (simp_all add: demo_tenant_def empty_tenant_def)

lemma stocked_fields: "st_avail stocked = [new_row ''A'' ''S'' 5]" "st_reservations stocked = []"
  "st_locations stocked = []" "st_next_uuid stocked = 0" "t_now (st_t stocked) = 1000"
  using insert_entries_stock [of "(empty_stock demo_tenant)\<lparr>st_avail := [new_row ''A'' ''S'' 5]\<rparr>"]
  by (auto simp: stocked_def writeStockLedgerLinesInTx_def same_stock_def empty_stock_def demo_tenant_docs)

lemma stocked_step: "stock_step (empty_stock demo_tenant) stocked"
proof (rule stock_step.post)
  have l: "sort_key stockItemSKU demo_receipt = demo_receipt" by (simp add: demo_receipt_def)
  have u: "upsert_stock ''A'' ''S'' 5 (empty_stock demo_tenant) = Inr ((empty_stock demo_tenant)\<lparr>st_avail := [new_row ''A'' ''S'' 5]\<rparr>)"
    by (simp add: upsert_stock_def find_row_def empty_stock_def int4_def)
  have q: "jstr [(''sku'', JStr ''A''), (''qty'', JNum 5)] ''sku'' = ''A''" "line_qty [(''sku'', JStr ''A''), (''qty'', JNum 5)] = 5"
    "trim (jstr [(''sku'', JStr ''A''), (''qty'', JNum 5)] ''batch_no'') = []"
    by (simp_all add: jstr_def jget_def line_qty_def go_trunc_def trim_def)
  have p: "posted_of (Line [(''sku'', JStr ''A''), (''qty'', JNum 5)] False) = Some \<lparr>pl_sku = ''A'', pl_qty = 5, pl_batch = []\<rparr>"
    by (simp add: posted_of_def q)
  have f: "efold (post_line ''S'' False) (empty_stock demo_tenant, [], []) demo_receipt =
      Inr ((empty_stock demo_tenant)\<lparr>st_avail := [new_row ''A'' ''S'' 5]\<rparr>, [], [\<lparr>pl_sku = ''A'', pl_qty = 5, pl_batch = []\<rparr>])"
    by (simp add: demo_receipt_def post_line_def Let_def q u)
  show "PostInventoryLedgerWithVoucher ''S'' demo_receipt False ''StockAdjustment'' ''7'' ''u'' (empty_stock demo_tenant) = Inr ([], stocked)"
    unfolding PostInventoryLedgerWithVoucher_def PostInventoryLedgerWithVoucherTx_def l f
    by (simp add: demo_receipt_def stocked_def)
  show "length demo_receipt \<le> 2 ^ 20" by (simp add: demo_receipt_def)
  show "list_all (\<lambda>it. CHR '':'' \<notin> set (stockItemSKU it)) demo_receipt"
    by (simp add: demo_receipt_def stockItemSKU_def q)
  show "voucher_unwritten (empty_stock demo_tenant) ''StockAdjustment'' ''7'' ''S'' (List.map_filter posted_of (sort_key stockItemSKU demo_receipt))"
    by (simp add: voucher_unwritten_def key_written_def empty_stock_def demo_tenant_docs list_all_iff)
qed

lemma hold_created: "CreateReservation ''A'' ''S'' 2 ''Cart'' 300 None stocked = Inr (0, on_hold)"
proof -
  have f: "find_row stocked ''A'' ''S'' = Some (new_row ''A'' ''S'' 5)"
    by (simp add: find_row_def stocked_fields at_row_def new_row_def)
  have "computeATS (atsPolicyFor stocked) (new_row ''A'' ''S'' 5) = 5"
    by (simp add: computeATS_def atsPolicyFor_def stocked_fields new_row_def)
  moreover have "row_int4 ((new_row ''A'' ''S'' 5)\<lparr>av_reserved := 2\<rparr>)" by (simp add: row_int4_def int4_def new_row_def)
  ultimately show ?thesis
    by (simp add: CreateReservation_def f update_row_def stocked_fields on_hold_def at_row_def new_row_def int4_def)
qed

lemma hold_expired_reachable: "stock_step\<^sup>*\<^sup>* (empty_stock demo_tenant) hold_expired"
proof -
  have 1: "stock_step\<^sup>*\<^sup>* (empty_stock demo_tenant) stocked" using stocked_step by blast
  have 2: "stock_step stocked on_hold" by (rule stock_step.reserve [OF hold_created]) simp
  have 3: "stock_step on_hold hold_expired"
    using stock_step.other [where s = on_hold and t' = "(st_t on_hold)\<lparr>t_now := 2000\<rparr>" and ls = "st_locations on_hold"
        and sl = "st_store_locations on_hold" and dt = "st_default_to on_hold"]
    by (simp add: hold_expired_def)
  show ?thesis using 1 2 3 by (meson rtranclp.rtrancl_into_rtrancl)
qed


section \<open>Reservations never oversell, and the sweep drains\<close>

text \<open>
  C30: a reservation of \<open>qty\<close> is admitted only when the row's available to sell covers it,
  and takes exactly \<open>qty\<close> off it, so no sequence of reservations brings available to sell
  below zero; the other rows stay, and the reservation is recorded with its expiry.
\<close>
theorem reservation_within_available_to_sell:
  assumes "CreateReservation sku loc qty ty secs att s = Inr (i, s')"
  shows "qty \<le> computeATS (atsPolicyFor s) (row s sku loc)
    \<and> computeATS (atsPolicyFor s') (row s' sku loc) = computeATS (atsPolicyFor s) (row s sku loc) - qty
    \<and> (\<forall>a b. (a, b) \<noteq> (sku, loc) \<longrightarrow> row s' a b = row s a b)
    \<and> st_reservations s' = st_reservations s @ [new_reservation s sku loc qty ty secs att]"
proof -
  from assms obtain r where r: "find_row s sku loc = Some r" "qty \<le> computeATS (atsPolicyFor s) r"
    and u: "update_row sku loc (\<lambda>r. r\<lparr>av_reserved := av_reserved r + qty\<rparr>)
      (s\<lparr>st_reservations := st_reservations s @ [new_reservation s sku loc qty ty secs att],
         st_next_uuid := Suc (st_next_uuid s)\<rparr>) = Inr s'" (is "update_row _ _ ?f ?t = _")
    unfolding CreateReservation_def by (auto split: option.splits if_splits)
  have at: "at_row a b (r\<lparr>av_reserved := x\<rparr>) = at_row a b r" for a b r x by (simp add: at_row_def)
  have t: "row ?t = row s" "has_row ?t = has_row s" by (simp_all add: fun_eq_iff row_def has_row_def find_row_def)
  note row = update_row_row [OF u at, unfolded t]
  note o = others_eqD [OF conjunct1 [OF update_row_frame [OF u]]]
  have "row s sku loc = r" "has_row s sku loc" using r(1) by (simp_all add: row_def has_row_def)
  moreover have "atsPolicyFor s' = atsPolicyFor s" using o by (simp add: atsPolicyFor_def)
  ultimately show ?thesis using r(2) row o by (auto simp: computeATS_def)
qed

theorem reservation_within_available_to_sell_witness:
  "computeATS (atsPolicyFor on_hold) (row on_hold ''A'' ''S'') = 3"
proof -
  have "row stocked ''A'' ''S'' = new_row ''A'' ''S'' 5"
    by (simp add: row_def find_row_def stocked_fields at_row_def new_row_def)
  then have "computeATS (atsPolicyFor stocked) (row stocked ''A'' ''S'') = 5"
    by (simp add: computeATS_def atsPolicyFor_def stocked_fields new_row_def)
  with reservation_within_available_to_sell [OF hold_created] show ?thesis by simp
qed

fun sweep_times :: "nat \<Rightarrow> stock \<Rightarrow> stock res" where
  "sweep_times 0 s = Inr s"
| "sweep_times (Suc n) s = rbind (sweepReservationsForSchema s) (\<lambda>(s', _). sweep_times n s')"

lemma release_succeeds:
  assumes "rows_int4 s" "0 \<le> rs_qty d"
  shows "\<exists>s' res'. release_row (s, res) d = Inr (s', res')"
proof -
  have "row_int4 (r\<lparr>av_reserved := max (av_reserved r - rs_qty d) 0\<rparr>)" if "r \<in> set (st_avail s)" for r
    using that assms by (auto simp: rows_int4_def list_all_iff row_int4_def int4_def)
  then show ?thesis by (auto simp: release_row_def update_row_def list_ex_iff)
qed

lemma releases_succeed:
  assumes "set ds \<subseteq> set (st_reservations s)" "distinct (map rs_id ds)" "reconciled s"
  shows "\<exists>s' res'. efold release_row (s, res) ds = Inr (s', res')"
  using assms
proof (induction ds arbitrary: s res)
  case Nil
  then show ?case by simp
next
  case (Cons d ds)
  have "0 \<le> rs_qty d" "rows_int4 s" using Cons.prems by (auto simp: reconciled_def reservations_ok_def)
  then obtain u ru where 1: "release_row (s, res) d = Inr (u, ru)" using release_succeeds by blast
  from release_reconciled [OF 1 _ Cons.prems(3)] Cons.prems(1)
  have u: "reconciled u" "st_reservations u = filter (\<lambda>r. rs_id r \<noteq> rs_id d) (st_reservations s)" by auto
  have "x \<in> set (st_reservations u)" if "x \<in> set ds" for x
    using that Cons.prems(1,2) u(2) by (auto simp: image_iff)
  then have "\<exists>s' res'. efold release_row (u, ru) ds = Inr (s', res')"
    using Cons.IH [OF _ _ u(1)] Cons.prems(2) by (simp add: subset_iff)
  with 1 show ?case by simp
qed

lemma sweep_drains:
  assumes "reconciled s" "length (filter (doomed (st_t s)) (st_reservations s)) \<le> 500 * n"
  shows "\<exists>s'. sweep_times n s = Inr s' \<and> st_t s' = st_t s
    \<and> st_reservations s' = filter (\<lambda>r. \<not> doomed (st_t s) r) (st_reservations s)"
  using assms
proof (induction n arbitrary: s)
  case 0
  then have "filter (doomed (st_t s)) (st_reservations s) = []" by simp
  then have "filter (\<lambda>r. \<not> doomed (st_t s) r) (st_reservations s) = st_reservations s"
    by (simp add: filter_empty_conv)
  then show ?case by simp
next
  case (Suc n)
  let ?D = "filter (doomed (st_t s)) (st_reservations s)"
  have ok: "reservations_ok s" using Suc.prems(1) by (simp add: reconciled_def)
  have sub: "set (sweep_batch s) \<subseteq> set (st_reservations s)" using sweep_batch_subset by fastforce
  obtain u ru where sw: "sweepReservationsForSchema s = Inr (u, ru)"
    using releases_succeed [OF sub sweep_batch_ids [OF ok] Suc.prems(1)] unfolding sweepReservationsForSchema_def by blast
  from sweep_reconciled [OF sw Suc.prems(1)]
  have u: "reconciled u" "st_reservations u = filter (\<lambda>r. r \<notin> set (sweep_batch s)) (st_reservations s)" "st_t u = st_t s" by auto
  have dD: "distinct ?D" and db: "distinct (sweep_batch s)"
    using ok sweep_batch_ids [OF ok] by (auto simp: reservations_ok_def distinct_map)
  have lb: "length (sweep_batch s) = min 500 (length ?D)"
    by (simp add: sweep_batch_def reservationSweepBatch_def)
  have "length (filter (doomed (st_t u)) (st_reservations u)) = length (filter (\<lambda>r. r \<notin> set (sweep_batch s)) ?D)"
    by (simp add: u conj_commute)
  also have "\<dots> = card (set ?D - set (sweep_batch s))"
    using distinct_card [OF distinct_filter [OF dD, of "\<lambda>r. r \<notin> set (sweep_batch s)"]]
    by (simp add: set_diff_eq conj_ac)
  also have "\<dots> = length ?D - min 500 (length ?D)"
    using card_Diff_subset [of "set (sweep_batch s)" "set ?D"] sweep_batch_subset [of s]
      distinct_card [OF dD] distinct_card [OF db] lb by simp
  also have "\<dots> \<le> 500 * n" using Suc.prems(2) by simp
  finally obtain s' where s': "sweep_times n u = Inr s'" "st_t s' = st_t u"
    "st_reservations s' = filter (\<lambda>r. \<not> doomed (st_t u) r) (st_reservations u)"
    using Suc.IH [OF u(1)] by blast
  have "filter (\<lambda>r. \<not> doomed (st_t s) r) (st_reservations u) = filter (\<lambda>r. \<not> doomed (st_t s) r) (st_reservations s)"
    using sweep_batch_subset [of s] unfolding u(2) filter_filter by (intro filter_cong) auto
  with s' sw u(3) show ?case by simp
qed

text \<open>
  C22: repeated sweeps, 500 reservations each, release every reservation nothing waits on
  (an expired hold, or one of an order whose line no longer holds its stock) and no other:
  a reservation of a live order line is never released, however long ago it expired.
\<close>
theorem sweeps_release_exactly_the_dead:
  assumes "stock_step\<^sup>*\<^sup>* (empty_stock t) s" "filter is_sle (t_documents t) = []"
  shows "\<exists>s'. sweep_times (length (filter (doomed (st_t s)) (st_reservations s)) div 500 + 1) s = Inr s'
    \<and> st_reservations s' = filter (\<lambda>r. \<not> doomed (st_t s) r) (st_reservations s)"
proof -
  have "reconciled s"
    using assms(1)
  proof (induction rule: rtranclp_induct)
    case base
    show ?case by (rule empty_stock_reconciled [OF assms(2)])
  next
    case (step u v)
    then show ?case by (simp add: stock_step_reconciled)
  qed
  moreover have "length (filter (doomed (st_t s)) (st_reservations s))
      \<le> 500 * (length (filter (doomed (st_t s)) (st_reservations s)) div 500 + 1)"
    by simp
  ultimately show ?thesis using sweep_drains by blast
qed

theorem sweeps_release_exactly_the_dead_witness:
  "st_reservations hold_expired \<noteq> [] \<and> (\<exists>s'. sweep_times 1 hold_expired = Inr s' \<and> st_reservations s' = [])"
proof -
  let ?r = "new_reservation stocked ''A'' ''S'' 2 ''Cart'' 300 None"
  have r: "st_reservations hold_expired = [?r]" by (simp add: hold_expired_def on_hold_def)
  have d: "doomed (st_t hold_expired) ?r"
    by (simp add: doomed_def new_reservation_def hold_expired_def stocked_fields)
  show ?thesis
    using sweeps_release_exactly_the_dead [OF hold_expired_reachable] r d by (simp add: demo_tenant_docs)
qed

end
