(* ===== verification/CheckDigits.thy ===== *)
theory CheckDigits
  imports CheckSum
begin

text \<open>
  The check digits of identifiers: GS1 (engines/pim_barcode.go: EAN-8, UPC-A, EAN-13),
  GSTIN and ABN (engines/tax_ids.go), Luhn (engines/stored_value.go). Each loop of the code
  is a recursion that threads the code's own weight; each is then shown to be a position sum
  of CheckSum, so the substitution lemma applies.
\<close>

section \<open>GS1 barcodes\<close>

text \<open>The loop from the last byte to the first: the weight starts at 3 and alternates with 1.\<close>

fun gs1_sum :: "nat \<Rightarrow> string \<Rightarrow> nat res" where
  "gs1_sum weight [] = Inr 0"
| "gs1_sum weight (d # ds) =
     (if \<not> is_digit d then Inl (Plain ''barcode must be all digits'')
      else rbind (gs1_sum (if weight = 3 then 1 else 3) ds) (\<lambda>s. Inr (digit_val d * weight + s)))"

definition gs1CheckDigit :: "string \<Rightarrow> nat res" where
  "gs1CheckDigit data =
     (if data = [] then Inl (Plain ''no digits to compute a check digit from'')
      else rbind (gs1_sum 3 (rev data)) (\<lambda>s. Inr ((10 - s mod 10) mod 10)))"

definition gs1StandardBarcodeLengths :: "nat list" where
  "gs1StandardBarcodeLengths = [8, 12, 13]"

definition looksLikeGS1Barcode :: "string \<Rightarrow> bool" where
  "looksLikeGS1Barcode barcode \<longleftrightarrow>
     length barcode \<in> set gs1StandardBarcodeLengths \<and> list_all is_digit barcode"

definition ValidateBarcodeCheckDigit :: "string \<Rightarrow> unit res" where
  "ValidateBarcodeCheckDigit barcode =
     (if \<not> looksLikeGS1Barcode barcode then Inr ()
      else case gs1CheckDigit (butlast barcode) of
             Inl e \<Rightarrow> Inr ()
           | Inr got \<Rightarrow> if got \<noteq> digit_val (last barcode)
                        then Inl (Plain ''invalid check digit'') else Inr ())"

subsection \<open>The sum as a position sum\<close>

definition gs1_weight :: "nat \<Rightarrow> nat \<Rightarrow> nat" where
  "gs1_weight k d = d * (if even k then 1 else 3)"

lemma gs1_sum_csum:
  "list_all is_digit ds \<Longrightarrow>
     gs1_sum (if even i then 1 else 3) ds = Inr (csum gs1_weight i (map digit_val ds))"
proof (induction ds arbitrary: i)
  case Nil
  then show ?case by simp
next
  case (Cons d ds)
  from Cons.IH [of "i + 1"] Cons.prems show ?case
    by (auto simp: gs1_weight_def split: if_splits)
qed

lemma gs1CheckDigit_digits:
  assumes "list_all is_digit data" and "data \<noteq> []"
  shows "gs1CheckDigit data = Inr ((10 - csum gs1_weight 1 (map digit_val (rev data)) mod 10) mod 10)"
  using gs1_sum_csum [of "rev data" 1] assms by (simp add: gs1CheckDigit_def list_all_rev)

lemma gs1CheckDigit_less: "gs1CheckDigit data = Inr d \<Longrightarrow> d < 10"
  by (auto simp: gs1CheckDigit_def split: if_splits)

lemma complement_mod:
  assumes "d < m"
  shows "(m - s mod m) mod m = d \<longleftrightarrow> (d + s) mod m = (0 :: nat)"
proof -
  have "s mod m < m" using assms by simp
  have eq: "(d + s) mod m = (d + s mod m) mod m" by (simp add: mod_add_right_eq)
  show ?thesis
  proof (cases "s mod m = 0")
    case True
    then show ?thesis using assms eq by simp
  next
    case False
    then have "(m - s mod m) mod m = m - s mod m" using assms by simp
    moreover have "(d + s mod m) mod m = 0 \<longleftrightarrow> d + s mod m = m"
    proof (cases "d + s mod m < m")
      case True
      then show ?thesis using \<open>s mod m \<noteq> 0\<close> by simp
    next
      case ge: False
      then have "(d + s mod m) mod m = (d + s mod m - m) mod m" by (simp add: le_mod_geq)
      also have "\<dots> = d + s mod m - m"
        using assms \<open>s mod m < m\<close> by (intro mod_less) linarith
      finally show ?thesis using ge by auto
    qed
    ultimately show ?thesis using eq \<open>s mod m < m\<close> by auto
  qed
qed

lemma is_digit_digit_char_mod [simp]: "is_digit (digit_char (n mod 10))"
  by (rule digit_char_digit) simp

subsection \<open>Validation accepts exactly the number whose whole sum is 0 modulo 10\<close>

definition gs1_total :: "string \<Rightarrow> nat" where
  "gs1_total barcode = csum gs1_weight 0 (map digit_val (rev barcode))"

lemma ValidateBarcodeCheckDigit_total:
  assumes "looksLikeGS1Barcode barcode"
  shows "ValidateBarcodeCheckDigit barcode = Inr () \<longleftrightarrow> gs1_total barcode mod 10 = 0"
proof -
  from assms have "length barcode \<in> {8, 12, 13}" and digits: "list_all is_digit barcode"
    by (auto simp: looksLikeGS1Barcode_def gs1StandardBarcodeLengths_def)
  then have "8 \<le> length barcode" by auto
  then obtain data c where bc: "barcode = data @ [c]"
    by (cases barcode rule: rev_cases) auto
  with \<open>8 \<le> length barcode\<close> have data: "data \<noteq> []" by auto
  let ?s = "csum gs1_weight 1 (map digit_val (rev data))"
  have d: "list_all is_digit data" and c: "is_digit c" using digits bc by auto
  have "ValidateBarcodeCheckDigit barcode = Inr () \<longleftrightarrow> (10 - ?s mod 10) mod 10 = digit_val c"
    using assms gs1CheckDigit_digits [OF d data] by (simp add: ValidateBarcodeCheckDigit_def bc)
  also have "\<dots> \<longleftrightarrow> (digit_val c + ?s) mod 10 = 0"
    using digit_val_less [OF c] by (rule complement_mod)
  also have "digit_val c + ?s = gs1_total barcode" by (simp add: gs1_total_def bc gs1_weight_def)
  finally show ?thesis .
qed

interpretation gs1_check: check_scheme gs1_weight 10 10 13
proof
  fix i a b :: nat
  assume "a < 10" "b < 10" and eq: "gs1_weight i a mod 10 = gs1_weight i b mod 10"
  have "coprime (3 :: nat) 10" by code_simp
  then have "coprime (if even i then 1 else 3) (10 :: nat)" by simp
  then show "a = b" using \<open>a < 10\<close> \<open>b < 10\<close> eq unfolding gs1_weight_def by (rule weight_distinguishes)
qed

lemma gs1_total_substitution:
  assumes "list_all is_digit barcode" and "length barcode \<le> 13" and "j < length barcode"
    and "is_digit c" and "c \<noteq> barcode ! j"
  shows "gs1_total (barcode[j := c]) mod 10 \<noteq> gs1_total barcode mod 10"
proof -
  let ?vs = "map digit_val (rev barcode)" and ?k = "length barcode - j - 1"
  have k: "?k < length ?vs" "?k < 13" using assms(2,3) by auto
  have nth: "?vs ! ?k = digit_val (barcode ! j)" using assms(3) by (simp add: rev_nth)
  have old: "is_digit (barcode ! j)" using assms(1,3) by (simp add: list_all_length)
  have "map digit_val (rev (barcode[j := c])) = ?vs[?k := digit_val c]"
    using assms(3) by (simp add: rev_update map_update)
  moreover have "csum gs1_weight 0 (?vs[?k := digit_val c]) mod 10 \<noteq> csum gs1_weight 0 ?vs mod 10"
    by (rule gs1_check.substitution_changes_sum [OF k])
      (use nth old assms(4,5) in \<open>simp_all add: digit_val_less digit_val_inj\<close>)
  ultimately show ?thesis by (simp add: gs1_total_def)
qed

section \<open>GSTIN\<close>

definition gstinChars :: string where
  "gstinChars = ''0123456789ABCDEFGHIJKLMNOPQRSTUVWXYZ''"

text \<open>\<open>strings.IndexByte\<close>, with None for -1.\<close>

fun index_byte :: "string \<Rightarrow> char \<Rightarrow> nat option" where
  "index_byte [] c = None"
| "index_byte (x # xs) c = (if x = c then Some 0 else map_option Suc (index_byte xs c))"

text \<open>The loop over the first 14 bytes, from the factor in force: None is the early false.\<close>

fun gstin_total :: "nat \<Rightarrow> string \<Rightarrow> nat option" where
  "gstin_total factor [] = Some 0"
| "gstin_total factor (g # gs) =
     (case index_byte gstinChars g of
        None \<Rightarrow> None
      | Some v \<Rightarrow>
          let d = v * factor
          in map_option (\<lambda>t. d div 36 + d mod 36 + t) (gstin_total (if factor = 1 then 2 else 1) gs))"

definition ValidGSTINChecksum :: "string \<Rightarrow> bool" where
  "ValidGSTINChecksum g0 =
     (let g = to_upper (trim g0)
      in length g = 15 \<and>
         (case gstin_total 1 (take 14 g) of
            None \<Rightarrow> False
          | Some tot \<Rightarrow> gstinChars ! ((36 - tot mod 36) mod 36) = g ! 14))"

definition gstin_weight :: "nat \<Rightarrow> nat \<Rightarrow> nat" where
  "gstin_weight k v = (let d = v * (if even k then 1 else 2) in d div 36 + d mod 36)"

definition gstin_val :: "char \<Rightarrow> nat" where
  "gstin_val c = (case index_byte gstinChars c of None \<Rightarrow> 0 | Some v \<Rightarrow> v)"

lemma gstin_alphabet:
  "length gstinChars = 36"
  "\<forall>v \<in> set [0..<36]. index_byte gstinChars (gstinChars ! v) = Some v"
  "to_upper gstinChars = gstinChars" "list_all (\<lambda>c. \<not> is_space c) gstinChars"
  by code_simp+

lemma index_byte_gstin:
  assumes "c \<in> set gstinChars"
  shows "index_byte gstinChars c = Some (gstin_val c)" and "gstin_val c < 36"
    and "gstinChars ! gstin_val c = c"
proof -
  from assms obtain v where v: "v < 36" "c = gstinChars ! v"
    by (auto simp: in_set_conv_nth gstin_alphabet(1))
  then have "index_byte gstinChars c = Some v" using gstin_alphabet(2) by simp
  with v show "index_byte gstinChars c = Some (gstin_val c)" "gstin_val c < 36" "gstinChars ! gstin_val c = c"
    by (simp_all add: gstin_val_def)
qed

lemma gstin_total_csum:
  "set gs \<subseteq> set gstinChars \<Longrightarrow>
     gstin_total (if even i then 1 else 2) gs = Some (csum gstin_weight i (map gstin_val gs))"
proof (induction gs arbitrary: i)
  case Nil
  then show ?case by simp
next
  case (Cons g gs)
  from Cons.prems have "g \<in> set gstinChars" by simp
  note g = index_byte_gstin(1) [OF this]
  from Cons.IH [of "i + 1"] Cons.prems g show ?case
    by (auto simp: gstin_weight_def Let_def split: if_splits)
qed

lemma gstin_weight_table:
  "distinct (map (\<lambda>a. gstin_weight 0 a mod 36) [0..<36])"
  "distinct (map (\<lambda>a. gstin_weight 1 a mod 36) [0..<36])"
  by code_simp+

lemma gstin_weight_parity: "gstin_weight i = gstin_weight (if even i then 0 else 1)"
  by (rule ext) (simp add: gstin_weight_def)

interpretation gstin_check: check_scheme gstin_weight 36 36 14
proof
  fix i a b :: nat
  assume ab: "a < 36" "b < 36" and eq: "gstin_weight i a mod 36 = gstin_weight i b mod 36"
  define p where "p = (if even i then 0 else 1 :: nat)"
  have "distinct (map (\<lambda>a. gstin_weight p a mod 36) [0..<36])"
    using gstin_weight_table by (simp add: p_def)
  then have inj: "inj_on (\<lambda>a. gstin_weight p a mod 36) (set [0..<36])" by (simp only: distinct_map)
  moreover have "gstin_weight i = gstin_weight p"
    unfolding p_def by (rule gstin_weight_parity)
  ultimately have "gstin_weight p a mod 36 = gstin_weight p b mod 36" using eq by metis
  with inj show "a = b" by (rule inj_onD) (use ab in simp_all)
qed

lemma gstin_normal:
  assumes "set g \<subseteq> set gstinChars"
  shows "to_upper (trim g) = g"
proof -
  have "\<not> is_space c \<and> upper_char c = c" if "c \<in> set g" for c
  proof -
    from assms that obtain v where v: "v < 36" "c = gstinChars ! v"
      by (auto simp: in_set_conv_nth gstin_alphabet(1) dest!: subsetD)
    then show ?thesis
      using gstin_alphabet(3,4) by (metis gstin_alphabet(1) list_all_length nth_map to_upper_def)
  qed
  then have "\<forall>c \<in> set g. \<not> is_space c" and up: "\<forall>c \<in> set g. upper_char c = c" by blast+
  then have "dropWhile is_space g = g" and "dropWhile is_space (rev g) = rev g"
    using hd_in_set [of g] hd_in_set [of "rev g"] by (auto simp: dropWhile_eq_self_iff)
  with up show ?thesis by (simp add: trim_def to_upper_def map_idI)
qed

lemma ValidGSTINChecksum_chars:
  assumes "set g \<subseteq> set gstinChars" and "length g = 15"
  shows "ValidGSTINChecksum g \<longleftrightarrow>
    (gstin_val (g ! 14) + csum gstin_weight 0 (map gstin_val (take 14 g))) mod 36 = 0"
proof -
  let ?s = "csum gstin_weight 0 (map gstin_val (take 14 g))"
  have sub: "set (take 14 g) \<subseteq> set gstinChars" using assms(1) set_take_subset by fast
  have mem: "g ! 14 \<in> set gstinChars" using assms by auto
  have inj: "gstinChars ! k = g ! 14 \<longleftrightarrow> k = gstin_val (g ! 14)" if "k < 36" for k
    using that index_byte_gstin [OF mem] gstin_alphabet(2) by (metis atLeastLessThan_iff atLeastLessThan_upt option.inject zero_le)
  have "ValidGSTINChecksum g \<longleftrightarrow> gstinChars ! ((36 - ?s mod 36) mod 36) = g ! 14"
    using gstin_total_csum [OF sub, of 0] assms(2)
    by (simp add: ValidGSTINChecksum_def gstin_normal [OF assms(1)])
  also have "\<dots> \<longleftrightarrow> (36 - ?s mod 36) mod 36 = gstin_val (g ! 14)" by (rule inj) simp
  also have "\<dots> \<longleftrightarrow> (gstin_val (g ! 14) + ?s) mod 36 = 0"
    by (rule complement_mod) (rule index_byte_gstin(2) [OF mem])
  finally show ?thesis .
qed

section \<open>ABN\<close>

text \<open>The loop: \<open>d := int(v[i]-'0')\<close> is a byte subtraction, so a byte that is no digit gives a
  value outside 0 to 9 and the function returns false.\<close>

definition abn_weights :: "int list" where
  "abn_weights = [10, 1, 3, 5, 7, 9, 11, 13, 15, 17, 19]"

fun abn_sum :: "nat \<Rightarrow> string \<Rightarrow> int option" where
  "abn_sum i [] = Some 0"
| "abn_sum i (c # cs) =
     (if \<not> is_digit c then None
      else let d = int (digit_val c) - (if i = 0 then 1 else 0)
           in map_option (\<lambda>s. d * abn_weights ! i + s) (abn_sum (i + 1) cs))"

definition validABN :: "string \<Rightarrow> bool" where
  "validABN v \<longleftrightarrow> length v = 11 \<and>
     (case abn_sum 0 v of None \<Rightarrow> False | Some s \<Rightarrow> go_mod s 89 = 0)"

definition abn_weight :: "nat \<Rightarrow> nat \<Rightarrow> nat" where
  "abn_weight k d = d * nat (abn_weights ! k)"

lemma abn_nonneg: "\<forall>w \<in> set abn_weights. 0 \<le> w"
  by code_simp

lemma abn_sum_csum:
  "list_all is_digit cs \<Longrightarrow> 0 < i \<Longrightarrow> i + length cs \<le> 11 \<Longrightarrow>
     abn_sum i cs = Some (int (csum abn_weight i (map digit_val cs)))"
proof (induction cs arbitrary: i)
  case Nil
  then show ?case by simp
next
  case (Cons c cs)
  have "abn_weights ! i \<in> set abn_weights"
    using Cons.prems by (intro nth_mem) (simp add: abn_weights_def)
  then have "0 \<le> abn_weights ! i" using abn_nonneg by blast
  with Cons.IH [of "i + 1"] Cons.prems show ?case by (simp add: abn_weight_def)
qed

lemma abn_coprime: "\<forall>k \<in> set [0..<11]. coprime (nat (abn_weights ! k)) 89"
  by code_simp

interpretation abn_check: check_scheme abn_weight 89 89 11
proof
  fix i a b :: nat
  assume "i < 11" and ab: "a < 89" "b < 89" and eq: "abn_weight i a mod 89 = abn_weight i b mod 89"
  then have "coprime (nat (abn_weights ! i)) 89" using abn_coprime by simp
  then show "a = b" using ab eq unfolding abn_weight_def by (rule weight_distinguishes)
qed

lemma go_mod_0: "0 < m \<Longrightarrow> go_mod a m = 0 \<longleftrightarrow> m dvd a"
proof -
  assume "0 < m"
  have "go_mod a m = sgn a * (\<bar>a\<bar> mod m)"
    using \<open>0 < m\<close> by (simp add: go_mod_def go_div_def minus_div_mult_eq_mod [symmetric] algebra_simps abs_sgn mult_sgn_abs)
  then show ?thesis by (auto simp: sgn_if mod_eq_0_iff_dvd)
qed

lemma int_mod_89: "int x mod 89 = 10 mod 89 \<longleftrightarrow> x mod 89 = 10"
proof -
  have a: "int x mod 89 = int (x mod 89)" by (simp add: zmod_int)
  have b: "(10 :: int) mod 89 = int 10" by simp
  show ?thesis unfolding a b by (rule of_nat_eq_iff)
qed

lemma validABN_digits:
  assumes "length v = 11" and "list_all is_digit v"
  shows "validABN v \<longleftrightarrow> csum abn_weight 0 (map digit_val v) mod 89 = 10"
proof -
  from assms(1) obtain c cs where v: "v = c # cs" "length cs = 10" by (cases v) auto
  with assms(2) have "abn_sum 1 cs = Some (int (csum abn_weight 1 (map digit_val cs)))"
    by (intro abn_sum_csum) auto
  then have "abn_sum 0 v = Some (int (csum abn_weight 0 (map digit_val v)) - 10)"
    using assms(2) v by (simp add: abn_weights_def abn_weight_def algebra_simps)
  then have "validABN v \<longleftrightarrow> 89 dvd int (csum abn_weight 0 (map digit_val v)) - 10"
    using assms(1) by (simp add: validABN_def go_mod_0)
  also have "\<dots> \<longleftrightarrow> int (csum abn_weight 0 (map digit_val v)) mod 89 = 10 mod 89"
    by (simp only: mod_eq_dvd_iff)
  also have "\<dots> \<longleftrightarrow> csum abn_weight 0 (map digit_val v) mod 89 = 10"
    by (rule int_mod_89)
  finally show ?thesis .
qed

lemma validABN_is_digits: "validABN v \<Longrightarrow> list_all is_digit v"
proof -
  have "abn_sum i cs = Some s \<Longrightarrow> list_all is_digit cs" for i cs s
    by (induction cs arbitrary: i s) (auto split: if_splits)
  then show "validABN v \<Longrightarrow> list_all is_digit v"
    by (auto simp: validABN_def split: option.splits)
qed

section \<open>Luhn\<close>

text \<open>The loop from the last byte to the first; \<open>double\<close> starts true and alternates.\<close>

fun luhn_sum :: "bool \<Rightarrow> string \<Rightarrow> nat" where
  "luhn_sum double [] = 0"
| "luhn_sum double (c # cs) =
     (let d = digit_val c; d' = (if double then (if d * 2 > 9 then d * 2 - 9 else d * 2) else d)
      in d' + luhn_sum (\<not> double) cs)"

definition luhnCheckDigit :: "string \<Rightarrow> nat" where
  "luhnCheckDigit body = (10 - luhn_sum True (rev body) mod 10) mod 10"

definition luhn_weight :: "nat \<Rightarrow> nat \<Rightarrow> nat" where
  "luhn_weight k d = (if even k then d else if d * 2 > 9 then d * 2 - 9 else d * 2)"

lemma luhn_sum_csum: "luhn_sum (odd i) cs = csum luhn_weight i (map digit_val cs)"
proof (induction cs arbitrary: i)
  case Nil
  then show ?case by simp
next
  case (Cons c cs)
  from Cons.IH [of "i + 1"] show ?case by (simp add: luhn_weight_def Let_def)
qed

definition luhn_total :: "string \<Rightarrow> nat" where
  "luhn_total number = csum luhn_weight 0 (map digit_val (rev number))"

interpretation luhn_check: check_scheme luhn_weight 10 10 n
proof
  fix i a b :: nat
  assume "a < 10" "b < 10" "luhn_weight i a mod 10 = luhn_weight i b mod 10"
  then show "a = b" unfolding luhn_weight_def by (auto split: if_splits) presburger+
qed

lemma luhnCheckDigit_total: "luhn_total (body @ [digit_char (luhnCheckDigit body)]) mod 10 = 0"
proof -
  have "luhnCheckDigit body < 10" by (simp add: luhnCheckDigit_def)
  then have "luhn_total (body @ [digit_char (luhnCheckDigit body)]) =
      luhnCheckDigit body + luhn_sum True (rev body)"
    using luhn_sum_csum [of 1 "rev body"] by (simp add: luhn_total_def luhn_weight_def)
  moreover have "(luhnCheckDigit body + luhn_sum True (rev body)) mod 10 = 0"
    using complement_mod [of "luhnCheckDigit body" 10 "luhn_sum True (rev body)"]
    by (simp add: luhnCheckDigit_def)
  ultimately show ?thesis by simp
qed

section \<open>Properties\<close>

text \<open>
  A scanned GS1 number with one wrong digit is refused: no two barcodes that look like
  EAN-8, UPC-A or EAN-13 and differ in a single digit are both accepted.
\<close>
theorem gs1_single_digit_error_refused:
  assumes "looksLikeGS1Barcode barcode" and "ValidateBarcodeCheckDigit barcode = Inr ()"
    and "j < length barcode" and "is_digit c" and "c \<noteq> barcode ! j"
  shows "ValidateBarcodeCheckDigit (barcode[j := c]) \<noteq> Inr ()"
proof -
  have digits: "list_all is_digit barcode" and len: "length barcode \<le> 13"
    using assms(1) by (auto simp: looksLikeGS1Barcode_def gs1StandardBarcodeLengths_def)
  have "list_all is_digit (barcode[j := c])"
    using digits assms(4) set_update_subset_insert [of barcode j c] by (auto simp: list_all_iff)
  then have "looksLikeGS1Barcode (barcode[j := c])"
    using assms(1) by (simp add: looksLikeGS1Barcode_def)
  moreover have "gs1_total barcode mod 10 = 0"
    using ValidateBarcodeCheckDigit_total assms(1,2) by blast
  ultimately show ?thesis
    using gs1_total_substitution [OF digits len assms(3,4,5)] by (simp add: ValidateBarcodeCheckDigit_total)
qed

theorem gs1_single_digit_error_refused_witness:
  "ValidateBarcodeCheckDigit (''4006381333931''[4 := CHR ''7'']) \<noteq> Inr ()"
  by (rule gs1_single_digit_error_refused) code_simp+

text \<open>
  The GSTIN check digit catches one mistyped character: in a GSTIN over the 36-character
  alphabet that passes, replacing any one of its first 14 characters by another character of
  the alphabet makes the checksum fail.
\<close>
theorem gstin_single_character_error_refused:
  assumes "ValidGSTINChecksum g" and "set g \<subseteq> set gstinChars" and "length g = 15"
    and "j < 14" and "c \<in> set gstinChars" and "c \<noteq> g ! j"
  shows "\<not> ValidGSTINChecksum (g[j := c])"
proof
  assume bad: "ValidGSTINChecksum (g[j := c])"
  let ?vs = "map gstin_val (take 14 g)"
  have sub: "set (g[j := c]) \<subseteq> set gstinChars"
    using set_update_subset_insert [of g j c] assms(2,5) by blast
  have "take 14 (g[j := c]) = (take 14 g)[j := c]" by (rule take_update_swap)
  then have vs: "map gstin_val (take 14 (g[j := c])) = ?vs[j := gstin_val c]" by (simp add: map_update)
  have mem: "g ! j \<in> set gstinChars" using assms(2,3,4) by auto
  have nth: "?vs ! j = gstin_val (g ! j)" using assms(3,4) by simp
  have "gstin_val c \<noteq> gstin_val (g ! j)"
    using index_byte_gstin(3) [OF mem] index_byte_gstin(3) [OF assms(5)] assms(6) by metis
  then have "csum gstin_weight 0 (?vs[j := gstin_val c]) mod 36 \<noteq> csum gstin_weight 0 ?vs mod 36"
    using assms(3,4) nth index_byte_gstin(2) [OF mem] index_byte_gstin(2) [OF assms(5)]
    by (intro gstin_check.substitution_changes_sum) simp_all
  moreover have "(gstin_val (g ! 14) + csum gstin_weight 0 (?vs[j := gstin_val c])) mod 36 =
      (gstin_val (g ! 14) + csum gstin_weight 0 ?vs) mod 36"
    using bad assms(1) ValidGSTINChecksum_chars [OF assms(2,3)] ValidGSTINChecksum_chars [OF sub]
      assms(3,4) vs by simp
  ultimately show False by (metis mod_add_cancel)
qed

theorem gstin_single_character_error_refused_witness:
  "\<not> ValidGSTINChecksum (''27AAPFU0939F1ZV''[3 := CHR ''B''])"
  by (rule gstin_single_character_error_refused) code_simp+

text \<open>
  The ABN rule catches one mistyped digit: replacing any one digit of a valid Australian
  Business Number by another digit makes it invalid.
\<close>
theorem abn_single_digit_error_refused:
  assumes "validABN v" and "j < 11" and "is_digit c" and "c \<noteq> v ! j"
  shows "\<not> validABN (v[j := c])"
proof
  assume bad: "validABN (v[j := c])"
  have len: "length v = 11" using assms(1) by (simp add: validABN_def)
  note digits = validABN_is_digits [OF assms(1)]
  let ?vs = "map digit_val v"
  have old: "is_digit (v ! j)" using digits assms(2) len by (simp add: list_all_length)
  have "csum abn_weight 0 (?vs[j := digit_val c]) mod 89 \<noteq> csum abn_weight 0 ?vs mod 89"
    using assms(2,3,4) len old digit_val_less [OF assms(3)] digit_val_less [OF old]
    by (intro abn_check.substitution_changes_sum) (simp_all add: digit_val_inj)
  moreover have "csum abn_weight 0 ?vs mod 89 = 10"
    using validABN_digits [OF len digits] assms(1) by simp
  moreover have "csum abn_weight 0 (?vs[j := digit_val c]) mod 89 = 10"
    using validABN_digits [of "v[j := c]"] bad len validABN_is_digits [OF bad] by (simp add: map_update)
  ultimately show False by simp
qed

theorem abn_single_digit_error_refused_witness:
  "\<not> validABN (''51824753556''[10 := CHR ''7''])"
  by (rule abn_single_digit_error_refused) code_simp+

end
