(* ===== verification/Numbering.thy ===== *)
theory Numbering
  imports Schema CheckDigits
begin

text \<open>
  Document numbers (engines/numbering.go) and their administration (engines/number_series.go):
  the counter a number is drawn from, the layout of a number, the checks a series passes
  before it is saved, and the barcode digits minted from a counter (engines/pim_barcode.go).

  \<open>numbering\<close> holds the tenant (its Location documents), the rows of prefix_configs and the
  counters. The clock is an argument, a year and a month. Arguments too: which series number
  a record's code (\<open>recordCodeSeries\<close> reads the doctype catalogue) and the home country of the
  tenant. A Go map of overrides is an association list.
\<close>

section \<open>Series and counters\<close>

record store_override =
  so_prefix :: string
  so_code :: string
  so_suffix :: string

definition no_override :: store_override where
  "no_override = \<lparr>so_prefix = [], so_code = [], so_suffix = []\<rparr>"

record number_series =
  ns_doc_type :: string
  ns_prefix :: string
  ns_suffix :: string
  ns_separator :: string
  ns_padding :: int
  ns_reset :: string
  ns_active :: bool
  ns_include_store :: bool
  ns_overrides :: "(string \<times> store_override) list"
  ns_year_format :: string
  ns_year_position :: string
  ns_record_code :: bool
  ns_confirmed :: bool

record numbering =
  nb_t :: tenant
  nb_series :: "number_series list"
  nb_counters :: "((string \<times> string \<times> string) \<times> int) list"

type_synonym clock = "nat \<times> nat"

definition counterWildcard :: string where
  "counterWildcard = ''*''"

definition documentFinancialYear :: "clock \<Rightarrow> string" where
  "documentFinancialYear now = (case now of (y, m) \<Rightarrow>
     let startYear = (if m < 4 then y - 1 else y)
     in dec_pad 2 (startYear mod 100) @ ''-'' @ dec_pad 2 ((startYear + 1) mod 100))"

definition month_text :: "clock \<Rightarrow> string" where
  "month_text now = dec_pad 2 (snd now)"

definition sequencePeriod :: "string \<Rightarrow> string \<Rightarrow> clock \<Rightarrow> string \<times> string" where
  "sequencePeriod resetFreq fy now =
     (let r = to_upper (trim resetFreq) in
      if r = ''NEVER'' then (counterWildcard, [])
      else if r = ''MONTHLY'' then (fy @ ''-'' @ month_text now, fy @ ''-'' @ month_text now)
      else (fy, fy))"

text \<open>\<open>financialYearPattern\<close>, the two years of \<open>26-27\<close>.\<close>

definition financialYearParts :: "string \<Rightarrow> (string \<times> string) option" where
  "financialYearParts fy =
     (if length fy = 5 \<and> fy ! 2 = CHR ''-'' \<and> list_all is_digit (take 2 fy @ drop 3 fy)
      then Some (take 2 fy, drop 3 fy) else None)"

definition formatPeriodSegment :: "string \<Rightarrow> string \<Rightarrow> string \<Rightarrow> clock \<Rightarrow> string" where
  "formatPeriodSegment yearFormat resetFreq fy now =
     (let monthly = equal_fold (trim resetFreq) ''MONTHLY'';
          mm = (if monthly then month_text now else []);
          plain = (if monthly then fy @ ''-'' @ mm else fy)
      in case financialYearParts fy of
        None \<Rightarrow> plain
      | Some (start, end') \<Rightarrow>
          if yearFormat = ''FY_COMPACT'' then start @ end' @ mm
          else if yearFormat = ''FY_LONG'' then
            (if monthly then ''20'' @ start @ ''-'' @ end' @ ''-'' @ mm else ''20'' @ start @ ''-'' @ end')
          else if yearFormat = ''START_YY'' then
            (if monthly then dec_pad 2 (fst now mod 100) @ month_text now else start)
          else if yearFormat = ''START_YYYY'' then
            (if monthly then dec_pad 4 (fst now) @ month_text now else ''20'' @ start)
          else plain)"

definition joinNumberParts :: "string \<Rightarrow> string \<Rightarrow> string \<Rightarrow> string \<Rightarrow> string \<Rightarrow> string \<Rightarrow> string \<Rightarrow> string" where
  "joinNumberParts prefix store period number suffix sep yearPosition =
     (let atEnd = equal_fold yearPosition ''END'';
          opt = (\<lambda>p. if p = [] then [] else [p])
      in join sep (opt prefix @ opt store @ (if atEnd then [] else opt period) @ [number] @ opt suffix
           @ (if atEnd then opt period else [])))"

section \<open>Issuing a number\<close>

text \<open>SQL's TRIM removes spaces only.\<close>

definition sql_trim :: "string \<Rightarrow> string" where
  "sql_trim s = (let sp = (\<lambda>c. c = CHR '' '') in rev (dropWhile sp (rev (dropWhile sp s))))"

definition is_location :: "document \<Rightarrow> bool" where
  "is_location d \<longleftrightarrow> d_doctype d = ''Location''"

definition short_code :: "document \<Rightarrow> string" where
  "short_code d = sql_trim (coalesce (jtext (d_data d) ''short_code'') [])"

definition storeNumberSegment :: "tenant \<Rightarrow> string \<Rightarrow> string" where
  "storeNumberSegment t storeCode =
     (case find (\<lambda>d. is_location d \<and> (d_id d = storeCode \<or> jtext (d_data d) ''code'' = Some storeCode)) (t_documents t) of
        None \<Rightarrow> storeCode
      | Some d \<Rightarrow>
          let short = short_code d in
          if short = [] then storeCode
          else if list_ex (\<lambda>o'. is_location o' \<and> d_id o' \<noteq> storeCode
                 \<and> coalesce (jtext (d_data o') ''code'') (d_id o') \<noteq> storeCode
                 \<and> ((jtext (d_data o') ''short_code'' \<noteq> None \<and> to_upper (short_code o') = to_upper short)
                    \<or> to_upper (coalesce (jtext (d_data o') ''code'') (d_id o')) = to_upper short
                    \<or> to_upper (d_id o') = to_upper short)) (t_documents t)
          then storeCode else short)"

definition default_series :: "string \<Rightarrow> number_series" where
  "default_series docType = \<lparr>ns_doc_type = docType, ns_prefix = docType, ns_suffix = [], ns_separator = ''/'',
     ns_padding = 6, ns_reset = ''ANNUAL'', ns_active = True, ns_include_store = True, ns_overrides = [],
     ns_year_format = [], ns_year_position = [], ns_record_code = False, ns_confirmed = False\<rparr>"

definition series_for :: "numbering \<Rightarrow> string \<Rightarrow> number_series" where
  "series_for nb docType = (case find (\<lambda>s. ns_doc_type s = docType) (nb_series nb) of
     Some s \<Rightarrow> s | None \<Rightarrow> default_series docType)"

definition period_parts :: "number_series \<Rightarrow> string \<Rightarrow> clock \<Rightarrow> string \<times> string" where
  "period_parts s fy now = (case sequencePeriod (ns_reset s) fy now of (bucket, segment) \<Rightarrow>
     (bucket, if segment \<noteq> [] then formatPeriodSegment (ns_year_format s) (ns_reset s) fy now else segment))"

definition counter_slot :: "number_series \<Rightarrow> string \<Rightarrow> string \<Rightarrow> string \<Rightarrow> clock \<Rightarrow> string \<times> string \<times> string" where
  "counter_slot s docType storeCode fy now =
     (docType, if ns_include_store s then storeCode else counterWildcard, fst (period_parts s fy now))"

definition override_for :: "number_series \<Rightarrow> string \<Rightarrow> store_override" where
  "override_for s storeCode = (if storeCode = [] then no_override
     else coalesce (map_of (ns_overrides s) storeCode) no_override)"

definition store_segment :: "tenant \<Rightarrow> number_series \<Rightarrow> string \<Rightarrow> string" where
  "store_segment t s storeCode =
     (if \<not> ns_include_store s \<or> storeCode = [] then []
      else if so_code (override_for s storeCode) \<noteq> [] then so_code (override_for s storeCode)
      else storeNumberSegment t storeCode)"

text \<open>Step 5: the number a counter value prints.\<close>

definition or_else :: "string \<Rightarrow> string \<Rightarrow> string" where
  "or_else a b = (if a \<noteq> [] then a else b)"

definition number_text :: "tenant \<Rightarrow> number_series \<Rightarrow> string \<Rightarrow> string \<Rightarrow> clock \<Rightarrow> int \<Rightarrow> string" where
  "number_text t s storeCode fy now n =
     (let ov = override_for s storeCode in
      joinNumberParts (or_else (so_prefix ov) (ns_prefix s)) (store_segment t s storeCode)
        (snd (period_parts s fy now)) (dec_pad (nat (ns_padding s)) (nat n))
        (or_else (so_suffix ov) (ns_suffix s)) (ns_separator s) (ns_year_position s))"

definition counter_value :: "numbering \<Rightarrow> string \<times> string \<times> string \<Rightarrow> int" where
  "counter_value nb slot = coalesce (map_of (nb_counters nb) slot) 0"

text \<open>The upsert: a new bucket starts at 1, an existing one is incremented.\<close>

definition take_number :: "string \<times> string \<times> string \<Rightarrow> numbering \<Rightarrow> int \<times> numbering" where
  "take_number slot nb = (case map_of (nb_counters nb) slot of
     None \<Rightarrow> (1, nb\<lparr>nb_counters := nb_counters nb @ [(slot, 1)]\<rparr>)
   | Some v \<Rightarrow> (v + 1, nb\<lparr>nb_counters := map (\<lambda>(k, w). if k = slot then (k, w + 1) else (k, w)) (nb_counters nb)\<rparr>))"

definition GenerateSequence :: "clock \<Rightarrow> string \<Rightarrow> string \<Rightarrow> string \<Rightarrow> numbering \<Rightarrow> (string \<times> numbering) res" where
  "GenerateSequence now docType storeCode fy nb =
     (let s = series_for nb docType in
      if \<not> ns_active s then Inl (Coded ''ADMINC-0030'')
      else case take_number (counter_slot s docType storeCode fy now) nb of
        (n, nb') \<Rightarrow> Inr (number_text (nb_t nb) s storeCode fy now n, nb'))"

definition GenerateEANBarcode :: "clock \<Rightarrow> numbering \<Rightarrow> (string \<times> numbering) res" where
  "GenerateEANBarcode now nb =
     rbind (GenerateSequence now ''PIMBarcodeSeq'' [] [] nb) (\<lambda>(sq, nb').
       if length sq \<noteq> 9 then Inl (Plain ''PIMBarcodeSeq numbering configuration is not set up for a 9-digit sequence'')
       else rbind (gs1CheckDigit (''020'' @ sq)) (\<lambda>c. Inr (''020'' @ sq @ dec c, nb')))"

section \<open>The checks of a series\<close>

definition validResetFrequency :: "string list" where
  "validResetFrequency = [''ANNUAL'', ''MONTHLY'', ''NEVER'']"

definition validYearFormats :: "string list" where
  "validYearFormats = [[], ''FY_COMPACT'', ''FY_LONG'', ''START_YY'', ''START_YYYY'']"

definition gstNumberMaxLength :: nat where "gstNumberMaxLength = 16"

definition otherCountryNumberMaxLength :: nat where "otherCountryNumberMaxLength = 20"

definition seriesNumberRules :: "string \<Rightarrow> nat \<times> bool" where
  "seriesNumberRules country = (let c = to_upper (trim country) in
     if c = [] \<or> c = ''IN'' then (gstNumberMaxLength, True) else (otherCountryNumberMaxLength, False))"

definition gst_char :: "char \<Rightarrow> bool" where
  "gst_char c \<longleftrightarrow> is_upper c \<or> is_digit c \<or> c = CHR ''/'' \<or> c = CHR ''-''"

definition gstNumberPattern :: "string \<Rightarrow> bool" where
  "gstNumberPattern s = (case s of [] \<Rightarrow> False
     | c # cs \<Rightarrow> (is_upper c \<or> (is_digit c \<and> c \<noteq> CHR ''0'')) \<and> list_all gst_char cs)"

definition validSeparators :: "string list" where
  "validSeparators = [[], ''/'', ''-'']"

definition gstTextPattern :: "string \<Rightarrow> bool" where
  "gstTextPattern s \<longleftrightarrow> list_all gst_char s \<and> length s \<le> 20"

definition seriesStoreCodePattern :: "string \<Rightarrow> bool" where
  "seriesStoreCodePattern s \<longleftrightarrow> list_all gst_char s \<and> 1 \<le> length s \<and> length s \<le> 10"

definition text_char :: "char \<Rightarrow> bool" where
  "text_char c \<longleftrightarrow> is_upper c \<or> is_lower c \<or> is_digit c \<or> c \<in> {CHR ''_'', CHR ''.'', CHR ''-''}"

definition seriesTextPattern :: "string \<Rightarrow> bool" where
  "seriesTextPattern s \<longleftrightarrow> list_all text_char s \<and> length s \<le> 20"

definition documentTextPattern :: "string \<Rightarrow> bool" where
  "documentTextPattern s \<longleftrightarrow> list_all (\<lambda>c. text_char c \<or> c = CHR ''/'') s \<and> length s \<le> 20"

definition counterSeries :: "string list" where
  "counterSeries = [''PIMBarcodeSeq'', ''PIMDatedBarcodeSeq'', ''GRNBatchSeq'']"

definition barcodeCounters :: "string list" where
  "barcodeCounters = [''PIMBarcodeSeq'', ''PIMDatedBarcodeSeq'']"

record series_store =
  sr_code :: string
  sr_segment :: string
  sr_name :: string
  sr_deleted :: bool

definition nullif_empty :: "string option \<Rightarrow> string option" where
  "nullif_empty x = (if x = Some [] then None else x)"

definition location_code :: "document \<Rightarrow> string" where
  "location_code d = coalesce (nullif_empty (jtext (d_data d) ''code'')) (d_id d)"

definition location_name :: "document \<Rightarrow> string" where
  "location_name d = coalesce (nullif_empty (map_option sql_trim (jtext (d_data d) ''name''))) (location_code d)"

definition loadSeriesStores :: "tenant \<Rightarrow> series_store list" where
  "loadSeriesStores t =
     (let locs = sort_key location_code (filter is_location (t_documents t)) in
      map (\<lambda>l. \<lparr>sr_code = location_code l,
          sr_segment = (if short_code l = [] then location_code l
             else if list_ex (\<lambda>o'. location_code o' \<noteq> location_code l
                    \<and> (equal_fold (short_code o') (short_code l) \<or> equal_fold (location_code o') (short_code l))) locs
             then location_code l else short_code l),
          sr_name = location_name l, sr_deleted = d_deleted l\<rparr>) locs)"

record series_sample =
  sm_number :: string
  sm_store :: string

definition sample_text :: "number_series \<Rightarrow> store_override \<Rightarrow> string \<Rightarrow> string \<Rightarrow> string" where
  "sample_text s ov segment period =
     joinNumberParts (or_else (so_prefix ov) (ns_prefix s)) segment period (dec_pad (nat (ns_padding s)) 1)
       (or_else (so_suffix ov) (ns_suffix s)) (ns_separator s) (ns_year_position s)"

definition seriesSampleNumbers ::
  "clock \<Rightarrow> number_series \<Rightarrow> (string \<times> store_override) list \<Rightarrow> series_store list \<Rightarrow> series_sample list" where
  "seriesSampleNumbers now s overrides stores =
     (if ns_record_code s then
        [\<lparr>sm_number = sample_text s no_override [] (snd (period_parts s [] now)), sm_store = []\<rparr>]
      else
        let period = snd (period_parts s (documentFinancialYear now) now);
            at_store = (\<lambda>st. let ov = coalesce (map_of overrides (sr_code st)) no_override
              in \<lparr>sm_number = sample_text s ov (or_else (so_code ov) (sr_segment st)) period,
                  sm_store = or_else (sr_name st) (sr_code st)\<rparr>);
            out = map at_store (filter (\<lambda>st. \<not> sr_deleted st) stores)
        in if \<not> ns_include_store s then [\<lparr>sm_number = sample_text s no_override [] period, sm_store = []\<rparr>]
           else if out = [] then [\<lparr>sm_number = sample_text s no_override ''HQ'' period, sm_store = []\<rparr>]
           else out)"

definition seriesPrefixes :: "string \<Rightarrow> (string \<times> store_override) list \<Rightarrow> string list" where
  "seriesPrefixes prefix overrides =
     filter (\<lambda>p. p \<noteq> []) (map (\<lambda>p. to_upper (trim p)) (prefix # map (so_prefix \<circ> snd) overrides))"

text \<open>Two stores printing one segment: the loop that fills \<open>printedBy\<close> meets a key twice.\<close>

definition printed_segment :: "(string \<times> store_override) list \<Rightarrow> series_store \<Rightarrow> string" where
  "printed_segment overrides st = or_else (so_code (coalesce (map_of overrides (sr_code st)) no_override)) (sr_segment st)"

definition same_segment_twice :: "(string \<times> store_override) list \<Rightarrow> series_store list \<Rightarrow> bool" where
  "same_segment_twice overrides stores \<longleftrightarrow> \<not> distinct (map (\<lambda>st. to_upper (printed_segment overrides st)) stores)"

definition bad_series :: err where
  "bad_series = Coded ''ADMINC-0311''"

definition fixed_counter_changed :: "number_series \<Rightarrow> number_series option \<Rightarrow> (string \<times> store_override) list \<Rightarrow> bool" where
  "fixed_counter_changed s current overrides = (case current of None \<Rightarrow> False | Some c \<Rightarrow>
     ns_doc_type s \<in> set barcodeCounters \<and>
     (ns_prefix s \<noteq> ns_prefix c \<or> ns_suffix s \<noteq> ns_suffix c \<or> ns_separator s \<noteq> ns_separator c
      \<or> ns_padding s \<noteq> ns_padding c \<or> \<not> equal_fold (ns_reset s) (ns_reset c)
      \<or> ns_include_store s \<noteq> ns_include_store c \<or> set overrides \<noteq> set (ns_overrides c)))"

definition text_ok :: "bool \<Rightarrow> string \<Rightarrow> bool" where
  "text_ok document p = (if document then documentTextPattern p else seriesTextPattern p)"

definition override_ok :: "bool \<Rightarrow> bool \<Rightarrow> store_override \<Rightarrow> bool" where
  "override_ok document gstRules ov \<longleftrightarrow> text_ok document (so_prefix ov) \<and> text_ok document (so_suffix ov)
     \<and> (document \<and> gstRules \<longrightarrow> gstTextPattern (so_prefix ov) \<and> gstTextPattern (so_suffix ov))
     \<and> (so_code ov \<noteq> [] \<longrightarrow> seriesStoreCodePattern (so_code ov))"

text \<open>Two series, neither a counter, that share a prefix.\<close>

definition prefix_taken :: "number_series \<Rightarrow> (string \<times> store_override) list \<Rightarrow> number_series list \<Rightarrow> bool" where
  "prefix_taken s overrides all \<longleftrightarrow> list_ex (\<lambda>other.
     ns_doc_type s \<notin> set counterSeries \<and> ns_doc_type other \<notin> set counterSeries \<and> ns_doc_type other \<noteq> ns_doc_type s
     \<and> list_ex (\<lambda>p. p \<in> set (seriesPrefixes (ns_prefix s) overrides))
         (seriesPrefixes (ns_prefix other) (ns_overrides other))) all"

definition validateNumberSeries ::
  "clock \<Rightarrow> string \<Rightarrow> number_series \<Rightarrow> number_series option \<Rightarrow> (string \<times> store_override) list \<Rightarrow>
     number_series list \<Rightarrow> series_store list \<Rightarrow> unit res" where
  "validateNumberSeries now country s current overrides all stores =
     (let (maxLen, gst) = seriesNumberRules country;
          gstRules = (gst \<and> \<not> ns_record_code s);
          document = (ns_doc_type s \<notin> set counterSeries);
          samples = seriesSampleNumbers now s overrides stores;
          unchanged = (case current of None \<Rightarrow> False
            | Some c \<Rightarrow> samples = seriesSampleNumbers now c (ns_overrides c) stores)
      in
      rbind (require (ns_doc_type s \<noteq> []) bad_series) (\<lambda>_.
      rbind (require (ns_reset s \<in> set validResetFrequency) bad_series) (\<lambda>_.
      rbind (require (1 \<le> ns_padding s \<and> ns_padding s \<le> 12) bad_series) (\<lambda>_.
      rbind (require (\<not> fixed_counter_changed s current overrides) bad_series) (\<lambda>_.
      rbind (require (length (ns_separator s) \<le> 3 \<and> CHR '' '' \<notin> set (ns_separator s) \<and> CHR 0x09 \<notin> set (ns_separator s)) bad_series) (\<lambda>_.
      rbind (require (text_ok document (ns_prefix s) \<and> text_ok document (ns_suffix s)) bad_series) (\<lambda>_.
      rbind (require (document \<and> gstRules \<longrightarrow> ns_separator s \<in> set validSeparators) bad_series) (\<lambda>_.
      rbind (require (document \<and> gstRules \<longrightarrow> gstTextPattern (ns_prefix s) \<and> gstTextPattern (ns_suffix s)) bad_series) (\<lambda>_.
      rbind (require (ns_prefix s \<noteq> [] \<or> (case current of None \<Rightarrow> False | Some c \<Rightarrow> ns_prefix c = [])) bad_series) (\<lambda>_.
      rbind (require (list_all (override_ok document gstRules \<circ> snd) overrides) bad_series) (\<lambda>_.
      rbind (require (ns_year_format s \<in> set validYearFormats) bad_series) (\<lambda>_.
      rbind (require (ns_year_position s = [] \<or> ns_year_position s = ''END'') bad_series) (\<lambda>_.
      rbind (require (\<not> (ns_include_store s \<and> same_segment_twice overrides stores)) bad_series) (\<lambda>_.
      rbind (require (\<not> prefix_taken s overrides all) (Coded ''ADMINC-0310'')) (\<lambda>_.
      require (document \<and> \<not> ns_record_code s \<longrightarrow>
          (gstRules \<longrightarrow> list_all (\<lambda>n. gstNumberPattern (sm_number n)) samples)
          \<and> (unchanged \<or> list_all (\<lambda>n. length (sm_number n) \<le> maxLen) samples)) bad_series)))))))))))))))"

section \<open>Saving a series\<close>

definition put_override :: "(string \<times> store_override) list \<Rightarrow> string \<times> store_override \<Rightarrow> (string \<times> store_override) list" where
  "put_override m = (\<lambda>(k, v). (k, v) # filter (\<lambda>(k', _). k' \<noteq> k) m)"

definition clean_overrides :: "bool \<Rightarrow> (string \<times> store_override) list \<Rightarrow> (string \<times> store_override) list" where
  "clean_overrides counter overrides =
     (let norm = (\<lambda>v. if counter then trim v else to_upper (trim v)) in
      foldl put_override [] (filter (\<lambda>(store, ov). store \<noteq> [] \<and> \<not> (so_prefix ov = [] \<and> so_code ov = [] \<and> so_suffix ov = []))
        (map (\<lambda>(store, ov). (trim store, \<lparr>so_prefix = norm (so_prefix ov), so_code = to_upper (trim (so_code ov)),
           so_suffix = norm (so_suffix ov)\<rparr>)) overrides)))"

definition normal_series :: "number_series \<Rightarrow> number_series" where
  "normal_series s =
     (let dt = trim (ns_doc_type s);
          norm = (\<lambda>v. if dt \<in> set counterSeries then trim v else to_upper (trim v));
          yf = to_upper (trim (ns_year_format s))
      in s\<lparr>ns_doc_type := dt, ns_prefix := norm (ns_prefix s), ns_suffix := norm (ns_suffix s),
           ns_reset := to_upper (trim (ns_reset s)), ns_year_format := (if yf = ''FY_SHORT'' then [] else yf),
           ns_year_position := to_upper (trim (ns_year_position s))\<rparr>)"

definition SaveNumberSeries ::
  "clock \<Rightarrow> string \<Rightarrow> (string \<Rightarrow> bool) \<Rightarrow> number_series \<Rightarrow> bool option \<Rightarrow> (string \<times> store_override) list option \<Rightarrow>
     numbering \<Rightarrow> numbering res" where
  "SaveNumberSeries now country record_series s0 includeStore ov0 nb =
     (let s1 = normal_series s0;
          existing = map (\<lambda>s. s\<lparr>ns_record_code := record_series (ns_doc_type s)\<rparr>) (nb_series nb);
          current = find (\<lambda>s. ns_doc_type s = ns_doc_type s1) existing;
          given = (case ov0 of Some m \<Rightarrow> m | None \<Rightarrow> (case current of Some c \<Rightarrow> ns_overrides c | None \<Rightarrow> []));
          cleaned = clean_overrides (ns_doc_type s1 \<in> set counterSeries) given;
          incl = (case includeStore of Some b \<Rightarrow> b
            | None \<Rightarrow> (case current of Some c \<Rightarrow> ns_include_store c | None \<Rightarrow> True));
          rc = record_series (ns_doc_type s1);
          (reset, incl') = (if \<not> rc then (ns_reset s1, incl)
            else case current of
              Some c \<Rightarrow> if ns_confirmed c \<or> ns_doc_type s1 = ''Payslip'' then (ns_reset c, ns_include_store c) else (''NEVER'', False)
            | None \<Rightarrow> (''NEVER'', False));
          s = s1\<lparr>ns_record_code := rc, ns_reset := reset, ns_include_store := incl'\<rparr>
      in rbind (validateNumberSeries now country s current cleaned existing (loadSeriesStores (nb_t nb))) (\<lambda>_.
        let saved = s\<lparr>ns_overrides := cleaned, ns_confirmed := True\<rparr> in
        Inr (nb\<lparr>nb_series := (if current = None then nb_series nb @ [saved]
          else map (\<lambda>x. if ns_doc_type x = ns_doc_type s then saved else x) (nb_series nb))\<rparr>)))"

section \<open>Widths and characters\<close>

lemma length_dec: "n < 10 ^ w \<Longrightarrow> 0 < w \<Longrightarrow> length (dec n) \<le> w"
proof (induction n arbitrary: w rule: dec.induct)
  case (1 n)
  show ?case
  proof (cases "n < 10")
    case True
    with 1(3) show ?thesis by (subst dec.simps) simp
  next
    case False
    have "w \<noteq> 0" "w \<noteq> 1" using False 1(2,3) by auto
    then obtain v where w: "w = Suc v" "0 < v" by (cases w) auto
    have "n div 10 < 10 ^ v" using 1(2) w by (simp add: less_mult_imp_div_less mult.commute)
    from 1(1) [OF False this w(2)] False w show ?thesis by (subst dec.simps) simp
  qed
qed

lemma length_dec_pad: "n < 10 ^ w \<Longrightarrow> 0 < w \<Longrightarrow> length (dec_pad w n) = w"
  using length_dec [of n w] by (simp add: dec_pad_def)

lemma dec_pad_nonempty [simp]: "dec_pad w n \<noteq> []"
  by (simp add: dec_pad_def)

lemma slash_not_digit: "\<not> is_digit CHR ''/''"
  by (simp add: is_digit_iff)

lemma dec_pad_plain: "CHR ''/'' \<notin> set (dec_pad w n)"
  using dec_pad_digits slash_not_digit by blast

definition real_clock :: "clock \<Rightarrow> bool" where
  "real_clock now \<longleftrightarrow> 1 \<le> fst now \<and> fst now < 10000 \<and> 1 \<le> snd now \<and> snd now \<le> 12"

definition fy_start :: "clock \<Rightarrow> nat" where
  "fy_start now = (if snd now < 4 then fst now - 1 else fst now)"

definition yy :: "nat \<Rightarrow> string" where
  "yy y = dec_pad 2 (y mod 100)"

lemma length_yy [simp]: "length (yy y) = 2"
  by (simp add: yy_def length_dec_pad)

lemma yy_inj: "yy a = yy b \<longleftrightarrow> a mod 100 = b mod 100"
  by (simp add: yy_def dec_pad_inj)

lemma yy_suc: "yy a = yy b \<Longrightarrow> yy (Suc a) = yy (Suc b)"
  unfolding yy_inj by (metis mod_Suc)

lemma length_month [simp]: "real_clock now \<Longrightarrow> length (month_text now) = 2"
  by (auto simp: month_text_def real_clock_def intro!: length_dec_pad)

lemma month_inj: "month_text a = month_text b \<longleftrightarrow> snd a = snd b"
  by (simp add: month_text_def dec_pad_inj)

lemma fy_text: "documentFinancialYear now = yy (fy_start now) @ ''-'' @ yy (Suc (fy_start now))"
  by (cases now) (simp add: documentFinancialYear_def fy_start_def yy_def Let_def)

lemma yy_digits: "c \<in> set (yy y) \<Longrightarrow> is_digit c"
  unfolding yy_def by (rule dec_pad_digits)

lemma fy_parts: "financialYearParts (documentFinancialYear now) = Some (yy (fy_start now), yy (Suc (fy_start now)))"
proof -
  have l: "length (yy a) = Suc (Suc 0)" for a using length_yy [of a] by simp
  obtain a b where 1: "yy (fy_start now) = [a, b]" using l by (metis length_Suc_conv length_0_conv)
  obtain c d where 2: "yy (Suc (fy_start now)) = [c, d]" using l by (metis length_Suc_conv length_0_conv)
  have "is_digit a" "is_digit b" "is_digit c" "is_digit d"
    using yy_digits [of _ "fy_start now"] yy_digits [of _ "Suc (fy_start now)"] 1 2 by auto
  then show ?thesis by (simp add: financialYearParts_def fy_text 1 2)
qed

definition valid_shape :: "number_series \<Rightarrow> bool" where
  "valid_shape s \<longleftrightarrow> ns_reset s \<in> set validResetFrequency \<and> ns_year_format s \<in> set validYearFormats"

text \<open>What a series prints for the period of a document dated by the clock.\<close>

definition year_text :: "string \<Rightarrow> clock \<Rightarrow> string" where
  "year_text fmt now = (let p = yy (fy_start now); q = yy (Suc (fy_start now)) in
     if fmt = ''FY_COMPACT'' then p @ q else if fmt = ''FY_LONG'' then ''20'' @ p @ ''-'' @ q
     else if fmt = ''START_YY'' then p else if fmt = ''START_YYYY'' then ''20'' @ p else p @ ''-'' @ q)"

definition month_year_text :: "string \<Rightarrow> clock \<Rightarrow> string" where
  "month_year_text fmt now = (let p = yy (fy_start now); q = yy (Suc (fy_start now)); mm = month_text now in
     if fmt = ''FY_COMPACT'' then p @ q @ mm else if fmt = ''FY_LONG'' then ''20'' @ p @ ''-'' @ q @ ''-'' @ mm
     else if fmt = ''START_YY'' then yy (fst now) @ mm else if fmt = ''START_YYYY'' then dec_pad 4 (fst now) @ mm
     else p @ ''-'' @ q @ ''-'' @ mm)"

lemma reset_texts:
  "to_upper (trim ''NEVER'') = ''NEVER''" "to_upper (trim ''MONTHLY'') = ''MONTHLY''" "to_upper (trim ''ANNUAL'') = ''ANNUAL''"
  "equal_fold (trim ''MONTHLY'') ''MONTHLY''" "\<not> equal_fold (trim ''ANNUAL'') ''MONTHLY''"
  by (simp_all add: trim_def is_space_def to_upper_def upper_char_def is_lower_def less_eq_char_def equal_fold_def to_lower_def
      lower_char_def is_upper_def)

lemma period_parts_never: "ns_reset s = ''NEVER'' \<Longrightarrow> period_parts s fy now = (counterWildcard, [])"
  by (simp add: period_parts_def sequencePeriod_def reset_texts)

lemma period_parts_annual:
  "ns_reset s = ''ANNUAL'' \<Longrightarrow> period_parts s (documentFinancialYear now) now =
     (documentFinancialYear now, year_text (ns_year_format s) now)"
  by (simp add: period_parts_def sequencePeriod_def reset_texts formatPeriodSegment_def fy_parts year_text_def Let_def)
    (simp add: fy_text)

lemma period_parts_monthly:
  "ns_reset s = ''MONTHLY'' \<Longrightarrow> period_parts s (documentFinancialYear now) now =
     (documentFinancialYear now @ ''-'' @ month_text now, month_year_text (ns_year_format s) now)"
  by (simp add: period_parts_def sequencePeriod_def reset_texts formatPeriodSegment_def fy_parts month_year_text_def Let_def)
    (simp add: fy_text yy_def)

lemma mod_pred:
  fixes a b :: nat
  assumes "1 \<le> a" "1 \<le> b" "a mod 100 = b mod 100"
  shows "(a - 1) mod 100 = (b - 1) mod 100"
proof -
  have e: "(c - 1) mod 100 = (c mod 100 + 99) mod 100" if "1 \<le> c" for c :: nat
  proof -
    from that have "c - 1 + 100 = c + 99" by simp
    then have "(c - 1) mod 100 = (c + 99) mod 100" by (metis mod_add_self2)
    then show ?thesis by (simp add: mod_add_left_eq)
  qed
  show ?thesis using e [OF assms(1)] e [OF assms(2)] assms(3) by simp
qed

definition year_at :: "string \<Rightarrow> nat" where
  "year_at fmt = (if fmt = ''FY_LONG'' \<or> fmt = ''START_YYYY'' then 2 else 0)"

lemma take_yy [simp]: "take 2 (yy y @ w) = yy y"
  by simp

lemma year_text_start: "take 2 (drop (year_at f) (year_text f now)) = yy (fy_start now)"
  unfolding year_at_def year_text_def Let_def by (simp del: take_append)

lemma year_text_inj: "year_text f a = year_text f b \<Longrightarrow> documentFinancialYear a = documentFinancialYear b"
  using year_text_start [of f a] year_text_start [of f b] yy_suc unfolding fy_text by metis

lemma month_year_text_month: "real_clock now \<Longrightarrow> take 2 (rev (month_year_text f now)) = rev (month_text now)"
  unfolding month_year_text_def Let_def by simp

lemma month_year_text_start:
  "f \<noteq> ''START_YY'' \<Longrightarrow> f \<noteq> ''START_YYYY'' \<Longrightarrow> take 2 (drop (year_at f) (month_year_text f now)) = yy (fy_start now)"
  unfolding year_at_def month_year_text_def Let_def by (simp del: take_append)

lemma month_year_text_inj:
  assumes "real_clock a" "real_clock b" "month_year_text f a = month_year_text f b"
  shows "documentFinancialYear a @ ''-'' @ month_text a = documentFinancialYear b @ ''-'' @ month_text b"
proof -
  have m: "month_text a = month_text b"
    using month_year_text_month [OF assms(1), of f] month_year_text_month [OF assms(2), of f] assms(3)
    by (metis rev_rev_ident)
  then have m': "snd a = snd b" by (simp add: month_inj)
  have y: "yy (fy_start a) = yy (fy_start b)"
  proof (cases "f = ''START_YY'' \<or> f = ''START_YYYY''")
    case True
    have "fst a mod 100 = fst b mod 100"
    proof (cases "f = ''START_YY''")
      case True
      with assms(3) m show ?thesis by (simp add: month_year_text_def yy_inj)
    next
      case False
      with True assms(3) m show ?thesis by (simp add: month_year_text_def dec_pad_inj)
    qed
    with m' assms(1,2) have "fy_start a mod 100 = fy_start b mod 100"
      using mod_pred [of "fst a" "fst b"] by (simp add: fy_start_def real_clock_def)
    then show ?thesis by (simp add: yy_inj)
  next
    case False
    with month_year_text_start [of f a] month_year_text_start [of f b] assms(3) show ?thesis by simp
  qed
  show ?thesis unfolding fy_text y yy_suc [OF y] m ..
qed

lemma bucket_of_segment:
  assumes "valid_shape s" "real_clock a" "real_clock b"
    and "snd (period_parts s (documentFinancialYear a) a) = snd (period_parts s (documentFinancialYear b) b)"
  shows "fst (period_parts s (documentFinancialYear a) a) = fst (period_parts s (documentFinancialYear b) b)"
proof -
  from assms(1) consider "ns_reset s = ''ANNUAL''" | "ns_reset s = ''MONTHLY''" | "ns_reset s = ''NEVER''"
    by (auto simp: valid_shape_def validResetFrequency_def)
  then show ?thesis
  proof cases
    case 1
    with assms(4) have "year_text (ns_year_format s) a = year_text (ns_year_format s) b" by (simp add: period_parts_annual)
    then show ?thesis unfolding period_parts_annual [OF 1] fst_conv by (rule year_text_inj)
  next
    case 2
    with assms(4) have "month_year_text (ns_year_format s) a = month_year_text (ns_year_format s) b"
      by (simp add: period_parts_monthly)
    then show ?thesis unfolding period_parts_monthly [OF 2] fst_conv by (rule month_year_text_inj [OF assms(2,3)])
  next
    case 3
    then show ?thesis by (simp add: period_parts_never)
  qed
qed

section \<open>No number is issued twice\<close>

definition plain_text :: "string \<Rightarrow> bool" where
  "plain_text p \<longleftrightarrow> CHR ''/'' \<notin> set p"

definition number_parts :: "tenant \<Rightarrow> number_series \<Rightarrow> string \<Rightarrow> clock \<Rightarrow> int \<Rightarrow> string list" where
  "number_parts t s storeCode now n =
     (let opt = (\<lambda>p. if p = [] then [] else [p]);
          period = opt (snd (period_parts s (documentFinancialYear now) now));
          atEnd = equal_fold (ns_year_position s) ''END''
      in opt (or_else (so_prefix (override_for s storeCode)) (ns_prefix s)) @ opt (store_segment t s storeCode)
         @ (if atEnd then [] else period) @ [dec_pad (nat (ns_padding s)) (nat n)]
         @ opt (or_else (so_suffix (override_for s storeCode)) (ns_suffix s)) @ (if atEnd then period else []))"

lemma number_text_parts:
  "number_text t s storeCode (documentFinancialYear now) now n = join (ns_separator s) (number_parts t s storeCode now n)"
  by (simp add: number_text_def joinNumberParts_def number_parts_def Let_def)

text \<open>
  A series whose parts can be told apart in a number: joined by slashes, none inside a part,
  no store prints a prefix of its own, and two stores never print one segment.
\<close>

definition legible_series :: "tenant \<Rightarrow> string set \<Rightarrow> number_series \<Rightarrow> bool" where
  "legible_series t S s \<longleftrightarrow> valid_shape s \<and> ns_separator s = ''/'' \<and> ns_prefix s \<noteq> [] \<and> plain_text (ns_prefix s)
     \<and> (\<forall>st \<in> S. so_prefix (override_for s st) = [] \<and> plain_text (or_else (so_suffix (override_for s st)) (ns_suffix s))
          \<and> (ns_include_store s \<longrightarrow> store_segment t s st \<noteq> [] \<and> plain_text (store_segment t s st)))
     \<and> (ns_include_store s \<longrightarrow> inj_on (store_segment t s) S)"

definition legible :: "numbering \<Rightarrow> string set \<Rightarrow> string set \<Rightarrow> bool" where
  "legible nb D S \<longleftrightarrow> (\<forall>d \<in> D. legible_series (nb_t nb) S (series_for nb d)) \<and> inj_on (\<lambda>d. ns_prefix (series_for nb d)) D"

type_synonym number_call = "string \<times> string \<times> clock"

definition issue_step :: "numbering \<times> string list \<Rightarrow> number_call \<Rightarrow> (numbering \<times> string list) res" where
  "issue_step = (\<lambda>(nb, out) (docType, storeCode, now).
     rbind (GenerateSequence now docType storeCode (documentFinancialYear now) nb) (\<lambda>(num, nb'). Inr (nb', out @ [num])))"

text \<open>A history of saves, each of which draws the number of its document.\<close>

definition issue :: "number_call list \<Rightarrow> numbering \<Rightarrow> (numbering \<times> string list) res" where
  "issue calls nb = efold issue_step (nb, []) calls"

lemma map_of_increment:
  "map_of (map (\<lambda>(k, w). if k = i then (k, w + 1) else (k, w)) cs) j
     = (if j = i then map_option (\<lambda>w. w + (1 :: int)) (map_of cs j) else map_of cs j)"
  by (induction cs) auto

lemma take_number_value:
  assumes "take_number slot nb = (n, nb')"
  shows "n = counter_value nb slot + 1" "nb_series nb' = nb_series nb" "nb_t nb' = nb_t nb"
    "counter_value nb' k = (if k = slot then n else counter_value nb k)"
  using assms
  by (auto simp: take_number_def counter_value_def coalesce_def map_add_def map_of_increment split: option.splits)

lemma year_text_plain: "plain_text (year_text f now)"
  using yy_digits slash_not_digit by (fastforce simp: plain_text_def year_text_def Let_def)

lemma month_year_text_plain: "plain_text (month_year_text f now)"
  using yy_digits slash_not_digit dec_pad_plain
  by (fastforce simp: plain_text_def month_year_text_def Let_def month_text_def)

lemma period_plain: "valid_shape s \<Longrightarrow> plain_text (snd (period_parts s (documentFinancialYear now) now))"
  by (auto simp: valid_shape_def validResetFrequency_def period_parts_annual period_parts_monthly period_parts_never
      year_text_plain month_year_text_plain) (simp add: plain_text_def)

lemma parts_plain:
  assumes "legible_series t S s" "st \<in> S"
  shows "\<forall>p \<in> set (number_parts t s st now n). CHR ''/'' \<notin> set p" "number_parts t s st now n \<noteq> []"
proof -
  have "plain_text (snd (period_parts s (documentFinancialYear now) now))"
    using assms by (simp add: legible_series_def period_plain)
  moreover have "plain_text (or_else (so_prefix (override_for s st)) (ns_prefix s))"
    "plain_text (or_else (so_suffix (override_for s st)) (ns_suffix s))"
    "plain_text (store_segment t s st)"
    using assms by (auto simp: legible_series_def or_else_def store_segment_def plain_text_def)
  ultimately show "\<forall>p \<in> set (number_parts t s st now n). CHR ''/'' \<notin> set p" "number_parts t s st now n \<noteq> []"
    using dec_pad_plain by (auto simp: number_parts_def Let_def plain_text_def)
qed

lemma never_empty:
  "valid_shape s \<Longrightarrow> snd (period_parts s (documentFinancialYear a) a) = [] \<longleftrightarrow> ns_reset s = ''NEVER''"
proof -
  assume "valid_shape s"
  then consider "ns_reset s = ''ANNUAL''" | "ns_reset s = ''MONTHLY''" | "ns_reset s = ''NEVER''"
    by (auto simp: valid_shape_def validResetFrequency_def)
  moreover have "yy y \<noteq> []" for y using length_yy [of y] by (metis length_0_conv zero_neq_numeral)
  ultimately show ?thesis
    by cases (simp_all add: period_parts_annual period_parts_monthly period_parts_never year_text_def month_year_text_def Let_def)
qed

text \<open>One series, two numbers that read the same: the same counter and the same count.\<close>

lemma number_text_inj:
  assumes leg: "legible_series t S s" and st: "a \<in> S" "b \<in> S" and clk: "real_clock x" "real_clock y"
    and eq: "number_text t s a (documentFinancialYear x) x m = number_text t s b (documentFinancialYear y) y n"
    and pos: "0 \<le> m" "0 \<le> n"
  shows "counter_slot s d a (documentFinancialYear x) x = counter_slot s d b (documentFinancialYear y) y \<and> m = n"
proof -
  let ?px = "snd (period_parts s (documentFinancialYear x) x)" and ?py = "snd (period_parts s (documentFinancialYear y) y)"
  have sep: "ns_separator s = [CHR ''/'']" and sh: "valid_shape s" using leg by (simp_all add: legible_series_def)
  from eq have "split_at CHR ''/'' (join [CHR ''/''] (number_parts t s a x m)) = split_at CHR ''/'' (join [CHR ''/''] (number_parts t s b y n))"
    by (simp add: number_text_parts sep)
  then have parts: "number_parts t s a x m = number_parts t s b y n"
    using split_join [OF parts_plain(2,1) [OF leg st(1)]] split_join [OF parts_plain(2,1) [OF leg st(2)]] by simp
  have pre: "or_else (so_prefix (override_for s a)) (ns_prefix s) = ns_prefix s"
    "or_else (so_prefix (override_for s b)) (ns_prefix s) = ns_prefix s" "ns_prefix s \<noteq> []"
    using leg st by (auto simp: legible_series_def or_else_def)
  have seg: "store_segment t s a = [] \<longleftrightarrow> \<not> ns_include_store s" "store_segment t s b = [] \<longleftrightarrow> \<not> ns_include_store s"
    using leg st by (auto simp: legible_series_def store_segment_def)
  have per: "?px = [] \<longleftrightarrow> ?py = []" using never_empty [OF sh] by simp
  have all: "store_segment t s a = store_segment t s b \<and> ?px = ?py
      \<and> dec_pad (nat (ns_padding s)) (nat m) = dec_pad (nat (ns_padding s)) (nat n)"
    using parts pre seg per unfolding number_parts_def Let_def
    by (cases "ns_include_store s"; cases "?px = []"; cases "equal_fold (ns_year_position s) ''END''") (auto split: if_splits)
  then have "nat m = nat n" by (simp add: dec_pad_inj)
  then have mn: "m = n" using pos by simp
  have "fst (period_parts s (documentFinancialYear x) x) = fst (period_parts s (documentFinancialYear y) y)"
    using bucket_of_segment [OF sh clk] all by blast
  moreover have "ns_include_store s \<Longrightarrow> a = b" using leg all st by (auto simp: legible_series_def dest: inj_onD)
  ultimately show ?thesis using mn by (simp add: counter_slot_def)
qed

lemma first_part:
  "legible_series t S s \<Longrightarrow> st \<in> S \<Longrightarrow> hd (number_parts t s st now n) = ns_prefix s"
  by (auto simp: number_parts_def Let_def legible_series_def or_else_def)

lemma number_text_prefix:
  assumes "legible_series t S s" "legible_series t S s'" "a \<in> S" "b \<in> S"
    and "number_text t s a (documentFinancialYear x) x m = number_text t s' b (documentFinancialYear y) y n"
  shows "ns_prefix s = ns_prefix s'"
proof -
  have "ns_separator s = [CHR ''/'']" "ns_separator s' = [CHR ''/'']" using assms(1,2) by (simp_all add: legible_series_def)
  then have "number_parts t s a x m = number_parts t s' b y n"
    using split_join [OF parts_plain(2,1) [OF assms(1,3)]] split_join [OF parts_plain(2,1) [OF assms(2,4)]] assms(5)
    by (metis number_text_parts)
  then show ?thesis using first_part [OF assms(1,3)] first_part [OF assms(2,4)] by metis
qed

definition counters_ok :: "numbering \<Rightarrow> bool" where
  "counters_ok nb \<longleftrightarrow> (\<forall>slot. 0 \<le> counter_value nb slot)"

definition legal_calls :: "string set \<Rightarrow> string set \<Rightarrow> number_call list \<Rightarrow> bool" where
  "legal_calls D S calls \<longleftrightarrow> (\<forall>(d, st, now) \<in> set calls. d \<in> D \<and> st \<in> S \<and> real_clock now)"

text \<open>An issued number with the call and the count it was made from.\<close>

type_synonym issued = "number_call \<times> int"

definition issued_text :: "numbering \<Rightarrow> issued \<Rightarrow> string" where
  "issued_text nb = (\<lambda>((d, st, now), n). number_text (nb_t nb) (series_for nb d) st (documentFinancialYear now) now n)"

definition issued_slot :: "numbering \<Rightarrow> issued \<Rightarrow> (string \<times> string \<times> string) \<times> int" where
  "issued_slot nb = (\<lambda>((d, st, now), n). (counter_slot (series_for nb d) d st (documentFinancialYear now) now, n))"

lemma issued_text_inj:
  assumes "legible nb D S" "d \<in> D" "st \<in> S" "real_clock x" "d' \<in> D" "st' \<in> S" "real_clock y" "0 \<le> m" "0 \<le> n"
    and eq: "issued_text nb ((d, st, x), m) = issued_text nb ((d', st', y), n)"
  shows "issued_slot nb ((d, st, x), m) = issued_slot nb ((d', st', y), n)"
proof -
  have leg: "legible_series (nb_t nb) S (series_for nb d)" "legible_series (nb_t nb) S (series_for nb d')"
    using assms(1,2,5) by (auto simp: legible_def)
  from number_text_prefix [OF leg assms(3,6)] eq
  have "ns_prefix (series_for nb d) = ns_prefix (series_for nb d')" by (simp add: issued_text_def)
  then have d: "d = d'" using assms(1,2,5) by (auto simp: legible_def dest: inj_onD)
  from number_text_inj [OF leg(1) assms(3,6,4,7) _ assms(8,9)] eq show ?thesis
    by (simp add: issued_text_def issued_slot_def d)
qed

definition history_ok :: "numbering \<Rightarrow> string set \<Rightarrow> string set \<Rightarrow> numbering \<times> string list \<Rightarrow> bool" where
  "history_ok nb0 D S = (\<lambda>(nb, out). nb_series nb = nb_series nb0 \<and> nb_t nb = nb_t nb0 \<and> counters_ok nb
     \<and> (\<exists>ks. out = map (issued_text nb0) ks \<and> distinct (map (issued_slot nb0) ks)
          \<and> legal_calls D S (map fst ks) \<and> (\<forall>k \<in> set ks. 0 \<le> snd k \<and> snd k \<le> counter_value nb (fst (issued_slot nb0 k)))))"

lemma issue_step_history:
  assumes "issue_step (nb, out) (d, st, now) = Inr (nb', out')" "history_ok nb0 D S (nb, out)"
    and "d \<in> D" "st \<in> S" "real_clock now"
  shows "history_ok nb0 D S (nb', out')"
proof -
  from assms(2) obtain ks where ks: "out = map (issued_text nb0) ks" "distinct (map (issued_slot nb0) ks)"
    "legal_calls D S (map fst ks)" "\<forall>k \<in> set ks. 0 \<le> snd k \<and> snd k \<le> counter_value nb (fst (issued_slot nb0 k))"
    and same: "nb_series nb = nb_series nb0" "nb_t nb = nb_t nb0" and ok: "counters_ok nb"
    by (auto simp: history_ok_def)
  have sf: "series_for nb d = series_for nb0 d" by (simp add: series_for_def same)
  let ?slot = "counter_slot (series_for nb0 d) d st (documentFinancialYear now) now"
  obtain n u where tk: "take_number ?slot nb = (n, u)" by fastforce
  note val = take_number_value [OF tk]
  from assms(1) tk sf same have nb': "nb' = u" and out': "out' = out @ [issued_text nb0 ((d, st, now), n)]"
    by (auto simp: issue_step_def GenerateSequence_def issued_text_def Let_def split: if_splits)
  have new: "issued_slot nb0 ((d, st, now), n) = (?slot, n)" by (simp add: issued_slot_def)
  have fresh: "issued_slot nb0 k \<noteq> (?slot, n)" if "k \<in> set ks" for k
  proof
    assume e: "issued_slot nb0 k = (?slot, n)"
    moreover have "snd (issued_slot nb0 k) = snd k" by (simp add: issued_slot_def split: prod.splits)
    moreover have "snd k \<le> counter_value nb (fst (issued_slot nb0 k))" using ks(4) that by blast
    ultimately show False using val(1) by simp
  qed
  have mono: "counter_value nb k \<le> counter_value u k" for k using val(1,4) by simp
  have le: "\<forall>k \<in> set ks. 0 \<le> snd k \<and> snd k \<le> counter_value u (fst (issued_slot nb0 k))"
    using ks(4) mono by (meson order_trans)
  have slot0: "0 \<le> counter_value nb ?slot" using ok unfolding counters_ok_def by blast
  have n: "0 \<le> n" and at: "counter_value u ?slot = n" and frame: "nb_series u = nb_series nb" "nb_t u = nb_t nb"
    using val slot0 by simp_all
  have ok': "counters_ok u" unfolding counters_ok_def
  proof
    fix k
    have "0 \<le> counter_value nb k" using ok unfolding counters_ok_def by blast
    with mono [of k] show "0 \<le> counter_value u k" by simp
  qed
  have "history_ok nb0 D S (u, map (issued_text nb0) (ks @ [((d, st, now), n)]))"
    unfolding history_ok_def prod.case
  proof (intro conjI exI [of _ "ks @ [((d, st, now), n)]"])
    show "distinct (map (issued_slot nb0) (ks @ [((d, st, now), n)]))" 
      using ks(2) fresh unfolding map_append distinct_append list.map new set_map by (simp del: split_paired_All) (metis imageE)
    show "legal_calls D S (map fst (ks @ [((d, st, now), n)]))" using ks(3) assms(3-5) by (auto simp: legal_calls_def)
    show "\<forall>k \<in> set (ks @ [((d, st, now), n)]). 0 \<le> snd k \<and> snd k \<le> counter_value u (fst (issued_slot nb0 k))"
      using le n at by (simp add: new)
  qed (use frame same ok' in simp_all)
  then show ?thesis by (simp add: nb' out' ks(1))
qed

text \<open>
  C7: in a tenant whose series print legible parts (joined by slashes, prefixes of its own per
  series, a segment of its own per store), no two numbers ever issued are equal, for any
  sequence of saves over any record types, stores and dates, whichever year format, year
  position and reset frequency the series have.
\<close>
theorem numbers_never_repeat:
  assumes "legible nb D S" "counters_ok nb" "legal_calls D S calls" "issue calls nb = Inr (nb', numbers)"
  shows "distinct numbers"
proof -
  have "history_ok nb D S (nb', numbers)"
  proof (rule efold_invariant [of issue_step "(nb, [])" calls "(nb', numbers)" "history_ok nb D S"])
    show "efold issue_step (nb, []) calls = Inr (nb', numbers)" using assms(4) by (simp add: issue_def)
    show "history_ok nb D S (nb, [])" using assms(2) by (simp add: history_ok_def legal_calls_def)
    fix u c v
    assume c: "c \<in> set calls" and I: "history_ok nb D S u" and st: "issue_step u c = Inr v"
    obtain nu ou where u: "u = (nu, ou)" by fastforce
    obtain nv ov where v: "v = (nv, ov)" by fastforce
    obtain d a now where c': "c = (d, a, now)" by (metis surj_pair)
    from assms(3) c c' have "d \<in> D" "a \<in> S" "real_clock now" by (auto simp: legal_calls_def)
    from issue_step_history [OF st [unfolded u v c'] I [unfolded u] this] show "history_ok nb D S v" by (simp add: v)
  qed
  then obtain ks where ks: "numbers = map (issued_text nb) ks" "distinct (map (issued_slot nb) ks)"
    "legal_calls D S (map fst ks)" "\<forall>k \<in> set ks. 0 \<le> snd k"
    by (auto simp: history_ok_def)
  have "inj_on (issued_text nb) (set ks)"
  proof (rule inj_onI)
    fix j k
    assume jk: "j \<in> set ks" "k \<in> set ks" "issued_text nb j = issued_text nb k"
    obtain d a x m where j: "j = ((d, a, x), m)" by (metis surj_pair)
    obtain e b y n where k: "k = ((e, b, y), n)" by (metis surj_pair)
    from ks(3,4) jk(1,2) j k have l: "d \<in> D" "a \<in> S" "real_clock x" "e \<in> D" "b \<in> S" "real_clock y" "0 \<le> m" "0 \<le> n"
      by (auto simp: legal_calls_def)
    from issued_text_inj [OF assms(1) l] jk(3) have "issued_slot nb j = issued_slot nb k" by (simp add: j k)
    with ks(2) jk(1,2) show "j = k" by (simp add: distinct_map inj_on_def)
  qed
  moreover have "distinct ks" using ks(2) by (simp add: distinct_map)
  ultimately show ?thesis by (simp add: ks(1) distinct_map)
qed

definition two_series :: numbering where
  "two_series = \<lparr>nb_t = empty_tenant,
     nb_series = [(default_series ''PO'')\<lparr>ns_year_format := ''START_YY'', ns_reset := ''MONTHLY''\<rparr>,
                  (default_series ''INV'')\<lparr>ns_include_store := False, ns_suffix := ''X''\<rparr>],
     nb_counters = []\<rparr>"

lemma two_series_legible: "legible two_series {''PO'', ''INV''} {''HQ'', ''JY''}"
proof -
  have s: "series_for two_series ''PO'' = (default_series ''PO'')\<lparr>ns_year_format := ''START_YY'', ns_reset := ''MONTHLY''\<rparr>"
    "series_for two_series ''INV'' = (default_series ''INV'')\<lparr>ns_include_store := False, ns_suffix := ''X''\<rparr>"
    by (simp_all add: series_for_def two_series_def default_series_def)
  have seg: "storeNumberSegment (nb_t two_series) st = st" for st
    by (simp add: storeNumberSegment_def two_series_def empty_tenant_def)
  have "legible_series (nb_t two_series) {''HQ'', ''JY''} (series_for two_series ''PO'')"
    by (simp add: legible_series_def s default_series_def valid_shape_def validResetFrequency_def validYearFormats_def
        plain_text_def override_for_def no_override_def or_else_def store_segment_def seg coalesce_def)
  moreover have "legible_series (nb_t two_series) {''HQ'', ''JY''} (series_for two_series ''INV'')"
    by (simp add: legible_series_def s default_series_def valid_shape_def validResetFrequency_def validYearFormats_def
        plain_text_def override_for_def no_override_def or_else_def coalesce_def)
  ultimately show ?thesis by (simp add: legible_def s default_series_def)
qed

theorem numbers_never_repeat_witness:
  "\<exists>nb' numbers. issue [(''PO'', ''HQ'', (2026, 4)), (''PO'', ''JY'', (2026, 4)), (''INV'', ''HQ'', (2027, 1)), (''PO'', ''HQ'', (2026, 5))]
       two_series = Inr (nb', numbers) \<and> length numbers = 4 \<and> distinct numbers"
proof -
  let ?calls = "[(''PO'', ''HQ'', (2026, 4)), (''PO'', ''JY'', (2026, 4)), (''INV'', ''HQ'', (2027, 1)), (''PO'', ''HQ'', (2026, 5))]"
  have act: "ns_active (series_for nb d)" if "nb_series nb = nb_series two_series" for nb d
    using that by (simp add: series_for_def two_series_def default_series_def)
  have step: "\<exists>nb' num. issue_step (nb, out) (d, st, now) = Inr (nb', out @ [num]) \<and> nb_series nb' = nb_series two_series"
    if s: "nb_series nb = nb_series two_series" for nb out d st now
  proof -
    obtain n u where tk: "take_number (counter_slot (series_for nb d) d st (documentFinancialYear now) now) nb = (n, u)" by fastforce
    with take_number_value [OF tk] act [OF s] s show ?thesis by (simp add: issue_step_def GenerateSequence_def Let_def)
  qed
  have run: "\<exists>nb' outs. efold issue_step (nb, out) calls = Inr (nb', out @ outs) \<and> length outs = length calls"
    if "nb_series nb = nb_series two_series" for nb out calls
    using that
  proof (induction calls arbitrary: nb out)
    case Nil
    then show ?case by simp
  next
    case (Cons c calls)
    obtain d st now where c: "c = (d, st, now)" by (metis surj_pair)
    from step [OF Cons.prems] obtain u num where 1: "issue_step (nb, out) c = Inr (u, out @ [num])"
      and "nb_series u = nb_series two_series" unfolding c by blast
    from Cons.IH [OF this(2), of "out @ [num]"] 1 show ?case by (auto intro!: exI [of _ "num # _"])
  qed
  have "nb_series two_series = nb_series two_series" ..
  from run [OF this, of "[]" ?calls] obtain nb' numbers where i: "issue ?calls two_series = Inr (nb', numbers)"
    and l: "length numbers = 4" by (auto simp: issue_def)
  have "counters_ok two_series" by (simp add: counters_ok_def counter_value_def two_series_def coalesce_def)
  moreover have "legal_calls {''PO'', ''INV''} {''HQ'', ''JY''} ?calls" by (simp add: legal_calls_def real_clock_def)
  ultimately show ?thesis using numbers_never_repeat [OF two_series_legible _ _ i] i l by blast
qed

section \<open>Two accepted series, one number\<close>

definition hq_tenant :: tenant where
  "hq_tenant = empty_tenant\<lparr>t_documents := [new_doc empty_tenant ''Location'' ''HQ'' [(''code'', JStr ''HQ'')] ''Active'' ''admin'']\<rparr>"

definition no_series :: numbering where
  "no_series = \<lparr>nb_t = hq_tenant, nb_series = [], nb_counters = []\<rparr>"

definition order_series :: number_series where
  "order_series = (default_series ''PO'')\<lparr>ns_prefix := ''A'', ns_padding := 4\<rparr>"

definition invoice_series :: number_series where
  "invoice_series = (default_series ''INV'')\<lparr>ns_prefix := ''A/HQ'', ns_padding := 4, ns_include_store := False\<rparr>"


section \<open>What a saved series can print\<close>

lemma of_char_bounds:
  "is_lower c \<longleftrightarrow> 97 \<le> (of_char c :: nat) \<and> (of_char c :: nat) \<le> 122"
  "is_upper c \<longleftrightarrow> 65 \<le> (of_char c :: nat) \<and> (of_char c :: nat) \<le> 90"
  by (simp_all add: is_lower_def is_upper_def less_eq_char_def)

lemma of_char_case:
  "(of_char (upper_char c) :: nat) = (if 97 \<le> (of_char c :: nat) \<and> (of_char c :: nat) \<le> 122 then of_char c - 32 else of_char c)"
  "(of_char (lower_char c) :: nat) = (if 65 \<le> (of_char c :: nat) \<and> (of_char c :: nat) \<le> 90 then of_char c + 32 else of_char c)"
proof -
  have "(of_char c :: nat) < 256" by simp
  then show "(of_char (upper_char c) :: nat) = (if 97 \<le> (of_char c :: nat) \<and> (of_char c :: nat) \<le> 122 then of_char c - 32 else of_char c)"
    "(of_char (lower_char c) :: nat) = (if 65 \<le> (of_char c :: nat) \<and> (of_char c :: nat) \<le> 90 then of_char c + 32 else of_char c)"
    by (auto simp: upper_char_def lower_char_def of_char_bounds of_char_of take_bit_eq_mod)
qed

lemma lower_upper_char: "lower_char (upper_char c) = lower_char c" "upper_char (lower_char c) = upper_char c"
proof -
  have "(of_char (lower_char (upper_char c)) :: nat) = of_char (lower_char c)"
    "(of_char (upper_char (lower_char c)) :: nat) = of_char (upper_char c)"
    unfolding of_char_case by auto
  then show "lower_char (upper_char c) = lower_char c" "upper_char (lower_char c) = upper_char c"
    by (simp_all only: of_char_eq_iff)
qed

lemma fold_upper: "to_upper a = to_upper b \<longleftrightarrow> equal_fold a b"
proof -
  have lu: "to_lower (to_upper x) = to_lower x" and ul: "to_upper (to_lower x) = to_upper x" for x
    by (simp_all add: to_lower_def to_upper_def lower_upper_char)
  have "to_lower a = to_lower b" if "to_upper a = to_upper b"
    using arg_cong [OF that, of to_lower] by (simp only: lu)
  moreover have "to_upper a = to_upper b" if "to_lower a = to_lower b"
    using arg_cong [OF that, of to_upper] by (simp only: ul)
  ultimately show ?thesis unfolding equal_fold_def by blast
qed

definition locations_coded :: "tenant \<Rightarrow> bool" where
  "locations_coded t \<longleftrightarrow> (\<forall>d \<in> set (t_documents t). is_location d \<longrightarrow> jtext (d_data d) ''code'' = Some (d_id d) \<and> d_id d \<noteq> [])
     \<and> (\<forall>d \<in> set (t_documents t). \<forall>e \<in> set (t_documents t). is_location d \<longrightarrow> is_location e \<longrightarrow> d_id d = d_id e \<longrightarrow> d = e)"

lemma codedD:
  assumes "locations_coded t" "d \<in> set (t_documents t)" "is_location d"
  shows coded_text: "jtext (d_data d) ''code'' = Some (d_id d)"
    and coded_id: "d_id d \<noteq> []"
    and coded_code: "location_code d = d_id d"
    and coded_inj: "e \<in> set (t_documents t) \<Longrightarrow> is_location e \<Longrightarrow> d_id d = d_id e \<Longrightarrow> d = e"
proof -
  show t: "jtext (d_data d) ''code'' = Some (d_id d)" and i: "d_id d \<noteq> []"
    using assms unfolding locations_coded_def by blast+
  show "location_code d = d_id d" using t i by (simp add: location_code_def nullif_empty_def coalesce_def)
  show "e \<in> set (t_documents t) \<Longrightarrow> is_location e \<Longrightarrow> d_id d = d_id e \<Longrightarrow> d = e"
    using assms unfolding locations_coded_def by blast
qed

text \<open>The segment the save-time checks use is the one a number prints.\<close>

lemma segments_agree:
  assumes "locations_coded t" "st \<in> set (loadSeriesStores t)"
  shows "storeNumberSegment t (sr_code st) = sr_segment st"
proof -
  let ?L = "filter is_location (t_documents t)"
  from assms(2) obtain l where l: "l \<in> set (t_documents t)" "is_location l" and code: "sr_code st = location_code l"
    and seg: "sr_segment st = (if short_code l = [] then location_code l
       else if list_ex (\<lambda>e. location_code e \<noteq> location_code l
              \<and> (equal_fold (short_code e) (short_code l) \<or> equal_fold (location_code e) (short_code l))) (sort_key location_code ?L)
       then location_code l else short_code l)"
    unfolding loadSeriesStores_def Let_def set_map set_sort set_filter by force
  have lc: "location_code l = d_id l" and cd: "jtext (d_data l) ''code'' = Some (d_id l)"
    by (rule coded_code [OF assms(1) l], rule coded_text [OF assms(1) l])
  have "find (\<lambda>d. is_location d \<and> (d_id d = d_id l \<or> jtext (d_data d) ''code'' = Some (d_id l))) (t_documents t) = Some l"
  proof -
    have "\<exists>d. find (\<lambda>d. is_location d \<and> (d_id d = d_id l \<or> jtext (d_data d) ''code'' = Some (d_id l))) (t_documents t) = Some d"
      using l find_None_iff [of _ "t_documents t"] by (cases "find (\<lambda>d. is_location d \<and> (d_id d = d_id l \<or> jtext (d_data d) ''code'' = Some (d_id l))) (t_documents t)") auto
    then obtain d where d: "find (\<lambda>d. is_location d \<and> (d_id d = d_id l \<or> jtext (d_data d) ''code'' = Some (d_id l))) (t_documents t) = Some d" ..
    then have m: "d \<in> set (t_documents t)" "is_location d" "d_id d = d_id l \<or> jtext (d_data d) ''code'' = Some (d_id l)"
      by (auto simp: find_Some_iff in_set_conv_nth)
    with coded_text [OF assms(1) m(1,2)] have "d_id d = d_id l" by auto
    then have "d = l" by (rule coded_inj [OF assms(1) m(1,2) l])
    with d show ?thesis by simp
  qed
  moreover have "list_ex (\<lambda>e. is_location e \<and> d_id e \<noteq> d_id l \<and> coalesce (jtext (d_data e) ''code'') (d_id e) \<noteq> d_id l
        \<and> ((jtext (d_data e) ''short_code'' \<noteq> None \<and> to_upper (short_code e) = to_upper (short_code l))
          \<or> to_upper (coalesce (jtext (d_data e) ''code'') (d_id e)) = to_upper (short_code l)
          \<or> to_upper (d_id e) = to_upper (short_code l))) (t_documents t)
      \<longleftrightarrow> list_ex (\<lambda>e. location_code e \<noteq> location_code l
        \<and> (equal_fold (short_code e) (short_code l) \<or> equal_fold (location_code e) (short_code l))) (sort_key location_code ?L)"
    if ne: "short_code l \<noteq> []"
  proof -
    have sc: "jtext (d_data e) ''short_code'' \<noteq> None" if "equal_fold (short_code e) (short_code l)" for e
    proof
      assume "jtext (d_data e) ''short_code'' = None"
      then have "short_code e = []" by (simp add: short_code_def coalesce_def sql_trim_def)
      with that ne show False by (simp add: equal_fold_def to_lower_def)
    qed
    have e: "coalesce (jtext (d_data e) ''code'') (d_id e) = d_id e \<and> location_code e = d_id e"
      if "e \<in> set (t_documents t)" "is_location e" for e
      using codedD [OF assms(1) that] by (simp add: coalesce_def)
    show ?thesis
      unfolding list_ex_iff set_sort set_filter fold_upper lc Bex_def mem_Collect_eq
    proof (rule iff_exI)
      fix x
      show "x \<in> set (t_documents t) \<and> is_location x \<and> d_id x \<noteq> d_id l \<and> coalesce (jtext (d_data x) ''code'') (d_id x) \<noteq> d_id l
          \<and> (jtext (d_data x) ''short_code'' \<noteq> None \<and> equal_fold (short_code x) (short_code l)
            \<or> equal_fold (coalesce (jtext (d_data x) ''code'') (d_id x)) (short_code l) \<or> equal_fold (d_id x) (short_code l))
        \<longleftrightarrow> (x \<in> set (t_documents t) \<and> is_location x) \<and> location_code x \<noteq> d_id l
          \<and> (equal_fold (short_code x) (short_code l) \<or> equal_fold (location_code x) (short_code l))"
        using sc [of x] e [of x] by (cases "x \<in> set (t_documents t) \<and> is_location x") auto
    qed
  qed
  ultimately show ?thesis unfolding storeNumberSegment_def code lc seg by (simp add: Let_def)
qed

lemma join_length: "map length xs = map length ys \<Longrightarrow> length (join sep xs) = length (join sep ys)"
proof (induction sep xs arbitrary: ys rule: join.induct)
  case (3 sep x y xs)
  then obtain u v w where "ys = u # v # w" by (cases ys) (auto simp: Cons_eq_map_conv)
  with 3 show ?case by simp
qed auto

lemma set_join: "set (join sep xs) \<subseteq> \<Union> (set ` set xs) \<union> set sep" "\<Union> (set ` set xs) \<subseteq> set (join sep xs)"
  by (induction sep xs rule: join.induct) auto

lemma hd_join: "x \<noteq> [] \<Longrightarrow> hd (join sep (x # xs)) = hd x"
  by (cases xs) simp_all

lemma period_length:
  assumes "valid_shape s" "real_clock a" "real_clock b"
  shows "length (snd (period_parts s (documentFinancialYear a) a)) = length (snd (period_parts s (documentFinancialYear b) b))"
proof -
  from assms(1) consider "ns_reset s = ''ANNUAL''" | "ns_reset s = ''MONTHLY''" | "ns_reset s = ''NEVER''"
    by (auto simp: valid_shape_def validResetFrequency_def)
  moreover have "length (dec_pad 4 (fst a)) = length (dec_pad 4 (fst b))"
    using assms(2,3) by (simp add: real_clock_def length_dec_pad)
  ultimately show ?thesis
    by cases (use assms(2,3) in \<open>simp_all add: period_parts_annual period_parts_monthly period_parts_never year_text_def
      month_year_text_def Let_def\<close>)
qed

section \<open>A saved series prints numbers a GST invoice may carry\<close>

lemma gst_pattern_iff:
  "gstNumberPattern s \<longleftrightarrow> s \<noteq> [] \<and> (is_upper (hd s) \<or> (is_digit (hd s) \<and> hd s \<noteq> CHR ''0'')) \<and> list_all gst_char s"
  by (cases s) (auto simp: gstNumberPattern_def gst_char_def)

lemma join_parts_like:
  assumes "length p = length p'" "length n = length n'"
  shows "length (joinNumberParts a b p n c sep pos) = length (joinNumberParts a b p' n' c sep pos)"
proof -
  have "p = [] \<longleftrightarrow> p' = []" using assms(1) by (cases p; cases p') auto
  with assms show ?thesis unfolding joinNumberParts_def Let_def by (auto intro!: join_length)
qed

lemma join_parts_chars:
  assumes "list_all gst_char (joinNumberParts a b p n c sep pos)" "list_all gst_char p'" "list_all gst_char n'" "list_all gst_char sep"
  shows "list_all gst_char (joinNumberParts a b p' n' c sep pos)"
proof -
  let ?parts = "\<lambda>p n. (if a = [] then [] else [a]) @ (if b = [] then [] else [b])
    @ (if equal_fold pos ''END'' then [] else if p = [] then [] else [p]) @ [n] @ (if c = [] then [] else [c])
    @ (if equal_fold pos ''END'' then if p = [] then [] else [p] else [])"
  have j: "joinNumberParts a b p n c sep pos = join sep (?parts p n)" for p n
    by (simp add: joinNumberParts_def Let_def)
  have abc: "set a \<union> set b \<union> set c \<subseteq> \<Union> (set ` set (?parts p n))" by auto
  then have "\<forall>x \<in> set a \<union> set b \<union> set c. gst_char x"
    using assms(1) set_join(2) [of "?parts p n" sep] unfolding j list_all_iff by blast
  moreover have "set (join sep (?parts p' n')) \<subseteq> set a \<union> set b \<union> set c \<union> set p' \<union> set n' \<union> set sep"
    using set_join(1) [of sep "?parts p' n'"] by (auto split: if_splits)
  ultimately show ?thesis using assms(2-4) unfolding j list_all_iff by blast
qed

lemma join_parts_head: "a \<noteq> [] \<Longrightarrow> joinNumberParts a b p n c sep pos \<noteq> [] \<and> hd (joinNumberParts a b p n c sep pos) = hd a"
proof -
  assume a: "a \<noteq> []"
  have "join sep (a # xs) \<noteq> []" for xs using a by (cases xs) auto
  with a hd_join [OF a] show ?thesis by (simp add: joinNumberParts_def Let_def)
qed

lemma digit_gst: "list_all is_digit s \<Longrightarrow> list_all gst_char s"
  by (auto simp: list_all_iff gst_char_def)

lemma period_gst:
  assumes "valid_shape s" "real_clock now"
  shows "list_all gst_char (snd (period_parts s (documentFinancialYear now) now))"
proof -
  have d: "list_all is_digit (dec_pad w n)" for w n unfolding list_all_iff using dec_pad_digits by blast
  note y = digit_gst [OF d [of 2 "fy_start now mod 100", folded yy_def]] digit_gst [OF d [of 2 "Suc (fy_start now) mod 100", folded yy_def]]
    digit_gst [OF d [of 2 "fst now mod 100", folded yy_def]] digit_gst [OF d [of 2 "snd now", folded month_text_def]]
    digit_gst [OF d [of 4 "fst now"]]
  have c: "gst_char CHR ''-''" "gst_char CHR ''2''" "gst_char CHR ''0''" by (simp_all add: gst_char_def is_digit_def less_eq_char_def)
  from assms(1) consider "ns_reset s = ''ANNUAL''" | "ns_reset s = ''MONTHLY''" | "ns_reset s = ''NEVER''"
    by (auto simp: valid_shape_def validResetFrequency_def)
  then show ?thesis
    by cases (use y c in \<open>simp_all add: period_parts_annual period_parts_monthly period_parts_never year_text_def month_year_text_def Let_def\<close>)
qed

definition document_series :: "number_series \<Rightarrow> bool" where
  "document_series s \<longleftrightarrow> ns_doc_type s \<notin> set counterSeries \<and> \<not> ns_record_code s"

lemma require_ok [simp]: "rbind (require b e) f = Inr u \<longleftrightarrow> b \<and> f () = Inr u" "require b e = Inr v \<longleftrightarrow> b"
  by (cases b; simp add: require_def)+

lemma validated:
  assumes "validateNumberSeries now ''IN'' s None ovs all stores = Inr u" "document_series s"
  shows "valid_shape s" "1 \<le> ns_padding s" "ns_prefix s \<noteq> []" "ns_separator s \<in> set validSeparators"
    and "sm \<in> set (seriesSampleNumbers now s ovs stores) \<Longrightarrow> gstNumberPattern (sm_number sm) \<and> length (sm_number sm) \<le> 16"
proof -
  have r: "seriesNumberRules ''IN'' = (16, True)" by code_simp
  note facts = assms [unfolded validateNumberSeries_def r document_series_def Let_def prod.case]
  from facts show "valid_shape s" "1 \<le> ns_padding s" "ns_prefix s \<noteq> []" "ns_separator s \<in> set validSeparators"
    by (simp_all add: valid_shape_def)
  from facts show "sm \<in> set (seriesSampleNumbers now s ovs stores) \<Longrightarrow> gstNumberPattern (sm_number sm) \<and> length (sm_number sm) \<le> 16"
    by (simp add: list_all_iff)
qed

lemma sample_like_number:
  assumes v: "validateNumberSeries now ''IN'' s None ovs all (loadSeriesStores t) = Inr u" and doc: "document_series s"
    and st: "ns_include_store s" "locations_coded t" "st \<in> set (loadSeriesStores t)" "\<not> sr_deleted st"
    and clk: "real_clock now" "real_clock clk" and n: "0 \<le> n" "n < 10 ^ nat (ns_padding s)"
    and s': "s' = s\<lparr>ns_overrides := ovs, ns_confirmed := True\<rparr>"
  shows "gstNumberPattern (number_text t s' (sr_code st) (documentFinancialYear clk) clk n)
    \<and> length (number_text t s' (sr_code st) (documentFinancialYear clk) clk n) \<le> 16"
proof -
  note ok = validated [OF v doc]
  have code: "sr_code st \<noteq> []"
  proof -
    from st(3) obtain l where "l \<in> set (t_documents t)" "is_location l" "sr_code st = location_code l"
      unfolding loadSeriesStores_def Let_def set_map set_sort set_filter by force
    with codedD(2,3) [OF st(2)] show ?thesis by simp
  qed
  define ovr where "ovr = coalesce (map_of ovs (sr_code st)) no_override"
  define seg where "seg = or_else (so_code ovr) (sr_segment st)"
  let ?p = "\<lambda>c. snd (period_parts s (documentFinancialYear c) c)" and ?w = "nat (ns_padding s)"
  let ?join = "\<lambda>p k. joinNumberParts (or_else (so_prefix ovr) (ns_prefix s)) seg p k (or_else (so_suffix ovr) (ns_suffix s)) (ns_separator s) (ns_year_position s)"
  have "sample_text s ovr seg (?p now) = ?join (?p now) (dec_pad ?w 1)" by (simp add: sample_text_def)
  moreover have "\<lparr>sm_number = sample_text s ovr seg (?p now), sm_store = or_else (sr_name st) (sr_code st)\<rparr>
      \<in> set (seriesSampleNumbers now s ovs (loadSeriesStores t))"
  proof -
    let ?live = "filter (\<lambda>st. \<not> sr_deleted st) (loadSeriesStores t)"
    have st': "st \<in> set ?live" using st(3,4) by simp
    then have "seriesSampleNumbers now s ovs (loadSeriesStores t) = map (\<lambda>st. let ovr = coalesce (map_of ovs (sr_code st)) no_override
        in \<lparr>sm_number = sample_text s ovr (or_else (so_code ovr) (sr_segment st)) (?p now), sm_store = or_else (sr_name st) (sr_code st)\<rparr>) ?live"
      using doc st(1) by (auto simp: seriesSampleNumbers_def Let_def document_series_def filter_empty_conv)
    then show ?thesis unfolding set_map Let_def ovr_def seg_def using imageI [OF st'] by simp
  qed
  ultimately have g: "gstNumberPattern (?join (?p now) (dec_pad ?w 1))" and l: "length (?join (?p now) (dec_pad ?w 1)) \<le> 16"
    using ok(5) by fastforce+
  have ovr': "override_for s' (sr_code st) = ovr" using code by (simp add: override_for_def s' ovr_def)
  have "store_segment t s' (sr_code st) = seg"
    unfolding store_segment_def ovr' using segments_agree [OF st(2,3)] st(1) code
    by (simp add: seg_def or_else_def s')
  moreover have "period_parts s' fy c = period_parts s fy c" for fy c
    unfolding period_parts_def s' by (cases "sequencePeriod (ns_reset s) fy c") simp
  ultimately have num: "number_text t s' (sr_code st) (documentFinancialYear clk) clk n = ?join (?p clk) (dec_pad ?w (nat n))"
    unfolding number_text_def ovr' Let_def by (simp add: s')
  have w: "0 < ?w" using ok(2) by simp
  have n': "nat n < 10 ^ ?w" using n by (simp add: nat_less_iff)
  have one: "(1 :: nat) < 10 ^ ?w" using w by (intro one_less_power) simp_all
  have len: "length (?join (?p now) (dec_pad ?w 1)) = length (?join (?p clk) (dec_pad ?w (nat n)))"
    by (rule join_parts_like [OF period_length [OF ok(1) clk]]) (simp only: length_dec_pad [OF n' w] length_dec_pad [OF one w])
  have sep: "list_all gst_char (ns_separator s)" using ok(4) by (auto simp: validSeparators_def gst_char_def)
  have dig: "list_all gst_char (dec_pad ?w (nat n))" by (rule digit_gst) (unfold list_all_iff, use dec_pad_digits in blast)
  have pre: "or_else (so_prefix ovr) (ns_prefix s) \<noteq> []" using ok(3) by (simp add: or_else_def)
  have "gstNumberPattern (?join (?p clk) (dec_pad ?w (nat n)))"
    using g join_parts_head [OF pre] join_parts_chars [OF _ period_gst [OF ok(1) clk(2)] dig sep]
    unfolding gst_pattern_iff by metis
  with l show ?thesis unfolding num len by simp
qed

lemma saved_new:
  assumes "SaveNumberSeries now ''IN'' (\<lambda>_. False) s0 incl ov nb = Inr nb'"
    and "trim (ns_doc_type s0) \<notin> ns_doc_type ` set (nb_series nb)" "trim (ns_doc_type s0) \<notin> set counterSeries"
  obtains s ovs all where "validateNumberSeries now ''IN'' s None ovs all (loadSeriesStores (nb_t nb)) = Inr ()" "document_series s"
    "ns_doc_type s = trim (ns_doc_type s0)" "ns_include_store s = (incl \<noteq> Some False)" "ns_padding s = ns_padding s0"
    "nb_t nb' = nb_t nb" "series_for nb' (ns_doc_type s) = s\<lparr>ns_overrides := ovs, ns_confirmed := True\<rparr>"
proof -
  have none: "find P xs = None" if "\<forall>x \<in> set xs. \<not> P x" for P and xs :: "number_series list"
    using that by (simp add: find_None_iff)
  have dt: "ns_doc_type (normal_series s0) = trim (ns_doc_type s0)" "ns_padding (normal_series s0) = ns_padding s0"
    by (simp_all add: normal_series_def Let_def)
  have cur: "find (\<lambda>s. ns_doc_type s = trim (ns_doc_type s0)) (map (\<lambda>s. s\<lparr>ns_record_code := False\<rparr>) (nb_series nb)) = None"
    "find (\<lambda>s. ns_doc_type s = trim (ns_doc_type s0)) (nb_series nb) = None"
    by (rule none; use assms(2) in \<open>auto simp: image_iff\<close>)+
  define ovs where "ovs = clean_overrides False (coalesce ov [])"
  define s where "s = (normal_series s0)\<lparr>ns_record_code := False, ns_reset := ns_reset (normal_series s0),
     ns_include_store := (incl \<noteq> Some False)\<rparr>"
  from assms(1,3) have "rbind (validateNumberSeries now ''IN'' s None ovs (map (\<lambda>s. s\<lparr>ns_record_code := False\<rparr>) (nb_series nb)) (loadSeriesStores (nb_t nb)))
      (\<lambda>_. Inr (nb\<lparr>nb_series := nb_series nb @ [s\<lparr>ns_overrides := ovs, ns_confirmed := True\<rparr>]\<rparr>)) = Inr nb'"
    unfolding SaveNumberSeries_def Let_def dt cur
    by (cases incl; cases ov) (simp_all add: s_def ovs_def coalesce_def)
  then have v: "validateNumberSeries now ''IN'' s None ovs (map (\<lambda>s. s\<lparr>ns_record_code := False\<rparr>) (nb_series nb)) (loadSeriesStores (nb_t nb)) = Inr ()"
    and nb': "nb' = nb\<lparr>nb_series := nb_series nb @ [s\<lparr>ns_overrides := ovs, ns_confirmed := True\<rparr>]\<rparr>"
    by auto
  have "find P (xs @ [x]) = Some x" if "find P xs = None" "P x" for P xs and x :: number_series
    using that by (induction xs) (auto split: if_splits)
  from this [OF cur(2)] have sf: "series_for nb' (ns_doc_type s) = s\<lparr>ns_overrides := ovs, ns_confirmed := True\<rparr>"
    by (simp add: series_for_def nb' s_def dt)
  show thesis by (rule that [OF v _ _ _ _ _ sf]) (use assms(3) in \<open>simp_all add: s_def dt document_series_def nb'\<close>)
qed


lemma save_frame: "SaveNumberSeries now country rc s0 incl ov nb = Inr nb' \<Longrightarrow> nb_t nb' = nb_t nb \<and> nb_counters nb' = nb_counters nb"
  unfolding SaveNumberSeries_def Let_def by (auto split: prod.splits if_splits)

lemma hq_store: "loadSeriesStores hq_tenant = [\<lparr>sr_code = ''HQ'', sr_segment = ''HQ'', sr_name = ''HQ'', sr_deleted = False\<rparr>]"
  by code_simp

lemma hq_coded: "locations_coded hq_tenant"
  by code_simp


text \<open>
  The samples of a series without a store segment ignore its store overrides, so a store
  suffix that makes the number longer than the sixteen characters GST allows is accepted, and
  the store's first number has twenty-seven.
\<close>
theorem storeless_series_escapes_the_length_check:
  "rbind (SaveNumberSeries (2026, 4) ''IN'' (\<lambda>_. False) order_series (Some False)
       (Some [(''HQ'', \<lparr>so_prefix = [], so_code = [], so_suffix = ''RETAIL-OUTLETS''\<rparr>)]) no_series) (\<lambda>nb.
   rbind (GenerateSequence (2026, 4) ''PO'' ''HQ'' ''26-27'' nb) (\<lambda>(number, _). Inr (number, length number)))
   = Inr (''A/26-27/0001/RETAIL-OUTLETS'', 27)"
  by code_simp

section \<open>Minted barcodes\<close>

lemma gs1_sum_digits: "gs1_sum w ds = Inr s \<Longrightarrow> list_all is_digit ds"
  by (induction w ds arbitrary: s rule: gs1_sum.induct) (auto split: if_splits)

lemma dec_one: "d < 10 \<Longrightarrow> dec d = [digit_char d]"
  by (subst dec.simps) simp

text \<open>
  A barcode minted from the item counter has thirteen digits and carries its own check
  digit, so the check of every later scan accepts it.
\<close>
theorem minted_barcode_checks:
  assumes "GenerateEANBarcode now nb = Inr (barcode, nb')"
  shows "looksLikeGS1Barcode barcode \<and> ValidateBarcodeCheckDigit barcode = Inr ()"
proof -
  from assms obtain sq c where l: "length sq = 9" and c: "gs1CheckDigit (''020'' @ sq) = Inr c"
    and b: "barcode = ''020'' @ sq @ dec c"
    by (auto simp: GenerateEANBarcode_def split: if_splits)
  have c10: "c < 10" using gs1CheckDigit_less [OF c] .
  from c have "list_all is_digit (rev (''020'' @ sq))"
    unfolding gs1CheckDigit_def by (auto simp del: rev_append split: if_splits dest: gs1_sum_digits)
  then have "list_all is_digit (''020'' @ sq)" by (simp only: list_all_rev)
  with l c10 b have gs: "looksLikeGS1Barcode barcode"
    by (simp add: looksLikeGS1Barcode_def gs1StandardBarcodeLengths_def dec_one digit_char_digit)
  have "butlast barcode = ''020'' @ sq" "List.last barcode = digit_char c"
    by (simp_all add: b dec_one [OF c10] butlast_append)
  with gs c c10 show ?thesis by (simp add: ValidateBarcodeCheckDigit_def)
qed

lemma result_case: "(case r of Inl e \<Rightarrow> False | Inr p \<Rightarrow> fst p = v) \<Longrightarrow> \<exists>s. r = Inr (v, s)"
  by (cases r) auto

definition barcode_counter :: numbering where
  "barcode_counter = \<lparr>nb_t = empty_tenant, nb_series = [(default_series ''PIMBarcodeSeq'')\<lparr>ns_prefix := [], ns_separator := [],
     ns_padding := 9, ns_reset := ''NEVER''\<rparr>], nb_counters = []\<rparr>"

theorem minted_barcode_checks_witness:
  "\<exists>nb'. GenerateEANBarcode (2026, 4) barcode_counter = Inr (''0200000000011'', nb') \<and> looksLikeGS1Barcode ''0200000000011''
     \<and> ValidateBarcodeCheckDigit ''0200000000011'' = Inr ()"
proof -
  have "case GenerateSequence (2026, 4) ''PIMBarcodeSeq'' [] [] barcode_counter of Inl e \<Rightarrow> False | Inr p \<Rightarrow> fst p = ''000000001''"
    by code_simp
  from result_case [OF this] obtain nb' where sq: "GenerateSequence (2026, 4) ''PIMBarcodeSeq'' [] [] barcode_counter = Inr (''000000001'', nb')" ..
  have "gs1CheckDigit (''020'' @ ''000000001'') = Inr 1" "dec 1 = ''1''" by code_simp+
  with sq have g: "GenerateEANBarcode (2026, 4) barcode_counter = Inr (''0200000000011'', nb')"
    by (simp add: GenerateEANBarcode_def)
  with minted_barcode_checks [OF g] show ?thesis by blast
qed

end
