(* ===== verification/Commands.thy ===== *)
theory Commands
  imports Schema
begin

text \<open>
  The command spine (engines/command_idempotency.go, engines/command_spine.go): a request
  claims its idempotency key, posts its document in one transaction together with the key's
  Completed record, and a retry is answered from that record.

  \<open>desk\<close> holds the business state (\<open>books\<close>: the tenant and the version column of its
  documents), the rows of command_idempotency and the clock in seconds. A transaction sees
  the clock of its start. The canonical SHA-256 digest of a request is an argument, and so is
  the posting a command runs. Requests interleave at their transactions: the claim, the
  posting, and the settling of a failed claim are separate steps (\<open>traffic_step\<close>).
\<close>

section \<open>State\<close>

record command_row =
  cr_key :: string
  cr_command :: string
  cr_digest :: string
  cr_status :: string
  cr_response :: "payload option"
  cr_document :: "string option"
  cr_correlation :: string
  cr_claimed :: int
  cr_lease :: int
  cr_completed :: "int option"

record books =
  bk_t :: tenant
  bk_version :: "string \<Rightarrow> string \<Rightarrow> int option"

record desk =
  dk_books :: books
  dk_commands :: "command_row list"
  dk_now :: int

datatype claim_outcome =
    ClaimAcquired
  | ClaimReplay
  | ClaimInProgress
  | ClaimPayloadMismatch
  | ClaimFailedEarlier

record command_claim =
  cc_outcome :: claim_outcome
  cc_key :: string
  cc_response :: "payload option"
  cc_document :: string

definition commandLease :: int where
  "commandLease = 120"

definition commandClaimRetentionDays :: int where
  "commandClaimRetentionDays = 7"

definition find_command :: "string \<Rightarrow> desk \<Rightarrow> command_row option" where
  "find_command k s = find (\<lambda>r. cr_key r = k) (dk_commands s)"

definition update_commands :: "(command_row \<Rightarrow> bool) \<Rightarrow> (command_row \<Rightarrow> command_row) \<Rightarrow> desk \<Rightarrow> desk" where
  "update_commands p f s = s\<lparr>dk_commands := map (\<lambda>r. if p r then f r else r) (dk_commands s)\<rparr>"

section \<open>Claiming a key\<close>

text \<open>The columns idempotency_key and document_id hold at most 250 and 100 characters.\<close>

definition retake :: "string \<Rightarrow> desk \<Rightarrow> command_row \<Rightarrow> command_row" where
  "retake corr s r = r\<lparr>cr_claimed := dk_now s, cr_correlation := corr, cr_lease := dk_now s + commandLease\<rparr>"

definition ClaimCommand :: "string \<Rightarrow> string \<Rightarrow> string \<Rightarrow> string \<Rightarrow> desk \<Rightarrow> (command_claim \<times> desk) res" where
  "ClaimCommand command key requestDigest corr s =
     (if trim key = [] then Inl (Plain ''an idempotency key is required'')
      else let k = command @ '':'' @ key in
        case find_command k s of
          None \<Rightarrow>
            if length k > 250 then Inl (Plain ''value too long for type character varying(250)'')
            else Inr (\<lparr>cc_outcome = ClaimAcquired, cc_key = k, cc_response = None, cc_document = []\<rparr>,
              s\<lparr>dk_commands := dk_commands s @ [\<lparr>cr_key = k, cr_command = command, cr_digest = requestDigest,
                  cr_status = ''InProgress'', cr_response = None, cr_document = None, cr_correlation = corr,
                  cr_claimed = dk_now s, cr_lease = dk_now s + commandLease, cr_completed = None\<rparr>]\<rparr>)
        | Some r \<Rightarrow>
            let claim = (\<lambda>outcome. \<lparr>cc_outcome = outcome, cc_key = k, cc_response = None,
                           cc_document = coalesce (cr_document r) []\<rparr>);
                mine = (\<lambda>q. cr_key q = k)
            in if cr_digest r \<noteq> requestDigest then Inr (claim ClaimPayloadMismatch, s)
               else if cr_status r = ''Completed'' then Inr ((claim ClaimReplay)\<lparr>cc_response := cr_response r\<rparr>, s)
               else if cr_status r = ''Failed'' then
                 Inr (claim ClaimFailedEarlier,
                   update_commands mine (\<lambda>q. (retake corr s q)\<lparr>cr_status := ''InProgress'', cr_completed := None\<rparr>) s)
               else if \<not> cr_lease r < dk_now s then Inr (claim ClaimInProgress, s)
               else Inr (claim ClaimAcquired, update_commands mine (retake corr s) s))"

definition CompleteCommandTx :: "string \<Rightarrow> string \<Rightarrow> payload \<Rightarrow> desk \<Rightarrow> desk res" where
  "CompleteCommandTx k documentID response s =
     (if length documentID > 100 then Inl (Plain ''value too long for type character varying(100)'')
      else Inr (update_commands (\<lambda>r. cr_key r = k)
        (\<lambda>r. r\<lparr>cr_status := ''Completed'', cr_response := Some response, cr_document := Some documentID,
               cr_completed := Some (dk_now s)\<rparr>) s))"

definition FailCommand :: "string \<Rightarrow> string \<Rightarrow> desk \<Rightarrow> desk" where
  "FailCommand k reason s =
     update_commands (\<lambda>r. cr_key r = k \<and> cr_status r = ''InProgress'')
       (\<lambda>r. r\<lparr>cr_status := ''Failed'', cr_completed := Some (dk_now s), cr_response := Some [(''error'', JStr reason)]\<rparr>) s"

definition ReleaseCommand :: "string \<Rightarrow> desk \<Rightarrow> desk" where
  "ReleaseCommand k s =
     s\<lparr>dk_commands := filter (\<lambda>r. \<not> (cr_key r = k \<and> cr_status r = ''InProgress'')) (dk_commands s)\<rparr>"

definition purgeSettledCommandClaims :: "desk \<Rightarrow> desk" where
  "purgeSettledCommandClaims s =
     s\<lparr>dk_commands := filter (\<lambda>r. \<not> (cr_status r \<in> {''Completed'', ''Failed''}
        \<and> (case cr_completed r of Some c \<Rightarrow> c < dk_now s - commandClaimRetentionDays * 86400 | None \<Rightarrow> False)))
        (dk_commands s)\<rparr>"

section \<open>One command\<close>

record economic_command =
  ec_command :: string
  ec_doctype :: string
  ec_docid :: string
  ec_key :: string
  ec_expected :: int
  ec_payload :: json
  ec_correlation :: string

type_synonym economic_post = "payload \<Rightarrow> books \<Rightarrow> (payload option \<times> books) res"

text \<open>Where a request stands: not begun, holding a claim until its lease ends, failed but not settled, answered.\<close>

datatype phase =
    Arriving
  | Holding string int
  | Failing string int err
  | Answered "payload res"

definition admit :: "(json \<Rightarrow> string) \<Rightarrow> economic_command \<Rightarrow> desk \<Rightarrow> desk \<times> phase" where
  "admit digest c s =
     (if trim (ec_key c) = [] then (s, Holding [] (dk_now s))
      else case ClaimCommand (ec_command c) (ec_key c) (digest (ec_payload c)) (ec_correlation c) s of
        Inl e \<Rightarrow> (s, Answered (Inl e))
      | Inr (claim, s') \<Rightarrow>
          (case cc_outcome claim of
             ClaimReplay \<Rightarrow> (s', Answered (Inr (coalesce (cc_response claim) [])))
           | ClaimInProgress \<Rightarrow> (s', Answered (Inl (Coded ''GLOBAL-0006'')))
           | ClaimPayloadMismatch \<Rightarrow> (s', Answered (Inl (Coded ''GLOBAL-0006'')))
           | _ \<Rightarrow> (s', Holding (cc_key claim) (dk_now s + commandLease))))"

definition begin_tx :: "desk \<Rightarrow> books" where
  "begin_tx s = (dk_books s)\<lparr>bk_t := (bk_t (dk_books s))\<lparr>t_now := dk_now s\<rparr>\<rparr>"

definition post_command :: "economic_command \<Rightarrow> economic_post \<Rightarrow> string \<Rightarrow> desk \<Rightarrow> (payload \<times> desk) res" where
  "post_command c post claimKey s =
     (let b = begin_tx s in
      case find_doc (bk_t b) (ec_doctype c) (ec_docid c) of
        None \<Rightarrow> Inl (Coded ''GLOBAL-0004'')
      | Some d \<Rightarrow>
          if ec_expected c > 0 \<and> ec_expected c \<noteq> coalesce (bk_version b (ec_doctype c) (ec_docid c)) 1
          then Inl (Coded ''GLOBAL-0006'')
          else rbind (post (d_data d) b) (\<lambda>(response, b').
            let r = coalesce response []; s' = s\<lparr>dk_books := b'\<rparr> in
            if claimKey = [] then Inr (r, s')
            else rbind (CompleteCommandTx claimKey (ec_docid c) r s') (\<lambda>s''. Inr (r, s''))))"

fun err_text :: "err \<Rightarrow> string" where
  "err_text (Coded c) = c"
| "err_text (Plain m) = m"
| "err_text (InsufficientStockError sku loc av rq rs) = ''insufficient stock for '' @ sku"

definition settle :: "string \<Rightarrow> err \<Rightarrow> desk \<Rightarrow> desk" where
  "settle claimKey e s = (if claimKey \<noteq> [] then FailCommand claimKey (err_text e) s else s)"

definition RunEconomicCommand ::
  "(json \<Rightarrow> string) \<Rightarrow> economic_command \<Rightarrow> economic_post \<Rightarrow> desk \<Rightarrow> desk \<times> payload res" where
  "RunEconomicCommand digest c post s =
     (case admit digest c s of
        (s', Holding k u) \<Rightarrow>
          (case post_command c post k s' of
             Inl e \<Rightarrow> (settle k e s', Inl e)
           | Inr (r, s'') \<Rightarrow> (s'', Inr r))
      | (s', Answered r) \<Rightarrow> (s', r)
      | (s', _) \<Rightarrow> (s', Inl (Plain ''unreachable'')))"

section \<open>Requests at the same time\<close>

text \<open>
  Any number of requests, each at its own phase; \<open>tr_commits\<close> records the key and the time of
  every committed posting under a key. With \<open>timely\<close> a request does nothing more once the
  lease of its claim has run out. \<open>Release\<close> is the checkout handler's refusal before posting.
\<close>

record traffic =
  tr_desk :: desk
  tr_phase :: "nat \<Rightarrow> phase"
  tr_commits :: "(string \<times> int) list"

datatype event =
    Arrive nat
  | Post nat
  | Settle nat
  | Release nat
  | Tick nat
  | Purge

definition overdue :: "bool \<Rightarrow> string \<Rightarrow> int \<Rightarrow> desk \<Rightarrow> bool" where
  "overdue timely k u s \<longleftrightarrow> timely \<and> k \<noteq> [] \<and> u < dk_now s"

fun traffic_step ::
  "(json \<Rightarrow> string) \<Rightarrow> (nat \<Rightarrow> economic_command \<times> economic_post) \<Rightarrow> bool \<Rightarrow> event \<Rightarrow> traffic \<Rightarrow> traffic option" where
  "traffic_step digest R timely (Arrive i) t =
     (if tr_phase t i = Arriving
      then (case admit digest (fst (R i)) (tr_desk t) of
              (s', p) \<Rightarrow> Some (t\<lparr>tr_desk := s', tr_phase := (tr_phase t)(i := p)\<rparr>))
      else None)"
| "traffic_step digest R timely (Post i) t =
     (case tr_phase t i of
        Holding k u \<Rightarrow>
          if overdue timely k u (tr_desk t) then None
          else (case post_command (fst (R i)) (snd (R i)) k (tr_desk t) of
                  Inl e \<Rightarrow> Some (t\<lparr>tr_phase := (tr_phase t)(i := Failing k u e)\<rparr>)
                | Inr (r, s') \<Rightarrow>
                    Some (t\<lparr>tr_desk := s', tr_phase := (tr_phase t)(i := Answered (Inr r)),
                            tr_commits := tr_commits t @ (if k = [] then [] else [(k, dk_now (tr_desk t))])\<rparr>))
      | _ \<Rightarrow> None)"
| "traffic_step digest R timely (Settle i) t =
     (case tr_phase t i of
        Failing k u e \<Rightarrow>
          if overdue timely k u (tr_desk t) then None
          else Some (t\<lparr>tr_desk := settle k e (tr_desk t), tr_phase := (tr_phase t)(i := Answered (Inl e))\<rparr>)
      | _ \<Rightarrow> None)"
| "traffic_step digest R timely (Release i) t =
     (case tr_phase t i of
        Holding k u \<Rightarrow>
          if k = [] \<or> overdue timely k u (tr_desk t) then None
          else Some (t\<lparr>tr_desk := ReleaseCommand k (tr_desk t),
                       tr_phase := (tr_phase t)(i := Answered (Inl (Plain ''refused'')))\<rparr>)
      | _ \<Rightarrow> None)"
| "traffic_step digest R timely (Tick d) t =
     Some (t\<lparr>tr_desk := (tr_desk t)\<lparr>dk_now := dk_now (tr_desk t) + int d\<rparr>\<rparr>)"
| "traffic_step digest R timely Purge t =
     Some (t\<lparr>tr_desk := purgeSettledCommandClaims (tr_desk t)\<rparr>)"

fun history ::
  "(json \<Rightarrow> string) \<Rightarrow> (nat \<Rightarrow> economic_command \<times> economic_post) \<Rightarrow> bool \<Rightarrow> event list \<Rightarrow> traffic \<Rightarrow> traffic option" where
  "history digest R timely [] t = Some t"
| "history digest R timely (e # es) t =
     (case traffic_step digest R timely e t of None \<Rightarrow> None | Some t' \<Rightarrow> history digest R timely es t')"

definition quiet :: "desk \<Rightarrow> traffic" where
  "quiet s = \<lparr>tr_desk = s, tr_phase = (\<lambda>_. Arriving), tr_commits = []\<rparr>"

section \<open>The rows of a command\<close>

definition keys_distinct :: "desk \<Rightarrow> bool" where
  "keys_distinct s \<longleftrightarrow> distinct (map cr_key (dk_commands s))"

lemma find_update_commands [simp]:
  assumes "\<And>r. cr_key (f r) = cr_key r"
  shows "find_command k (update_commands p f s) = map_option (\<lambda>r. if p r then f r else r) (find_command k s)"
  using assms by (simp add: find_command_def update_commands_def find_map_update)

lemma keys_update_commands:
  assumes "\<And>r. cr_key (f r) = cr_key r"
  shows "keys_distinct (update_commands p f s) = keys_distinct s"
proof -
  have "map cr_key (dk_commands (update_commands p f s)) = map cr_key (dk_commands s)"
    using assms by (simp add: update_commands_def)
  then show ?thesis by (simp add: keys_distinct_def)
qed

lemma update_commands_frame [simp]:
  "dk_now (update_commands p f s) = dk_now s" "dk_books (update_commands p f s) = dk_books s"
  by (simp_all add: update_commands_def)

lemma keys_books [simp]: "keys_distinct (s\<lparr>dk_books := b\<rparr>) = keys_distinct s"
  by (simp add: keys_distinct_def)

lemma find_filter_commands:
  assumes "distinct (map cr_key rs)"
  shows "find (\<lambda>r. cr_key r = k) (filter P rs)
    = (case find (\<lambda>r. cr_key r = k) rs of Some r \<Rightarrow> if P r then Some r else None | None \<Rightarrow> None)"
  using assms
proof (induction rs)
  case Nil
  then show ?case by simp
next
  case (Cons r rs)
  have "find (\<lambda>q. cr_key q = k) (filter P rs) = None" if "cr_key r = k"
    using Cons.prems that by (auto simp: find_None_iff image_iff)
  with Cons show ?case by simp
qed

lemma find_command_key: "find_command k s = Some r \<Longrightarrow> cr_key r = k"
  by (auto simp: find_command_def find_Some_iff)

lemma find_filtered:
  assumes "keys_distinct s" "dk_commands s' = filter P (dk_commands s)"
  shows "find_command k s' = (case find_command k s of Some r \<Rightarrow> if P r then Some r else None | None \<Rightarrow> None)"
  using assms by (simp add: find_command_def keys_distinct_def find_filter_commands)

lemma keys_filtered: "keys_distinct s \<Longrightarrow> dk_commands s' = filter P (dk_commands s) \<Longrightarrow> keys_distinct s'"
  by (simp add: keys_distinct_def distinct_map_filter)

lemma find_command_append:
  "find_command k (s\<lparr>dk_commands := dk_commands s @ [r]\<rparr>) =
     (case find_command k s of Some q \<Rightarrow> Some q | None \<Rightarrow> if cr_key r = k then Some r else None)"
  by (simp add: find_command_def find_append split: option.splits)

text \<open>What a claim does to the row of its key: the cases of \<open>ClaimCommand\<close>.\<close>

lemma claim_cases:
  assumes "ClaimCommand command key dg corr s = Inr (cl, s')"
  obtains
    (fresh) r where "cc_outcome cl = ClaimAcquired" "find_command (cc_key cl) s = None"
      "s' = s\<lparr>dk_commands := dk_commands s @ [r]\<rparr>" "cr_key r = cc_key cl" "cr_digest r = dg"
      "cr_status r = ''InProgress''" "cr_lease r = dk_now s + commandLease"
  | (taken) r f where "cc_outcome cl \<in> {ClaimAcquired, ClaimFailedEarlier}" "find_command (cc_key cl) s = Some r"
      "cr_digest r = dg" "cr_status r \<noteq> ''Completed''" "cr_status r = ''Failed'' \<or> cr_lease r < dk_now s"
      "s' = update_commands (\<lambda>q. cr_key q = cc_key cl) f s" "\<And>q. cr_key (f q) = cr_key q"
      "cr_digest (f r) = dg" "cr_lease (f r) = dk_now s + commandLease"
      "cr_status (f r) = (if cr_status r = ''Failed'' then ''InProgress'' else cr_status r)"
  | (refused) r where "find_command (cc_key cl) s = Some r" "s' = s"
      "cc_outcome cl = ClaimPayloadMismatch \<and> cr_digest r \<noteq> dg
       \<or> cc_outcome cl = ClaimInProgress \<and> cr_digest r = dg
       \<or> cc_outcome cl = ClaimReplay \<and> cr_digest r = dg \<and> cr_status r = ''Completed'' \<and> cc_response cl = cr_response r"
proof (cases "find_command (command @ '':'' @ key) s")
  case None
  with assms show thesis
    by (intro fresh [of "\<lparr>cr_key = command @ '':'' @ key, cr_command = command, cr_digest = dg,
                  cr_status = ''InProgress'', cr_response = None, cr_document = None, cr_correlation = corr,
                  cr_claimed = dk_now s, cr_lease = dk_now s + commandLease, cr_completed = None\<rparr>"])
      (auto simp: ClaimCommand_def Let_def split: if_splits)
next
  case (Some r)
  consider (mismatch) "cr_digest r \<noteq> dg" | (completed) "cr_digest r = dg" "cr_status r = ''Completed''"
    | (failed) "cr_digest r = dg" "cr_status r = ''Failed''"
    | (running) "cr_digest r = dg" "cr_status r \<noteq> ''Completed''" "cr_status r \<noteq> ''Failed''" "\<not> cr_lease r < dk_now s"
    | (lapsed) "cr_digest r = dg" "cr_status r \<noteq> ''Completed''" "cr_status r \<noteq> ''Failed''" "cr_lease r < dk_now s"
    by blast
  then show thesis
  proof cases
    case failed
    with Some assms show thesis
      by (intro taken [of r "\<lambda>q. (retake corr s q)\<lparr>cr_status := ''InProgress'', cr_completed := None\<rparr>"])
        (auto simp: ClaimCommand_def retake_def Let_def split: if_splits)
  next
    case lapsed
    with Some assms show thesis
      by (intro taken [of r "retake corr s"]) (auto simp: ClaimCommand_def retake_def Let_def split: if_splits)
  qed (use Some assms in \<open>(intro refused [of r]; auto simp: ClaimCommand_def Let_def split: if_splits)+\<close>)
qed

section \<open>One posting per key\<close>

definition held :: "traffic \<Rightarrow> nat \<Rightarrow> string \<Rightarrow> int \<Rightarrow> bool" where
  "held t i k u \<longleftrightarrow> k \<noteq> [] \<and> (tr_phase t i = Holding k u \<or> (\<exists>e. tr_phase t i = Failing k u e))"

definition retention :: int where
  "retention = commandClaimRetentionDays * 86400"

definition posted_apart :: "(string \<times> int) list \<Rightarrow> bool" where
  "posted_apart = sorted_wrt (\<lambda>(k, a) (k', b). k = k' \<longrightarrow> a + retention < b)"

text \<open>
  A live claim (its lease has not run out) is the unsettled row of its key with that lease,
  and no other request holds it; a posting is remembered by the Completed row of its key
  until the retention has passed.
\<close>

definition claims_ok :: "traffic \<Rightarrow> bool" where
  "claims_ok t \<longleftrightarrow> keys_distinct (tr_desk t)
     \<and> (\<forall>i k u. held t i k u \<and> dk_now (tr_desk t) \<le> u \<longrightarrow>
          (\<exists>r. find_command k (tr_desk t) = Some r \<and> cr_status r \<notin> {''Completed'', ''Failed''} \<and> cr_lease r = u))
     \<and> (\<forall>i j k u v. held t i k u \<and> held t j k v \<and> dk_now (tr_desk t) \<le> u \<and> dk_now (tr_desk t) \<le> v \<longrightarrow> i = j)
     \<and> (\<forall>(k, a) \<in> set (tr_commits t). a + retention < dk_now (tr_desk t) \<or>
          (\<exists>r. find_command k (tr_desk t) = Some r \<and> cr_status r = ''Completed'' \<and> cr_completed r = Some a))
     \<and> posted_apart (tr_commits t)"

lemma claims_okD:
  assumes "claims_ok t"
  shows "keys_distinct (tr_desk t)"
    and "held t i k u \<Longrightarrow> dk_now (tr_desk t) \<le> u \<Longrightarrow>
      \<exists>r. find_command k (tr_desk t) = Some r \<and> cr_status r \<notin> {''Completed'', ''Failed''} \<and> cr_lease r = u"
    and "held t i k u \<Longrightarrow> held t j k v \<Longrightarrow> dk_now (tr_desk t) \<le> u \<Longrightarrow> dk_now (tr_desk t) \<le> v \<Longrightarrow> i = j"
    and "(k, a) \<in> set (tr_commits t) \<Longrightarrow> a + retention < dk_now (tr_desk t) \<or>
      (\<exists>r. find_command k (tr_desk t) = Some r \<and> cr_status r = ''Completed'' \<and> cr_completed r = Some a)"
    and "posted_apart (tr_commits t)"
  using assms unfolding claims_ok_def by blast+

lemma claims_okI:
  assumes "keys_distinct (tr_desk t)"
    and "\<And>i k u. held t i k u \<Longrightarrow> dk_now (tr_desk t) \<le> u \<Longrightarrow>
      \<exists>r. find_command k (tr_desk t) = Some r \<and> cr_status r \<notin> {''Completed'', ''Failed''} \<and> cr_lease r = u"
    and "\<And>i j k u v. held t i k u \<Longrightarrow> held t j k v \<Longrightarrow> dk_now (tr_desk t) \<le> u \<Longrightarrow> dk_now (tr_desk t) \<le> v \<Longrightarrow> i = j"
    and "\<And>k a. (k, a) \<in> set (tr_commits t) \<Longrightarrow> \<not> a + retention < dk_now (tr_desk t) \<Longrightarrow>
      \<exists>r. find_command k (tr_desk t) = Some r \<and> cr_status r = ''Completed'' \<and> cr_completed r = Some a"
    and "posted_apart (tr_commits t)"
  shows "claims_ok t"
  unfolding claims_ok_def using assms by blast

text \<open>A step that leaves every row, and lets no request hold more than it did.\<close>

lemma claims_ok_same:
  assumes "claims_ok t" "dk_commands (tr_desk t') = dk_commands (tr_desk t)" "dk_now (tr_desk t) \<le> dk_now (tr_desk t')"
    and "tr_commits t' = tr_commits t" and h: "\<And>j k u. held t' j k u \<Longrightarrow> held t j k u"
  shows "claims_ok t'"
proof -
  have f: "find_command k (tr_desk t') = find_command k (tr_desk t)" for k
    using assms(2) by (simp add: find_command_def)
  show ?thesis
  proof (rule claims_okI)
    show "keys_distinct (tr_desk t')"
      using claims_okD(1) [OF assms(1)] assms(2) by (simp add: keys_distinct_def)
  next
    fix i k u assume "held t' i k u" "dk_now (tr_desk t') \<le> u"
    then show "\<exists>r. find_command k (tr_desk t') = Some r \<and> cr_status r \<notin> {''Completed'', ''Failed''} \<and> cr_lease r = u"
      using claims_okD(2) [OF assms(1) h] assms(3) f by simp
  next
    fix i j k u v assume "held t' i k u" "held t' j k v" "dk_now (tr_desk t') \<le> u" "dk_now (tr_desk t') \<le> v"
    then show "i = j"
      using claims_okD(3) [OF assms(1) h h] assms(3) by (meson order_trans)
  next
    fix k a assume "(k, a) \<in> set (tr_commits t')" "\<not> a + retention < dk_now (tr_desk t')"
    then show "\<exists>r. find_command k (tr_desk t') = Some r \<and> cr_status r = ''Completed'' \<and> cr_completed r = Some a"
      using claims_okD(4) [OF assms(1), of k a] assms(3,4) f by auto
  next
    show "posted_apart (tr_commits t')" using claims_okD(5) [OF assms(1)] assms(4) by simp
  qed
qed

text \<open>
  A step of the one live holder of a key: it touches the row of that key at most, and the
  holder lets go.
\<close>

lemma claims_ok_let_go:
  assumes "claims_ok t" "held t i k u" "dk_now (tr_desk t) \<le> u"
    and "keys_distinct s'" "dk_now s' = dk_now (tr_desk t)"
    and other: "\<And>k'. k' \<noteq> k \<Longrightarrow> find_command k' s' = find_command k' (tr_desk t)"
  shows "claims_ok (t\<lparr>tr_desk := s', tr_phase := (tr_phase t)(i := Answered r)\<rparr>)" (is "claims_ok ?t")
proof (rule claims_okI)
  have h: "held ?t j k' v \<longleftrightarrow> held t j k' v \<and> j \<noteq> i" for j k' v by (auto simp: held_def)
  have nk: "k' \<noteq> k" if "held t j k' v" "j \<noteq> i" "dk_now (tr_desk t) \<le> v" for j k' v
    using claims_okD(3) [OF assms(1,2), of j v] that assms(3) by blast
  show "keys_distinct (tr_desk ?t)" using assms(4) by simp
  show "\<exists>r. find_command k' (tr_desk ?t) = Some r \<and> cr_status r \<notin> {''Completed'', ''Failed''} \<and> cr_lease r = v"
    if "held ?t j k' v" "dk_now (tr_desk ?t) \<le> v" for j k' v
    using claims_okD(2) [OF assms(1), of j k' v] that h [of j k' v] nk [of j k' v] other [of k'] assms(5) by auto
  show "j = l" if "held ?t j k' v" "held ?t l k' w" "dk_now (tr_desk ?t) \<le> v" "dk_now (tr_desk ?t) \<le> w" for j l k' v w
    using claims_okD(3) [OF assms(1), of j k' v l w] that h assms(5) by simp
  show "\<exists>r. find_command k' (tr_desk ?t) = Some r \<and> cr_status r = ''Completed'' \<and> cr_completed r = Some a"
    if "(k', a) \<in> set (tr_commits ?t)" "\<not> a + retention < dk_now (tr_desk ?t)" for k' a
    using claims_okD(4) [OF assms(1), of k' a] claims_okD(2) [OF assms(1-3)] that other [of k'] assms(5)
    by (cases "k' = k") auto
  show "posted_apart (tr_commits ?t)" using claims_okD(5) [OF assms(1)] by simp
qed

text \<open>A claim taken where the key's row was absent, failed or lapsed.\<close>

lemma claims_ok_take:
  assumes "claims_ok t" "tr_phase t i = Arriving" "keys_distinct s'" "dk_now s' = dk_now (tr_desk t)" "dk_now s' \<le> u"
    and other: "\<And>k'. k' \<noteq> k \<Longrightarrow> find_command k' s' = find_command k' (tr_desk t)"
    and before: "\<And>r. find_command k (tr_desk t) = Some r \<Longrightarrow>
      cr_status r \<noteq> ''Completed'' \<and> (cr_status r = ''Failed'' \<or> cr_lease r < dk_now (tr_desk t))"
    and after: "find_command k s' = Some q" "cr_status q \<notin> {''Completed'', ''Failed''}" "cr_lease q = u"
  shows "claims_ok (t\<lparr>tr_desk := s', tr_phase := (tr_phase t)(i := Holding k u)\<rparr>)" (is "claims_ok ?t")
proof (rule claims_okI)
  have h: "held ?t j k' v \<Longrightarrow> j \<noteq> i \<and> held t j k' v \<or> j = i \<and> k' = k \<and> v = u" for j k' v
    using assms(2) by (auto simp: held_def split: if_splits)
  have free: "k' \<noteq> k" if "held t j k' v" "dk_now (tr_desk t) \<le> v" for j k' v
    using claims_okD(2) [OF assms(1) that] before that by auto
  show "keys_distinct (tr_desk ?t)" using assms(3) by simp
  show "\<exists>r. find_command k' (tr_desk ?t) = Some r \<and> cr_status r \<notin> {''Completed'', ''Failed''} \<and> cr_lease r = v"
    if "held ?t j k' v" "dk_now (tr_desk ?t) \<le> v" for j k' v
    using h [OF that(1)] that(2) claims_okD(2) [OF assms(1), of j k' v] free [of j k' v] other [of k'] after assms(4) by auto
  show "j = l" if "held ?t j k' v" "held ?t l k' w" "dk_now (tr_desk ?t) \<le> v" "dk_now (tr_desk ?t) \<le> w" for j l k' v w
    using h [OF that(1)] h [OF that(2)] that(3,4) free [of j k' v] free [of l k' w] claims_okD(3) [OF assms(1), of j k' v l w]
      assms(4) by auto
  show "\<exists>r. find_command k' (tr_desk ?t) = Some r \<and> cr_status r = ''Completed'' \<and> cr_completed r = Some a"
    if "(k', a) \<in> set (tr_commits ?t)" "\<not> a + retention < dk_now (tr_desk ?t)" for k' a
    using claims_okD(4) [OF assms(1), of k' a] before that other [of k'] assms(4) by (cases "k' = k") auto
  show "posted_apart (tr_commits ?t)" using claims_okD(5) [OF assms(1)] by simp
qed

lemma claims_ok_commit:
  assumes "claims_ok t" "find_command k (tr_desk t) = Some r" "cr_status r = ''Completed''"
    and "cr_completed r = Some (dk_now (tr_desk t))"
    and past: "\<And>a. (k, a) \<in> set (tr_commits t) \<Longrightarrow> a + retention < dk_now (tr_desk t)"
  shows "claims_ok (t\<lparr>tr_commits := tr_commits t @ [(k, dk_now (tr_desk t))]\<rparr>)" (is "claims_ok ?t")
proof (rule claims_okI)
  have h: "held ?t j k' v = held t j k' v" for j k' v by (simp add: held_def)
  show "keys_distinct (tr_desk ?t)" using claims_okD(1) [OF assms(1)] by simp
  show "\<exists>r. find_command k' (tr_desk ?t) = Some r \<and> cr_status r \<notin> {''Completed'', ''Failed''} \<and> cr_lease r = v"
    if "held ?t j k' v" "dk_now (tr_desk ?t) \<le> v" for j k' v
    using claims_okD(2) [OF assms(1), of j k' v] that h by simp
  show "j = l" if "held ?t j k' v" "held ?t l k' w" "dk_now (tr_desk ?t) \<le> v" "dk_now (tr_desk ?t) \<le> w" for j l k' v w
    using claims_okD(3) [OF assms(1), of j k' v l w] that h by simp
  show "\<exists>r. find_command k' (tr_desk ?t) = Some r \<and> cr_status r = ''Completed'' \<and> cr_completed r = Some a"
    if "(k', a) \<in> set (tr_commits ?t)" "\<not> a + retention < dk_now (tr_desk ?t)" for k' a
    using that claims_okD(4) [OF assms(1), of k' a] assms(2-4) by auto
  show "posted_apart (tr_commits ?t)"
    using claims_okD(5) [OF assms(1)] past by (auto simp: posted_apart_def sorted_wrt_append)
qed

lemma post_command_shape:
  assumes "post_command c post k s = Inr (r, s')"
  obtains b where "k = []" "s' = s\<lparr>dk_books := b\<rparr>"
    | b where "k \<noteq> []" "s' = update_commands (\<lambda>q. cr_key q = k)
        (\<lambda>q. q\<lparr>cr_status := ''Completed'', cr_response := Some r, cr_document := Some (ec_docid c),
               cr_completed := Some (dk_now s)\<rparr>) (s\<lparr>dk_books := b\<rparr>)"
proof (cases "k = []")
  case True
  with assms show thesis
    by (auto simp: post_command_def Let_def split: option.splits if_splits intro: that(1))
next
  case False
  with assms show thesis
    by (auto simp: post_command_def CompleteCommandTx_def Let_def split: option.splits if_splits intro: that(2))
qed

lemma post_command_clock: "post_command c post k s = Inr (r, s') \<Longrightarrow> dk_now s' = dk_now s"
  by (erule post_command_shape) (simp_all add: update_commands_def)

lemma find_command_books [simp]: "find_command k (s\<lparr>dk_books := b\<rparr>) = find_command k s"
  by (simp add: find_command_def)

lemma claim_shape:
  assumes "admit digest c s = (s', Holding k u)" "k \<noteq> []" "keys_distinct s"
  shows "keys_distinct s' \<and> dk_now s' = dk_now s \<and> dk_now s' \<le> u
    \<and> (\<forall>k'. k' \<noteq> k \<longrightarrow> find_command k' s' = find_command k' s)
    \<and> (\<forall>r. find_command k s = Some r \<longrightarrow> cr_status r \<noteq> ''Completed'' \<and> (cr_status r = ''Failed'' \<or> cr_lease r < dk_now s))
    \<and> (\<exists>q. find_command k s' = Some q \<and> cr_status q \<notin> {''Completed'', ''Failed''} \<and> cr_lease q = u)"
proof -
  obtain cl where c: "ClaimCommand (ec_command c) (ec_key c) (digest (ec_payload c)) (ec_correlation c) s = Inr (cl, s')"
    and o: "cc_outcome cl \<in> {ClaimAcquired, ClaimFailedEarlier}" and k: "k = cc_key cl" "u = dk_now s + commandLease"
    using assms(1,2) by (auto simp: admit_def split: if_splits sum.splits claim_outcome.splits)
  from c show ?thesis
  proof (cases rule: claim_cases)
    case (fresh r)
    then have "cr_key r \<notin> cr_key ` set (dk_commands s)"
      by (auto simp: find_command_def find_None_iff)
    with fresh assms(3) k show ?thesis
      by (auto simp: keys_distinct_def find_command_append commandLease_def split: option.splits)
  next
    case (taken r f)
    have "dk_now s' = dk_now s" using taken by (simp add: update_commands_def)
    moreover have "find_command k' s' = find_command k' s" if "k' \<noteq> k" for k'
      using taken(6,7) that k find_command_key [of k' s] by (cases "find_command k' s") auto
    moreover have "find_command k s' = Some (f r)"
      using taken(2,6,7) k find_command_key [of k s r] by simp
    ultimately show ?thesis
      using taken assms(3) k by (auto simp: keys_update_commands commandLease_def)
  next
    case (refused r)
    with o show ?thesis by auto
  qed
qed

lemma admit_still:
  assumes "admit digest c s = (s', p)" "\<And>k u. p \<noteq> Holding k u \<or> k = []"
  shows "s' = s \<and> (\<forall>k u e. p \<noteq> Failing k u e)"
proof (cases "trim (ec_key c) = []")
  case True
  with assms show ?thesis by (auto simp: admit_def)
next
  case False
  show ?thesis
  proof (cases "ClaimCommand (ec_command c) (ec_key c) (digest (ec_payload c)) (ec_correlation c) s")
    case (Inl e)
    with False assms(1) show ?thesis by (auto simp: admit_def)
  next
    case (Inr x)
    obtain cl s1 where x: "x = (cl, s1)" by (cases x)
    have ne: "cc_key cl \<noteq> []"
      using Inr x by (auto simp: ClaimCommand_def Let_def split: if_splits option.splits)
    have no: "cc_outcome cl \<notin> {ClaimAcquired, ClaimFailedEarlier}"
      using False Inr x assms ne by (auto simp: admit_def)
    from Inr [unfolded x] have "s1 = s" by (cases rule: claim_cases) (use no in auto)
    with False Inr x assms show ?thesis by (auto simp: admit_def split: claim_outcome.splits)
  qed
qed

lemma other_rows:
  assumes "\<And>r. cr_key (f r) = cr_key r" "\<And>r. p r \<Longrightarrow> cr_key r = k" "k' \<noteq> k"
  shows "find_command k' (update_commands p f s) = find_command k' s"
  using assms find_command_key [of k' s] by (cases "find_command k' s") auto

lemma claims_ok_step:
  assumes "traffic_step digest R True e t = Some t'" "claims_ok t"
  shows "claims_ok t'"
proof (cases e)
  case (Arrive i)
  then obtain s' p where a: "tr_phase t i = Arriving" "admit digest (fst (R i)) (tr_desk t) = (s', p)"
    "t' = t\<lparr>tr_desk := s', tr_phase := (tr_phase t)(i := p)\<rparr>"
    using assms(1) by (auto split: if_splits prod.splits)
  show ?thesis
  proof (cases "\<exists>k u. p = Holding k u \<and> k \<noteq> []")
    case True
    then obtain k u where p: "p = Holding k u" "k \<noteq> []" by blast
    from claim_shape [OF a(2) [unfolded p(1)] p(2) claims_okD(1) [OF assms(2)]] obtain q
      where "find_command k s' = Some q" "cr_status q \<notin> {''Completed'', ''Failed''}" "cr_lease q = u"
        "keys_distinct s'" "dk_now s' = dk_now (tr_desk t)" "dk_now s' \<le> u"
        "\<And>k'. k' \<noteq> k \<Longrightarrow> find_command k' s' = find_command k' (tr_desk t)"
        "\<And>r. find_command k (tr_desk t) = Some r \<Longrightarrow>
           cr_status r \<noteq> ''Completed'' \<and> (cr_status r = ''Failed'' \<or> cr_lease r < dk_now (tr_desk t))"
      by blast
    with a p show ?thesis by (auto intro!: claims_ok_take [OF assms(2) a(1)])
  next
    case False
    then have st: "s' = tr_desk t \<and> (\<forall>k u e. p \<noteq> Failing k u e)" by (intro admit_still [OF a(2)]) blast
    with False a show ?thesis
      by (intro claims_ok_same [OF assms(2)]) (auto simp: held_def split: if_splits)
  qed
next
  case (Post i)
  then obtain k u where h: "tr_phase t i = Holding k u" "\<not> overdue True k u (tr_desk t)"
    using assms(1) by (auto split: phase.splits if_splits)
  show ?thesis
  proof (cases "post_command (fst (R i)) (snd (R i)) k (tr_desk t)")
    case (Inl e)
    with Post h assms show ?thesis
      by (intro claims_ok_same [OF assms(2)]) (auto simp: held_def split: if_splits)
  next
    case (Inr x)
    obtain r s' where x: "x = (r, s')" by (cases x)
    with Post h Inr assms(1) have t': "t' = t\<lparr>tr_desk := s', tr_phase := (tr_phase t)(i := Answered (Inr r)),
        tr_commits := tr_commits t @ (if k = [] then [] else [(k, dk_now (tr_desk t))])\<rparr>" by simp
    from Inr [unfolded x] show ?thesis
    proof (cases rule: post_command_shape)
      case (1 b)
      with t' h show ?thesis
        by (intro claims_ok_same [OF assms(2)]) (auto simp: held_def split: if_splits)
    next
      case (2 b)
      let ?f = "\<lambda>q. q\<lparr>cr_status := ''Completed'', cr_response := Some r, cr_document := Some (ec_docid (fst (R i))),
               cr_completed := Some (dk_now (tr_desk t))\<rparr>"
      have live: "held t i k u" "dk_now (tr_desk t) \<le> u" using h 2(1) by (auto simp: held_def overdue_def)
      obtain q where q: "find_command k (tr_desk t) = Some q" "cr_status q \<notin> {''Completed'', ''Failed''}"
        using claims_okD(2) [OF assms(2) live] by blast
      let ?t = "t\<lparr>tr_desk := s', tr_phase := (tr_phase t)(i := Answered (Inr r))\<rparr>"
      have "claims_ok ?t"
        using claims_okD(1) [OF assms(2)] 2
        by (intro claims_ok_let_go [OF assms(2) live]) (simp_all add: keys_update_commands other_rows [where k = k] del: find_update_commands)
      moreover have "find_command k (tr_desk ?t) = Some (?f q)"
        using 2(2) q(1) find_command_key [OF q(1)] by simp
      moreover have "dk_now (tr_desk ?t) = dk_now (tr_desk t)"
        using post_command_clock [OF Inr [unfolded x]] by simp
      moreover have "a + retention < dk_now (tr_desk t)" if "(k, a) \<in> set (tr_commits t)" for a
        using claims_okD(4) [OF assms(2) that] q by auto
      ultimately have "claims_ok (?t\<lparr>tr_commits := tr_commits ?t @ [(k, dk_now (tr_desk ?t))]\<rparr>)"
        by (intro claims_ok_commit [of ?t k "?f q"]) simp_all
      with t' 2(1) post_command_clock [OF Inr [unfolded x]] show ?thesis by simp
    qed
  qed
next
  case (Settle i)
  then obtain k u e where h: "tr_phase t i = Failing k u e" "\<not> overdue True k u (tr_desk t)"
    and t': "t' = t\<lparr>tr_desk := settle k e (tr_desk t), tr_phase := (tr_phase t)(i := Answered (Inl e))\<rparr>"
    using assms(1) by (auto split: phase.splits if_splits)
  show ?thesis
  proof (cases "k = []")
    case True
    with h t' show ?thesis
      by (intro claims_ok_same [OF assms(2)]) (auto simp: held_def settle_def split: if_splits)
  next
    case False
    then have live: "held t i k u" "dk_now (tr_desk t) \<le> u" using h by (auto simp: held_def overdue_def)
    show ?thesis
      unfolding t' using claims_okD(1) [OF assms(2)] False
      by (intro claims_ok_let_go [OF assms(2) live])
        (auto simp: settle_def FailCommand_def keys_update_commands simp del: find_update_commands intro!: other_rows [where k = k])
  qed
next
  case (Release i)
  then obtain k u where h: "tr_phase t i = Holding k u" "k \<noteq> []" "\<not> overdue True k u (tr_desk t)"
    and t': "t' = t\<lparr>tr_desk := ReleaseCommand k (tr_desk t), tr_phase := (tr_phase t)(i := Answered (Inl (Plain ''refused'')))\<rparr>"
    using assms(1) by (auto split: phase.splits if_splits)
  then have live: "held t i k u" "dk_now (tr_desk t) \<le> u" using h by (auto simp: held_def overdue_def)
  have d: "dk_commands (ReleaseCommand k (tr_desk t))
      = filter (\<lambda>r. \<not> (cr_key r = k \<and> cr_status r = ''InProgress'')) (dk_commands (tr_desk t))"
    by (simp add: ReleaseCommand_def)
  show ?thesis
    unfolding t'
  proof (rule claims_ok_let_go [OF assms(2) live keys_filtered [OF claims_okD(1) [OF assms(2)] d]])
    show "dk_now (ReleaseCommand k (tr_desk t)) = dk_now (tr_desk t)" by (simp add: ReleaseCommand_def)
    show "find_command k' (ReleaseCommand k (tr_desk t)) = find_command k' (tr_desk t)" if "k' \<noteq> k" for k'
      using that find_command_key [of k' "tr_desk t"]
      by (auto simp: find_filtered [OF claims_okD(1) [OF assms(2)] d] split: option.splits)
  qed
next
  case (Tick d)
  with assms show ?thesis by (intro claims_ok_same [OF assms(2)]) (auto simp: held_def)
next
  case Purge
  then have t': "t' = t\<lparr>tr_desk := purgeSettledCommandClaims (tr_desk t)\<rparr>" using assms(1) by simp
  define P where "P r \<longleftrightarrow> \<not> (cr_status r \<in> {''Completed'', ''Failed''}
        \<and> (case cr_completed r of Some c \<Rightarrow> c < dk_now (tr_desk t) - retention | None \<Rightarrow> False))"
    for r :: command_row
  have d: "dk_commands (tr_desk t') = filter P (dk_commands (tr_desk t))"
    unfolding t' P_def purgeSettledCommandClaims_def retention_def by simp
  note f = find_filtered [OF claims_okD(1) [OF assms(2)] d]
  have now: "dk_now (tr_desk t') = dk_now (tr_desk t)" by (simp add: t' purgeSettledCommandClaims_def)
  have h: "held t' j k u = held t j k u" for j k u by (simp add: t' held_def)
  have c: "tr_commits t' = tr_commits t" by (simp add: t')
  show ?thesis
  proof (rule claims_okI)
    show "keys_distinct (tr_desk t')" by (rule keys_filtered [OF claims_okD(1) [OF assms(2)] d])
    show "\<exists>r. find_command k (tr_desk t') = Some r \<and> cr_status r \<notin> {''Completed'', ''Failed''} \<and> cr_lease r = u"
      if "held t' i k u" "dk_now (tr_desk t') \<le> u" for i k u
      using claims_okD(2) [OF assms(2), of i k u] that by (auto simp: f now h P_def)
    show "i = j" if "held t' i k u" "held t' j k v" "dk_now (tr_desk t') \<le> u" "dk_now (tr_desk t') \<le> v" for i j k u v
      using claims_okD(3) [OF assms(2), of i k u j v] that by (simp add: now h)
    show "\<exists>r. find_command k (tr_desk t') = Some r \<and> cr_status r = ''Completed'' \<and> cr_completed r = Some a"
      if "(k, a) \<in> set (tr_commits t')" "\<not> a + retention < dk_now (tr_desk t')" for k a
      using claims_okD(4) [OF assms(2), of k a] that by (auto simp: f now P_def c)
    show "posted_apart (tr_commits t')" using claims_okD(5) [OF assms(2)] by (simp add: t')
  qed
qed

lemma claims_ok_history: "history digest R True es t = Some t' \<Longrightarrow> claims_ok t \<Longrightarrow> claims_ok t'"
  by (induction es arbitrary: t) (auto split: option.splits dest: claims_ok_step)

lemma claims_ok_quiet: "keys_distinct s \<Longrightarrow> claims_ok (quiet s)"
  by (rule claims_okI) (simp_all add: quiet_def held_def posted_apart_def)

text \<open>
  C3: as long as requests finish within the lease of their claim (or never), however they
  interleave, crash, fail, are refused and retried, two postings made under one idempotency
  key are more than the seven days of retention apart: inside them a key posts once.
\<close>
theorem one_posting_per_key:
  assumes "history digest R True es (quiet s) = Some t" "keys_distinct s"
  shows "posted_apart (tr_commits t)"
  using claims_okD(5) [OF claims_ok_history [OF assms(1) claims_ok_quiet [OF assms(2)]]] .

text \<open>A return is raised against bill B1: its posting inserts a ReturnRequest.\<close>

definition raise_return :: economic_post where
  "raise_return d b = Inr (Some [(''status'', JStr ''Requested'')],
     b\<lparr>bk_t := insert_doc (new_doc (bk_t b) ''ReturnRequest'' ''RR'' d ''Requested'' ''system'') (bk_t b)\<rparr>)"

definition return_command :: economic_command where
  "return_command = \<lparr>ec_command = ''returns.create'', ec_doctype = ''POSCart'', ec_docid = ''B1'', ec_key = ''k'',
     ec_expected = 0, ec_payload = JStr ''one shirt'', ec_correlation = []\<rparr>"

definition return_desk :: desk where
  "return_desk = \<lparr>dk_books = \<lparr>bk_t = insert_doc (new_doc empty_tenant ''POSCart'' ''B1'' [] ''Completed'' ''u'') empty_tenant,
     bk_version = (\<lambda>_ _. None)\<rparr>, dk_commands = [], dk_now = 0\<rparr>"

definition returns_raised :: "traffic \<Rightarrow> nat" where
  "returns_raised t = length (filter (\<lambda>d. d_doctype d = ''ReturnRequest'') (t_documents (bk_t (dk_books (tr_desk t)))))"

lemmas return_defs = raise_return_def return_command_def return_desk_def quiet_def admit_def ClaimCommand_def find_command_def
  trim_def is_space_def Let_def commandLease_def overdue_def post_command_def begin_tx_def find_doc_def is_doc_def insert_doc_def
  new_doc_def empty_tenant_def coalesce_def CompleteCommandTx_def update_commands_def returns_raised_def
  purgeSettledCommandClaims_def commandClaimRetentionDays_def retake_def keys_distinct_def

theorem one_posting_per_key_witness:
  "posted_apart [(''returns.create:k'', 0), (''returns.create:k'', 604801)]"
proof -
  have "\<exists>t. history show_json (\<lambda>_. (return_command, raise_return)) True
      [Arrive 0, Post 0, Arrive 1, Tick 604801, Purge, Arrive 2, Post 2] (quiet return_desk) = Some t
    \<and> tr_commits t = [(''returns.create:k'', 0), (''returns.create:k'', 604801)]"
    by (simp add: return_defs)
  moreover have "keys_distinct return_desk" by (simp add: keys_distinct_def return_desk_def)
  ultimately show ?thesis using one_posting_per_key by metis
qed


section \<open>One request at a time\<close>

lemma claim_key: "ClaimCommand command key dg corr s = Inr (cl, s') \<Longrightarrow> cc_key cl = command @ '':'' @ key"
  by (auto simp: ClaimCommand_def Let_def split: if_splits option.splits)

definition remembered :: "(json \<Rightarrow> string) \<Rightarrow> economic_command \<Rightarrow> payload \<Rightarrow> desk \<Rightarrow> bool" where
  "remembered digest c r s \<longleftrightarrow> (\<exists>q. find_command (ec_command c @ '':'' @ ec_key c) s = Some q
     \<and> cr_digest q = digest (ec_payload c) \<and> cr_status q = ''Completed'' \<and> coalesce (cr_response q) [] = r)"

lemma remembered_after:
  assumes "trim (ec_key c) \<noteq> []" "RunEconomicCommand digest c post s = (s1, Inr r)"
  shows "remembered digest c r s1"
proof -
  let ?claim = "ClaimCommand (ec_command c) (ec_key c) (digest (ec_payload c)) (ec_correlation c) s"
  obtain cl s' where cl: "?claim = Inr (cl, s')"
    using assms by (cases ?claim) (auto simp: RunEconomicCommand_def admit_def)
  note k = claim_key [OF cl]
  have rem: "remembered digest c r s1"
    if o: "cc_outcome cl \<in> {ClaimAcquired, ClaimFailedEarlier}"
      and row: "find_command (cc_key cl) s' = Some q" "cr_digest q = digest (ec_payload c)" for q
  proof -
    have "post_command c post (cc_key cl) s' = Inr (r, s1)"
      using o assms cl by (auto simp: RunEconomicCommand_def admit_def split: sum.splits)
    then show ?thesis
    proof (cases rule: post_command_shape)
      case (1 b)
      with k show ?thesis by simp
    next
      case (2 b)
      with row k find_command_key [OF row(1)] show ?thesis by (simp add: remembered_def coalesce_def)
    qed
  qed
  from cl show ?thesis
  proof (cases rule: claim_cases)
    case (fresh q)
    then show ?thesis by (intro rem [of q]) (auto simp: find_command_append)
  next
    case (taken q f)
    then have "find_command (cc_key cl) s' = Some (f q)" using find_command_key [of _ s q] by simp
    with taken show ?thesis by (intro rem [of "f q"]) auto
  next
    case (refused q)
    with assms cl k show ?thesis by (auto simp: RunEconomicCommand_def admit_def remembered_def)
  qed
qed

text \<open>
  C35: a command that returned has posted and is remembered: sent again it changes nothing,
  whatever it would post, and returns the first result; the same key with another request is
  refused and changes nothing. A command that failed left the books as they were.
\<close>
theorem command_runs_once:
  assumes "trim (ec_key c) \<noteq> []" "RunEconomicCommand digest c post s = (s1, out)"
  shows "case out of
      Inl e \<Rightarrow> dk_books s1 = dk_books s
    | Inr r \<Rightarrow> \<forall>post' j. RunEconomicCommand digest c post' s1 = (s1, Inr r)
        \<and> (digest j \<noteq> digest (ec_payload c) \<longrightarrow>
            RunEconomicCommand digest (c\<lparr>ec_payload := j\<rparr>) post' s1 = (s1, Inl (Coded ''GLOBAL-0006'')))"
proof (cases out)
  case (Inl e)
  let ?claim = "ClaimCommand (ec_command c) (ec_key c) (digest (ec_payload c)) (ec_correlation c) s"
  have "dk_books s' = dk_books s" if "?claim = Inr (cl, s')" for cl s'
    using that by (cases rule: claim_cases) auto
  with Inl assms show ?thesis
    by (auto simp: RunEconomicCommand_def admit_def settle_def FailCommand_def split: sum.splits claim_outcome.splits)
next
  case (Inr r)
  with remembered_after [OF assms(1)] assms(2) obtain q
    where "find_command (ec_command c @ '':'' @ ec_key c) s1 = Some q" "cr_digest q = digest (ec_payload c)"
      "cr_status q = ''Completed''" "coalesce (cr_response q) [] = r"
    unfolding remembered_def by blast
  with assms(1) Inr show ?thesis
    by (simp add: RunEconomicCommand_def admit_def ClaimCommand_def Let_def)
qed

theorem command_runs_once_witness:
  "\<exists>s1. RunEconomicCommand show_json return_command raise_return return_desk = (s1, Inr [(''status'', JStr ''Requested'')])
    \<and> RunEconomicCommand show_json return_command raise_return s1 = (s1, Inr [(''status'', JStr ''Requested'')])
    \<and> RunEconomicCommand show_json (return_command\<lparr>ec_payload := JStr ''two shirts''\<rparr>) raise_return s1
        = (s1, Inl (Coded ''GLOBAL-0006''))"
proof -
  have k: "trim (ec_key return_command) \<noteq> []" by (simp add: return_command_def trim_def is_space_def)
  have d: "show_json (JStr ''two shirts'') \<noteq> show_json (ec_payload return_command)"
    by (simp add: return_command_def show_json_def)
  obtain s1 where r: "RunEconomicCommand show_json return_command raise_return return_desk
      = (s1, Inr [(''status'', JStr ''Requested'')])"
    by (simp add: RunEconomicCommand_def return_defs)
  from command_runs_once [OF k r] d r show ?thesis by auto
qed

end
