(* ===== verification/Allocation.thy ===== *)
theory Allocation
  imports Prelude
begin

text \<open>
  Splitting an amount of paise (engines/sale_allocation.go): \<open>allocatePaise\<close>, the
  largest-remainder split every bill-level figure goes through, and \<open>unitShare\<close>, the part of
  a line's value that some of its units carry. Amounts are int64 and wrap; the lemmas hold
  while total times the sum of the weights stays below \<open>2^63\<close>. The specification
  \<open>largest_remainder\<close> determines the split uniquely; the loop is shown to meet it.
\<close>

section \<open>The split\<close>

definition weight_sum :: "int list \<Rightarrow> int" where
  "weight_sum ws = foldl (\<lambda>s w. if w > 0 then wrap64 (s + w) else s) 0 ws"

text \<open>The last loop of \<open>allocatePaise\<close>: one paisa to each line in turn until all is given.\<close>

function hand_out :: "nat list \<Rightarrow> nat \<Rightarrow> int \<Rightarrow> int \<Rightarrow> int list \<Rightarrow> int list" where
  "hand_out order k given amount out =
     (if given < amount
      then let i = order ! (k mod length order) in
        hand_out order (k + 1) (given + 1) amount (out[i := wrap64 (out ! i + 1)])
      else out)"
  by pat_completeness auto
termination by (relation "measure (\<lambda>(order, k, given, amount, out). nat (amount - given))") auto

declare hand_out.simps [simp del]

definition allocatePaise :: "int \<Rightarrow> int list \<Rightarrow> int list" where
  "allocatePaise amount weights =
     (let out0 = replicate (length weights) 0; W = weight_sum weights in
      if amount \<le> 0 \<or> weights = [] then out0
      else if W \<le> 0 then out0[0 := amount]
      else let pos = filter (\<lambda>(i, w). w > 0) (enumerate 0 weights);
               out = map (\<lambda>w. if w \<le> 0 then 0 else go_div (wrap64 (amount * w)) W) weights;
               given = foldl (\<lambda>g (i, w). wrap64 (g + out ! i)) 0 pos;
               rems = map (\<lambda>(i, w). (i, go_mod (wrap64 (amount * w)) W)) pos
           in hand_out (map fst (sort_key (\<lambda>(i, r). - r) rems)) 0 given amount out)"

definition unitShare :: "int \<Rightarrow> int \<Rightarrow> int \<Rightarrow> int \<Rightarrow> int" where
  "unitShare amount from qty sold =
     (if sold \<le> 0 \<or> qty \<le> 0 then 0
      else let cum = (\<lambda>n. if n \<ge> sold then amount else go_div (wrap64 (amount * n)) sold)
           in wrap64 (cum (wrap64 (from + qty)) - cum from))"

lemma length_hand_out [simp]: "length (hand_out order k given amount out) = length out"
  by (induction order k given amount out rule: hand_out.induct) (subst hand_out.simps, simp add: Let_def)

lemma length_allocatePaise [simp]: "length (allocatePaise amount ws) = length ws"
  by (simp add: allocatePaise_def Let_def)

section \<open>What a pro rata split is\<close>

definition pos_total :: "int list \<Rightarrow> int" where
  "pos_total ws = sum_list (map (\<lambda>w. max 0 w) ws)"

definition quota :: "int \<Rightarrow> int list \<Rightarrow> nat \<Rightarrow> int" where
  "quota amount ws i = amount * max 0 (ws ! i) div pos_total ws"

definition remainder :: "int \<Rightarrow> int list \<Rightarrow> nat \<Rightarrow> int" where
  "remainder amount ws i = amount * max 0 (ws ! i) mod pos_total ws"

text \<open>
  The parts add up to the amount, a part is its quota or one paisa more, and a paisa more goes
  to a line of positive weight, of a larger remainder or of the same remainder and earlier
  than any such line that gets none.
\<close>

definition largest_remainder :: "int \<Rightarrow> int list \<Rightarrow> int list \<Rightarrow> bool" where
  "largest_remainder amount ws out \<longleftrightarrow> length out = length ws \<and> sum_list out = amount
     \<and> (\<forall>i < length ws. out ! i = quota amount ws i \<or> out ! i = quota amount ws i + 1 \<and> ws ! i > 0)
     \<and> (\<forall>i < length ws. \<forall>j < length ws. out ! i = quota amount ws i + 1 \<and> out ! j = quota amount ws j \<and> ws ! j > 0 \<longrightarrow>
          remainder amount ws j < remainder amount ws i
          \<or> remainder amount ws j = remainder amount ws i \<and> i < j)"

section \<open>The loop\<close>

definition bump :: "int list \<Rightarrow> nat \<Rightarrow> int list" where
  "bump out i = out[i := out ! i + 1]"

lemma length_foldl_bump [simp]: "length (foldl bump out is) = length out"
  by (induction "is" arbitrary: out) (simp_all add: bump_def)

lemma foldl_bump_nth:
  "distinct is \<Longrightarrow> set is \<subseteq> {..< length out} \<Longrightarrow> j < length out \<Longrightarrow>
     foldl bump out is ! j = out ! j + (if j \<in> set is then 1 else 0)"
proof (induction "is" arbitrary: out)
  case Nil
  then show ?case by simp
next
  case (Cons i "is")
  then show ?case by (auto simp: bump_def nth_list_update)
qed

lemma hand_out_takes:
  assumes "distinct order" "set order \<subseteq> {..< length out}" "k + nat (amount - given) \<le> length order"
    and "\<And>i. i \<in> set (drop k order) \<Longrightarrow> 0 \<le> out ! i \<and> out ! i < 2 ^ 62"
  shows "hand_out order k given amount out = foldl bump out (take (nat (amount - given)) (drop k order))"
  using assms
proof (induction "nat (amount - given)" arbitrary: k given out)
  case 0
  then show ?case by (subst hand_out.simps) simp
next
  case (Suc n)
  then have lt: "given < amount" and k: "k < length order" and n: "n = nat (amount - (given + 1))" by auto
  let ?i = "order ! k"
  have d: "drop k order = ?i # drop (k + 1) order" using k by (simp add: Cons_nth_drop_Suc)
  have ni: "?i \<notin> set (drop (k + 1) order)"
    using Suc.prems(1) d by (metis distinct.simps(2) distinct_drop)
  have len: "?i < length out" using Suc.prems(2) k nth_mem by blast
  have w: "wrap64 (out ! ?i + 1) = out ! ?i + 1"
    using Suc.prems(4) [of ?i] d by (intro wrap64_id) auto
  have m: "k mod length order = k" using k by simp
  have step: "hand_out order k given amount out = hand_out order (k + 1) (given + 1) amount (bump out ?i)"
    by (subst hand_out.simps) (simp add: lt Let_def m w bump_def)
  also have "\<dots> = foldl bump (bump out ?i) (take (nat (amount - (given + 1))) (drop (k + 1) order))"
  proof (rule Suc.hyps(1) [OF n Suc.prems(1)])
    show "set order \<subseteq> {..< length (bump out ?i)}" using Suc.prems(2) by (simp add: bump_def)
    show "k + 1 + nat (amount - (given + 1)) \<le> length order" using Suc.prems(3) lt by simp
    show "0 \<le> bump out ?i ! i \<and> bump out ?i ! i < 2 ^ 62" if "i \<in> set (drop (k + 1) order)" for i
      using Suc.prems(4) [of i] that ni d by (cases "i = ?i") (auto simp: bump_def)
  qed
  also have "\<dots> = foldl bump out (take (nat (amount - given)) (drop k order))"
    using n Suc.hyps(2) d by (metis foldl_Cons take_Suc_Cons)
  finally show ?case .
qed

lemma foldl_wrap_sum:
  assumes "\<And>x. x \<in> set xs \<Longrightarrow> 0 \<le> f x" "0 \<le> a" "a + sum_list (map f xs) < 2 ^ 63"
  shows "foldl (\<lambda>g x. wrap64 (g + f x)) a xs = a + sum_list (map f xs)"
  using assms
proof (induction xs arbitrary: a)
  case Nil
  then show ?case by simp
next
  case (Cons x xs)
  have rest: "0 \<le> sum_list (map f xs)" using Cons.prems(1) by (intro sum_list_nonneg) auto
  have fx: "0 \<le> f x" using Cons.prems(1) by simp
  have "wrap64 (a + f x) = a + f x"
  proof (rule wrap64_id)
    show "- (2 ^ 63) \<le> a + f x" using fx Cons.prems(2) by simp
    show "a + f x < 2 ^ 63" using rest Cons.prems(3) by simp
  qed
  then show ?case using Cons fx by (simp add: ac_simps)
qed

lemma foldl_filter_if: "foldl (\<lambda>s w. if P w then h s w else s) a ws = foldl h a (filter P ws)"
  by (induction ws arbitrary: a) auto

lemma pos_total_filter: "pos_total ws = sum_list (filter (\<lambda>w. w > 0) ws)"
  by (induction ws) (auto simp: pos_total_def)

lemma weight_sum_exact: "pos_total ws < 2 ^ 63 \<Longrightarrow> weight_sum ws = pos_total ws"
  using foldl_wrap_sum [of "filter (\<lambda>w. w > 0) ws" id 0]
  by (auto simp: weight_sum_def foldl_filter_if pos_total_filter)

lemma pos_total_sum: "pos_total ws = (\<Sum>i < length ws. max 0 (ws ! i))"
  by (simp add: pos_total_def sum_list_sum_nth atLeast0LessThan)

lemma weight_le_total: "i < length ws \<Longrightarrow> max 0 (ws ! i) \<le> pos_total ws"
  unfolding pos_total_sum by (rule member_le_sum) auto

lemma pos_total_nonneg: "0 \<le> pos_total ws"
  unfolding pos_total_def by (rule sum_list_nonneg) auto

text \<open>The stable sort puts the larger remainder first, and among equal ones the earlier line.\<close>

lemma stable_order:
  fixes rems :: "(nat \<times> int) list"
  assumes "sorted_wrt (\<lambda>a b. fst a < fst b) rems"
  shows "sorted_wrt (\<lambda>(i, r) (j, q). q < r \<or> q = r \<and> i < j) (sort_key (\<lambda>(i, r). - r) rems)"
  using assms
proof (induction rems)
  case Nil
  then show ?case by simp
next
  case (Cons x xs)
  have ins: "sorted_wrt (\<lambda>(i, r) (j, q). q < r \<or> q = r \<and> i < j) (insort_key (\<lambda>(i, r). - r) x ys)"
    if "sorted_wrt (\<lambda>(i, r) (j, q). q < r \<or> q = r \<and> i < j) ys" "\<forall>y \<in> set ys. fst x < fst y" for ys
    using that
  proof (induction ys)
    case Nil
    then show ?case by simp
  next
    case (Cons y ys)
    then show ?case by (fastforce simp: set_insort_key split: prod.splits)
  qed
  show ?case using Cons by (simp add: ins)
qed

text \<open>Quotas and remainders: what is left after the quotas is less than a paisa a line.\<close>

lemma quotas_sum:
  "pos_total ws * (\<Sum>i < length ws. quota a ws i) + (\<Sum>i < length ws. remainder a ws i) = a * pos_total ws"
proof -
  have "(\<Sum>i < length ws. pos_total ws * quota a ws i + remainder a ws i) = (\<Sum>i < length ws. a * max 0 (ws ! i))"
    by (simp add: quota_def remainder_def)
  then show ?thesis by (simp add: sum.distrib pos_total_sum sum_distrib_left)
qed

lemma quota_zero: "\<not> ws ! i > 0 \<Longrightarrow> quota a ws i = 0" and remainder_zero: "\<not> ws ! i > 0 \<Longrightarrow> remainder a ws i = 0"
  by (simp_all add: quota_def remainder_def)

lemma quotas_left:
  assumes "0 < pos_total ws" "0 \<le> a"
  defines "Q \<equiv> \<Sum>i < length ws. quota a ws i" and "P \<equiv> {i. i < length ws \<and> ws ! i > 0}"
  shows "Q \<le> a" "a - Q < int (card P)" "\<And>i. 0 \<le> quota a ws i" "\<And>i. i < length ws \<Longrightarrow> quota a ws i \<le> Q"
proof -
  let ?W = "pos_total ws"
  have r: "0 \<le> remainder a ws i" "remainder a ws i < ?W" for i
    using assms(1) by (simp_all add: remainder_def)
  have q: "0 \<le> quota a ws i" for i
    using assms(1,2) by (simp add: quota_def pos_imp_zdiv_nonneg_iff)
  show "\<And>i. 0 \<le> quota a ws i" by (rule q)
  show "\<And>i. i < length ws \<Longrightarrow> quota a ws i \<le> Q"
    unfolding Q_def by (rule member_le_sum) (auto simp: q)
  have eq: "?W * Q + (\<Sum>i < length ws. remainder a ws i) = a * ?W" unfolding Q_def by (rule quotas_sum)
  have "0 \<le> (\<Sum>i < length ws. remainder a ws i)" by (intro sum_nonneg) (simp add: r)
  with eq have "?W * Q \<le> ?W * a" by (simp add: mult.commute)
  then show "Q \<le> a" using assms(1) by simp
  have P: "finite P" "P \<noteq> {}"
  proof -
    show "finite P" by (simp add: P_def)
    show "P \<noteq> {}"
    proof
      assume "P = {}"
      then have "pos_total ws = 0" unfolding pos_total_sum P_def by (intro sum.neutral) auto
      with assms(1) show False by simp
    qed
  qed
  have "(\<Sum>i < length ws. remainder a ws i) = (\<Sum>i \<in> P. remainder a ws i)"
    unfolding P_def by (rule sum.mono_neutral_right) (auto simp: remainder_zero)
  also have "\<dots> < (\<Sum>i \<in> P. ?W)" using P r by (intro sum_strict_mono) auto
  finally have "(\<Sum>i < length ws. remainder a ws i) < int (card P) * ?W" by simp
  with eq have "?W * (a - Q) < ?W * int (card P)" by (simp add: algebra_simps)
  then show "a - Q < int (card P)" using assms(1) by simp
qed

text \<open>The values the code computes before the last loop, when nothing wraps.\<close>

lemma part_exact:
  assumes "0 < a" "a * pos_total ws < 2 ^ 63" "0 < pos_total ws" "i < length ws" "ws ! i > 0"
  shows "go_div (wrap64 (a * ws ! i)) (pos_total ws) = quota a ws i"
    and "go_mod (wrap64 (a * ws ! i)) (pos_total ws) = remainder a ws i"
proof -
  have le: "a * ws ! i \<le> a * pos_total ws"
    using weight_le_total [OF assms(4)] assms(1,5) by (intro mult_left_mono) auto
  have w: "wrap64 (a * ws ! i) = a * ws ! i"
    using le_less_trans [OF le assms(2)] assms(1,5) by (intro wrap64_id) (auto intro: order_trans [of _ 0])
  show "go_div (wrap64 (a * ws ! i)) (pos_total ws) = quota a ws i"
    "go_mod (wrap64 (a * ws ! i)) (pos_total ws) = remainder a ws i"
    using assms by (simp_all add: w go_div_nonneg go_mod_nonneg quota_def remainder_def)
qed

definition positives_of :: "int list \<Rightarrow> nat list" where
  "positives_of ws = filter (\<lambda>i. ws ! i > 0) [0..< length ws]"

lemma enumerate_positives: "filter (\<lambda>(i, w). w > 0) (enumerate 0 ws) = map (\<lambda>i. (i, ws ! i)) (positives_of ws)"
proof -
  have "enumerate 0 ws = map (\<lambda>i. (i, ws ! i)) [0..< length ws]"
    by (rule nth_equalityI) (simp_all add: nth_enumerate_eq)
  then show ?thesis by (simp add: positives_of_def filter_map o_def)
qed

lemma positives_facts:
  "distinct (positives_of ws)" "set (positives_of ws) = {i. i < length ws \<and> ws ! i > 0}"
  "length (positives_of ws) = card {i. i < length ws \<and> ws ! i > 0}" "sorted_wrt (<) (positives_of ws)"
proof -
  show d: "distinct (positives_of ws)" by (simp add: positives_of_def)
  show s: "set (positives_of ws) = {i. i < length ws \<and> ws ! i > 0}" by (auto simp: positives_of_def)
  show "length (positives_of ws) = card {i. i < length ws \<and> ws ! i > 0}"
    using distinct_card [OF d] s by simp
  show "sorted_wrt (<) (positives_of ws)" by (simp add: positives_of_def sorted_wrt_filter)
qed

definition turn_order :: "int \<Rightarrow> int list \<Rightarrow> nat list" where
  "turn_order a ws = map fst (sort_key (\<lambda>(i, r). - r) (map (\<lambda>i. (i, remainder a ws i)) (positives_of ws)))"

lemma allocatePaise_loop:
  assumes "0 < a" "a * pos_total ws < 2 ^ 63" "0 < pos_total ws"
  shows "allocatePaise a ws = hand_out (turn_order a ws) 0 (\<Sum>i < length ws. quota a ws i) a
           (map (quota a ws) [0..< length ws])"
proof -
  let ?W = "pos_total ws" and ?Q = "\<Sum>i < length ws. quota a ws i"
  have "1 * ?W \<le> a * ?W" using assms by (intro mult_right_mono) auto
  then have W: "weight_sum ws = ?W" using assms(2) by (intro weight_sum_exact) simp
  have ne: "ws \<noteq> []" using assms(3) by (auto simp: pos_total_def)
  have out: "map (\<lambda>w. if w \<le> 0 then 0 else go_div (wrap64 (a * w)) ?W) ws = map (quota a ws) [0..< length ws]"
    by (rule nth_equalityI) (auto simp: part_exact [OF assms] quota_zero)
  have rems: "map (\<lambda>(i, w). (i, go_mod (wrap64 (a * w)) ?W)) (map (\<lambda>i. (i, ws ! i)) (positives_of ws))
      = map (\<lambda>i. (i, remainder a ws i)) (positives_of ws)"
    using positives_facts(2) by (auto simp: part_exact [OF assms])
  have sum: "sum_list (map (quota a ws) (positives_of ws)) = ?Q"
  proof -
    have "sum_list (map (quota a ws) (positives_of ws)) = (\<Sum>i \<in> set (positives_of ws). quota a ws i)"
      by (rule sum_list_distinct_conv_sum_set [OF positives_facts(1)])
    also have "\<dots> = ?Q"
      unfolding positives_facts(2) by (rule sum.mono_neutral_left) (auto simp: quota_zero)
    finally show ?thesis .
  qed
  have "a * 1 \<le> a * ?W" using assms by (intro mult_left_mono) auto
  then have "a < 2 ^ 63" using assms(2) by simp
  moreover have "?Q \<le> a" using quotas_left(1) [OF assms(3), of a] assms(1) by simp
  ultimately have bound: "?Q < 2 ^ 63" by simp
  have mem: "map (quota a ws) [0..< length ws] ! i = quota a ws i" if "i \<in> set (positives_of ws)" for i
    using that positives_facts(2) [of ws] by simp
  have given: "foldl (\<lambda>g (i, w). wrap64 (g + map (quota a ws) [0..< length ws] ! i)) 0 (map (\<lambda>i. (i, ws ! i)) (positives_of ws)) = ?Q"
  proof -
    have "foldl (\<lambda>g (i, w). wrap64 (g + map (quota a ws) [0..< length ws] ! i)) 0 (map (\<lambda>i. (i, ws ! i)) (positives_of ws))
        = foldl (\<lambda>g i. wrap64 (g + quota a ws i)) 0 (positives_of ws)"
      unfolding foldl_map using mem by (intro foldl_cong) auto
    also have "\<dots> = ?Q"
      using foldl_wrap_sum [of "positives_of ws" "quota a ws" 0] quotas_left(3) [OF assms(3), of a] sum bound assms(1) by simp
    finally show ?thesis .
  qed
  show ?thesis
    using assms(1,3) ne
    by (simp add: allocatePaise_def W enumerate_positives rems out given turn_order_def del: upt_Suc map_map)
qed

lemma strictly_ordered_distinct: "sorted_wrt R xs \<Longrightarrow> (\<And>x. \<not> R x x) \<Longrightarrow> distinct xs"
  by (induction xs) auto

lemma turn_order_facts:
  "distinct (turn_order a ws)" "set (turn_order a ws) = {i. i < length ws \<and> ws ! i > 0}"
  "length (turn_order a ws) = card {i. i < length ws \<and> ws ! i > 0}"
  "sorted_wrt (\<lambda>i j. remainder a ws j < remainder a ws i \<or> remainder a ws j = remainder a ws i \<and> i < j) (turn_order a ws)"
proof -
  let ?xs = "map (\<lambda>i. (i, remainder a ws i)) (positives_of ws)" and ?key = "\<lambda>(i :: nat, r :: int). - r"
  show "set (turn_order a ws) = {i. i < length ws \<and> ws ! i > 0}"
    using positives_facts(2) [of ws] by (force simp: turn_order_def)
  show "length (turn_order a ws) = card {i. i < length ws \<and> ws ! i > 0}"
    by (simp add: turn_order_def positives_facts(3))
  have srt: "sorted_wrt (\<lambda>(i, r) (j, q). q < r \<or> q = r \<and> i < j) (sort_key ?key ?xs)"
    using positives_facts(4) [of ws] by (intro stable_order) (simp add: sorted_wrt_map)
  have mem: "snd x = remainder a ws (fst x)" if "x \<in> set (sort_key ?key ?xs)" for x
    using that by auto
  show "sorted_wrt (\<lambda>i j. remainder a ws j < remainder a ws i \<or> remainder a ws j = remainder a ws i \<and> i < j) (turn_order a ws)"
    unfolding turn_order_def sorted_wrt_map
    by (rule sorted_wrt_mono_rel [OF _ srt]) (auto dest!: mem split: prod.splits)
  then show "distinct (turn_order a ws)" by (rule strictly_ordered_distinct) simp
qed

lemma allocate_largest_remainder:
  assumes "0 < amount" "0 < pos_total weights" "amount * pos_total weights < 2 ^ 62"
  shows "largest_remainder amount weights (allocatePaise amount weights)"
proof -
  let ?n = "length weights" and ?q = "quota amount weights" and ?order = "turn_order amount weights"
  let ?Q = "\<Sum>i < ?n. ?q i" and ?out0 = "map (quota amount weights) [0..< length weights]"
  define e where "e = nat (amount - ?Q)"
  note left = quotas_left [OF assms(2), of amount]
  have e: "int e = amount - ?Q" "e \<le> length ?order"
    using left(1,2) assms(1) turn_order_facts(3) [of amount weights] by (auto simp: e_def)
  have "amount * 1 \<le> amount * pos_total weights" using assms by (intro mult_left_mono) auto
  then have "amount < 2 ^ 62" using assms(3) by simp
  then have small: "?q i < 2 ^ 62" if "i < ?n" for i
    using left(4) [OF _ that] left(1) assms(1) by simp
  have "allocatePaise amount weights = foldl bump ?out0 (take e ?order)"
    using hand_out_takes [OF turn_order_facts(1), of amount weights ?out0 0 amount ?Q] turn_order_facts(2) [of amount weights]
      e(2) left(3) assms small
    by (subst allocatePaise_loop) (auto simp: e_def)
  then have part: "allocatePaise amount weights ! i = ?q i + (if i \<in> set (take e ?order) then 1 else 0)" if "i < ?n" for i
    using that turn_order_facts(1,2) [of amount weights] set_take_subset [of e ?order]
    by (subst \<open>allocatePaise amount weights = _\<close>, subst foldl_bump_nth) auto
  have len: "length (allocatePaise amount weights) = ?n"
    using \<open>allocatePaise amount weights = _\<close> by simp
  have E: "set (take e ?order) \<subseteq> {..< ?n}" "card (set (take e ?order)) = e"
    using turn_order_facts(1,2) [of amount weights] set_take_subset [of e ?order] e(2) by (auto simp: distinct_card)
  have sum: "sum_list (allocatePaise amount weights) = amount"
  proof -
    have "sum_list (allocatePaise amount weights) = (\<Sum>i < ?n. ?q i + (if i \<in> set (take e ?order) then 1 else 0))"
      by (simp add: sum_list_sum_nth atLeast0LessThan len part)
    also have "\<dots> = ?Q + int (card (set (take e ?order)))"
      using E(1) by (simp add: sum.distrib sum.If_cases Int_absorb1 Int_commute)
    finally show ?thesis using E(2) e(1) by simp
  qed
  have fair: "remainder amount weights j < remainder amount weights i
      \<or> remainder amount weights j = remainder amount weights i \<and> i < j"
    if "i \<in> set (take e ?order)" "j \<notin> set (take e ?order)" "j < ?n" "weights ! j > 0" for i j
  proof -
    have "j \<in> set (drop e ?order)"
      using that turn_order_facts(2) [of amount weights] set_append [of "take e ?order" "drop e ?order"] by auto
    moreover have "sorted_wrt (\<lambda>i j. remainder amount weights j < remainder amount weights i
        \<or> remainder amount weights j = remainder amount weights i \<and> i < j) (take e ?order @ drop e ?order)"
      using turn_order_facts(4) [of amount weights] by simp
    ultimately show ?thesis using that(1) unfolding sorted_wrt_append by blast
  qed
  have pos: "i < ?n \<and> weights ! i > 0" if "i \<in> set (take e ?order)" for i
    using that turn_order_facts(2) [of amount weights] set_take_subset [of e ?order] by blast
  show ?thesis
    unfolding largest_remainder_def
  proof (intro conjI allI impI len sum)
    show "allocatePaise amount weights ! i = ?q i \<or> allocatePaise amount weights ! i = ?q i + 1 \<and> weights ! i > 0"
      if "i < ?n" for i
      using part [OF that] pos [of i] by simp
    show "remainder amount weights j < remainder amount weights i
        \<or> remainder amount weights j = remainder amount weights i \<and> i < j"
      if "i < ?n" "j < ?n" "allocatePaise amount weights ! i = ?q i + 1 \<and> allocatePaise amount weights ! j = ?q j \<and> weights ! j > 0" for i j
      using part [OF that(1)] part [OF that(2)] that(2,3) by (intro fair) (auto split: if_splits)
  qed
qed

lemma largest_remainderD:
  assumes "largest_remainder amount ws out"
  shows "length out = length ws" "sum_list out = amount"
    "i < length ws \<Longrightarrow> out ! i = quota amount ws i \<or> out ! i = quota amount ws i + 1 \<and> ws ! i > 0"
  using assms unfolding largest_remainder_def by blast+

lemma pos_total_sum_list: "\<forall>w \<in> set ws. 0 \<le> w \<Longrightarrow> pos_total ws = sum_list ws"
  by (induction ws) (auto simp: pos_total_def)

text \<open>A split of no more than the weights' sum takes no more from a line than its weight.\<close>

lemma split_within:
  assumes "0 \<le> amount" "amount \<le> sum_list ws" "\<forall>w \<in> set ws. 0 \<le> w" "amount * sum_list ws < 2 ^ 62"
  shows "length (allocatePaise amount ws) = length ws" "sum_list (allocatePaise amount ws) = amount"
    "i < length ws \<Longrightarrow> 0 \<le> allocatePaise amount ws ! i \<and> allocatePaise amount ws ! i \<le> ws ! i"
proof -
  note W = pos_total_sum_list [OF assms(3)]
  let ?out = "allocatePaise amount ws"
  have "length ?out = length ws \<and> sum_list ?out = amount
    \<and> (\<forall>i < length ws. 0 \<le> ?out ! i \<and> ?out ! i \<le> ws ! i)"
  proof (cases "amount = 0")
    case True
    with assms(3) show ?thesis by (simp add: allocatePaise_def Let_def sum_list_replicate)
  next
    case False
    then have a: "0 < amount" "0 < pos_total ws" using assms(1,2) W by auto
    have lr: "largest_remainder amount ws ?out"
      using a assms(4) by (intro allocate_largest_remainder) (simp_all add: W)
    note left = quotas_left [OF a(2) assms(1)]
    have whole: "quota amount ws i \<le> ws ! i" "amount < pos_total ws \<Longrightarrow> ws ! i > 0 \<Longrightarrow> quota amount ws i < ws ! i"
      if "i < length ws" for i
    proof -
      have w: "max 0 (ws ! i) = ws ! i" using assms(3) that by simp
      show "quota amount ws i \<le> ws ! i"
        using mult_right_mono [of amount "pos_total ws" "ws ! i"] assms(2,3) that a(2) zdiv_mono1 [of "amount * ws ! i" "pos_total ws * ws ! i" "pos_total ws"]
        by (simp add: quota_def w W)
      show "quota amount ws i < ws ! i" if "amount < pos_total ws" "ws ! i > 0"
      proof -
        let ?x = "amount * ws ! i" and ?W = "pos_total ws"
        have lt: "?x < ?W * ws ! i" by (rule mult_strict_right_mono [OF that])
        have "?W * (?x div ?W) \<le> ?x"
          using mult_div_mod_eq [of ?W ?x] pos_mod_sign [OF a(2), of ?x] by linarith
        moreover have "?W * ws ! i \<le> ?W * (?x div ?W)" if "ws ! i \<le> ?x div ?W"
          using that a(2) by (intro mult_left_mono) auto
        ultimately have "\<not> ws ! i \<le> ?x div ?W" using lt by linarith
        then show ?thesis by (simp add: quota_def w)
      qed
    qed
    have "?out ! i \<le> ws ! i" if i: "i < length ws" for i
    proof (cases "amount < pos_total ws")
      case True
      then show ?thesis using largest_remainderD(3) [OF lr i] whole [OF i] by auto
    next
      case False
      then have eq: "amount = pos_total ws" using assms(2) W by simp
      have q: "quota amount ws j = ws ! j" if "j < length ws" for j
        using a(2) assms(3) that by (simp add: quota_def eq)
      have ge: "ws ! j \<le> ?out ! j" if "j < length ws" for j
        using largest_remainderD(3) [OF lr that] q [OF that] by auto
      have "(\<Sum>j < length ws. ?out ! j) = (\<Sum>j < length ws. ws ! j)"
        using largest_remainderD(1,2) [OF lr] eq W by (simp add: sum_list_sum_nth atLeast0LessThan)
      then have "?out ! i = ws ! i"
        using ge i by (metis (no_types, lifting) finite_lessThan lessThan_iff sum_mono_inv)
      then show ?thesis by simp
    qed
    moreover have "0 \<le> ?out ! i" if "i < length ws" for i
      using largest_remainderD(3) [OF lr that] left(3) [of i] by auto
    ultimately show ?thesis using largest_remainderD(1,2) [OF lr] by blast
  qed
  then show "length ?out = length ws" "sum_list ?out = amount"
    "i < length ws \<Longrightarrow> 0 \<le> ?out ! i \<and> ?out ! i \<le> ws ! i"
    by blast+
qed

section \<open>Shares of units\<close>

definition cumulative :: "int \<Rightarrow> int \<Rightarrow> int \<Rightarrow> int" where
  "cumulative amount sold n = (if n \<ge> sold then amount else go_div (amount * n) sold)"

lemma abs_go_div: "0 < b \<Longrightarrow> \<bar>go_div a b\<bar> = \<bar>a\<bar> div b"
  by (cases "a = 0") (simp_all add: go_div_def abs_mult sgn_if pos_imp_zdiv_nonneg_iff)

lemma cumulative_bound: "0 < sold \<Longrightarrow> 0 \<le> n \<Longrightarrow> \<bar>cumulative amount sold n\<bar> \<le> \<bar>amount\<bar>"
proof (cases "n \<ge> sold")
  case False
  assume s: "0 < sold" "0 \<le> n"
  have "\<bar>amount * n\<bar> \<le> \<bar>amount\<bar> * sold" using s False by (simp add: abs_mult mult_left_mono)
  then have "\<bar>amount * n\<bar> div sold \<le> \<bar>amount\<bar> * sold div sold" using s by (intro zdiv_mono1) auto
  then show ?thesis using s False by (simp add: cumulative_def abs_go_div)
qed (simp add: cumulative_def)

lemma unitShare_cumulative:
  assumes "0 < sold" "0 \<le> from" "0 < qty" "from + qty < 2 ^ 62" "\<bar>amount\<bar> * sold < 2 ^ 62"
  shows "unitShare amount from qty sold = cumulative amount sold (from + qty) - cumulative amount sold from"
proof -
  have "\<bar>amount\<bar> * 1 \<le> \<bar>amount\<bar> * sold" using assms(1) by (intro mult_left_mono) auto
  then have a: "\<bar>amount\<bar> < 2 ^ 62" using assms(5) by simp
  have prod: "wrap64 (amount * n) = amount * n" if "0 \<le> n" "n < sold" for n
  proof -
    have "\<bar>amount * n\<bar> \<le> \<bar>amount\<bar> * sold" using that by (simp add: abs_mult mult_left_mono)
    then have "\<bar>amount * n\<bar> < 2 ^ 62" using assms(5) by simp
    then show ?thesis by (intro wrap64_id) (auto simp: abs_less_iff)
  qed
  have fq: "wrap64 (from + qty) = from + qty" using assms by (intro wrap64_id) auto
  have c: "(if n \<ge> sold then amount else go_div (wrap64 (amount * n)) sold) = cumulative amount sold n" if "0 \<le> n" for n
    using prod [of n] that by (simp add: cumulative_def)
  have "\<bar>cumulative amount sold (from + qty)\<bar> < 2 ^ 62" "\<bar>cumulative amount sold from\<bar> < 2 ^ 62"
    using cumulative_bound [OF assms(1), of "from + qty" amount] cumulative_bound [OF assms(1,2), of amount] a assms(2,3) by auto
  then have "wrap64 (cumulative amount sold (from + qty) - cumulative amount sold from)
      = cumulative amount sold (from + qty) - cumulative amount sold from"
    by (intro wrap64_id) (auto simp: abs_less_iff)
  then show ?thesis
    using assms(1-3) by (simp add: unitShare_def Let_def fq c)
qed

text \<open>The shares of the pieces a line comes back in, each counted after the ones before.\<close>

fun pieces :: "int \<Rightarrow> int \<Rightarrow> int \<Rightarrow> int list \<Rightarrow> int list" where
  "pieces amount sold from [] = []"
| "pieces amount sold from (q # qs) = unitShare amount from q sold # pieces amount sold (from + q) qs"

lemma pieces_sum:
  assumes "0 < sold" "0 \<le> from" "\<forall>q \<in> set qs. 0 < q" "from + sum_list qs < 2 ^ 62" "\<bar>amount\<bar> * sold < 2 ^ 62"
  shows "sum_list (pieces amount sold from qs) = cumulative amount sold (from + sum_list qs) - cumulative amount sold from"
  using assms
proof (induction qs arbitrary: "from")
  case Nil
  then show ?case by simp
next
  case (Cons q qs)
  have "0 \<le> sum_list qs" using Cons.prems(3) by (intro sum_list_nonneg) auto
  with Cons show ?case by (simp add: unitShare_cumulative add.assoc)
qed

lemma cumulative_ends: "0 < sold \<Longrightarrow> cumulative amount sold 0 = 0" "cumulative amount sold sold = amount"
  by (simp_all add: cumulative_def go_div_def)



end
