(* ===== verification/StoredValue.thy ===== *)
theory StoredValue
  imports Gst CheckDigits
begin

text \<open>
  Gift cards and vouchers as stored value (engines/stored_value.go): registering cards,
  funding one at the till, paying with one inside a sale, blocking, releasing and cancelling,
  with the general ledger postings each of them makes.

  \<open>wallet\<close> holds the tenant beside the tables stored_value_instruments (\<open>sv_cards\<close>),
  stored_value_ledger (\<open>sv_events\<close>, in insertion order, with its last serial number) and
  customer_advances. The keyed hash a card is found by and the ring of its keys are
  arguments, and so are the random draws of generated numbers, the identifiers minted for new
  cards and the clock of the server. The reports and the encrypted copy of a number are not
  modelled.
\<close>

section \<open>Profiles and cards\<close>

record profile =
  vp_id :: string
  vp_type :: string
  vp_length :: int
  vp_alphanumeric :: bool
  vp_fixed :: bool
  vp_denominations :: "int list"
  vp_min :: int
  vp_max :: int
  vp_months :: int
  vp_reload :: bool
  vp_partial :: bool
  vp_liability :: string
  vp_active :: bool

record card =
  sc_id :: string
  sc_number :: string
  sc_profile :: string
  sc_status :: string
  sc_balance :: int
  sc_funded :: int
  sc_expires :: string
  sc_seq :: int
  sc_mode :: string
  sc_last4 :: string
  sc_customer :: string

record source =
  sr_doctype :: string
  sr_id :: string
  sr_location :: string
  sr_mode :: string
  sr_user :: string
  sr_reason :: string

record sv_event =
  se_entry :: nat
  se_card :: string
  se_seq :: int
  se_type :: string
  se_amount :: int
  se_after :: int
  se_source :: source
  se_key :: "string option"

record advance =
  ad_id :: string
  ad_amount :: int
  ad_tax :: int
  ad_interstate :: bool

record wallet =
  sv_t :: tenant
  sv_cards :: "card list"
  sv_events :: "sv_event list"
  sv_entry :: nat
  sv_advances :: "advance list"

record sv_env =
  ve_posting :: posting_env
  ve_clock :: "nat \<times> nat \<times> nat"
  ve_hash :: "string \<Rightarrow> string \<Rightarrow> string"
  ve_ring :: "string list"
  ve_signing :: string

definition pimString :: "json \<Rightarrow> string" where
  "pimString j = (if j = JNull then [] else let s = trim (show_json j) in if s = ''<nil>'' then [] else s)"

definition yesValue :: "json \<Rightarrow> bool" where
  "yesValue j = (case j of JBool b \<Rightarrow> b | JStr s \<Rightarrow> to_lower (trim s) \<in> {''yes'', ''true'', ''1''} | _ \<Rightarrow> False)"

definition fetchDocData :: "tenant \<Rightarrow> string \<Rightarrow> string \<Rightarrow> (payload \<times> string) option" where
  "fetchDocData t doctype i =
     (let live = filter (\<lambda>d. d_doctype d = doctype \<and> \<not> d_deleted d) (t_documents t) in
      if trim i = [] then None
      else map_option (\<lambda>d. (d_data d, d_status d))
        (case find (\<lambda>d. d_id d = i) live of Some d \<Rightarrow> Some d
         | None \<Rightarrow> find (\<lambda>d. jtext (d_data d) ''code'' = Some i) live))"

definition AccountStoredValueLiab :: string where
  "AccountStoredValueLiab = ''2610''"

definition denominations_of :: "string \<Rightarrow> int list" where
  "denominations_of s = List.map_filter (\<lambda>part. case parse_float (trim part) of
     Some v \<Rightarrow> if v > 0 then Some (RupeesToPaise v) else None | None \<Rightarrow> None) (split_at CHR '','' s)"

definition LoadStoredValueProfile :: "tenant \<Rightarrow> string \<Rightarrow> profile res" where
  "LoadStoredValueProfile t i = (case fetchDocData t ''StoredValueProfile'' i of
     None \<Rightarrow> Inl (Coded ''POSOFF-0434'')
   | Some (m, status) \<Rightarrow>
       let liability = trim (pimString (jget m ''liability_account''));
           len = go_trunc (numFromInterface (jget m ''number_length''))
       in Inr \<lparr>vp_id = i, vp_type = pimString (jget m ''instrument_type''),
            vp_length = (if len \<le> 0 then 16 else len),
            vp_alphanumeric = equal_fold (pimString (jget m ''number_format'')) ''Alphanumeric'',
            vp_fixed = equal_fold (pimString (jget m ''denomination_mode'')) ''Fixed'',
            vp_denominations = denominations_of (pimString (jget m ''denominations'')),
            vp_min = RupeesToPaise (numFromInterface (jget m ''min_amount'')),
            vp_max = RupeesToPaise (numFromInterface (jget m ''max_amount'')),
            vp_months = go_trunc (numFromInterface (jget m ''validity_months'')),
            vp_reload = yesValue (jget m ''reload_allowed''),
            vp_partial = (\<not> equal_fold (trim (pimString (jget m ''partial_redemption''))) ''No''),
            vp_liability = (if liability = [] then AccountStoredValueLiab else liability),
            vp_active = (\<not> equal_fold status ''Inactive'' \<and> \<not> equal_fold (pimString (jget m ''status'')) ''Inactive'')\<rparr>)"

section \<open>Card numbers\<close>

definition NormalizeCardNumber :: "string \<Rightarrow> string" where
  "NormalizeCardNumber n = filter (\<lambda>c. is_digit c \<or> is_upper c) (to_upper n)"

definition MaskCardNumber :: "string \<Rightarrow> string" where
  "MaskCardNumber n = (let m = NormalizeCardNumber n in
     if length m \<le> 4 then ''****'' else ''**** '' @ drop (length m - 4) m)"

definition validateCardNumberFormat :: "profile \<Rightarrow> string \<Rightarrow> unit res" where
  "validateCardNumberFormat p n =
     (if int (length n) \<noteq> vp_length p then Inl (Coded ''POSOFF-0431'')
      else if \<not> vp_alphanumeric p \<and> \<not> list_all is_digit n then Inl (Coded ''POSOFF-0431'')
      else Inr ())"

text \<open>
  A number drawn from random values below 32 (letters and digits without the look-alikes) or
  below 10 (with the Luhn digit last). None: the draws given ran out.
\<close>

definition alnum :: string where
  "alnum = ''ABCDEFGHJKLMNPQRSTUVWXYZ23456789''"

fun draw_letters :: "nat \<Rightarrow> string \<Rightarrow> nat list \<Rightarrow> (string \<times> nat list) option" where
  "draw_letters len b ds = (if len \<le> length b then Some (b, ds) else case ds of
     [] \<Rightarrow> None | d # ds' \<Rightarrow> draw_letters len (b @ [alnum ! (d mod 32)]) ds')"

fun draw_digits :: "nat \<Rightarrow> string \<Rightarrow> nat list \<Rightarrow> (string \<times> nat list) option" where
  "draw_digits len b ds = (if len \<le> length b then Some (b, ds) else case ds of
     [] \<Rightarrow> None
   | d # ds' \<Rightarrow> if b = [] \<and> d mod 10 = 0 then draw_digits len b ds'
               else draw_digits len (b @ [digit_char (d mod 10)]) ds')"

declare draw_letters.simps [simp del] draw_digits.simps [simp del]

definition generateCardNumber :: "profile \<Rightarrow> nat list \<Rightarrow> (string \<times> nat list) option" where
  "generateCardNumber p ds =
     (if vp_alphanumeric p then draw_letters (nat (vp_length p)) [] ds
      else map_option (\<lambda>(body, rest). (body @ dec (luhnCheckDigit body), rest)) (draw_digits (nat (vp_length p - 1)) [] ds))"

definition svHashWith :: "sv_env \<Rightarrow> string \<Rightarrow> string \<Rightarrow> string" where
  "svHashWith env k number = ''h1:'' @ k @ '':'' @ ve_hash env k number"

definition svLookupKeys :: "sv_env \<Rightarrow> string \<Rightarrow> string list" where
  "svLookupKeys env number = map (\<lambda>k. svHashWith env k number) (ve_ring env) @ [number]"

definition svLast4 :: "string \<Rightarrow> string" where
  "svLast4 number = (if length number \<le> 4 then [] else drop (length number - 4) number)"

definition masked :: "card \<Rightarrow> string" where
  "masked c = (if sc_last4 c \<noteq> [] then ''**** '' @ sc_last4 c
     else if take 3 (sc_number c) = ''h1:'' then ''****'' else MaskCardNumber (sc_number c))"

definition card_numbered :: "sv_env \<Rightarrow> string \<Rightarrow> wallet \<Rightarrow> card option" where
  "card_numbered env number s = find (\<lambda>c. sc_number c \<in> set (svLookupKeys env number)) (sv_cards s)"

definition find_card :: "string \<Rightarrow> wallet \<Rightarrow> card option" where
  "find_card i s = find (\<lambda>c. sc_id c = i) (sv_cards s)"

section \<open>Registering cards\<close>

record register_result =
  rr_registered :: nat
  rr_numbers :: "string list"
  rr_masked :: "string list"

text \<open>The numbers asked for, listed or generated; None: the draws ran out.\<close>

fun generate_numbers :: "profile \<Rightarrow> nat \<Rightarrow> nat list \<Rightarrow> (string list \<times> nat list) option" where
  "generate_numbers p 0 ds = Some ([], ds)"
| "generate_numbers p (Suc k) ds = (case generateCardNumber p ds of None \<Rightarrow> None
     | Some (n, ds1) \<Rightarrow> map_option (\<lambda>(ns, ds2). (n # ns, ds2)) (generate_numbers p k ds1))"

fun listed_numbers :: "profile \<Rightarrow> string list \<Rightarrow> string list \<Rightarrow> string list res" where
  "listed_numbers p seen [] = Inr []"
| "listed_numbers p seen (raw # rs) =
     (let n = NormalizeCardNumber raw in
      if n = [] then listed_numbers p seen rs
      else rbind (validateCardNumberFormat p n) (\<lambda>_.
        if n \<in> set seen then Inl (Coded ''POSOFF-0432'')
        else rbind (listed_numbers p (n # seen) rs) (\<lambda>ns. Inr (n # ns))))"

definition new_card :: "string \<Rightarrow> string \<Rightarrow> string \<Rightarrow> string \<Rightarrow> card" where
  "new_card i number prof last4 = \<lparr>sc_id = i, sc_number = number, sc_profile = prof, sc_status = ''Inactive'',
     sc_balance = 0, sc_funded = 0, sc_expires = [], sc_seq = 0, sc_mode = [], sc_last4 = last4, sc_customer = []\<rparr>"

definition number_known :: "sv_env \<Rightarrow> string \<Rightarrow> wallet \<Rightarrow> bool" where
  "number_known env n s \<longleftrightarrow> list_ex (\<lambda>c. sc_number c \<in> set (svLookupKeys env n) \<or> sc_number c = svHashWith env (ve_signing env) n) (sv_cards s)"

text \<open>
  The insertion loop. A generated number that is taken is drawn again; \<open>fuel\<close> bounds the
  iterations (a listed number takes one each), and None is running out of fuel or draws.
\<close>

fun register_cards ::
  "nat \<Rightarrow> sv_env \<Rightarrow> profile \<Rightarrow> bool \<Rightarrow> (nat \<Rightarrow> string) \<Rightarrow> string list \<Rightarrow> nat list \<Rightarrow> register_result \<Rightarrow> wallet \<Rightarrow>
     (register_result \<times> wallet) outcome" where
  "register_cards fuel env p gen mint [] ds out s = Some (Inr (out, s))"
| "register_cards 0 env p gen mint (n # ns) ds out s = None"
| "register_cards (Suc fuel) env p gen mint (n # ns) ds out s =
     (if number_known env n s then
        if gen then (case generateCardNumber p ds of None \<Rightarrow> None
          | Some (n', ds') \<Rightarrow> register_cards fuel env p gen mint (n' # ns) ds' out s)
        else Some (Inl (Coded ''POSOFF-0432''))
      else let i = mint (length (sv_cards s)) in
        if find_card i s \<noteq> None then Some (Inl (Plain ''duplicate key value violates unique constraint''))
        else register_cards fuel env p gen mint ns ds
          (out\<lparr>rr_registered := rr_registered out + 1, rr_masked := rr_masked out @ [MaskCardNumber n],
             rr_numbers := rr_numbers out @ (if gen then [n] else [])\<rparr>)
          (s\<lparr>sv_cards := sv_cards s @ [new_card i (svHashWith env (ve_signing env) n) (vp_id p) (svLast4 n)]\<rparr>))"

definition RegisterStoredValueCards ::
  "nat \<Rightarrow> sv_env \<Rightarrow> (nat \<Rightarrow> string) \<Rightarrow> nat list \<Rightarrow> string \<Rightarrow> string list \<Rightarrow> nat \<Rightarrow> wallet \<Rightarrow> (register_result \<times> wallet) outcome" where
  "RegisterStoredValueCards fuel env mint ds prof listed generate s =
     (case LoadStoredValueProfile (sv_t s) (trim prof) of Inl e \<Rightarrow> Some (Inl e)
      | Inr p \<Rightarrow>
        let none = \<lparr>rr_registered = 0, rr_numbers = [], rr_masked = []\<rparr> in
        if \<not> vp_active p then Some (Inl (Coded ''POSOFF-0434''))
        else if 0 < generate then
          if listed \<noteq> [] then Some (Inl (Coded ''POSOFF-0431''))
          else if generate > 1000 then Some (Inl (Coded ''POSOFF-0431''))
          else (case generate_numbers p generate ds of None \<Rightarrow> None
            | Some (ns, ds') \<Rightarrow> register_cards fuel env p True mint ns ds' none s)
        else if listed = [] \<or> length listed > 5000 then Some (Inl (Coded ''POSOFF-0431''))
        else (case listed_numbers p [] listed of Inl e \<Rightarrow> Some (Inl e)
            | Inr ns \<Rightarrow> register_cards fuel env p False mint ns ds none s))"

section \<open>Events\<close>

definition effectiveStatus :: "string \<Rightarrow> card \<Rightarrow> string" where
  "effectiveStatus today c =
     (if sc_status c \<in> {''Active'', ''Partially redeemed''} \<and> sc_expires c \<noteq> [] \<and> sc_expires c < today
      then ''Expired'' else sc_status c)"

definition statusFromBalance :: "card \<Rightarrow> string" where
  "statusFromBalance c =
     (if sc_funded c = 0 then ''Inactive''
      else if sc_balance c = 0 then ''Fully redeemed''
      else if sc_balance c < sc_funded c then ''Partially redeemed'' else ''Active'')"

definition duplicate_key :: err where
  "duplicate_key = Plain ''duplicate key value violates unique constraint''"

definition put_card :: "card \<Rightarrow> wallet \<Rightarrow> wallet" where
  "put_card c s = s\<lparr>sv_cards := map (\<lambda>k. if sc_id k = sc_id c
     then k\<lparr>sc_balance := sc_balance c, sc_funded := sc_funded c, sc_status := sc_status c, sc_seq := sc_seq c\<rparr> else k) (sv_cards s)\<rparr>"

definition moved_card :: "string \<Rightarrow> int \<Rightarrow> string \<Rightarrow> card \<Rightarrow> card" where
  "moved_card event amount status c =
     (let c1 = c\<lparr>sc_balance := wrap64 (sc_balance c + amount), sc_seq := sc_seq c + 1,
          sc_funded := (if amount > 0 \<and> event \<noteq> ''REVERSAL'' then wrap64 (sc_funded c + amount) else sc_funded c)\<rparr>
      in c1\<lparr>sc_status := (if status = [] then statusFromBalance c1 else status)\<rparr>)"

definition appendSVEvent ::
  "card \<Rightarrow> string \<Rightarrow> int \<Rightarrow> string \<Rightarrow> source \<Rightarrow> string \<Rightarrow> wallet \<Rightarrow> (card \<times> nat \<times> wallet) res" where
  "appendSVEvent c event amount status src idem s =
     (let new = wrap64 (sc_balance c + amount); key = nullable idem; c' = moved_card event amount status c in
      if new < 0 then Inl (Coded ''POSOFF-0433'')
      else if list_ex (\<lambda>e. (key \<noteq> None \<and> se_key e = key) \<or> (se_card e = sc_id c \<and> se_seq e = sc_seq c + 1)) (sv_events s)
           \<or> find_card (sc_id c) s = None
      then Inl duplicate_key
      else Inr (c', sv_entry s + 1, put_card c' (s\<lparr>sv_entry := sv_entry s + 1,
        sv_events := sv_events s @ [\<lparr>se_entry = sv_entry s + 1, se_card = sc_id c, se_seq = sc_seq c + 1, se_type = event,
          se_amount = amount, se_after = new, se_source = src, se_key = key\<rparr>]\<rparr>)))"

section \<open>Issuing and adding value\<close>

record receipt =
  rc_entry :: nat
  rc_event :: string
  rc_masked :: string
  rc_profile :: string
  rc_amount :: rat
  rc_balance :: rat
  rc_expires :: string
  rc_location :: string
  rc_mode :: string
  rc_user :: string
  rc_replayed :: bool

record issue_request =
  iq_number :: string
  iq_amount :: rat
  iq_mode :: string
  iq_location :: string
  iq_customer :: string
  iq_key :: string

definition checkIssueAmount :: "profile \<Rightarrow> int \<Rightarrow> unit res" where
  "checkIssueAmount p amount =
     (if amount \<le> 0 then Inl (Coded ''POSOFF-0435'')
      else if vp_fixed p then if amount \<in> set (vp_denominations p) then Inr () else Inl (Coded ''POSOFF-0435'')
      else if (vp_min p > 0 \<and> amount < vp_min p) \<or> (vp_max p > 0 \<and> amount > vp_max p) then Inl (Coded ''POSOFF-0435'')
      else Inr ())"

text \<open>\<open>AddDate(0, months, 0)\<close> for months \<open>\<ge>\<close> 0: a day past the end of the month runs into the next.\<close>

definition add_months :: "nat \<times> nat \<times> nat \<Rightarrow> nat \<Rightarrow> nat \<times> nat \<times> nat" where
  "add_months = (\<lambda>(y, m, d) k.
     let y' = y + (m - 1 + k) div 12; m' = (m - 1 + k) mod 12 + 1; n = days_in_month y' m'
     in if d \<le> n then (y', m', d) else (y', m' + 1, d - n))"

definition svReceiptByKey :: "sv_env \<Rightarrow> string \<Rightarrow> string \<Rightarrow> wallet \<Rightarrow> receipt option res" where
  "svReceiptByKey env idem number s =
     (case find (\<lambda>e. se_key e = Some idem \<and> find_card (se_card e) s \<noteq> None) (sv_events s) of
        None \<Rightarrow> Inr None
      | Some e \<Rightarrow> (case find_card (se_card e) s of
          None \<Rightarrow> Inr None
        | Some c \<Rightarrow>
            if sc_number c \<notin> set (svLookupKeys env number) then Inl (Coded ''POSOFF-0436'')
            else Inr (Some \<lparr>rc_entry = se_entry e, rc_event = se_type e, rc_masked = MaskCardNumber number,
              rc_profile = sc_profile c, rc_amount = PaiseToRupees (se_amount e), rc_balance = PaiseToRupees (se_after e),
              rc_expires = sc_expires c, rc_location = sr_location (se_source e), rc_mode = sr_mode (se_source e),
              rc_user = sr_user (se_source e), rc_replayed = True\<rparr>)))"

text \<open>The UPDATE that follows an activation.\<close>

definition activate_card :: "string \<Rightarrow> issue_request \<Rightarrow> string \<Rightarrow> wallet \<Rightarrow> wallet" where
  "activate_card expires req i s = s\<lparr>sv_cards := map (\<lambda>k. if sc_id k = i
     then k\<lparr>sc_expires := expires, sc_mode := iq_mode req, sc_customer := iq_customer req\<rparr> else k) (sv_cards s)\<rparr>"

definition post_wallet ::
  "sv_env \<Rightarrow> string \<Rightarrow> string \<Rightarrow> amounts \<Rightarrow> amounts \<Rightarrow> string \<Rightarrow> wallet \<Rightarrow> wallet res" where
  "post_wallet env dt i debits credits key s =
     rbind (PostDoubleEntryTx (ve_posting env) dt i debits credits [] key no_opts (sv_t s)) (\<lambda>t. Inr (s\<lparr>sv_t := t\<rparr>))"

definition fund_key :: "nat \<Rightarrow> string" where
  "fund_key n = ''StoredValue:'' @ dec n @ '':FUND''"

definition IssueStoredValue :: "sv_env \<Rightarrow> string \<Rightarrow> issue_request \<Rightarrow> wallet \<Rightarrow> (receipt \<times> wallet) res" where
  "IssueStoredValue env user req s =
     (let number = NormalizeCardNumber (iq_number req); key = trim (iq_key req); idem = ''issue|'' @ key;
          amount = RupeesToPaise (iq_amount req); today = t_today (sv_t s) in
      if number = [] \<or> key = [] then Inl (Coded ''POSOFF-0431'')
      else rbind (svReceiptByKey env idem number s) (\<lambda>replay. case replay of Some r \<Rightarrow> Inr (r, s) | None \<Rightarrow>
        (case card_numbered env number s of None \<Rightarrow> Inl (Coded ''POSOFF-0431'')
         | Some c \<Rightarrow>
          rbind (LoadStoredValueProfile (sv_t s) (sc_profile c)) (\<lambda>p.
          if \<not> vp_active p then Inl (Coded ''POSOFF-0434'')
          else rbind (checkIssueAmount p amount) (\<lambda>_.
          let st = effectiveStatus today c in
          rbind (if st = ''Inactive'' then Inr ''ACTIVATE''
                 else if st \<in> {''Active'', ''Partially redeemed'', ''Fully redeemed''}
                 then if vp_reload p then Inr ''RELOAD'' else Inl (Coded ''POSOFF-0432'')
                 else Inl (Coded ''POSOFF-0434'')) (\<lambda>event.
          rbind (appendSVEvent c event amount [] \<lparr>sr_doctype = ''GiftCardIssue'', sr_id = key, sr_location = iq_location req,
                   sr_mode = iq_mode req, sr_user = user, sr_reason = []\<rparr> idem s) (\<lambda>(c1, entry, s1).
          let stored = (if event = ''ACTIVATE'' \<and> vp_months p > 0
                        then format_date (add_months (ve_clock env) (nat (vp_months p))) else []);
              shown = (if event = ''ACTIVATE'' \<and> vp_months p > 0 then stored else sc_expires c1);
              s2 = (if event = ''ACTIVATE'' then activate_card stored req (sc_id c) s1 else s1)
          in rbind (post_wallet env ''StoredValue'' (sc_id c) [(paymentModeClearingAccount (iq_mode req), amount)]
                     [(vp_liability p, amount)] (fund_key entry) s2) (\<lambda>s3.
             Inr (\<lparr>rc_entry = entry, rc_event = event, rc_masked = MaskCardNumber number, rc_profile = vp_id p,
               rc_amount = PaiseToRupees amount, rc_balance = PaiseToRupees (sc_balance c1), rc_expires = shown,
               rc_location = iq_location req, rc_mode = iq_mode req, rc_user = user, rc_replayed = False\<rparr>, s3)))))))))"

section \<open>Balance and redemption\<close>

record card_view =
  cv_masked :: string
  cv_profile :: string
  cv_status :: string
  cv_balance :: rat
  cv_funded :: rat
  cv_expires :: string
  cv_partial :: bool
  cv_reload :: bool

definition StoredValueBalance :: "sv_env \<Rightarrow> string \<Rightarrow> wallet \<Rightarrow> card_view res" where
  "StoredValueBalance env number0 s = (let number = NormalizeCardNumber number0 in
     case card_numbered env number s of None \<Rightarrow> Inl (Coded ''POSOFF-0431'')
     | Some c \<Rightarrow> let p = LoadStoredValueProfile (sv_t s) (sc_profile c) in
         Inr \<lparr>cv_masked = MaskCardNumber number, cv_profile = sc_profile c, cv_status = effectiveStatus (t_today (sv_t s)) c,
           cv_balance = PaiseToRupees (sc_balance c), cv_funded = PaiseToRupees (sc_funded c), cv_expires = sc_expires c,
           cv_partial = (case p of Inr q \<Rightarrow> vp_partial q | Inl _ \<Rightarrow> False),
           cv_reload = (case p of Inr q \<Rightarrow> vp_reload q | Inl _ \<Rightarrow> False)\<rparr>)"

record tender =
  td_card :: string
  td_masked :: string
  td_paise :: int

definition checkRedeemable :: "card \<Rightarrow> profile \<Rightarrow> int \<Rightarrow> string \<Rightarrow> unit res" where
  "checkRedeemable c p amount today =
     (let st = effectiveStatus today c in
      if st = ''Fully redeemed'' then Inl (Coded ''POSOFF-0433'')
      else if st \<notin> {''Active'', ''Partially redeemed''} then Inl (Coded ''POSOFF-0434'')
      else if amount \<le> 0 then Inl (Coded ''POSOFF-0435'')
      else if amount > sc_balance c then Inl (Coded ''POSOFF-0433'')
      else if \<not> vp_partial p \<and> amount \<noteq> sc_balance c then Inl (Coded ''POSOFF-0435'')
      else Inr ())"

fun prepare_tenders :: "sv_env \<Rightarrow> wallet \<Rightarrow> string list \<Rightarrow> (string \<times> rat) list \<Rightarrow> tender list res" where
  "prepare_tenders env s seen [] = Inr []"
| "prepare_tenders env s seen ((typed, rupees) # rs) =
     (let number = NormalizeCardNumber typed; amount = RupeesToPaise rupees in
      if number \<in> set seen then Inl (Coded ''POSOFF-0435'')
      else (case card_numbered env number s of None \<Rightarrow> Inl (Coded ''POSOFF-0431'')
        | Some c \<Rightarrow> rbind (LoadStoredValueProfile (sv_t s) (sc_profile c)) (\<lambda>p.
            rbind (checkRedeemable c p amount (t_today (sv_t s))) (\<lambda>_.
            rbind (prepare_tenders env s (number # seen) rs) (\<lambda>out.
              Inr (\<lparr>td_card = sc_id c, td_masked = MaskCardNumber number, td_paise = amount\<rparr> # out))))))"

definition PrepareGiftCardTenders :: "sv_env \<Rightarrow> (string \<times> rat) list \<Rightarrow> int \<Rightarrow> wallet \<Rightarrow> tender list res" where
  "PrepareGiftCardTenders env reqs due s =
     (if reqs = [] then Inr []
      else rbind (prepare_tenders env s [] reqs) (\<lambda>out.
        if foldl (\<lambda>a td. wrap64 (a + td_paise td)) 0 out > due then Inl (Coded ''POSOFF-0435'') else Inr out))"

text \<open>The output tax of an advance for services (engines/customer_advance.go) that a bill uses.\<close>

definition gstSplit :: "int \<Rightarrow> bool \<Rightarrow> amounts" where
  "gstSplit tax interstate = (if tax \<le> 0 then [] else if interstate then [(''2202'', tax)]
     else [(''2200'', go_div tax 2), (''2201'', tax - go_div tax 2)])"

definition AdvanceProfileID :: string where
  "AdvanceProfileID = ''Customer Advance''"

definition AccountCustomerAdvLia :: string where
  "AccountCustomerAdvLia = ''2640''"

definition advanceTaxShareTx :: "string \<Rightarrow> int \<Rightarrow> wallet \<Rightarrow> int \<times> bool" where
  "advanceTaxShareTx number part s = (case find (\<lambda>a. ad_id a = number) (sv_advances s) of
     None \<Rightarrow> (0, False)
   | Some a \<Rightarrow> if ad_amount a = 0 \<or> ad_tax a = 0 then (0, False)
       else (math_round (fl (fl (fl (of_int (ad_tax a)) * fl (of_int part)) / fl (of_int (ad_amount a)))), ad_interstate a))"

definition postAdvanceTaxOnUseTx :: "sv_env \<Rightarrow> string \<Rightarrow> string \<Rightarrow> int \<Rightarrow> wallet \<Rightarrow> wallet res" where
  "postAdvanceTaxOnUseTx env cart number used s =
     (case advanceTaxShareTx number used s of (share, interstate) \<Rightarrow>
        if share = 0 then Inr s
        else post_wallet env ''POSCart'' cart (gstSplit share interstate) [(AccountCustomerAdvLia, share)]
               (''POSCart:'' @ cart @ '':ADVANCETAX:'' @ number) s)"

definition redeem_idem :: "string \<Rightarrow> string \<Rightarrow> string" where
  "redeem_idem cart i = ''redeem|'' @ cart @ ''|'' @ i"

definition redeem_key :: "string \<Rightarrow> string \<Rightarrow> string" where
  "redeem_key cart i = ''POSCart:'' @ cart @ '':GIFTCARD:'' @ i"

definition key_used :: "string \<Rightarrow> wallet \<Rightarrow> bool" where
  "key_used idem s \<longleftrightarrow> list_ex (\<lambda>e. se_key e = Some idem) (sv_events s)"

definition redeem_one ::
  "sv_env \<Rightarrow> string \<Rightarrow> string \<Rightarrow> string \<Rightarrow> string \<Rightarrow> tender \<Rightarrow> wallet \<Rightarrow> wallet res" where
  "redeem_one env cart location cashier mode td s =
     (let i = td_card td; idem = redeem_idem cart i in
      if key_used idem s then Inr s
      else (case find_card i s of None \<Rightarrow> Inl (Plain ''gift card'')
        | Some c \<Rightarrow> rbind (LoadStoredValueProfile (sv_t s) (sc_profile c)) (\<lambda>p.
            rbind (checkRedeemable c p (td_paise td) (t_today (sv_t s))) (\<lambda>_.
            rbind (appendSVEvent c ''REDEEM'' (- td_paise td) [] \<lparr>sr_doctype = ''POSCart'', sr_id = cart, sr_location = location,
                     sr_mode = mode, sr_user = cashier, sr_reason = []\<rparr> idem s) (\<lambda>(c1, _, s1).
            rbind (post_wallet env ''POSCart'' cart [(vp_liability p, td_paise td)]
                     [(paymentModeClearingAccount mode, td_paise td)] (redeem_key cart i) s1) (\<lambda>s2.
            if sc_profile c = AdvanceProfileID then postAdvanceTaxOnUseTx env cart i (td_paise td) s2 else Inr s2))))))"

definition redeemGiftCardTendersTx ::
  "sv_env \<Rightarrow> string \<Rightarrow> string \<Rightarrow> string \<Rightarrow> string \<Rightarrow> tender list \<Rightarrow> wallet \<Rightarrow> wallet res" where
  "redeemGiftCardTendersTx env cart location cashier mode tenders s =
     efold (\<lambda>s td. redeem_one env cart location cashier mode td s) s (sort_key td_card tenders)"

section \<open>Blocking, releasing and cancelling\<close>

definition SetStoredValueBlocked :: "sv_env \<Rightarrow> string \<Rightarrow> string \<Rightarrow> string \<Rightarrow> bool \<Rightarrow> wallet \<Rightarrow> wallet res" where
  "SetStoredValueBlocked env user number0 reason block s =
     (let number = NormalizeCardNumber number0 in
      if trim reason = [] then Inl (Coded ''POSOFF-0434'')
      else (case card_numbered env number s of None \<Rightarrow> Inl (Coded ''POSOFF-0431'')
        | Some c \<Rightarrow>
          let src = \<lparr>sr_doctype = ''GiftCard'', sr_id = sc_id c, sr_location = [], sr_mode = [], sr_user = user, sr_reason = trim reason\<rparr> in
          if block then
            if sc_status c \<in> {''Blocked'', ''Cancelled''} then Inl (Coded ''POSOFF-0434'')
            else rbind (appendSVEvent c ''BLOCK'' 0 ''Blocked'' src [] s) (\<lambda>(_, _, s1). Inr s1)
          else if sc_status c \<noteq> ''Blocked'' then Inl (Coded ''POSOFF-0434'')
          else rbind (appendSVEvent c ''UNBLOCK'' 0 [] src [] s) (\<lambda>(_, _, s1). Inr s1)))"

definition cancel_key :: "nat \<Rightarrow> string" where
  "cancel_key n = ''StoredValue:'' @ dec n @ '':CANCEL''"

definition CancelStoredValueIssue :: "sv_env \<Rightarrow> string \<Rightarrow> string \<Rightarrow> string \<Rightarrow> string \<Rightarrow> wallet \<Rightarrow> (receipt \<times> wallet) res" where
  "CancelStoredValueIssue env user number0 reason location s =
     (let number = NormalizeCardNumber number0 in
      if trim reason = [] then Inl (Coded ''POSOFF-0434'')
      else (case card_numbered env number s of None \<Rightarrow> Inl (Coded ''POSOFF-0431'')
        | Some c \<Rightarrow>
          if sc_status c \<noteq> ''Active'' \<or> sc_balance c \<noteq> sc_funded c \<or> sc_balance c = 0 then Inl (Coded ''POSOFF-0434'')
          else rbind (LoadStoredValueProfile (sv_t s) (sc_profile c)) (\<lambda>p.
            let refund = sc_balance c in
            rbind (appendSVEvent c ''CANCEL'' (- refund) ''Cancelled'' \<lparr>sr_doctype = ''GiftCard'', sr_id = sc_id c,
                     sr_location = location, sr_mode = sc_mode c, sr_user = user, sr_reason = trim reason\<rparr>
                     (''cancel|'' @ sc_id c) s) (\<lambda>(_, entry, s1).
            rbind (post_wallet env ''StoredValue'' (sc_id c) [(vp_liability p, refund)]
                     [(paymentModeClearingAccount (sc_mode c), refund)] (cancel_key entry) s1) (\<lambda>s2.
            Inr (\<lparr>rc_entry = entry, rc_event = ''CANCEL'', rc_masked = MaskCardNumber number, rc_profile = sc_profile c,
              rc_amount = PaiseToRupees refund, rc_balance = 0, rc_expires = [], rc_location = location,
              rc_mode = sc_mode c, rc_user = user, rc_replayed = False\<rparr>, s2))))))"

section \<open>A card is the sum of its events\<close>

definition card_events :: "string \<Rightarrow> wallet \<Rightarrow> sv_event list" where
  "card_events i s = filter (\<lambda>e. se_card e = i) (sv_events s)"

definition total_amount :: "sv_event list \<Rightarrow> int" where
  "total_amount es = sum_list (map se_amount es)"

text \<open>The n-th event of a card has sequence number n and the balance after it, never negative.\<close>

definition chained :: "sv_event list \<Rightarrow> bool" where
  "chained es \<longleftrightarrow> (\<forall>k < length es. se_seq (es ! k) = int k + 1
     \<and> se_after (es ! k) = total_amount (take (Suc k) es) \<and> 0 \<le> se_after (es ! k))"

definition card_ok :: "wallet \<Rightarrow> card \<Rightarrow> bool" where
  "card_ok s c \<longleftrightarrow> 0 \<le> sc_balance c \<and> sc_balance c < 2 ^ 63 \<and> sc_balance c = total_amount (card_events (sc_id c) s)
     \<and> sc_seq c = int (length (card_events (sc_id c) s)) \<and> chained (card_events (sc_id c) s) \<and> CHR '':'' \<notin> set (sc_id c)"

definition cards_ok :: "wallet \<Rightarrow> bool" where
  "cards_ok s \<longleftrightarrow> distinct (map sc_id (sv_cards s)) \<and> (\<forall>c \<in> set (sv_cards s). card_ok s c)
     \<and> (\<forall>e \<in> set (sv_events s). se_card e \<in> sc_id ` set (sv_cards s))"

lemma find_cardD: "find_card i s = Some c \<Longrightarrow> c \<in> set (sv_cards s) \<and> sc_id c = i"
  by (auto simp: find_card_def find_Some_iff in_set_conv_nth)

lemma find_card_iff: "distinct (map sc_id (sv_cards s)) \<Longrightarrow> find_card i s = Some c \<longleftrightarrow> c \<in> set (sv_cards s) \<and> sc_id c = i"
proof
  show "find_card i s = Some c \<Longrightarrow> c \<in> set (sv_cards s) \<and> sc_id c = i" by (rule find_cardD)
  assume d: "distinct (map sc_id (sv_cards s))" and c: "c \<in> set (sv_cards s) \<and> sc_id c = i"
  then obtain c' where c': "find_card i s = Some c'"
    by (cases "find_card i s") (auto simp: find_card_def find_None_iff)
  from find_cardD [OF this] c d have "c' = c" by (auto simp: distinct_map dest: inj_onD)
  with c' show "find_card i s = Some c" by simp
qed

lemma find_card_None: "find_card i s = None \<longleftrightarrow> i \<notin> sc_id ` set (sv_cards s)"
  by (auto simp: find_card_def find_None_iff)

lemma card_numbered_mem: "card_numbered env n s = Some c \<Longrightarrow> c \<in> set (sv_cards s)"
  by (auto simp: card_numbered_def find_Some_iff in_set_conv_nth)

lemma wrap64_sum: "0 \<le> b \<Longrightarrow> b < 2 ^ 63 \<Longrightarrow> - (2 ^ 63) \<le> a \<Longrightarrow> a < 2 ^ 63 \<Longrightarrow> 0 \<le> wrap64 (b + a) \<Longrightarrow> wrap64 (b + a) = b + a"
proof -
  assume b: "0 \<le> b" "b < 2 ^ 63" and a: "- (2 ^ 63) \<le> a" "a < 2 ^ 63" and w: "0 \<le> wrap64 (b + a)"
  show ?thesis
  proof (cases "b + a < 2 ^ 63")
    case True
    then show ?thesis using a b by (intro wrap64_id) simp_all
  next
    case False
    have "(b + a + 2 ^ 63) mod 2 ^ 64 = b + a + 2 ^ 63 - 2 ^ 64"
      using False a b mod_pos_geq [of "2 ^ 64" "b + a + 2 ^ 63"] by simp
    with w a b show ?thesis by (simp add: wrap64_def)
  qed
qed

lemma put_card_simps [simp]:
  "sv_t (put_card c s) = sv_t s" "sv_events (put_card c s) = sv_events s" "sv_entry (put_card c s) = sv_entry s"
  "sv_advances (put_card c s) = sv_advances s" "map sc_id (sv_cards (put_card c s)) = map sc_id (sv_cards s)"
  by (simp_all add: put_card_def)

lemma put_card_ids [simp]: "sc_id ` set (sv_cards (put_card c s)) = sc_id ` set (sv_cards s)"
  by (simp only: set_map [symmetric] put_card_simps)

lemma moved_card_simps [simp]:
  "sc_id (moved_card ev a st c) = sc_id c" "sc_profile (moved_card ev a st c) = sc_profile c"
  "sc_balance (moved_card ev a st c) = wrap64 (sc_balance c + a)" "sc_seq (moved_card ev a st c) = sc_seq c + 1"
  by (simp_all add: moved_card_def Let_def)

text \<open>What an appended event does to a sound wallet.\<close>

definition event_keys :: "wallet \<Rightarrow> string set" where
  "event_keys s = {k. key_used k s}"

lemma appendSVEventE:
  assumes "appendSVEvent c ev a st src idem s = Inr (c', n, s')"
  obtains e where "c' = moved_card ev a st c" "n = sv_entry s + 1" "sv_entry s' = sv_entry s + 1" "sv_t s' = sv_t s"
    "sv_advances s' = sv_advances s" "sv_events s' = sv_events s @ [e]" "sv_cards s' = sv_cards (put_card (moved_card ev a st c) s)"
    "se_card e = sc_id c" "se_seq e = sc_seq c + 1" "se_amount e = a" "se_after e = wrap64 (sc_balance c + a)"
    "0 \<le> wrap64 (sc_balance c + a)" "se_key e = nullable idem" "sc_id c \<in> sc_id ` set (sv_cards s)"
proof -
  let ?e = "\<lparr>se_entry = sv_entry s + 1, se_card = sc_id c, se_seq = sc_seq c + 1, se_type = ev,
          se_amount = a, se_after = wrap64 (sc_balance c + a), se_source = src, se_key = nullable idem\<rparr>"
  have f: "find_card (sc_id c) s \<noteq> None" and w: "0 \<le> wrap64 (sc_balance c + a)"
    and r: "c' = moved_card ev a st c" "n = sv_entry s + 1"
      "s' = put_card (moved_card ev a st c) (s\<lparr>sv_entry := sv_entry s + 1, sv_events := sv_events s @ [?e]\<rparr>)"
    using assms unfolding appendSVEvent_def Let_def by (auto split: if_splits)
  show thesis
    by (rule that [of ?e]) (use f w r in \<open>simp_all add: find_card_None put_card_def\<close>)
qed

lemma chained_snoc:
  assumes "chained es" "se_seq e = int (length es) + 1" "se_after e = total_amount es + se_amount e" "0 \<le> se_after e"
  shows "chained (es @ [e])"
  unfolding chained_def
proof (intro allI impI)
  fix k assume k: "k < length (es @ [e])"
  show "se_seq ((es @ [e]) ! k) = int k + 1 \<and> se_after ((es @ [e]) ! k) = total_amount (take (Suc k) (es @ [e])) \<and> 0 \<le> se_after ((es @ [e]) ! k)"
  proof (cases "k < length es")
    case True
    from assms(1) [unfolded chained_def, rule_format, OF True] True show ?thesis by (simp add: nth_append)
  next
    case False
    with k have "k = length es" by simp
    with assms(2-4) show ?thesis by (simp add: total_amount_def)
  qed
qed

lemma append_cards_ok:
  assumes ok: "cards_ok s" and c: "c \<in> set (sv_cards s)" and a: "- (2 ^ 63) \<le> a" "a < 2 ^ 63"
    and r: "appendSVEvent c ev a st src idem s = Inr (c', n, s')"
  shows "cards_ok s'" "sc_balance c' = sc_balance c + a"
proof -
  from appendSVEventE [OF r] obtain e where
    e: "c' = moved_card ev a st c" "sv_events s' = sv_events s @ [e]" "sv_cards s' = sv_cards (put_card (moved_card ev a st c) s)"
      "se_card e = sc_id c" "se_seq e = sc_seq c + 1" "se_amount e = a" "se_after e = wrap64 (sc_balance c + a)"
      "0 \<le> wrap64 (sc_balance c + a)" by metis
  from ok c have oc: "card_ok s c" by (simp add: cards_ok_def)
  then have w: "wrap64 (sc_balance c + a) = sc_balance c + a" using e(8) a by (intro wrap64_sum) (simp_all add: card_ok_def)
  then show "sc_balance c' = sc_balance c + a" by (simp add: e(1))
  have ev: "card_events i s' = card_events i s @ (if i = sc_id c then [e] else [])" for i
    by (simp add: card_events_def e(2,4))
  have "card_ok s' k'" if "k' \<in> set (sv_cards s')" for k'
  proof -
    from that obtain k where k: "k \<in> set (sv_cards s)" and k': "k' = (if sc_id k = sc_id c
        then k\<lparr>sc_balance := sc_balance c', sc_funded := sc_funded c', sc_status := sc_status c', sc_seq := sc_seq c'\<rparr> else k)"
      by (auto simp: e(1,3) put_card_def)
    show ?thesis
    proof (cases "sc_id k = sc_id c")
      case True
      have r63: "wrap64 (sc_balance c + a) < 2 ^ 63" using wrap64_range by blast
      have "chained (card_events (sc_id c) s @ [e])"
        by (rule chained_snoc) (use oc e w in \<open>simp_all add: card_ok_def\<close>)
      with oc True e w r63 show ?thesis by (simp add: k' card_ok_def ev total_amount_def)
    next
      case False
      with ok k have "card_ok s k" by (simp add: cards_ok_def)
      with False show ?thesis by (simp add: k' card_ok_def ev)
    qed
  qed
  moreover have "\<forall>x \<in> set (sv_events s'). se_card x \<in> sc_id ` set (sv_cards s')"
    using ok c e(2,3,4) by (auto simp: cards_ok_def simp del: put_card_simps)
  ultimately show "cards_ok s'" using ok e(3) unfolding cards_ok_def by simp
qed

section \<open>An account of the general ledger\<close>

definition gl_balance :: "tenant \<Rightarrow> string \<Rightarrow> int" where
  "gl_balance t A = credit_sum (filter (\<lambda>p. gp_account p = A) (t_postings t)) - debit_sum (filter (\<lambda>p. gp_account p = A) (t_postings t))"

definition amount_on :: "string \<Rightarrow> amounts \<Rightarrow> int" where
  "amount_on A m = total_of (filter (\<lambda>(a, v). a = A \<and> 0 < v) m)"

lemma amount_on_simps [simp]:
  "amount_on A [] = 0" "amount_on A ((a, v) # m) = (if a = A \<and> 0 < v then v else 0) + amount_on A m"
  by (simp_all add: amount_on_def total_of_def)

lemma side_on:
  "credit_sum (filter (\<lambda>p. gp_account p = A) (map (\<lambda>(c, v). posting_row dr dt i key opt cur moment c v) (positives m)))
     - debit_sum (filter (\<lambda>p. gp_account p = A) (map (\<lambda>(c, v). posting_row dr dt i key opt cur moment c v) (positives m)))
   = (if dr then - amount_on A m else amount_on A m)"
  by (induction m) (auto simp: positives_def posting_row_def credit_sum_def debit_sum_def split: if_splits)

lemma post_delta:
  assumes "PostDoubleEntryTx env dt i ds cs x key opt t = Inr t'" "key = [] \<or> \<not> key_posted t key"
  shows "gl_balance t' A = gl_balance t A + amount_on A cs - amount_on A ds"
  using assms(1)
proof (cases rule: PostDoubleEntryTxE)
  case posted_before
  with assms(2) show ?thesis by simp
next
  case (posts opt' cur moment)
  show ?thesis
    using side_on [of A True dt i key opt' cur moment ds] side_on [of A False dt i key opt' cur moment cs]
    by (simp add: gl_balance_def posts(2) voucher_rows_def)
qed

lemma amount_on_0: "\<forall>(a, v) \<in> set m. a \<noteq> A \<Longrightarrow> amount_on A m = 0"
  by (induction m) auto

lemma post_elsewhere:
  assumes "PostDoubleEntryTx env dt i ds cs x key opt t = Inr t'" "\<forall>(a, v) \<in> set ds \<union> set cs. a \<noteq> A"
  shows "gl_balance t' A = gl_balance t A"
proof -
  have "amount_on A cs = 0" "amount_on A ds = 0" using assms(2) by (auto intro!: amount_on_0)
  note zero = this
  show ?thesis
  proof (cases "key = [] \<or> \<not> key_posted t key")
    case True
    from post_delta [OF assms(1) True, of A] zero show ?thesis by simp
  next
    case False
    from assms(1) have "t' = t" by (cases rule: PostDoubleEntryTxE) (use False in auto)
    then show ?thesis by simp
  qed
qed

lemma post_keys: "PostDoubleEntryTx env dt i ds cs x key opt t = Inr t' \<Longrightarrow> key_posted t' k \<Longrightarrow> key_posted t k \<or> k = key"
  by (erule PostDoubleEntryTxE) (auto simp: key_posted_def voucher_rows_def posting_row_def nullable_def list_ex_iff split: if_splits)

lemma profile_cong: "t_documents t = t_documents t' \<Longrightarrow> LoadStoredValueProfile t i = LoadStoredValueProfile t' i"
  by (simp add: LoadStoredValueProfile_def fetchDocData_def)

lemma post_profile: "PostDoubleEntryTx env dt i ds cs x key opt t = Inr t' \<Longrightarrow> LoadStoredValueProfile t' j = LoadStoredValueProfile t j"
  by (drule PostDoubleEntryTx_frame, elim exE, rule profile_cong) simp

section \<open>What is owed on an account\<close>

definition owes :: "tenant \<Rightarrow> string \<Rightarrow> card \<Rightarrow> bool" where
  "owes t A c \<longleftrightarrow> (case LoadStoredValueProfile t (sc_profile c) of Inr p \<Rightarrow> vp_liability p = A | Inl _ \<Rightarrow> False)"

definition outstanding :: "string \<Rightarrow> wallet \<Rightarrow> int" where
  "outstanding A s = sum_list (map sc_balance (filter (owes (sv_t s) A) (sv_cards s)))"

lemma outstanding_put:
  assumes "distinct (map sc_id cs)" "c \<in> set cs" "sc_id c' = sc_id c" "sc_profile c' = sc_profile c"
  shows "sum_list (map sc_balance (filter (owes t A) (sv_cards (put_card c' (s\<lparr>sv_cards := cs\<rparr>)))))
    = sum_list (map sc_balance (filter (owes t A) cs)) + (if owes t A c then sc_balance c' - sc_balance c else 0)"
  using assms(1,2)
proof (induction cs)
  case Nil
  then show ?case by simp
next
  case (Cons k cs)
  let ?upd = "\<lambda>k. if sc_id k = sc_id c' then k\<lparr>sc_balance := sc_balance c', sc_funded := sc_funded c', sc_status := sc_status c',
     sc_seq := sc_seq c'\<rparr> else k"
  have o: "owes t A (?upd k) = owes t A k" for k by (simp add: owes_def)
  show ?case
  proof (cases "k = c")
    case True
    with Cons.prems have "\<forall>x \<in> set cs. sc_id x \<noteq> sc_id c" by (metis distinct.simps(2) image_eqI list.simps(9) set_map)
    then have "map ?upd cs = cs" using assms(3) by (auto intro!: map_idI)
    with True assms(3) show ?thesis by (simp add: put_card_def o)  (simp add: owes_def)
  next
    case False
    with Cons.prems have "c \<in> set cs" "sc_id k \<noteq> sc_id c" by auto
    with Cons.IH Cons.prems assms(3) show ?thesis by (simp add: put_card_def)
  qed
qed

section \<open>Posting keys\<close>

lemma fund_cancel_keys [simp]:
  "fund_key m = fund_key n \<longleftrightarrow> m = n" "cancel_key m = cancel_key n \<longleftrightarrow> m = n"
  "fund_key m \<noteq> cancel_key n" "cancel_key m \<noteq> fund_key n" "fund_key m \<noteq> []" "cancel_key m \<noteq> []"
  "redeem_key cart i \<noteq> fund_key n" "redeem_key cart i \<noteq> cancel_key n" "redeem_key cart i \<noteq> []"
  "fund_key n \<noteq> redeem_key cart i" "cancel_key n \<noteq> redeem_key cart i"
proof -
  have "List.last (fund_key m) = CHR ''D''" "List.last (cancel_key n) = CHR ''L''" for m n
    by (simp_all add: fund_key_def cancel_key_def)
  then have "List.last (fund_key m) \<noteq> List.last (cancel_key n)" for m n by simp
  then show "fund_key m \<noteq> cancel_key n" "cancel_key m \<noteq> fund_key n" by metis+
qed (auto simp: fund_key_def cancel_key_def redeem_key_def dec_inj)

lemma after_last_colon:
  assumes "CHR '':'' \<notin> set i" "CHR '':'' \<notin> set j" "a @ CHR '':'' # i = b @ CHR '':'' # j"
  shows "a = b \<and> i = j"
proof -
  have "rev i @ CHR '':'' # rev a = rev j @ CHR '':'' # rev b"
    using arg_cong [OF assms(3), of rev] by simp
  moreover have "CHR '':'' \<notin> set (rev i)" "CHR '':'' \<notin> set (rev j)" using assms(1,2) by simp_all
  moreover have "takeWhile (\<lambda>x. x \<noteq> CHR '':'') (w @ CHR '':'' # u) = w" if "CHR '':'' \<notin> set w" for w u
    using that by (induction w) auto
  ultimately have "rev i = rev j" by metis
  then have "i = j" by simp
  with assms(3) show ?thesis by simp
qed

lemma redeem_key_inj:
  assumes "CHR '':'' \<notin> set i" "CHR '':'' \<notin> set j" "redeem_key c i = redeem_key d j"
  shows "c = d \<and> i = j"
proof -
  have k: "redeem_key c i = (''POSCart:'' @ c @ '':GIFTCARD'') @ CHR '':'' # i" for c i by (simp add: redeem_key_def)
  from after_last_colon [OF assms(1,2) assms(3) [unfolded k]] show ?thesis by simp
qed

lemma tax_key_other:
  assumes "CHR '':'' \<notin> set i" "CHR '':'' \<notin> set j"
  shows "''POSCart:'' @ c @ '':ADVANCETAX:'' @ i \<noteq> redeem_key d j" "''POSCart:'' @ c @ '':ADVANCETAX:'' @ i \<noteq> fund_key n"
    "''POSCart:'' @ c @ '':ADVANCETAX:'' @ i \<noteq> cancel_key n"
proof -
  have "(''POSCart:'' @ c @ '':ADVANCETAX'') @ CHR '':'' # i \<noteq> (''POSCart:'' @ d @ '':GIFTCARD'') @ CHR '':'' # j"
  proof
    assume "(''POSCart:'' @ c @ '':ADVANCETAX'') @ CHR '':'' # i = (''POSCart:'' @ d @ '':GIFTCARD'') @ CHR '':'' # j"
    from after_last_colon [OF assms this] have "''POSCart:'' @ c @ '':ADVANCETAX'' = ''POSCart:'' @ d @ '':GIFTCARD''" by simp
    then have "List.last (''POSCart:'' @ c @ '':ADVANCETAX'') = List.last (''POSCart:'' @ d @ '':GIFTCARD'')" by simp
    then show False by simp
  qed
  then show "''POSCart:'' @ c @ '':ADVANCETAX:'' @ i \<noteq> redeem_key d j" by (simp add: redeem_key_def)
  show "''POSCart:'' @ c @ '':ADVANCETAX:'' @ i \<noteq> fund_key n" "''POSCart:'' @ c @ '':ADVANCETAX:'' @ i \<noteq> cancel_key n"
    by (simp_all add: fund_key_def cancel_key_def)
qed

text \<open>The keys the wallet posts under are those of its events.\<close>

definition keys_ok :: "wallet \<Rightarrow> bool" where
  "keys_ok s \<longleftrightarrow> (\<forall>n. key_posted (sv_t s) (fund_key n) \<or> key_posted (sv_t s) (cancel_key n) \<longrightarrow> n \<le> sv_entry s)
     \<and> (\<forall>cart i. CHR '':'' \<notin> set i \<longrightarrow> key_posted (sv_t s) (redeem_key cart i) \<longrightarrow> key_used (redeem_idem cart i) s)"

lemma keys_okI:
  assumes "keys_ok s" "sv_entry s \<le> sv_entry s'" "\<And>k. key_used k s \<Longrightarrow> key_used k s'"
    and "\<And>k. key_posted (sv_t s') k \<Longrightarrow> key_posted (sv_t s) k \<or> k = K"
    and "\<And>n. K = fund_key n \<or> K = cancel_key n \<Longrightarrow> n \<le> sv_entry s'"
    and "\<And>cart i. CHR '':'' \<notin> set i \<Longrightarrow> K = redeem_key cart i \<Longrightarrow> key_used (redeem_idem cart i) s'"
  shows "keys_ok s'"
  using assms unfolding keys_ok_def by (metis order_trans)

section \<open>The liability account is what the cards hold\<close>

definition own_account :: "tenant \<Rightarrow> string \<Rightarrow> bool" where
  "own_account t A \<longleftrightarrow> A \<notin> {''1100'', ''1101'', ''1102'', ''2200'', ''2201'', ''2202'', ''2640''}
     \<and> (\<forall>p. LoadStoredValueProfile t AdvanceProfileID = Inr p \<longrightarrow> vp_liability p \<noteq> A)"

definition reconciled :: "string \<Rightarrow> wallet \<Rightarrow> bool" where
  "reconciled A s \<longleftrightarrow> cards_ok s \<and> keys_ok s \<and> own_account (sv_t s) A \<and> gl_balance (sv_t s) A = outstanding A s"

text \<open>
  What the wallet promises for an account, as a machine of its own: purses that are opened
  empty, funded and spent from, each movement with the same change of what is owed.
\<close>

type_synonym books = "(string \<Rightarrow> int option) \<times> int"

inductive purse_step :: "books \<Rightarrow> books \<Rightarrow> bool" where
  opened: "p i = None \<Longrightarrow> purse_step (p, owed) (p(i \<mapsto> 0), owed)"
| funded: "p i = Some b \<Longrightarrow> 0 < v \<Longrightarrow> purse_step (p, owed) (p(i \<mapsto> b + v), owed + v)"
| spent: "p i = Some b \<Longrightarrow> 0 < v \<Longrightarrow> v \<le> b \<Longrightarrow> purse_step (p, owed) (p(i \<mapsto> b - v), owed - v)"

definition purse :: "string \<Rightarrow> wallet \<Rightarrow> string \<Rightarrow> int option" where
  "purse A s i = (case find_card i s of None \<Rightarrow> None | Some c \<Rightarrow> if owes (sv_t s) A c then Some (sc_balance c) else None)"

definition books_of :: "string \<Rightarrow> wallet \<Rightarrow> books" where
  "books_of A s = (purse A s, gl_balance (sv_t s) A)"

definition simulates :: "string \<Rightarrow> wallet \<Rightarrow> wallet \<Rightarrow> bool" where
  "simulates A s s' \<longleftrightarrow> reconciled A s' \<and> purse_step\<^sup>*\<^sup>* (books_of A s) (books_of A s')"

lemma simulates_trans: "simulates A s u \<Longrightarrow> simulates A u v \<Longrightarrow> simulates A s v"
  by (auto simp: simulates_def)

lemma simulates_refl: "reconciled A s \<Longrightarrow> simulates A s s"
  by (simp add: simulates_def)

lemma purse_cong:
  "(\<And>i. LoadStoredValueProfile (sv_t s') i = LoadStoredValueProfile (sv_t s) i) \<Longrightarrow> sv_cards s' = sv_cards s \<Longrightarrow> purse A s' = purse A s"
  by (simp add: fun_eq_iff purse_def find_card_def owes_def split: option.splits)

lemma purse_put:
  assumes "distinct (map sc_id (sv_cards s))" "c \<in> set (sv_cards s)" "sv_t s' = sv_t s" "sv_cards s' = sv_cards (put_card c' s)"
    "sc_id c' = sc_id c" "sc_profile c' = sc_profile c"
  shows "purse A s' = (if owes (sv_t s) A c then (purse A s)(sc_id c \<mapsto> sc_balance c') else purse A s)"
proof
  fix i
  let ?upd = "\<lambda>k. if sc_id k = sc_id c' then k\<lparr>sc_balance := sc_balance c', sc_funded := sc_funded c', sc_status := sc_status c',
     sc_seq := sc_seq c'\<rparr> else k"
  have "find P (map ?upd cs) = map_option ?upd (find (P \<circ> ?upd) cs)" for P and cs :: "card list" by (induction cs) auto
  then have f: "find_card i s' = map_option ?upd (find_card i s)"
    by (simp add: find_card_def assms(4) put_card_def comp_def) (auto intro!: arg_cong [where f = "map_option ?upd"] arg_cong2 [where f = find])
  show "purse A s' i = (if owes (sv_t s) A c then (purse A s)(sc_id c \<mapsto> sc_balance c') else purse A s) i"
  proof (cases "i = sc_id c")
    case True
    then have "find_card i s = Some c" using find_card_iff [OF assms(1)] assms(2) by simp
    with f assms(3,5,6) True show ?thesis by (simp add: purse_def owes_def)
  next
    case False
    show ?thesis
    proof (cases "find_card i s")
      case None
      with f False show ?thesis by (simp add: purse_def)
    next
      case (Some k)
      with find_cardD [OF Some] False assms(5) have "?upd k = k" by simp
      with f Some False assms(3) show ?thesis by (simp add: purse_def)
    qed
  qed
qed

lemma clearing_own: "own_account t A \<Longrightarrow> paymentModeClearingAccount mode \<noteq> A"
  by (auto simp: own_account_def paymentModeClearingAccount_def)

lemma own_account_cong:
  "(\<And>i. LoadStoredValueProfile t' i = LoadStoredValueProfile t i) \<Longrightarrow> own_account t' A = own_account t A"
  by (simp add: own_account_def)

lemma outstanding_cong:
  "(\<And>i. LoadStoredValueProfile (sv_t s') i = LoadStoredValueProfile (sv_t s) i) \<Longrightarrow> sv_cards s' = sv_cards s \<Longrightarrow> outstanding A s' = outstanding A s"
proof -
  assume "\<And>i. LoadStoredValueProfile (sv_t s') i = LoadStoredValueProfile (sv_t s) i" and c: "sv_cards s' = sv_cards s"
  then have "owes (sv_t s') A = owes (sv_t s) A" by (simp add: fun_eq_iff owes_def)
  with c show ?thesis by (simp add: outstanding_def)
qed

lemma append_outstanding:
  assumes "cards_ok s" "c \<in> set (sv_cards s)" "- (2 ^ 63) \<le> a" "a < 2 ^ 63" "appendSVEvent c ev a st src idem s = Inr (c', n, s')"
  shows "outstanding A s' = outstanding A s + (if owes (sv_t s) A c then a else 0)"
proof -
  from appendSVEventE [OF assms(5)] have s': "sv_t s' = sv_t s" "sv_cards s' = sv_cards (put_card c' s)"
    "sc_id c' = sc_id c" "sc_profile c' = sc_profile c" by (metis moved_card_simps(1,2))+
  have "outstanding A s' = outstanding A s + (if owes (sv_t s) A c then sc_balance c' - sc_balance c else 0)"
    using outstanding_put [of "sv_cards s" c c' "sv_t s" A s] assms(1,2) s' by (simp add: outstanding_def cards_ok_def)
  with append_cards_ok(2) [OF assms] show ?thesis by simp
qed

lemma append_keys: "appendSVEvent c ev a st src idem s = Inr (c', n, s') \<Longrightarrow> key_used k s' \<longleftrightarrow> key_used k s \<or> (idem \<noteq> [] \<and> k = idem)"
  by (erule appendSVEventE) (auto simp: key_used_def nullable_def)

lemma post_walletE:
  assumes "post_wallet env dt i ds cs key s = Inr s'"
  obtains t where "PostDoubleEntryTx (ve_posting env) dt i ds cs [] key no_opts (sv_t s) = Inr t" "s' = s\<lparr>sv_t := t\<rparr>"
  using assms by (auto simp: post_wallet_def)

lemma cards_ok_t [simp]: "cards_ok (s\<lparr>sv_t := t\<rparr>) = cards_ok s"
  by (simp add: cards_ok_def card_ok_def card_events_def)

lemma key_used_t [simp]: "key_used k (s\<lparr>sv_t := t\<rparr>) = key_used k s"
  by (simp add: key_used_def)

text \<open>An event and the voucher that goes with it.\<close>

lemma event_and_voucher:
  assumes r: "reconciled A s" and c: "c \<in> set (sv_cards s)" and p: "LoadStoredValueProfile (sv_t s) (sc_profile c) = Inr p"
    and ev: "appendSVEvent c evt a st src idem s = Inr (c', n, s1)"
    and post: "post_wallet env dt i ds cs key s2 = Inr s3"
    and s2: "cards_ok s2" "sv_t s2 = sv_t s1" "sv_entry s2 = sv_entry s1" "sv_events s2 = sv_events s1" "outstanding A s2 = outstanding A s1" "purse A s2 = purse A s1"
    and v: "0 < v" "v < 2 ^ 63" and a: "a = v \<and> ds = [(x, v)] \<and> cs = [(vp_liability p, v)] \<or> a = - v \<and> ds = [(vp_liability p, v)] \<and> cs = [(x, v)]"
    and x: "x \<noteq> A" and new: "\<not> key_posted (sv_t s) key"
    and k1: "\<And>m. key = fund_key m \<or> key = cancel_key m \<Longrightarrow> m \<le> n"
    and k2: "\<And>cart j. CHR '':'' \<notin> set j \<Longrightarrow> key = redeem_key cart j \<Longrightarrow> idem = redeem_idem cart j"
  shows "simulates A s s3"
proof -
  from post_walletE [OF post] obtain t where t: "PostDoubleEntryTx (ve_posting env) dt i ds cs [] key no_opts (sv_t s2) = Inr t"
    and s3: "s3 = s2\<lparr>sv_t := t\<rparr>" .
  from appendSVEventE [OF ev] have f: "n = sv_entry s + 1" "sv_entry s1 = sv_entry s + 1" "sv_t s1 = sv_t s" by metis+
  have prof: "LoadStoredValueProfile t j = LoadStoredValueProfile (sv_t s) j" for j
    using post_profile [OF t, of j] by (simp add: s2(2) f(3))
  have ow: "owes (sv_t s) A c \<longleftrightarrow> vp_liability p = A" by (simp add: owes_def p)
  have "\<not> key_posted (sv_t s2) key" using new by (simp add: s2(2) f(3))
  from post_delta [OF t disjI2 [OF this], of A] have g: "gl_balance t A = gl_balance (sv_t s) A + (if owes (sv_t s) A c then a else 0)"
    using x v a by (auto simp: s2(2) f(3) ow)
  have "outstanding A s3 = outstanding A s2" by (rule outstanding_cong) (simp_all add: s3 prof s2(2) f(3))
  also have "\<dots> = outstanding A s + (if owes (sv_t s) A c then a else 0)"
    unfolding s2(5) using r c v a ev by (intro append_outstanding) (auto simp: reconciled_def)
  finally have "gl_balance (sv_t s3) A = outstanding A s3" using r g by (simp add: reconciled_def s3)
  moreover have "keys_ok s3"
  proof (rule keys_okI [of s])
    show "keys_ok s" using r by (simp add: reconciled_def)
    show "sv_entry s \<le> sv_entry s3" by (simp add: s3 s2(3) f(2))
    have ku: "key_used k s3 \<longleftrightarrow> key_used k s1" for k by (simp add: s3 key_used_def s2(4))
    show "key_used k s \<Longrightarrow> key_used k s3" for k using append_keys [OF ev] by (simp add: ku)
    show "key_posted (sv_t s3) k \<Longrightarrow> key_posted (sv_t s) k \<or> k = key" for k
      using post_keys [OF t] by (simp add: s3 s2(2) f(3))
    show "key = fund_key m \<or> key = cancel_key m \<Longrightarrow> m \<le> sv_entry s3" for m
      using k1 by (simp add: s3 s2(3) f)
    show "CHR '':'' \<notin> set j \<Longrightarrow> key = redeem_key cart j \<Longrightarrow> key_used (redeem_idem cart j) s3" for cart j
      using k2 [of j cart] append_keys [OF ev] by (simp add: ku redeem_idem_def)
  qed
  moreover have "own_account (sv_t s3) A" using r own_account_cong [OF prof] by (simp add: reconciled_def s3)
  ultimately have rec: "reconciled A s3" using s2(1) by (simp add: reconciled_def s3)
  from appendSVEventE [OF ev] have c': "c' = moved_card evt a st c" "sv_cards s1 = sv_cards (put_card c' s)" "sc_id c' = sc_id c"
    "sc_profile c' = sc_profile c" "0 \<le> wrap64 (sc_balance c + a)" by (metis moved_card_simps(1,2))+
  have b: "sc_balance c' = sc_balance c + a"
    using r c v a ev by (intro append_cards_ok(2) [OF _ c _ _ ev]) (auto simp: reconciled_def)
  have d: "distinct (map sc_id (sv_cards s))" using r by (simp add: reconciled_def cards_ok_def)
  have "purse A s3 = purse A s2" by (rule purse_cong) (simp_all add: s3 prof s2(2) f(3))
  also have "\<dots> = (if owes (sv_t s) A c then (purse A s)(sc_id c \<mapsto> sc_balance c + a) else purse A s)"
    unfolding s2(6) using purse_put [OF d c f(3) c'(2,3,4), of A] by (simp add: b)
  finally have pu: "purse A s3 = (if owes (sv_t s) A c then (purse A s)(sc_id c \<mapsto> sc_balance c + a) else purse A s)" .
  have "purse_step\<^sup>*\<^sup>* (books_of A s) (books_of A s3)"
  proof (cases "owes (sv_t s) A c")
    case True
    have "find_card (sc_id c) s = Some c" using find_card_iff [OF d] c by simp
    with True have pc: "purse A s (sc_id c) = Some (sc_balance c)" by (simp add: purse_def)
    have nn: "0 \<le> sc_balance c + a" using c'(1,5) b by simp
    from a have "purse_step (books_of A s) (books_of A s3)"
    proof (elim disjE conjE)
      assume "a = v"
      with True pu g show ?thesis using funded [where p = "purse A s" and i = "sc_id c", OF pc v(1), of "gl_balance (sv_t s) A"] by (simp add: books_of_def s3)
    next
      assume "a = - v"
      with True pu g nn show ?thesis using spent [where p = "purse A s" and i = "sc_id c", OF pc v(1), of "gl_balance (sv_t s) A"] by (simp add: books_of_def s3)
    qed
    then show ?thesis ..
  next
    case False
    with pu g show ?thesis by (simp add: books_of_def s3)
  qed
  with rec show ?thesis by (simp add: simulates_def)
qed

section \<open>The steps of the wallet\<close>

text \<open>
  A transaction of one of the operations, at any clock and under any key ring, or any other
  step of the tenant that leaves the cards, the profiles, the account A and the wallet's
  posting keys alone.
\<close>

definition wallet_key :: "string \<Rightarrow> bool" where
  "wallet_key k \<longleftrightarrow> (\<exists>n. k = fund_key n \<or> k = cancel_key n) \<or> (\<exists>cart i. k = redeem_key cart i)"

inductive wallet_step :: "string \<Rightarrow> wallet \<Rightarrow> wallet \<Rightarrow> bool" for A where
  register: "RegisterStoredValueCards fuel env mint ds prof listed k s = Some (Inr (r, s')) \<Longrightarrow> (\<And>n. CHR '':'' \<notin> set (mint n)) \<Longrightarrow> wallet_step A s s'"
| issue: "IssueStoredValue env user req s = Inr (r, s') \<Longrightarrow> RupeesToPaise (iq_amount req) < 2 ^ 63 \<Longrightarrow> wallet_step A s s'"
| redeem: "redeemGiftCardTendersTx env cart location cashier mode tenders s = Inr s' \<Longrightarrow> wallet_step A s s'"
| block: "SetStoredValueBlocked env user number reason b s = Inr s' \<Longrightarrow> wallet_step A s s'"
| cancel: "CancelStoredValueIssue env user number reason location s = Inr (r, s') \<Longrightarrow> wallet_step A s s'"
| other: "sv_cards s' = sv_cards s \<Longrightarrow> sv_events s' = sv_events s \<Longrightarrow> sv_entry s' = sv_entry s \<Longrightarrow>
    (\<And>i. LoadStoredValueProfile (sv_t s') i = LoadStoredValueProfile (sv_t s) i) \<Longrightarrow>
    gl_balance (sv_t s') A = gl_balance (sv_t s) A \<Longrightarrow>
    (\<And>k. wallet_key k \<Longrightarrow> key_posted (sv_t s') k \<Longrightarrow> key_posted (sv_t s) k) \<Longrightarrow> wallet_step A s s'"

lemma card_events_cards [simp]: "card_events i (s\<lparr>sv_cards := cs\<rparr>) = card_events i s"
  by (simp add: card_events_def)

lemma new_card_reconciled:
  assumes "reconciled A s" "find_card i s = None" "CHR '':'' \<notin> set i"
  shows "simulates A s (s\<lparr>sv_cards := sv_cards s @ [new_card i n prof l4]\<rparr>)"
proof -
  let ?s = "s\<lparr>sv_cards := sv_cards s @ [new_card i n prof l4]\<rparr>"
  have fresh: "i \<notin> sc_id ` set (sv_cards s)" using assms(2) by (simp add: find_card_None)
  have "card_events i s = []" using assms(1) fresh by (force simp: card_events_def reconciled_def cards_ok_def filter_empty_conv)
  then have "card_ok ?s (new_card i n prof l4)"
    using assms(3) by (simp add: card_ok_def new_card_def total_amount_def chained_def)
  moreover have "card_ok ?s c" if "c \<in> set (sv_cards s)" for c
  proof -
    have "card_ok s c" using assms(1) that by (simp add: reconciled_def cards_ok_def)
    then show ?thesis unfolding card_ok_def card_events_cards .
  qed
  ultimately have "cards_ok ?s"
    using assms(1) fresh by (auto simp: cards_ok_def reconciled_def new_card_def)
  moreover have "outstanding A ?s = outstanding A s" by (simp add: outstanding_def new_card_def)
  moreover have "keys_ok ?s" using assms(1) by (simp add: reconciled_def keys_ok_def key_used_def)
  ultimately have rec: "reconciled A ?s" using assms(1) by (simp add: reconciled_def)
  have "find_card j ?s = (if j = i then Some (new_card i n prof l4) else find_card j s)" for j
    using assms(2) by (auto simp: find_card_def new_card_def find_append split: option.splits)
  then have pu: "purse A ?s = (if owes (sv_t s) A (new_card i n prof l4) then (purse A s)(i \<mapsto> 0) else purse A s)"
    using assms(2) by (auto simp: fun_eq_iff purse_def new_card_def split: option.splits)
  have "purse A s i = None" using assms(2) by (simp add: purse_def)
  then have "purse_step\<^sup>*\<^sup>* (books_of A s) (books_of A ?s)"
    using pu opened by (auto simp: books_of_def)
  with rec show ?thesis by (simp add: simulates_def)
qed

lemma register_reconciled:
  assumes "register_cards fuel env p gen mint ns ds out s = Some (Inr (r, s'))" "reconciled A s" "\<And>n. CHR '':'' \<notin> set (mint n)"
  shows "simulates A s s'"
  using assms
proof (induction fuel env p gen mint ns ds out s rule: register_cards.induct)
  case (3 fuel env p gen mint n ns ds out s)
  show ?case
  proof (cases "number_known env n s")
    case True
    with 3(1,3-5) show ?thesis by (auto split: if_splits option.splits)
  next
    case False
    with 3(3) have "find_card (mint (length (sv_cards s))) s = None" by (auto simp: Let_def split: if_splits)
    with 3(5) have n: "simulates A s (s\<lparr>sv_cards := sv_cards s @ [new_card (mint (length (sv_cards s))) (svHashWith env (ve_signing env) n) (vp_id p) (svLast4 n)]\<rparr>)"
      by (intro new_card_reconciled [OF 3(4)])
    from n have "reconciled A (s\<lparr>sv_cards := sv_cards s @ [new_card (mint (length (sv_cards s))) (svHashWith env (ve_signing env) n) (vp_id p) (svLast4 n)]\<rparr>)"
      by (simp add: simulates_def)
    with False 3(2,3,5) n show ?thesis by (auto simp: Let_def intro: simulates_trans split: if_splits)
  qed
qed (auto simp: simulates_refl)

lemma block_reconciled:
  assumes "SetStoredValueBlocked env user number reason b s = Inr s'" "reconciled A s"
  shows "simulates A s s'"
proof -
  from assms(1) obtain c ev st src c' n where c: "c \<in> set (sv_cards s)" and a: "appendSVEvent c ev 0 st src [] s = Inr (c', n, s')"
    by (auto simp: SetStoredValueBlocked_def Let_def split: option.splits if_splits dest: card_numbered_mem)
  from appendSVEventE [OF a] have f: "sv_t s' = sv_t s" "sv_entry s' = sv_entry s + 1" by metis+
  have ok: "cards_ok s" using assms(2) by (simp add: reconciled_def)
  have "outstanding A s' = outstanding A s" using append_outstanding [OF ok c _ _ a, of A] by simp
  moreover have "cards_ok s'" by (rule append_cards_ok [OF ok c _ _ a]) simp_all
  moreover have "keys_ok s'" using assms(2) append_keys [OF a] by (auto simp: reconciled_def keys_ok_def f le_Suc_eq)
  ultimately have rec: "reconciled A s'" using assms(2) by (simp add: reconciled_def f)
  from appendSVEventE [OF a] have c': "sv_cards s' = sv_cards (put_card c' s)" "sc_id c' = sc_id c" "sc_profile c' = sc_profile c"
    by (metis moved_card_simps(1,2))+
  have d: "distinct (map sc_id (sv_cards s))" using ok by (simp add: cards_ok_def)
  have "sc_balance c' = sc_balance c" using append_cards_ok(2) [OF ok c _ _ a] by simp
  moreover have "find_card (sc_id c) s = Some c" using find_card_iff [OF d] c by simp
  ultimately have "purse A s' = purse A s"
    using purse_put [OF d c f(1) c', of A] by (auto simp: fun_eq_iff purse_def)
  with rec show ?thesis by (simp add: simulates_def books_of_def f)
qed

lemma cancel_reconciled:
  assumes "CancelStoredValueIssue env user number reason location s = Inr (r, s')" "reconciled A s"
  shows "simulates A s s'"
proof -
  from assms(1) obtain c p src c' n s1 where c: "c \<in> set (sv_cards s)" "sc_balance c \<noteq> 0"
    and p: "LoadStoredValueProfile (sv_t s) (sc_profile c) = Inr p"
    and a: "appendSVEvent c ''CANCEL'' (- sc_balance c) ''Cancelled'' src (''cancel|'' @ sc_id c) s = Inr (c', n, s1)"
    and w: "post_wallet env ''StoredValue'' (sc_id c) [(vp_liability p, sc_balance c)]
      [(paymentModeClearingAccount (sc_mode c), sc_balance c)] (cancel_key n) s1 = Inr s'"
    by (auto simp: CancelStoredValueIssue_def Let_def split: option.splits if_splits dest: card_numbered_mem)
  have ok: "cards_ok s" "keys_ok s" and own: "own_account (sv_t s) A" using assms(2) by (simp_all add: reconciled_def)
  with c have b: "0 < sc_balance c" "sc_balance c < 2 ^ 63" by (auto simp: cards_ok_def card_ok_def)
  from appendSVEventE [OF a] have f: "n = sv_entry s + 1" "sv_entry s1 = sv_entry s + 1" "sv_t s1 = sv_t s" by metis+
  have "\<not> key_posted (sv_t s) (cancel_key n)"
  proof
    assume "key_posted (sv_t s) (cancel_key n)"
    with ok(2) have "n \<le> sv_entry s" unfolding keys_ok_def by blast
    then show False by (simp add: f)
  qed
  moreover have "cards_ok s1" by (rule append_cards_ok [OF ok(1) c(1) _ _ a]) (use b in simp_all)
  ultimately show ?thesis
    using own clearing_own b by (intro event_and_voucher [OF assms(2) c(1) p a w]) (auto simp: f)
qed

lemma advance_tax_reconciled:
  assumes "postAdvanceTaxOnUseTx env cart i used s = Inr s'" "reconciled A s" "CHR '':'' \<notin> set i"
  shows "simulates A s s'"
proof (cases "fst (advanceTaxShareTx i used s) = 0")
  case True
  with assms(1,2) show ?thesis by (simp add: postAdvanceTaxOnUseTx_def simulates_refl split: prod.splits)
next
  case False
  then obtain share inter where w: "post_wallet env ''POSCart'' cart (gstSplit share inter) [(AccountCustomerAdvLia, share)]
      (''POSCart:'' @ cart @ '':ADVANCETAX:'' @ i) s = Inr s'"
    using assms(1) by (auto simp: postAdvanceTaxOnUseTx_def split: prod.splits)
  from post_walletE [OF w] obtain t where t: "PostDoubleEntryTx (ve_posting env) ''POSCart'' cart (gstSplit share inter)
      [(AccountCustomerAdvLia, share)] [] (''POSCart:'' @ cart @ '':ADVANCETAX:'' @ i) no_opts (sv_t s) = Inr t" and s': "s' = s\<lparr>sv_t := t\<rparr>" .
  have prof: "LoadStoredValueProfile t j = LoadStoredValueProfile (sv_t s) j" for j by (rule post_profile [OF t])
  have "gl_balance t A = gl_balance (sv_t s) A"
    by (rule post_elsewhere [OF t]) (use assms(2) in \<open>auto simp: reconciled_def own_account_def gstSplit_def AccountCustomerAdvLia_def\<close>)
  moreover have "outstanding A s' = outstanding A s" by (rule outstanding_cong) (simp_all add: s' prof)
  moreover have "keys_ok s'"
    by (rule keys_okI [of s, where K = "''POSCart:'' @ cart @ '':ADVANCETAX:'' @ i"])
      (use assms(2,3) post_keys [OF t] tax_key_other [OF assms(3)] in \<open>auto simp: s' reconciled_def\<close>)
  moreover have "own_account (sv_t s') A" using assms(2) own_account_cong [OF prof] by (simp add: reconciled_def s')
  moreover have "purse A s' = purse A s" by (rule purse_cong) (simp_all add: s' prof)
  ultimately show ?thesis using assms(2) by (simp add: simulates_def books_of_def reconciled_def s')
qed

lemma redeemable_amount: "checkRedeemable c p v today = Inr () \<Longrightarrow> 0 < v \<and> v \<le> sc_balance c"
  by (auto simp: checkRedeemable_def Let_def split: if_splits)

lemma redeem_one_reconciled:
  assumes "redeem_one env cart location cashier mode td s = Inr s'" "reconciled A s"
  shows "simulates A s s'"
proof (cases "key_used (redeem_idem cart (td_card td)) s")
  case True
  with assms show ?thesis by (simp add: redeem_one_def simulates_refl)
next
  case False
  let ?i = "td_card td" and ?v = "td_paise td"
  from assms(1) False obtain c p c' n s1 s2 src where f: "find_card ?i s = Some c"
    and p: "LoadStoredValueProfile (sv_t s) (sc_profile c) = Inr p" and chk: "checkRedeemable c p ?v (t_today (sv_t s)) = Inr ()"
    and a: "appendSVEvent c ''REDEEM'' (- ?v) [] src (redeem_idem cart ?i) s = Inr (c', n, s1)"
    and w: "post_wallet env ''POSCart'' cart [(vp_liability p, ?v)] [(paymentModeClearingAccount mode, ?v)] (redeem_key cart ?i) s1 = Inr s2"
    and fin: "(if sc_profile c = AdvanceProfileID then postAdvanceTaxOnUseTx env cart ?i ?v s2 else Inr s2) = Inr s'"
    unfolding redeem_one_def Let_def by (auto split: option.splits)
  from find_cardD [OF f] have c: "c \<in> set (sv_cards s)" "sc_id c = ?i" by simp_all
  have ok: "cards_ok s" "keys_ok s" and own: "own_account (sv_t s) A" using assms(2) by (simp_all add: reconciled_def)
  with c have oc: "card_ok s c" by (simp add: cards_ok_def)
  then have i: "CHR '':'' \<notin> set ?i" using c(2) by (simp add: card_ok_def)
  from redeemable_amount [OF chk] oc have v: "0 < ?v" "?v < 2 ^ 63" by (auto simp: card_ok_def)
  from appendSVEventE [OF a] have g: "sv_t s1 = sv_t s" "n = sv_entry s + 1" by metis+
  have new: "\<not> key_posted (sv_t s) (redeem_key cart ?i)" using ok(2) i False unfolding keys_ok_def by blast
  have "cards_ok s1" by (rule append_cards_ok [OF ok(1) c(1) _ _ a]) (use v in simp_all)
  then have sim: "simulates A s s2"
    using own clearing_own v new i by (intro event_and_voucher [OF assms(2) c(1) p a w]) (auto dest: redeem_key_inj)
  then have "reconciled A s2" by (simp add: simulates_def)
  with sim fin advance_tax_reconciled [OF _ _ i] show ?thesis by (auto split: if_splits intro: simulates_trans)
qed

lemma activate_card_keeps:
  "cards_ok (activate_card ex req i s) = cards_ok s" "outstanding A (activate_card ex req i s) = outstanding A s"
  "sv_t (activate_card ex req i s) = sv_t s" "sv_entry (activate_card ex req i s) = sv_entry s"
  "sv_events (activate_card ex req i s) = sv_events s" "purse A (activate_card ex req i s) = purse A s"
proof -
  define f :: "card \<Rightarrow> card" where "f = (\<lambda>k. if sc_id k = i then k\<lparr>sc_expires := ex, sc_mode := iq_mode req, sc_customer := iq_customer req\<rparr> else k)"
  have cs: "sv_cards (activate_card ex req i s) = map f (sv_cards s)" by (simp add: activate_card_def f_def)
  show t: "sv_t (activate_card ex req i s) = sv_t s" "sv_entry (activate_card ex req i s) = sv_entry s"
    "sv_events (activate_card ex req i s) = sv_events s" by (simp_all add: activate_card_def)
  have same: "sc_id (f k) = sc_id k" "sc_balance (f k) = sc_balance k" "sc_seq (f k) = sc_seq k" "owes t A (f k) = owes t A k" for k t
    by (simp_all add: f_def owes_def)
  have "card_ok (activate_card ex req i s) (f k) = card_ok s k" for k
    by (simp add: card_ok_def card_events_def same t)
  then show "cards_ok (activate_card ex req i s) = cards_ok s"
    unfolding cards_ok_def cs by (simp add: comp_def same t image_image)
  show "outstanding A (activate_card ex req i s) = outstanding A s"
    unfolding outstanding_def cs by (simp add: filter_map comp_def same t)
  have "find P (map f cs) = map_option f (find (P \<circ> f) cs)" for P cs by (induction cs) auto
  then have "find_card j (activate_card ex req i s) = map_option f (find_card j s)" for j
    unfolding find_card_def cs by (simp add: comp_def same)
  then show "purse A (activate_card ex req i s) = purse A s"
    by (auto simp: fun_eq_iff purse_def t same split: option.splits)
qed

lemma issue_positive: "checkIssueAmount p v = Inr () \<Longrightarrow> 0 < v"
  by (auto simp: checkIssueAmount_def split: if_splits)

lemma IssueStoredValueE:
  assumes "IssueStoredValue env user req s = Inr (r, s')"
  obtains (replayed) "s' = s" "rc_replayed r" "svReceiptByKey env (''issue|'' @ trim (iq_key req)) (NormalizeCardNumber (iq_number req)) s = Inr (Some r)"
  | (funded) c p event c1 n s1 s2 src where "card_numbered env (NormalizeCardNumber (iq_number req)) s = Some c" "LoadStoredValueProfile (sv_t s) (sc_profile c) = Inr p"
      "checkIssueAmount p (RupeesToPaise (iq_amount req)) = Inr ()"
      "svReceiptByKey env (''issue|'' @ trim (iq_key req)) (NormalizeCardNumber (iq_number req)) s = Inr None"
      "event = (if effectiveStatus (t_today (sv_t s)) c = ''Inactive'' then ''ACTIVATE'' else ''RELOAD'')"
      "appendSVEvent c event (RupeesToPaise (iq_amount req)) [] src (''issue|'' @ trim (iq_key req)) s = Inr (c1, n, s1)"
      "s2 = s1 \<or> event = ''ACTIVATE'' \<and> (\<exists>ex. s2 = activate_card ex req (sc_id c) s1)"
      "post_wallet env ''StoredValue'' (sc_id c) [(paymentModeClearingAccount (iq_mode req), RupeesToPaise (iq_amount req))]
         [(vp_liability p, RupeesToPaise (iq_amount req))] (fund_key n) s2 = Inr s'"
proof -
  let ?idem = "''issue|'' @ trim (iq_key req)" and ?number = "NormalizeCardNumber (iq_number req)"
  from assms obtain o' where o': "svReceiptByKey env ?idem ?number s = Inr o'"
    unfolding IssueStoredValue_def Let_def by (auto split: if_splits)
  show thesis
  proof (cases o')
    case (Some r')
    with assms o' have "r' = r" "s' = s" unfolding IssueStoredValue_def Let_def by (auto split: if_splits)
    moreover from o' Some have "rc_replayed r'" by (auto simp: svReceiptByKey_def split: option.splits if_splits)
    ultimately show thesis using replayed o' Some by simp
  next
    case None
    with assms o' obtain c p where c: "card_numbered env ?number s = Some c" and p: "LoadStoredValueProfile (sv_t s) (sc_profile c) = Inr p"
      and chk: "checkIssueAmount p (RupeesToPaise (iq_amount req)) = Inr ()"
      unfolding IssueStoredValue_def Let_def by (auto split: if_splits option.splits)
    from assms o' None c p chk show thesis
      unfolding IssueStoredValue_def Let_def
      by (auto split: if_splits intro: funded [OF c p chk])
  qed
qed

lemma issue_reconciled:
  assumes "IssueStoredValue env user req s = Inr (r, s')" "RupeesToPaise (iq_amount req) < 2 ^ 63" "reconciled A s"
  shows "simulates A s s'"
  using assms(1)
proof (cases rule: IssueStoredValueE)
  case replayed
  with assms(3) show ?thesis by (simp add: simulates_refl)
next
  case (funded c p event c1 n s1 s2 src)
  let ?v = "RupeesToPaise (iq_amount req)"
  have ok: "cards_ok s" "keys_ok s" and own: "own_account (sv_t s) A" using assms(3) by (simp_all add: reconciled_def)
  have v: "0 < ?v" by (rule issue_positive [OF funded(3)])
  note c = card_numbered_mem [OF funded(1)]
  from appendSVEventE [OF funded(6)] have g: "sv_t s1 = sv_t s" "n = sv_entry s + 1" "sv_entry s1 = sv_entry s + 1" by metis+
  have "cards_ok s1" by (rule append_cards_ok [OF ok(1) c _ _ funded(6)]) (use v assms(2) in simp_all)
  with funded(7) have s2: "cards_ok s2" "sv_t s2 = sv_t s1" "sv_entry s2 = sv_entry s1" "sv_events s2 = sv_events s1" "outstanding A s2 = outstanding A s1" "purse A s2 = purse A s1"
    by (auto simp: activate_card_keeps)
  have new: "\<not> key_posted (sv_t s) (fund_key n)"
  proof
    assume "key_posted (sv_t s) (fund_key n)"
    with ok(2) have "n \<le> sv_entry s" unfolding keys_ok_def by blast
    then show False by (simp add: g)
  qed
  show ?thesis
    using own clearing_own v assms(2) new
    by (intro event_and_voucher [OF assms(3) c funded(2,6,8) s2]) auto
qed

lemma redeem_reconciled:
  assumes "redeemGiftCardTendersTx env cart location cashier mode tenders s = Inr s'" "reconciled A s"
  shows "simulates A s s'"
  using assms(1) unfolding redeemGiftCardTendersTx_def
proof (rule efold_invariant)
  show "simulates A s s" by (rule simulates_refl [OF assms(2)])
  fix u td u' assume "simulates A s u" "redeem_one env cart location cashier mode td u = Inr u'"
  then show "simulates A s u'" using redeem_one_reconciled simulates_trans by (metis simulates_def)
qed

lemma wallet_step_reconciled: "wallet_step A s s' \<Longrightarrow> reconciled A s \<Longrightarrow> simulates A s s'"
proof (induction rule: wallet_step.induct)
  case (register fuel env mint ds prof listed k s r s')
  then show ?case
    unfolding RegisterStoredValueCards_def Let_def
    by (auto split: sum.splits if_splits option.splits elim: register_reconciled)
next
  case (issue env user req s r s')
  then show ?case by (blast intro: issue_reconciled)
next
  case (redeem env cart location cashier mode tenders s s')
  then show ?case by (blast intro: redeem_reconciled)
next
  case (block env user number reason b s s')
  then show ?case by (blast intro: block_reconciled)
next
  case (cancel env user number reason location s r s')
  then show ?case by (blast intro: cancel_reconciled)
next
  case (other s' s)
  have ev: "card_events i s' = card_events i s" for i by (simp add: card_events_def other(2))
  have "cards_ok s'" using other(7) unfolding reconciled_def cards_ok_def card_ok_def ev other(1,2) by blast
  moreover have "outstanding A s' = outstanding A s" by (rule outstanding_cong) (simp_all add: other)
  moreover have "keys_ok s'"
    using other(7) other(6) unfolding reconciled_def keys_ok_def wallet_key_def key_used_def other(2,3) by blast
  moreover have "own_account (sv_t s') A" using other(7) own_account_cong [OF other(4)] by (simp add: reconciled_def)
  moreover have "purse A s' = purse A s" by (rule purse_cong) (simp_all add: other)
  ultimately show ?case using other(5,7) by (simp add: simulates_def books_of_def reconciled_def)
qed

lemma empty_reconciled:
  "sv_cards s = [] \<Longrightarrow> sv_events s = [] \<Longrightarrow> \<forall>k. wallet_key k \<longrightarrow> \<not> key_posted (sv_t s) k \<Longrightarrow> cards_ok s \<and> keys_ok s \<and> outstanding A s = 0"
  by (auto simp: cards_ok_def keys_ok_def outstanding_def wallet_key_def)

section \<open>A card at the till\<close>

text \<open>The data of the witnesses: one profile, one card, funded with 500.00 and used for 200.00.\<close>

definition std_data :: payload where
  "std_data = [(''number_length'', JNum 6), (''validity_months'', JNum 1), (''reload_allowed'', JStr ''Yes'')]"

definition card_tenant :: tenant where
  "card_tenant = empty_tenant\<lparr>t_documents := [new_doc empty_tenant ''StoredValueProfile'' ''STD'' std_data ''Active'' ''admin''],
     t_today := ''2026-04-01'', t_accounts := map (\<lambda>a. \<lparr>ga_code = a, ga_name = a, ga_type = ''Asset''\<rparr>) [''1100'', ''2610'']\<rparr>"

definition till_env :: sv_env where
  "till_env = \<lparr>ve_posting = plain_env, ve_clock = (2026, 4, 1), ve_hash = (\<lambda>_ n. n), ve_ring = [''k1''], ve_signing = ''k1''\<rparr>"

definition std_profile :: profile where
  "std_profile = \<lparr>vp_id = ''STD'', vp_type = [], vp_length = 6, vp_alphanumeric = False, vp_fixed = False, vp_denominations = [],
     vp_min = 0, vp_max = 0, vp_months = 1, vp_reload = True, vp_partial = True, vp_liability = ''2610'', vp_active = True\<rparr>"

definition no_cards :: wallet where
  "no_cards = \<lparr>sv_t = card_tenant, sv_cards = [], sv_events = [], sv_entry = 0, sv_advances = []\<rparr>"

definition demo_card :: card where
  "demo_card = new_card ''SVI1'' ''h1:k1:123456'' ''STD'' ''3456''"

definition demo_request :: issue_request where
  "demo_request = \<lparr>iq_number = ''123456'', iq_amount = 500, iq_mode = ''Cash'', iq_location = ''HQ'', iq_customer = [], iq_key = ''k''\<rparr>"

lemma words: "trim [] = []" "\<not> equal_fold [] ''Alphanumeric''" "\<not> equal_fold [] ''Fixed''" "\<not> equal_fold [] ''No''" "\<not> equal_fold [] ''Inactive''"
  "\<not> equal_fold ''Active'' ''Inactive''" "denominations_of [] = []" "yesValue (JStr ''Yes'')" "trim ''STD'' = ''STD''" "trim ''k'' = ''k''"
  "NormalizeCardNumber ''123456'' = ''123456''" "list_all is_digit ''123456''" "svLast4 ''123456'' = ''3456''"
  by code_simp+

lemma std_fields:
  "jget std_data ''number_length'' = JNum 6" "jget std_data ''validity_months'' = JNum 1" "jget std_data ''reload_allowed'' = JStr ''Yes''"
  "jget std_data ''liability_account'' = JNull" "jget std_data ''instrument_type'' = JNull" "jget std_data ''number_format'' = JNull"
  "jget std_data ''denomination_mode'' = JNull" "jget std_data ''denominations'' = JNull" "jget std_data ''min_amount'' = JNull"
  "jget std_data ''max_amount'' = JNull" "jget std_data ''partial_redemption'' = JNull" "jget std_data ''status'' = JNull"
  by (simp_all add: std_data_def jget_def)

lemma json_texts: "pimString JNull = []" "numFromInterface JNull = 0" "numFromInterface (JNum q) = q"
  by (simp_all add: pimString_def numFromInterface_def)

lemma std_loaded: "t_documents t = t_documents card_tenant \<Longrightarrow> LoadStoredValueProfile t ''STD'' = Inr std_profile"
proof -
  assume d: "t_documents t = t_documents card_tenant"
  have "fetchDocData t ''StoredValueProfile'' ''STD'' = Some (std_data, ''Active'')"
    unfolding fetchDocData_def d by (simp add: card_tenant_def empty_tenant_def new_doc_def words)
  then show ?thesis
    unfolding LoadStoredValueProfile_def
    by (simp only: option.case prod.case std_fields json_texts Let_def words RupeesToPaise_0 AccountStoredValueLiab_def std_profile_def)
      (simp add: words go_trunc_def)
qed

lemma paise_500: "RupeesToPaise 500 = 50000"
proof -
  have "fl (of_int 50000) = (of_int 50000 :: rat)" by (rule fl_of_int) simp
  then show ?thesis using math_round_of_int [of 50000] by (simp add: RupeesToPaise_def)
qed

lemma demo_registered:
  "\<exists>r. RegisterStoredValueCards 1 till_env (\<lambda>_. ''SVI1'') [] ''STD'' [''123456''] 0 no_cards = Some (Inr (r, no_cards\<lparr>sv_cards := [demo_card]\<rparr>))"
proof -
  have "LoadStoredValueProfile (sv_t no_cards) ''STD'' = Inr std_profile" by (rule std_loaded) (simp add: no_cards_def)
  moreover have "vp_active std_profile" "vp_id std_profile = ''STD''" by (simp_all add: std_profile_def)
  moreover have "listed_numbers std_profile [] [''123456''] = Inr [''123456'']"
    using words(12) by (simp add: words(11) validateCardNumberFormat_def std_profile_def Let_def del: list.pred_inject)
  ultimately show ?thesis
    by (simp add: RegisterStoredValueCards_def words Let_def number_known_def no_cards_def find_card_def demo_card_def svHashWith_def till_env_def)
qed

lemma issue_succeeds:
  assumes "NormalizeCardNumber (iq_number req) \<noteq> []" "trim (iq_key req) \<noteq> []"
    and "svReceiptByKey env (''issue|'' @ trim (iq_key req)) (NormalizeCardNumber (iq_number req)) s = Inr None"
    and "card_numbered env (NormalizeCardNumber (iq_number req)) s = Some c" "LoadStoredValueProfile (sv_t s) (sc_profile c) = Inr p" "vp_active p"
    and "checkIssueAmount p (RupeesToPaise (iq_amount req)) = Inr ()"
    and "effectiveStatus (t_today (sv_t s)) c = ''Inactive'' \<and> event = ''ACTIVATE''
       \<or> effectiveStatus (t_today (sv_t s)) c = ''Fully redeemed'' \<and> vp_reload p \<and> event = ''RELOAD''"
    and "appendSVEvent c event (RupeesToPaise (iq_amount req)) [] \<lparr>sr_doctype = ''GiftCardIssue'', sr_id = trim (iq_key req),
       sr_location = iq_location req, sr_mode = iq_mode req, sr_user = user, sr_reason = []\<rparr> (''issue|'' @ trim (iq_key req)) s = Inr (c1, n, s1)"
    and "s2 = (if event = ''ACTIVATE'' then activate_card (if vp_months p > 0 then format_date (add_months (ve_clock env) (nat (vp_months p))) else []) req (sc_id c) s1 else s1)"
    and "post_wallet env ''StoredValue'' (sc_id c) [(paymentModeClearingAccount (iq_mode req), RupeesToPaise (iq_amount req))]
       [(vp_liability p, RupeesToPaise (iq_amount req))] (fund_key n) s2 = Inr s3"
  shows "\<exists>r. IssueStoredValue env user req s = Inr (r, s3) \<and> \<not> rc_replayed r"
  using assms(8)
proof (elim disjE conjE)
  assume e: "effectiveStatus (t_today (sv_t s)) c = ''Inactive''" "event = ''ACTIVATE''"
  show ?thesis
    using assms(1-7,9-11) e(1) unfolding IssueStoredValue_def Let_def e(2) by (simp split: if_splits)
next
  assume e: "effectiveStatus (t_today (sv_t s)) c = ''Fully redeemed''" "vp_reload p" "event = ''RELOAD''"
  show ?thesis
    using assms(1-7,9-11) e(1,2) unfolding IssueStoredValue_def Let_def e(3) by simp
qed

text \<open>
  C4: starting from no cards, whatever cards are registered, funded, paid with, blocked,
  released and cancelled, in any order and between any other postings, the credit balance of
  a liability account kept for cards equals the sum of what the cards of its profiles hold,
  and every card holds the sum of its events, never less than nothing.
\<close>
theorem card_liability_reconciles:
  assumes "(wallet_step A)\<^sup>*\<^sup>* s s'" "sv_cards s = []" "sv_events s = []" "own_account (sv_t s) A"
    and "gl_balance (sv_t s) A = 0" "\<forall>k. wallet_key k \<longrightarrow> \<not> key_posted (sv_t s) k"
  shows "gl_balance (sv_t s') A = outstanding A s' \<and>
    (\<forall>c \<in> set (sv_cards s'). 0 \<le> sc_balance c \<and> sc_balance c = total_amount (card_events (sc_id c) s'))"
proof -
  have "reconciled A s"
    using assms(4,5) empty_reconciled [OF assms(2,3,6)] by (simp add: reconciled_def)
  with assms(1) have "reconciled A s'" by (induction rule: rtranclp_induct) (auto dest: wallet_step_reconciled simp: simulates_def)
  then show ?thesis unfolding reconciled_def cards_ok_def card_ok_def by blast
qed

definition demo_one :: wallet where
  "demo_one = no_cards\<lparr>sv_cards := [demo_card]\<rparr>"

lemma demo_found: "card_numbered till_env ''123456'' demo_one = Some demo_card"
  by (simp add: card_numbered_def svLookupKeys_def svHashWith_def till_env_def demo_one_def no_cards_def demo_card_def new_card_def)

lemma demo_posts:
  assumes "sv_t s = card_tenant" "0 < v"
  shows "post_wallet till_env ''StoredValue'' i [(''1100'', v)] [(''2610'', v)] (fund_key n) s
    = Inr (s\<lparr>sv_t := card_tenant\<lparr>t_postings := [posting_row True ''StoredValue'' i (fund_key n) no_opts None 0 ''1100'' v,
         posting_row False ''StoredValue'' i (fund_key n) no_opts None 0 ''2610'' v]\<rparr>\<rparr>)"
proof -
  have t: "t_periods card_tenant = []" "t_postings card_tenant = []" "t_now card_tenant = 0"
    "{''1100'', ''2610''} \<subseteq> ga_code ` set (t_accounts card_tenant)" by (simp_all add: card_tenant_def empty_tenant_def)
  have "\<not> key_posted card_tenant (fund_key n)" by (simp add: key_posted_def t)
  from post_pair [OF t(1,4) assms(2,2) _ disjI2 [OF this], of "''StoredValue''" i] assms(1) show ?thesis
    by (simp add: post_wallet_def till_env_def t sum_paise_def)
qed

lemma demo_issued: "\<exists>r s'. IssueStoredValue till_env ''till'' demo_request demo_one = Inr (r, s') \<and> length (t_postings (sv_t s')) = 2 \<and> length (sv_cards s') = 1"
proof -
  let ?src = "\<lparr>sr_doctype = ''GiftCardIssue'', sr_id = ''k'', sr_location = ''HQ'', sr_mode = ''Cash'', sr_user = ''till'', sr_reason = []\<rparr>"
  have "wrap64 50000 = 50000" by (rule wrap64_id) simp_all
  then obtain c1 s1 where a: "appendSVEvent demo_card ''ACTIVATE'' 50000 [] ?src ''issue|k'' demo_one = Inr (c1, 1, s1)"
    "sv_t s1 = card_tenant" "length (sv_cards s1) = 1"
    by (simp add: appendSVEvent_def Let_def demo_one_def no_cards_def find_card_def put_card_def demo_card_def new_card_def)
  define s2 where "s2 = activate_card (format_date (add_months (ve_clock till_env) (nat (vp_months std_profile)))) demo_request (sc_id demo_card) s1"
  have s2: "sv_t s2 = card_tenant" "length (sv_cards s2) = 1" by (simp_all add: s2_def activate_card_def a)
  have p: "vp_active std_profile" "vp_months std_profile > 0" "vp_liability std_profile = ''2610''" "checkIssueAmount std_profile 50000 = Inr ()"
    by (simp_all add: std_profile_def checkIssueAmount_def)
  have dc: "sc_profile demo_card = ''STD''" "sc_id demo_card = ''SVI1''" "effectiveStatus today demo_card = ''Inactive''" for today
    by (simp_all add: demo_card_def new_card_def effectiveStatus_def)
  have rq: "iq_number demo_request = ''123456''" "iq_key demo_request = ''k''" "iq_amount demo_request = 500" "iq_mode demo_request = ''Cash''"
    "iq_location demo_request = ''HQ''" "paymentModeClearingAccount ''Cash'' = ''1100''"
    by (simp_all add: demo_request_def paymentModeClearingAccount_def)
  have none: "svReceiptByKey till_env ''issue|k'' ''123456'' demo_one = Inr None" by (simp add: svReceiptByKey_def demo_one_def no_cards_def)
  have ld: "LoadStoredValueProfile (sv_t demo_one) ''STD'' = Inr std_profile" by (rule std_loaded) (simp add: demo_one_def no_cards_def)
  have "\<exists>r. IssueStoredValue till_env ''till'' demo_request demo_one = Inr (r, s2\<lparr>sv_t := card_tenant\<lparr>t_postings :=
      [posting_row True ''StoredValue'' ''SVI1'' (fund_key 1) no_opts None 0 ''1100'' 50000,
       posting_row False ''StoredValue'' ''SVI1'' (fund_key 1) no_opts None 0 ''2610'' 50000]\<rparr>\<rparr>) \<and> \<not> rc_replayed r"
    using a(1) none demo_found ld p demo_posts [OF s2(1), of 50000]
    by (intro issue_succeeds [where c = demo_card and p = std_profile and event = "''ACTIVATE''" and ?c1.0 = c1 and n = 1 and ?s1.0 = s1 and ?s2.0 = s2])
      (simp_all add: rq words dc paise_500 s2_def)
  then show ?thesis using s2(2) by auto
qed

lemma demo_accounts: "own_account card_tenant ''2610''"
  by (simp add: own_account_def LoadStoredValueProfile_def fetchDocData_def card_tenant_def new_doc_def AdvanceProfileID_def std_data_def
      empty_tenant_def jtext_def jget_def Let_def)

lemma demo_start: "sv_cards no_cards = []" "sv_events no_cards = []" "own_account (sv_t no_cards) ''2610''"
  "gl_balance (sv_t no_cards) ''2610'' = 0" "\<forall>k. wallet_key k \<longrightarrow> \<not> key_posted (sv_t no_cards) k"
  using demo_accounts
  by (simp_all add: no_cards_def gl_balance_def key_posted_def debit_sum_def credit_sum_def card_tenant_def empty_tenant_def)

lemma demo_register_step: "wallet_step ''2610'' no_cards demo_one"
  using demo_registered by (auto simp: demo_one_def intro!: wallet_step.register)

theorem card_liability_reconciles_witness:
  "\<exists>s'. (wallet_step ''2610'')\<^sup>*\<^sup>* no_cards s' \<and> length (t_postings (sv_t s')) = 2 \<and> length (sv_cards s') = 1
     \<and> gl_balance (sv_t s') ''2610'' = outstanding ''2610'' s'
     \<and> (\<forall>c \<in> set (sv_cards s'). 0 \<le> sc_balance c \<and> sc_balance c = total_amount (card_events (sc_id c) s'))"
proof -
  obtain r s' where i: "IssueStoredValue till_env ''till'' demo_request demo_one = Inr (r, s')"
    and l: "length (t_postings (sv_t s')) = 2" "length (sv_cards s') = 1" using demo_issued by blast
  have "wallet_step ''2610'' demo_one s'" by (rule wallet_step.issue [OF i]) (simp add: demo_request_def paise_500)
  with demo_register_step have "(wallet_step ''2610'')\<^sup>*\<^sup>* no_cards s'" by (meson rtranclp.rtrancl_into_rtrancl rtranclp.rtrancl_refl)
  with card_liability_reconciles [OF this demo_start] l show ?thesis by blast
qed



section \<open>Value added after the expiry date\<close>

lemma find_put_card:
  "find_card (sc_id c) s = Some k \<Longrightarrow> find_card (sc_id c) (put_card c s)
     = Some (k\<lparr>sc_balance := sc_balance c, sc_funded := sc_funded c, sc_status := sc_status c, sc_seq := sc_seq c\<rparr>)"
proof -
  let ?upd = "\<lambda>k :: card. if sc_id k = sc_id c then k\<lparr>sc_balance := sc_balance c, sc_funded := sc_funded c, sc_status := sc_status c,
     sc_seq := sc_seq c\<rparr> else k"
  assume k: "find_card (sc_id c) s = Some k"
  have "find (\<lambda>x. sc_id x = sc_id c) (map ?upd cs) = map_option ?upd (find (\<lambda>x. sc_id x = sc_id c) cs)" for cs
    by (induction cs) auto
  with k find_cardD [OF k] show ?thesis by (simp add: find_card_def put_card_def)
qed

text \<open>
  A card used up and past its expiry date still accepts value, because only a card with
  a balance left counts as expired; the customer's money goes on a card that is expired from
  that moment, and no amount can be taken from it.
\<close>
theorem value_added_after_expiry_is_stranded:
  assumes "IssueStoredValue env user req s = Inr (r, s')" "\<not> rc_replayed r"
    and "cards_ok s" "card_numbered env (NormalizeCardNumber (iq_number req)) s = Some c"
    and "sc_status c = ''Fully redeemed''" "sc_balance c = 0" "sc_expires c \<noteq> []" "sc_expires c < t_today (sv_t s)"
    and "0 < sc_funded c" "RupeesToPaise (iq_amount req) + sc_funded c < 2 ^ 63"
  shows "\<exists>c'. find_card (sc_id c) s' = Some c' \<and> sc_balance c' = RupeesToPaise (iq_amount req)
     \<and> effectiveStatus (t_today (sv_t s)) c' = ''Expired'' \<and> (\<forall>p v. checkRedeemable c' p v (t_today (sv_t s)) \<noteq> Inr ())"
  using assms(1)
proof (cases rule: IssueStoredValueE)
  case replayed
  with assms(2) show ?thesis by simp
next
  case (funded k p event c1 n s1 s2 src)
  let ?v = "RupeesToPaise (iq_amount req)"
  have k: "k = c" using funded(1) assms(4) by simp
  have cs: "c \<in> set (sv_cards s)" by (rule card_numbered_mem [OF assms(4)])
  have v: "0 < ?v" by (rule issue_positive [OF funded(3)])
  have ev: "event = ''RELOAD''" and s2: "s2 = s1"
    using funded(5,7) assms(5) by (auto simp: k effectiveStatus_def)
  from appendSVEventE [OF funded(6)] have c1: "c1 = moved_card event ?v [] c" "sv_cards s1 = sv_cards (put_card c1 s)"
    unfolding k by metis+
  have w: "wrap64 (sc_funded c + ?v) = sc_funded c + ?v" "wrap64 ?v = ?v" using v assms(9,10) by (auto intro!: wrap64_id)
  have id1: "sc_id c1 = sc_id c" by (simp add: c1(1))
  have fields: "sc_balance c1 = ?v" "sc_funded c1 = sc_funded c + ?v" "sc_status c1 = ''Partially redeemed''"
    using v assms(6,9) w by (simp_all add: c1(1) moved_card_def ev Let_def statusFromBalance_def)
  have "find_card (sc_id c1) s = Some c" using find_card_iff [of s] assms(3) cs id1 by (simp add: cards_ok_def)
  from find_put_card [OF this] have f: "find_card (sc_id c) s' = Some (c\<lparr>sc_balance := ?v, sc_funded := sc_funded c1, sc_status := sc_status c1, sc_seq := sc_seq c1\<rparr>)"
    using funded(8) by (auto simp: s2 find_card_def c1(2) id1 fields elim!: post_walletE)
  have "effectiveStatus (t_today (sv_t s)) (c\<lparr>sc_balance := ?v, sc_funded := sc_funded c1, sc_status := sc_status c1, sc_seq := sc_seq c1\<rparr>) = ''Expired''"
    using assms(7,8) fields(3) by (simp add: effectiveStatus_def)
  with f show ?thesis by (simp add: checkRedeemable_def)
qed

text \<open>A card funded with 500.00 and used up, past its date.\<close>

definition used_up :: wallet where
  "used_up = (let ev = \<lambda>n a b ty. \<lparr>se_entry = n, se_card = ''SVI1'', se_seq = int n, se_type = ty, se_amount = a, se_after = b,
      se_source = \<lparr>sr_doctype = [], sr_id = [], sr_location = [], sr_mode = [], sr_user = [], sr_reason = []\<rparr>, se_key = None\<rparr>
    in no_cards\<lparr>sv_cards := [demo_card\<lparr>sc_status := ''Fully redeemed'', sc_funded := 50000, sc_seq := 2, sc_expires := ''2026-03-31''\<rparr>],
         sv_events := [ev 1 50000 50000 ''ACTIVATE'', ev 2 (- 50000) 0 ''REDEEM''], sv_entry := 2\<rparr>)"

lemma used_up_ok: "cards_ok used_up"
proof -
  have "chained (card_events ''SVI1'' used_up)"
    by (auto simp: chained_def card_events_def used_up_def no_cards_def total_amount_def Let_def less_Suc_eq)
  then show ?thesis
    by (simp add: cards_ok_def card_ok_def used_up_def no_cards_def demo_card_def new_card_def Let_def card_events_def total_amount_def)
qed

theorem value_added_after_expiry_is_stranded_witness:
  "\<exists>r s' c'. IssueStoredValue till_env ''till'' demo_request used_up = Inr (r, s') \<and> find_card ''SVI1'' s' = Some c'
     \<and> sc_balance c' = 50000 \<and> effectiveStatus ''2026-04-01'' c' = ''Expired'' \<and> checkRedeemable c' std_profile 1 ''2026-04-01'' \<noteq> Inr ()"
proof -
  define c where "c = demo_card\<lparr>sc_status := ''Fully redeemed'', sc_funded := 50000, sc_seq := 2, sc_expires := ''2026-03-31''\<rparr>"
  let ?src = "\<lparr>sr_doctype = ''GiftCardIssue'', sr_id = ''k'', sr_location = ''HQ'', sr_mode = ''Cash'', sr_user = ''till'', sr_reason = []\<rparr>"
  have t: "sv_t used_up = card_tenant" "sv_cards used_up = [c]" by (simp_all add: used_up_def no_cards_def c_def Let_def)
  have dc: "sc_profile c = ''STD''" "sc_id c = ''SVI1''" "effectiveStatus today c = ''Fully redeemed''" "sc_balance c = 0" "sc_seq c = 2" "sc_funded c = 50000"
    "sc_status c = ''Fully redeemed''" "sc_expires c = ''2026-03-31''" "sc_number c = ''h1:k1:123456''" for today
    by (simp_all add: c_def demo_card_def new_card_def effectiveStatus_def)
  have "wrap64 50000 = 50000" by (rule wrap64_id) simp_all
  then obtain c1 s1 where a: "appendSVEvent c ''RELOAD'' 50000 [] ?src ''issue|k'' used_up = Inr (c1, 3, s1)" "sv_t s1 = card_tenant"
    by (simp add: appendSVEvent_def Let_def t find_card_def put_card_def dc) (simp add: used_up_def nullable_def Let_def no_cards_def)
  have p: "vp_active std_profile" "vp_reload std_profile" "vp_liability std_profile = ''2610''" "checkIssueAmount std_profile 50000 = Inr ()"
    by (simp_all add: std_profile_def checkIssueAmount_def)
  have rq: "iq_number demo_request = ''123456''" "iq_key demo_request = ''k''" "iq_amount demo_request = 500" "iq_mode demo_request = ''Cash''"
    "iq_location demo_request = ''HQ''" "paymentModeClearingAccount ''Cash'' = ''1100''"
    by (simp_all add: demo_request_def paymentModeClearingAccount_def)
  have none: "svReceiptByKey till_env ''issue|k'' ''123456'' used_up = Inr None"
    by (simp add: svReceiptByKey_def used_up_def Let_def)
  have found: "card_numbered till_env ''123456'' used_up = Some c"
    by (simp add: card_numbered_def svLookupKeys_def svHashWith_def till_env_def t dc)
  have ld: "LoadStoredValueProfile (sv_t used_up) ''STD'' = Inr std_profile" by (rule std_loaded) (simp add: t)
  have "\<exists>r. IssueStoredValue till_env ''till'' demo_request used_up = Inr (r, s1\<lparr>sv_t := card_tenant\<lparr>t_postings :=
      [posting_row True ''StoredValue'' ''SVI1'' (fund_key 3) no_opts None 0 ''1100'' 50000,
       posting_row False ''StoredValue'' ''SVI1'' (fund_key 3) no_opts None 0 ''2610'' 50000]\<rparr>\<rparr>) \<and> \<not> rc_replayed r"
    using a(1) none found ld p demo_posts [OF a(2), of 50000]
    by (intro issue_succeeds [where c = c and p = std_profile and event = "''RELOAD''" and ?c1.0 = c1 and n = 3 and ?s1.0 = s1 and ?s2.0 = s1])
      (simp_all add: rq words dc paise_500)
  then obtain r s' where i: "IssueStoredValue till_env ''till'' demo_request used_up = Inr (r, s')" "\<not> rc_replayed r" by blast
  have d: "t_today card_tenant = ''2026-04-01''" "''2026-03-31'' < ''2026-04-01''"
    by (simp_all add: card_tenant_def less_list_code less_char_def)
  from value_added_after_expiry_is_stranded [OF i used_up_ok] found dc d i(1) show ?thesis
    by (simp add: rq words paise_500 t) blast
qed

end
