(* ===== verification/SaleAllocation.thy ===== *)
theory SaleAllocation
  imports Allocation StoredValue
begin

text \<open>
  How a bill is paid and paid back (engines/sale_allocation.go, engines/pos_tenders.go): each
  line's share of the round-off, the points, the gift cards and the money tenders, fixed when
  the sale posts; the split of a bill over the till's tenders and its posting; what the units
  of a return are worth; and the refund of the gift-card share onto the cards.

  A Go map of paise is an association list. The parallel slices of \<open>buildSaleAllocation\<close> are
  one list of \<open>sale_line\<close>. The \<open>claimed\<close> counts of earlier returns are a function of the SKU.
\<close>

section \<open>The allocation of a sale\<close>

definition TenderLoyaltyPoints :: string where
  "TenderLoyaltyPoints = ''Loyalty Points''"

definition TenderGiftCard :: string where
  "TenderGiftCard = ''Gift Card''"

record sale_line =
  sl_sku :: string
  sl_qty :: int
  sl_gross :: int
  sl_offer :: int

record line_allocation =
  la_sku :: string
  la_qty :: int
  la_gross :: int
  la_offer :: int
  la_net :: int
  la_round :: int
  la_points :: int
  la_tenders :: amounts

definition net_of :: "sale_line list \<Rightarrow> int list" where
  "net_of lines = map (\<lambda>l. wrap64 (sl_gross l - sl_offer l)) lines"

definition round_shares :: "int \<Rightarrow> int list \<Rightarrow> int list" where
  "round_shares roundOff net =
     (if roundOff < 0 then map uminus (allocatePaise (- roundOff) net) else allocatePaise roundOff net)"

definition bill_of :: "int \<Rightarrow> int list \<Rightarrow> int list" where
  "bill_of roundOff net = map2 (\<lambda>n r. wrap64 (n + r)) net (round_shares roundOff net)"

definition settle_tender :: "string \<Rightarrow> int \<Rightarrow> (line_allocation \<times> int) list \<Rightarrow> (line_allocation \<times> int) list" where
  "settle_tender key amount st =
     map2 (\<lambda>(l, left) share. if share \<noteq> 0 then (l\<lparr>la_tenders := add_paise key share (la_tenders l)\<rparr>, wrap64 (left - share)) else (l, left))
       st (allocatePaise amount (map snd st))"

definition new_allocation :: "sale_line \<Rightarrow> int \<Rightarrow> int \<Rightarrow> int \<Rightarrow> int \<Rightarrow> line_allocation" where
  "new_allocation l net rnd pts pointValue =
     \<lparr>la_sku = sl_sku l, la_qty = sl_qty l, la_gross = sl_gross l, la_offer = sl_offer l, la_net = net, la_round = rnd,
      la_points = pts, la_tenders = (let v = wrap64 (pts * pointValue) in if v \<noteq> 0 then [(TenderLoyaltyPoints, v)] else [])\<rparr>"

definition buildSaleAllocation ::
  "sale_line list \<Rightarrow> int \<Rightarrow> int \<Rightarrow> int \<Rightarrow> int \<Rightarrow> amounts \<Rightarrow> line_allocation list" where
  "buildSaleAllocation lines roundOff points pointValue gift money =
     (let net = net_of lines;
          rounds = round_shares roundOff net;
          bill = bill_of roundOff net;
          pts = allocatePaise points bill;
          left = map2 (\<lambda>b p. wrap64 (b - wrap64 (p * pointValue))) bill pts;
          out = map (\<lambda>(l, n, r, p). new_allocation l n r p pointValue) (zip lines (zip net (zip rounds pts)))
      in map fst (foldl (\<lambda>st (k, v). settle_tender k v st) (settle_tender TenderGiftCard gift (zip out left)) money))"

definition cartOfferShares :: "int list \<Rightarrow> rat list \<Rightarrow> rat \<Rightarrow> int list" where
  "cartOfferShares gross stored offerDiscount =
     (let shares = take (length gross) (map RupeesToPaise stored @ replicate (length gross) 0);
          storedSum = foldl (\<lambda>a s. wrap64 (a + RupeesToPaise s)) 0 stored;
          amount = RupeesToPaise offerDiscount
      in if storedSum = amount then shares else allocatePaise amount gross)"

section \<open>The till's tenders\<close>

definition posMoneyModes :: "string list" where
  "posMoneyModes = [''Cash'', ''Card'', ''UPI'']"

definition add_fixed :: "amounts \<times> int \<Rightarrow> string \<times> rat \<Rightarrow> (amounts \<times> int) res" where
  "add_fixed = (\<lambda>(parts, fixedPaise) (typed, amount).
     let mode = trim typed; p = RupeesToPaise amount in
     if mode \<notin> set posMoneyModes then Inl (Coded ''POSOFF-0605'')
     else if p \<le> 0 then Inr (parts, fixedPaise)
     else Inr (add_paise mode p parts, wrap64 (fixedPaise + p)))"

definition settlePOSTenders :: "(string \<times> rat) list \<Rightarrow> string \<Rightarrow> int \<Rightarrow> amounts res" where
  "settlePOSTenders fixed paymentMode due =
     rbind (efold add_fixed ([], 0) fixed) (\<lambda>(parts, fixedPaise).
       if fixedPaise > due then Inl (Coded ''POSOFF-0604'')
       else let rest = wrap64 (due - fixedPaise) in
         Inr (if rest > 0 then add_paise (if paymentMode = [] then ''Cash'' else paymentMode) rest parts else parts))"

definition ValidatePOSTenders :: "(string \<times> rat) list \<Rightarrow> string \<Rightarrow> rat \<Rightarrow> unit res" where
  "ValidatePOSTenders fixed paymentMode moneyDue =
     rbind (settlePOSTenders fixed paymentMode (RupeesToPaise moneyDue)) (\<lambda>_. Inr ())"

definition tender_key :: "string \<Rightarrow> string \<Rightarrow> string" where
  "tender_key cart key = ''POSCart:'' @ cart @ '':TENDER:'' @ key"

definition postTenderReclassTx :: "posting_env \<Rightarrow> string \<Rightarrow> string \<Rightarrow> amounts \<Rightarrow> tenant \<Rightarrow> tenant res" where
  "postTenderReclassTx env cart primary parts t =
     (let from = paymentModeClearingAccount primary in
      efold (\<lambda>t (k, paise). let to = paymentModeClearingAccount k in
        if paise \<le> 0 \<or> to = from then Inr t
        else PostDoubleEntryTx env ''POSCart'' cart [(to, paise)] [(from, paise)] [] (tender_key cart k) no_opts t) t parts)"

section \<open>Refunds\<close>

definition refundCreditsByTender :: "amounts \<Rightarrow> string \<Rightarrow> amounts" where
  "refundCreditsByTender tenders liability =
     foldl (\<lambda>credits (k, paise).
        if paise \<le> 0 \<or> k = TenderLoyaltyPoints then credits
        else if k = TenderGiftCard then add_paise liability paise credits
        else add_paise (paymentModeClearingAccount k) paise credits) [] tenders"

definition refund_idem :: "string \<Rightarrow> string \<Rightarrow> string" where
  "refund_idem request i = ''refund|'' @ request @ ''|'' @ i"

definition refund_card :: "string \<Rightarrow> string \<Rightarrow> string \<Rightarrow> amounts \<times> wallet \<Rightarrow> tender \<times> int \<Rightarrow> (amounts \<times> wallet) res" where
  "refund_card cart request user = (\<lambda>(byAccount, s) (td, share).
     if share \<le> 0 then Inr (byAccount, s)
     else let idem = refund_idem request (td_card td) in
       (case find_card (td_card td) s of
          None \<Rightarrow> Inl (Plain ''gift card'')
        | Some c \<Rightarrow> rbind (LoadStoredValueProfile (sv_t s) (sc_profile c)) (\<lambda>p.
            let byAccount' = add_paise (vp_liability p) share byAccount in
            if key_used idem s then Inr (byAccount', s)
            else if effectiveStatus (t_today (sv_t s)) c \<in> {''Blocked'', ''Cancelled''} then Inl (Coded ''POSOFF-0606'')
            else rbind (appendSVEvent c ''REVERSAL'' share [] \<lparr>sr_doctype = ''RefundRequest'', sr_id = request, sr_location = [],
                     sr_mode = [], sr_user = user, sr_reason = ''returned against '' @ cart\<rparr> idem s) (\<lambda>(_, _, s').
              Inr (byAccount', s')))))"

text \<open>\<open>sort.Slice\<close> is not stable; tenders of one card are the only equal keys.\<close>

definition refundGiftCardShareTx :: "string \<Rightarrow> string \<Rightarrow> string \<Rightarrow> int \<Rightarrow> tender list \<Rightarrow> wallet \<Rightarrow> (amounts \<times> wallet) res" where
  "refundGiftCardShareTx cart request user share tenders s =
     (if share \<le> 0 \<or> tenders = [] then Inr ([], s)
      else let sorted = sort_key td_card tenders in
        efold (refund_card cart request user) ([], s) (zip sorted (allocatePaise share (map td_paise sorted))))"

record sku_share =
  ss_qty :: int
  ss_net :: int
  ss_round :: int
  ss_points :: int
  ss_tenders :: amounts

definition add_share :: "line_allocation \<Rightarrow> sku_share \<Rightarrow> sku_share" where
  "add_share l s = \<lparr>ss_qty = wrap64 (ss_qty s + la_qty l), ss_net = wrap64 (ss_net s + la_net l), ss_round = wrap64 (ss_round s + la_round l),
     ss_points = wrap64 (ss_points s + la_points l), ss_tenders = foldl (\<lambda>m (k, v). add_paise k v m) (ss_tenders s) (la_tenders l)\<rparr>"

definition by_sku :: "line_allocation list \<Rightarrow> string \<Rightarrow> sku_share option" where
  "by_sku lines = foldl (\<lambda>m l. m(la_sku l \<mapsto> add_share l (case m (la_sku l) of Some s \<Rightarrow> s
       | None \<Rightarrow> \<lparr>ss_qty = 0, ss_net = 0, ss_round = 0, ss_points = 0, ss_tenders = []\<rparr>))) (\<lambda>_. None) lines"

record return_record =
  rr_sku :: string
  rr_qty :: int
  rr_unit_price :: rat
  rr_allocated :: bool
  rr_net :: int
  rr_points :: int
  rr_tenders :: amounts
  rr_round :: int

definition tender_share :: "sku_share \<Rightarrow> int \<Rightarrow> int \<Rightarrow> int \<Rightarrow> string \<times> int \<Rightarrow> string \<times> int" where
  "tender_share s from qty pts = (\<lambda>(k, v).
     (k, if k = TenderLoyaltyPoints \<and> ss_points s > 0 then wrap64 (pts * go_div v (ss_points s))
         else unitShare v from qty (ss_qty s)))"

definition price_record :: "sku_share \<Rightarrow> int \<Rightarrow> return_record \<Rightarrow> return_record" where
  "price_record s from r =
     (let qty = rr_qty r; pts = unitShare (ss_points s) from qty (ss_qty s);
          shares = filter (\<lambda>(k, v). v \<noteq> 0) (map (tender_share s from qty pts) (ss_tenders s));
          net = foldl (\<lambda>a (k, v). wrap64 (a + v)) 0 shares;
          rnd = unitShare (ss_round s) from qty (ss_qty s)
      in r\<lparr>rr_allocated := True, rr_points := pts, rr_tenders := shares, rr_net := net, rr_round := rnd,
           rr_unit_price := fl (PaiseToRupees (wrap64 (net - rnd)) / of_int qty)\<rparr>)"

fun applySaleAllocationToRecords ::
  "return_record list \<Rightarrow> (string \<Rightarrow> sku_share option) \<Rightarrow> (string \<Rightarrow> int) \<Rightarrow> return_record list" where
  "applySaleAllocationToRecords [] alloc claimed = []"
| "applySaleAllocationToRecords (r # rs) alloc claimed =
     (case alloc (rr_sku r) of
        None \<Rightarrow> r # applySaleAllocationToRecords rs alloc claimed
      | Some s \<Rightarrow>
          if ss_qty s \<le> 0 then r # applySaleAllocationToRecords rs alloc claimed
          else price_record s (claimed (rr_sku r)) r
            # applySaleAllocationToRecords rs alloc (claimed(rr_sku r := wrap64 (claimed (rr_sku r) + rr_qty r))))"

definition moneyPaise :: "return_record \<Rightarrow> int" where
  "moneyPaise r = (if \<not> rr_allocated r then RupeesToPaise (fl (rr_unit_price r * of_int (rr_qty r)))
     else wrap64 (rr_net r - paise_of TenderLoyaltyPoints (rr_tenders r)))"

section \<open>Maps of paise: lemmas\<close>

lemma paise_of_add:
  assumes "- (2 ^ 63) \<le> paise_of k m + v" "paise_of k m + v < 2 ^ 63"
  shows "paise_of k' (add_paise k v m) = paise_of k' m + (if k' = k then v else 0)"
proof (cases "map_of m k")
  case None
  then have "map_of (m @ [(k, v)]) k' = (if k' = k then Some v else map_of m k')"
    by (auto simp: map_add_def split: option.splits)
  with None show ?thesis by (simp add: paise_of_def add_paise_def)
next
  case (Some u)
  have "map_of (map (\<lambda>(k', v'). if k' = k then (k', wrap64 (v' + v)) else (k', v')) m) k'
      = (if k' = k then map_option (\<lambda>v'. wrap64 (v' + v)) (map_of m k) else map_of m k')"
    by (induction m) auto
  moreover have "wrap64 (u + v) = u + v" using assms Some by (intro wrap64_id) (auto simp: paise_of_def)
  ultimately show ?thesis using Some by (simp add: paise_of_def add_paise_def)
qed

definition paise_map :: "amounts \<Rightarrow> bool" where
  "paise_map m \<longleftrightarrow> distinct (map fst m) \<and> (\<forall>(k, v) \<in> set m. 0 < v)"

lemma total_of_simps [simp]: "total_of [] = 0" "total_of ((k, v) # m) = v + total_of m" "total_of (m @ n) = total_of m + total_of n"
  by (simp_all add: total_of_def)

lemma paise_of_simps [simp]: "paise_of k [] = 0" "paise_of k ((k', v) # m) = (if k' = k then v else paise_of k m)"
  by (simp_all add: paise_of_def)

lemma paise_map_Cons [simp]: "paise_map ((k, v) # m) \<longleftrightarrow> k \<notin> fst ` set m \<and> 0 < v \<and> paise_map m"
  by (auto simp: paise_map_def)

lemma paise_map_Nil [simp]: "paise_map []"
  by (simp add: paise_map_def)

lemma paise_map_total: "paise_map m \<Longrightarrow> 0 \<le> total_of m"
  by (induction m) (auto split: prod.splits)

lemma paise_of_total: "paise_map m \<Longrightarrow> 0 \<le> paise_of k m \<and> paise_of k m \<le> total_of m"
proof (induction m)
  case Nil
  then show ?case by simp
next
  case (Cons x m)
  then show ?case using paise_map_total [of m] by (cases x) auto
qed

lemma total_of_map_add:
  assumes "distinct (map fst m)" "map_of m k = Some u" "wrap64 (u + v) = u + v"
  shows "total_of (map (\<lambda>(k', v'). if k' = k then (k', wrap64 (v' + v)) else (k', v')) m) = total_of m + v"
  using assms
proof (induction m)
  case Nil
  then show ?case by simp
next
  case (Cons x m)
  obtain k' v' where x: "x = (k', v')" by (cases x)
  show ?case
  proof (cases "k' = k")
    case True
    then have "map (\<lambda>(k', v'). if k' = k then (k', wrap64 (v' + v)) else (k', v')) m = m"
      using Cons.prems(1) x by (intro map_idI) (force simp: image_iff)
    with True Cons.prems x show ?thesis by simp
  next
    case False
    with Cons x show ?thesis by simp
  qed
qed

lemma add_paise_map:
  assumes "paise_map m" "0 < v" "total_of m + v < 2 ^ 63"
  shows "paise_map (add_paise k v m)" "total_of (add_paise k v m) = total_of m + v"
    "paise_of k' (add_paise k v m) = paise_of k' m + (if k' = k then v else 0)"
proof -
  note u = paise_of_total [OF assms(1), of k]
  have w: "wrap64 (u + v) = u + v" if "map_of m k = Some u" for u
    using that u assms(2,3) by (intro wrap64_id) (auto simp: paise_of_def)
  have d: "distinct (map fst m)" using assms(1) by (simp add: paise_map_def)
  show "total_of (add_paise k v m) = total_of m + v"
    using total_of_map_add [OF d] w by (cases "map_of m k") (auto simp: add_paise_def)
  show "paise_of k' (add_paise k v m) = paise_of k' m + (if k' = k then v else 0)"
    using u assms(2,3) by (intro paise_of_add) auto
  have keys: "map fst (map (\<lambda>(k', v'). if k' = k then (k', wrap64 (v' + v)) else (k', v')) m) = map fst m"
    by auto
  show "paise_map (add_paise k v m)"
  proof (cases "map_of m k")
    case None
    then show ?thesis
      using assms by (auto simp: add_paise_def paise_map_def map_of_eq_None_iff)
  next
    case (Some u)
    have pos: "0 < wrap64 (v' + v)" if "(k, v') \<in> set m" for v'
    proof -
      have "v' = u" using that Some d by (metis map_of_is_SomeI option.inject)
      with w [OF Some] assms(1,2) that show ?thesis by (auto simp: paise_map_def)
    qed
    have "distinct (map fst (map (\<lambda>(k', v'). if k' = k then (k', wrap64 (v' + v)) else (k', v')) m))"
      unfolding keys by (rule d)
    then show ?thesis
      using Some assms(1) pos unfolding add_paise_def paise_map_def by (auto simp del: map_map split: if_splits)
  qed
qed

section \<open>Settling a bill\<close>

text \<open>
  A bill part-way through its tenders: what each line has been paid and what it still owes.
\<close>

definition paid_so_far :: "(line_allocation \<times> int) list \<Rightarrow> string \<Rightarrow> int" where
  "paid_so_far st k = sum_list (map (\<lambda>(l, _). paise_of k (la_tenders l)) st)"

lemma paid_by_lines: "sum_list (map (\<lambda>l. paise_of k (la_tenders l)) (map fst st)) = paid_so_far st k"
  by (induction st) (auto simp: paid_so_far_def)

definition line_ok :: "int \<Rightarrow> line_allocation \<times> int \<Rightarrow> bool" where
  "line_ok B = (\<lambda>(l, left). paise_map (la_tenders l) \<and> 0 \<le> left \<and> total_of (la_tenders l) + left = la_net l + la_round l
     \<and> la_net l + la_round l \<le> B)"

definition settle_line :: "string \<Rightarrow> line_allocation \<times> int \<Rightarrow> int \<Rightarrow> line_allocation \<times> int" where
  "settle_line k = (\<lambda>(l, left) share.
     if share \<noteq> 0 then (l\<lparr>la_tenders := add_paise k share (la_tenders l)\<rparr>, wrap64 (left - share)) else (l, left))"

lemma settle_line_ok:
  assumes "line_ok B x" "B < 2 ^ 62" "0 \<le> v" "v \<le> snd x"
  shows "line_ok B (settle_line k x v)" "snd (settle_line k x v) = snd x - v"
    "paise_of k' (la_tenders (fst (settle_line k x v))) = paise_of k' (la_tenders (fst x)) + (if k' = k then v else 0)"
    "la_round (fst (settle_line k x v)) = la_round (fst x)" "la_sku (fst (settle_line k x v)) = la_sku (fst x)"
proof -
  obtain l left where x: "x = (l, left)" by (cases x)
  have ok: "paise_map (la_tenders l)" "0 \<le> left" "total_of (la_tenders l) + left = la_net l + la_round l" "la_net l + la_round l \<le> B"
    using assms(1) x by (auto simp: line_ok_def)
  have "0 \<le> total_of (la_tenders l)" using ok(1) by (rule paise_map_total)
  then have bounds: "total_of (la_tenders l) + v < 2 ^ 63" "left < 2 ^ 62" using ok assms(2,4) x by auto
  have w: "wrap64 (left - v) = left - v" using bounds(2) assms(3,4) x by (intro wrap64_id) auto
  have pos: "0 < v" if "v \<noteq> 0" using that assms(3) by simp
  show "line_ok B (settle_line k x v)" "snd (settle_line k x v) = snd x - v"
    "paise_of k' (la_tenders (fst (settle_line k x v))) = paise_of k' (la_tenders (fst x)) + (if k' = k then v else 0)"
    "la_round (fst (settle_line k x v)) = la_round (fst x)" "la_sku (fst (settle_line k x v)) = la_sku (fst x)"
    using add_paise_map [OF ok(1) pos bounds(1)] ok assms(3,4) x
    by (auto simp: settle_line_def line_ok_def w)
qed

definition rounds_in :: "(line_allocation \<times> int) list \<Rightarrow> int list" where
  "rounds_in st = map (\<lambda>x. la_round (fst x)) st"

lemma rounds_in_simps [simp]: "rounds_in [] = []" "rounds_in (x # st) = la_round (fst x) # rounds_in st"
  by (simp_all add: rounds_in_def)

lemma settle_lines:
  assumes "list_all2 (\<lambda>x v. 0 \<le> v \<and> v \<le> snd x) st vs" "\<forall>x \<in> set st. line_ok B x" "B < 2 ^ 62"
  shows "(\<forall>x \<in> set (map2 (settle_line k) st vs). line_ok B x)
    \<and> sum_list (map snd (map2 (settle_line k) st vs)) = sum_list (map snd st) - sum_list vs
    \<and> paid_so_far (map2 (settle_line k) st vs) k' = paid_so_far st k' + (if k' = k then sum_list vs else 0)
    \<and> rounds_in (map2 (settle_line k) st vs) = rounds_in st"
  using assms
proof (induction rule: list_all2_induct)
  case Nil
  then show ?case by (simp add: paid_so_far_def)
next
  case (Cons x st v vs)
  then have ih: "(\<forall>x \<in> set (map2 (settle_line k) st vs). line_ok B x)
    \<and> sum_list (map snd (map2 (settle_line k) st vs)) = sum_list (map snd st) - sum_list vs
    \<and> paid_so_far (map2 (settle_line k) st vs) k' = paid_so_far st k' + (if k' = k then sum_list vs else 0)
    \<and> rounds_in (map2 (settle_line k) st vs) = rounds_in st" by simp
  have x: "line_ok B x" "0 \<le> v" "v \<le> snd x" using Cons by auto
  have cons: "paid_so_far (y # ys) k' = paise_of k' (la_tenders (fst y)) + paid_so_far ys k'" for y ys
    by (cases y) (simp add: paid_so_far_def)
  show ?case
    using ih settle_line_ok [OF x(1) Cons.prems(2) x(2,3)] by (simp add: cons)
qed

lemma settle_tender_step:
  assumes "\<forall>x \<in> set st. line_ok B x" "B < 2 ^ 62" "0 \<le> v" "v \<le> sum_list (map snd st)" "v * sum_list (map snd st) < 2 ^ 62"
  shows "\<forall>x \<in> set (settle_tender k v st). line_ok B x" "sum_list (map snd (settle_tender k v st)) = sum_list (map snd st) - v"
    "paid_so_far (settle_tender k v st) k' = paid_so_far st k' + (if k' = k then v else 0)"
    "rounds_in (settle_tender k v st) = rounds_in st"
proof -
  have nn: "\<forall>w \<in> set (map snd st). 0 \<le> w" using assms(1) by (fastforce simp: line_ok_def)
  note w = split_within [OF assms(3,4) nn assms(5)]
  have "list_all2 (\<lambda>x v. 0 \<le> v \<and> v \<le> snd x) st (allocatePaise v (map snd st))"
    using w(1,3) by (auto simp: list_all2_conv_all_nth)
  from settle_lines [OF this assms(1,2), of k k'] w(2)
  show "\<forall>x \<in> set (settle_tender k v st). line_ok B x" "sum_list (map snd (settle_tender k v st)) = sum_list (map snd st) - v"
    "paid_so_far (settle_tender k v st) k' = paid_so_far st k' + (if k' = k then v else 0)"
    "rounds_in (settle_tender k v st) = rounds_in st"
    by (simp_all add: settle_tender_def settle_line_def)
qed

lemma settle_all:
  assumes "\<forall>x \<in> set st. line_ok B x" "B < 2 ^ 62" "\<forall>(k, v) \<in> set money. 0 \<le> v"
    and "sum_list (map snd money) = sum_list (map snd st)" "sum_list (map snd st) < 2 ^ 31"
  shows "(\<forall>x \<in> set (foldl (\<lambda>st (k, v). settle_tender k v st) st money). line_ok B x \<and> snd x = 0)
    \<and> (\<forall>k. paid_so_far (foldl (\<lambda>st (k, v). settle_tender k v st) st money) k
        = paid_so_far st k + sum_list (map (\<lambda>(k', v). if k' = k then v else 0) money))
    \<and> rounds_in (foldl (\<lambda>st (k, v). settle_tender k v st) st money) = rounds_in st"
  using assms
proof (induction money arbitrary: st)
  case Nil
  have nn: "0 \<le> snd x" if "x \<in> set st" for x using Nil.prems(1) that by (auto simp: line_ok_def)
  have "snd x = 0" if "x \<in> set st" for x
    using Nil.prems(4) nn that sum_list_nonneg_eq_0_iff [of "map snd st"] by force
  with Nil show ?case by simp
next
  case (Cons m money)
  obtain k v where m: "m = (k, v)" by (cases m)
  let ?S = "sum_list (map snd st)"
  have rest: "0 \<le> sum_list (map snd money)" using Cons.prems(3) by (intro sum_list_nonneg) auto
  have v: "0 \<le> v" "v \<le> ?S" using Cons.prems(3,4) m rest by auto
  have "v * ?S \<le> ?S * ?S" using v by (intro mult_right_mono) auto
  also have "?S * ?S \<le> 2 ^ 31 * (2 ^ 31 - 1)" using v Cons.prems(5) by (intro mult_mono) auto
  finally have prod: "v * ?S < 2 ^ 62" by simp
  note step = settle_tender_step [OF Cons.prems(1,2) v prod, of k]
  have "sum_list (map snd (settle_tender k v st)) < 2 ^ 31" using step(2) v Cons.prems(5) by simp
  moreover have "sum_list (map snd money) = sum_list (map snd (settle_tender k v st))" using step(2) Cons.prems(4) m by simp
  ultimately show ?case
    using Cons.IH [of "settle_tender k v st"] Cons.prems(2,3) step(1,3,4) m by (auto split: if_splits)
qed

text \<open>What the till takes in fixed parts.\<close>

definition tendered :: "(string \<times> rat) list \<Rightarrow> int" where
  "tendered fixed = sum_list (map (\<lambda>(_, a). max 0 (RupeesToPaise a)) fixed)"

lemma add_fixed_ok:
  assumes "efold add_fixed (parts, f) fixed = Inr (parts', f')" "paise_map parts" "total_of parts = f" "f + tendered fixed < 2 ^ 63"
  shows "paise_map parts' \<and> total_of parts' = f' \<and> f' \<le> f + tendered fixed"
  using assms
proof (induction fixed arbitrary: parts f)
  case Nil
  then show ?case by (simp add: tendered_def)
next
  case (Cons x fixed)
  obtain typed a where x: "x = (typed, a)" by (cases x)
  have rest: "0 \<le> tendered fixed" unfolding tendered_def by (rule sum_list_nonneg) auto
  have t: "tendered (x # fixed) = max 0 (RupeesToPaise a) + tendered fixed" by (simp add: tendered_def x)
  have f: "0 \<le> f" using Cons.prems(2,3) paise_map_total by blast
  show ?case
  proof (cases "RupeesToPaise a \<le> 0")
    case True
    with Cons x t show ?thesis by (auto simp: add_fixed_def Let_def split: if_splits)
  next
    case False
    have w: "wrap64 (f + RupeesToPaise a) = f + RupeesToPaise a"
      using False f rest t Cons.prems(4) by (intro wrap64_id) auto
    have "total_of parts + RupeesToPaise a < 2 ^ 63" using Cons.prems(3,4) t rest False by simp
    note add = add_paise_map [OF Cons.prems(2) _ this, of "trim typed"]
    from Cons.prems(1) x False w have "efold add_fixed (add_paise (trim typed) (RupeesToPaise a) parts, f + RupeesToPaise a) fixed = Inr (parts', f')"
      by (auto simp: add_fixed_def Let_def split: if_splits)
    from Cons.IH [OF this] add False Cons.prems(3,4) t show ?thesis by simp
  qed
qed

lemma settlePOSTenders_adds_up:
  assumes "settlePOSTenders fixed mode due = Inr money" "0 \<le> due" "due < 2 ^ 62" "tendered fixed < 2 ^ 62"
  shows "paise_map money" "total_of money = due"
proof -
  obtain parts f where e: "efold add_fixed ([], 0) fixed = Inr (parts, f)" "f \<le> due"
    and money: "money = (let rest = wrap64 (due - f) in
        if rest > 0 then add_paise (if mode = [] then ''Cash'' else mode) rest parts else parts)"
    using assms(1) by (auto simp: settlePOSTenders_def Let_def split: if_splits)
  have ok: "paise_map parts \<and> total_of parts = f \<and> f \<le> tendered fixed"
    using add_fixed_ok [OF e(1)] assms(4) by simp
  then have f: "0 \<le> f" using paise_map_total by blast
  have w: "wrap64 (due - f) = due - f" using f e(2) assms(2,3) by (intro wrap64_id) auto
  show "paise_map money" "total_of money = due"
    using ok w e(2) f assms(2,3) add_paise_map [of parts "due - f" "if mode = [] then ''Cash'' else mode"]
    by (auto simp: money Let_def)
qed

section \<open>The lines of a settled bill\<close>

definition lines_ok :: "sale_line list \<Rightarrow> int \<Rightarrow> bool" where
  "lines_ok lines roundOff \<longleftrightarrow> (\<forall>l \<in> set lines. 0 \<le> sl_offer l \<and> sl_offer l \<le> sl_gross l \<and> sl_gross l < 2 ^ 62)
     \<and> \<bar>roundOff\<bar> \<le> sum_list (net_of lines) \<and> sum_list (net_of lines) < 2 ^ 30"

lemma net_of_ok:
  assumes "lines_ok lines roundOff"
  shows "\<forall>n \<in> set (net_of lines). 0 \<le> n" "length (net_of lines) = length lines"
proof -
  have "wrap64 (sl_gross l - sl_offer l) = sl_gross l - sl_offer l" if "l \<in> set lines" for l
    using assms that by (intro wrap64_id) (auto simp: lines_ok_def)
  with assms show "\<forall>n \<in> set (net_of lines). 0 \<le> n" by (auto simp: net_of_def lines_ok_def)
  show "length (net_of lines) = length lines" by (simp add: net_of_def)
qed

lemma member_le_sum_nth:
  assumes "\<forall>x \<in> set xs. 0 \<le> x" "i < length xs"
  shows "xs ! i \<le> sum_list (xs :: int list)"
  using assms
proof (induction xs arbitrary: i)
  case Nil
  then show ?case by simp
next
  case (Cons x xs)
  have "0 \<le> sum_list xs" using Cons.prems(1) by (intro sum_list_nonneg) auto
  moreover have "xs ! j \<le> sum_list xs" if "j < length xs" for j using Cons that by simp
  ultimately show ?case using Cons.prems by (cases i) (fastforce dest: nth_mem)+
qed

lemma round_shares_ok:
  assumes "lines_ok lines roundOff"
  shows "length (round_shares roundOff (net_of lines)) = length lines"
    "sum_list (round_shares roundOff (net_of lines)) = roundOff"
    "i < length lines \<Longrightarrow> \<bar>round_shares roundOff (net_of lines) ! i\<bar> \<le> net_of lines ! i"
proof -
  let ?net = "net_of lines" and ?r = "\<bar>roundOff\<bar>"
  have ok: "0 \<le> ?r" "?r \<le> sum_list ?net" "sum_list ?net < 2 ^ 30" using assms by (auto simp: lines_ok_def)
  have "?r * sum_list ?net \<le> 2 ^ 30 * 2 ^ 30" using ok by (intro mult_mono) auto
  then have "?r * sum_list ?net < 2 ^ 62" by simp
  note w = split_within [OF ok(1,2) net_of_ok(1) [OF assms] this]
  have neg: "sum_list (map uminus xs) = - sum_list xs" for xs :: "int list"
    by (induction xs) auto
  show "length (round_shares roundOff ?net) = length lines"
    "sum_list (round_shares roundOff ?net) = roundOff"
    using w(1,2) net_of_ok(2) [OF assms] by (auto simp: round_shares_def neg)
  show "\<bar>round_shares roundOff ?net ! i\<bar> \<le> ?net ! i" if "i < length lines" for i
    using w(1) w(3) [of i] that net_of_ok(2) [OF assms] by (auto simp: round_shares_def)
qed

lemma bill_of_ok:
  assumes "lines_ok lines roundOff"
  shows "length (bill_of roundOff (net_of lines)) = length lines"
    "i < length lines \<Longrightarrow> bill_of roundOff (net_of lines) ! i = net_of lines ! i + round_shares roundOff (net_of lines) ! i
       \<and> 0 \<le> bill_of roundOff (net_of lines) ! i"
    "sum_list (bill_of roundOff (net_of lines)) = sum_list (net_of lines) + roundOff"
proof -
  let ?net = "net_of lines" and ?rs = "round_shares roundOff (net_of lines)"
  note n = net_of_ok [OF assms] and r = round_shares_ok [OF assms]
  show len: "length (bill_of roundOff ?net) = length lines" by (simp add: bill_of_def n r)
  have i: "bill_of roundOff ?net ! i = ?net ! i + ?rs ! i \<and> 0 \<le> bill_of roundOff ?net ! i" if "i < length lines" for i
  proof -
    have "?net ! i < 2 ^ 30" using member_le_sum_nth [OF n(1), of i] that n(2) assms by (simp add: lines_ok_def)
    moreover have "0 \<le> ?net ! i" using n that by simp
    ultimately have "wrap64 (?net ! i + ?rs ! i) = ?net ! i + ?rs ! i"
      using r(3) [OF that] by (intro wrap64_id) auto
    moreover have "0 \<le> ?net ! i + ?rs ! i" using r(3) [OF that] by linarith
    ultimately show ?thesis using that by (simp add: bill_of_def n r)
  qed
  then show "i < length lines \<Longrightarrow> bill_of roundOff ?net ! i = ?net ! i + ?rs ! i \<and> 0 \<le> bill_of roundOff ?net ! i" for i .
  have "sum_list (bill_of roundOff ?net) = (\<Sum>i < length lines. ?net ! i + ?rs ! i)"
    using i by (simp add: sum_list_sum_nth atLeast0LessThan len)
  also have "\<dots> = sum_list ?net + sum_list ?rs"
    by (simp add: sum.distrib sum_list_sum_nth atLeast0LessThan n r)
  finally show "sum_list (bill_of roundOff ?net) = sum_list ?net + roundOff" by (simp add: r)
qed

lemma sum_list_nth_cong: "length xs = n \<Longrightarrow> (\<And>i. i < n \<Longrightarrow> xs ! i = f i) \<Longrightarrow> sum_list xs = (\<Sum>i < n. f i)"
  for xs :: "int list"
  by (simp add: sum_list_sum_nth atLeast0LessThan)

lemma settled_bill:
  assumes lines: "lines_ok lines roundOff"
    and points: "0 \<le> points" "0 < pointValue" "points \<le> sum_list (bill_of roundOff (net_of lines))"
    and fit: "\<And>i. i < length lines \<Longrightarrow>
      allocatePaise points (bill_of roundOff (net_of lines)) ! i * pointValue \<le> bill_of roundOff (net_of lines) ! i"
    and gift: "0 \<le> gift" and money: "\<forall>(k, v) \<in> set money. 0 \<le> v"
    and due: "points * pointValue + gift + sum_list (map snd money) = sum_list (bill_of roundOff (net_of lines))"
  defines "out \<equiv> buildSaleAllocation lines roundOff points pointValue gift money"
  shows "(\<forall>l \<in> set out. total_of (la_tenders l) = la_net l + la_round l \<and> paise_map (la_tenders l))
    \<and> sum_list (map la_round out) = roundOff
    \<and> sum_list (map (\<lambda>l. paise_of k (la_tenders l)) out)
      = sum_list (map (\<lambda>(k', v). if k' = k then v else 0) ((TenderLoyaltyPoints, points * pointValue) # (TenderGiftCard, gift) # money))"
proof -
  let ?net = "net_of lines" and ?rs = "round_shares roundOff (net_of lines)" and ?bill = "bill_of roundOff (net_of lines)"
  let ?pts = "allocatePaise points ?bill" and ?n = "length lines"
  let ?left = "map2 (\<lambda>b p. wrap64 (b - wrap64 (p * pointValue))) ?bill ?pts"
  let ?out = "map (\<lambda>(l, n, r, p). new_allocation l n r p pointValue) (zip lines (zip ?net (zip ?rs ?pts)))"
  note n = net_of_ok [OF lines] and r = round_shares_ok [OF lines] and b = bill_of_ok [OF lines]
  have S: "sum_list ?bill < 2 ^ 31" "0 \<le> sum_list ?bill"
    using b(3) lines by (auto simp: lines_ok_def)
  have nn: "\<forall>x \<in> set ?bill. 0 \<le> x" using b(1,2) by (metis in_set_conv_nth)
  have "points * sum_list ?bill \<le> (2 ^ 31 - 1) * (2 ^ 31 - 1)" using points S by (intro mult_mono) auto
  then have "points * sum_list ?bill < 2 ^ 62" by simp
  note p = split_within [OF points(1,3) nn this]
  have lenp: "length ?pts = ?n" using p(1) b(1) by simp
  have pi: "0 \<le> ?pts ! i * pointValue" "?pts ! i * pointValue \<le> ?bill ! i" "?bill ! i < 2 ^ 31" if "i < ?n" for i
    using p(3) [of i] that b(1) points(2) fit [OF that] member_le_sum_nth [OF nn, of i] S(1) by auto
  have wp: "wrap64 (?pts ! i * pointValue) = ?pts ! i * pointValue" if "i < ?n" for i
    using pi [OF that] by (intro wrap64_id) auto
  have wl: "?left ! i = ?bill ! i - ?pts ! i * pointValue" if "i < ?n" for i
  proof -
    have "wrap64 (?bill ! i - ?pts ! i * pointValue) = ?bill ! i - ?pts ! i * pointValue"
      using pi [OF that] by (intro wrap64_id) auto
    with that wp show ?thesis by (simp add: b(1) lenp)
  qed
  let ?st = "zip ?out ?left"
  have len: "length ?st = ?n" "length ?out = ?n" "length ?left = ?n" by (simp_all add: n r b(1) lenp)
  have st: "?st ! i = (new_allocation (lines ! i) (?net ! i) (?rs ! i) (?pts ! i) pointValue, ?left ! i)" if "i < ?n" for i
    using that by (simp add: n r b(1) lenp)
  have ok: "\<forall>x \<in> set ?st. line_ok (2 ^ 31) x"
  proof
    fix x assume "x \<in> set ?st"
    then obtain i where i: "i < ?n" "x = ?st ! i" using len(1) by (metis in_set_conv_nth)
    have "?pts ! i \<noteq> 0 \<longrightarrow> 0 < ?pts ! i * pointValue"
      using p(3) [of i] i(1) b(1) points(2) by auto
    then show "line_ok (2 ^ 31) x"
      unfolding i(2) st [OF i(1)] using pi [OF i(1)] wp [OF i(1)] wl [OF i(1)] b(2) [OF i(1)]
      by (auto simp: line_ok_def new_allocation_def Let_def)
  qed
  have "map snd ?st = ?left" by (rule map_snd_zip) (simp only: len)
  then have "sum_list (map snd ?st) = (\<Sum>i < ?n. ?bill ! i - ?pts ! i * pointValue)"
    by (metis (no_types, lifting) sum_list_nth_cong len(3) wl)
  also have "\<dots> = sum_list ?bill - points * pointValue"
    using p(2) by (simp add: sum_subtractf sum_distrib_right [symmetric] sum_list_sum_nth atLeast0LessThan b(1) lenp)
  finally have left: "sum_list (map snd ?st) = sum_list ?bill - points * pointValue" .
  have "sum_list (map snd ((TenderGiftCard, gift) # money)) = sum_list (map snd ?st)" using due left by simp
  moreover have "\<forall>(k, v) \<in> set ((TenderGiftCard, gift) # money). 0 \<le> v" using gift money by simp
  moreover have "0 \<le> points * pointValue" using points by simp
  then have "sum_list (map snd ?st) < 2 ^ 31" using left S(1) by linarith
  ultimately have fin: "(\<forall>x \<in> set (foldl (\<lambda>st (k, v). settle_tender k v st) ?st ((TenderGiftCard, gift) # money)). line_ok (2 ^ 31) x \<and> snd x = 0)
    \<and> (\<forall>k. paid_so_far (foldl (\<lambda>st (k, v). settle_tender k v st) ?st ((TenderGiftCard, gift) # money)) k
        = paid_so_far ?st k + sum_list (map (\<lambda>(k', v). if k' = k then v else 0) ((TenderGiftCard, gift) # money)))
    \<and> rounds_in (foldl (\<lambda>st (k, v). settle_tender k v st) ?st ((TenderGiftCard, gift) # money)) = rounds_in ?st"
    by (intro settle_all [OF ok]) simp_all
  let ?fin = "foldl (\<lambda>st (k, v). settle_tender k v st) ?st ((TenderGiftCard, gift) # money)"
  have out: "out = map fst ?fin" by (simp add: out_def buildSaleAllocation_def Let_def)
  have "paid_so_far ?st k = (\<Sum>i < ?n. if k = TenderLoyaltyPoints then ?pts ! i * pointValue else 0)"
    unfolding paid_so_far_def
  proof (rule sum_list_nth_cong)
    show "length (map (\<lambda>(l, _). paise_of k (la_tenders l)) ?st) = ?n" by (simp only: length_map len)
    show "map (\<lambda>(l, _). paise_of k (la_tenders l)) ?st ! i = (if k = TenderLoyaltyPoints then ?pts ! i * pointValue else 0)"
      if "i < ?n" for i
      using that len(1) by (simp only: nth_map st) (auto simp: new_allocation_def Let_def wp)
  qed
  also have "\<dots> = (if k = TenderLoyaltyPoints then points * pointValue else 0)"
    using p(2) by (simp add: sum_distrib_right [symmetric] sum_list_sum_nth atLeast0LessThan lenp b(1))
  finally have pk: "paid_so_far ?st k = (if k = TenderLoyaltyPoints then points * pointValue else 0)" .
  have "sum_list (rounds_in ?st) = (\<Sum>i < ?n. ?rs ! i)"
    unfolding rounds_in_def
  proof (rule sum_list_nth_cong)
    show "length (map (\<lambda>x. la_round (fst x)) ?st) = ?n" by (simp only: length_map len)
    show "map (\<lambda>x. la_round (fst x)) ?st ! i = ?rs ! i" if "i < ?n" for i
      using that len(1) by (simp only: nth_map st) (simp add: new_allocation_def)
  qed
  then have rd: "sum_list (rounds_in ?st) = roundOff" using r by (simp add: sum_list_sum_nth atLeast0LessThan)
  have "(\<Sum>l\<leftarrow>out. paise_of k (la_tenders l)) = paid_so_far ?fin k"
    unfolding out by (rule paid_by_lines)
  moreover have "map la_round out = rounds_in ?fin" by (simp add: out rounds_in_def o_def)
  moreover have "\<forall>l \<in> set out. total_of (la_tenders l) = la_net l + la_round l \<and> paise_map (la_tenders l)"
    using fin by (fastforce simp: out line_ok_def)
  ultimately show ?thesis using fin pk rd by auto
qed

section \<open>What a line carries besides money\<close>

text \<open>The SKU, units and points of the lines, and the points' value, stay as they were set.\<close>

definition line_meta :: "line_allocation \<Rightarrow> string \<times> int \<times> int \<times> int \<times> int \<times> int" where
  "line_meta l = (la_sku l, la_qty l, la_points l, la_round l, la_net l, paise_of TenderLoyaltyPoints (la_tenders l))"

lemma paise_of_add_other: "k' \<noteq> k \<Longrightarrow> paise_of k' (add_paise k v m) = paise_of k' m"
proof -
  assume "k' \<noteq> k"
  then have "map_of (map (\<lambda>(k', v'). if k' = k then (k', wrap64 (v' + v)) else (k', v')) m) k' = map_of m k'"
    "map_of (m @ [(k, v)]) k' = map_of m k'"
    by (induction m) auto
  then show ?thesis by (simp add: paise_of_def add_paise_def)
qed

lemma settle_meta:
  "k \<noteq> TenderLoyaltyPoints \<Longrightarrow> map (\<lambda>x. line_meta (fst x)) (settle_tender k v st) = map (\<lambda>x. line_meta (fst x)) st"
  by (rule nth_equalityI) (auto simp: settle_tender_def line_meta_def paise_of_add_other split: prod.splits)

lemma settle_all_meta:
  "\<forall>x \<in> set money. fst x \<noteq> TenderLoyaltyPoints \<Longrightarrow>
     map (\<lambda>x. line_meta (fst x)) (foldl (\<lambda>st (k, v). settle_tender k v st) st money) = map (\<lambda>x. line_meta (fst x)) st"
proof (induction money arbitrary: st)
  case Nil
  then show ?case by simp
next
  case (Cons m money)
  obtain k v where m: "m = (k, v)" by (cases m)
  have "map (\<lambda>x. line_meta (fst x)) (foldl (\<lambda>st (k, v). settle_tender k v st) (settle_tender k v st) money)
      = map (\<lambda>x. line_meta (fst x)) (settle_tender k v st)"
    using Cons.prems by (intro Cons.IH) simp
  also have "\<dots> = map (\<lambda>x. line_meta (fst x)) st" using Cons.prems m by (intro settle_meta) simp
  finally show ?case by (simp only: m foldl_Cons prod.case)
qed

lemma build_meta:
  assumes "TenderLoyaltyPoints \<notin> fst ` set money"
  shows "list_all2 (\<lambda>l sl. la_sku l = sl_sku sl \<and> la_qty l = sl_qty sl
      \<and> paise_of TenderLoyaltyPoints (la_tenders l) = wrap64 (la_points l * pointValue))
    (buildSaleAllocation lines roundOff points pointValue gift money) lines"
    and "map la_points (buildSaleAllocation lines roundOff points pointValue gift money)
      = allocatePaise points (bill_of roundOff (net_of lines))"
    and "map la_round (buildSaleAllocation lines roundOff points pointValue gift money) = round_shares roundOff (net_of lines)"
    and "map la_net (buildSaleAllocation lines roundOff points pointValue gift money) = net_of lines"
proof -
  let ?net = "net_of lines" and ?bill = "bill_of roundOff (net_of lines)"
  let ?pts = "allocatePaise points ?bill" and ?rs = "round_shares roundOff ?net"
  let ?left = "map2 (\<lambda>b p. wrap64 (b - wrap64 (p * pointValue))) ?bill ?pts"
  let ?out = "map (\<lambda>(l, n, r, p). new_allocation l n r p pointValue) (zip lines (zip ?net (zip ?rs ?pts)))"
  let ?fin = "foldl (\<lambda>st (k, v). settle_tender k v st) (settle_tender TenderGiftCard gift (zip ?out ?left)) money"
  have len: "length ?net = length lines" "length ?rs = length lines" "length ?bill = length lines"
    by (simp_all add: net_of_def round_shares_def bill_of_def)
  have eq: "buildSaleAllocation lines roundOff points pointValue gift money = map fst ?fin"
    by (simp add: buildSaleAllocation_def Let_def)
  have "map line_meta (map fst ?fin) = map (\<lambda>x. line_meta (fst x)) (settle_tender TenderGiftCard gift (zip ?out ?left))"
    unfolding map_map comp_def using assms by (intro settle_all_meta) (auto simp: image_iff)
  also have "\<dots> = map (\<lambda>x. line_meta (fst x)) (zip ?out ?left)"
    by (rule settle_meta) (simp add: TenderGiftCard_def TenderLoyaltyPoints_def)
  also have "\<dots> = map line_meta ?out"
    by (rule nth_equalityI) (simp_all add: len)
  finally have meta: "map line_meta (map fst ?fin) = map line_meta ?out" .
  from arg_cong [OF meta, of length] have lenf: "length (map fst ?fin) = length lines" by (simp add: len)
  have at_i: "line_meta (map fst ?fin ! i) = line_meta (?out ! i)" if "i < length lines" for i
    using arg_cong [OF meta, of "\<lambda>xs. xs ! i"] lenf that by (simp add: len)
  have out_i: "line_meta (?out ! i) = (sl_sku (lines ! i), sl_qty (lines ! i), ?pts ! i, ?rs ! i, ?net ! i, wrap64 (?pts ! i * pointValue))"
    if "i < length lines" for i
    using that by (simp add: len line_meta_def new_allocation_def Let_def)
  show "list_all2 (\<lambda>l sl. la_sku l = sl_sku sl \<and> la_qty l = sl_qty sl
      \<and> paise_of TenderLoyaltyPoints (la_tenders l) = wrap64 (la_points l * pointValue))
    (buildSaleAllocation lines roundOff points pointValue gift money) lines"
    unfolding eq list_all2_conv_all_nth using lenf at_i out_i by (auto simp: line_meta_def)
  show "map la_points (buildSaleAllocation lines roundOff points pointValue gift money) = ?pts"
    unfolding eq
  proof (rule nth_equalityI)
    show "length (map la_points (map fst ?fin)) = length ?pts" using lenf len by simp
    show "map la_points (map fst ?fin) ! i = ?pts ! i" if "i < length (map la_points (map fst ?fin))" for i
      using that lenf at_i [of i] out_i [of i] by (simp add: line_meta_def)
  qed
  show "map la_round (buildSaleAllocation lines roundOff points pointValue gift money) = ?rs"
    unfolding eq
  proof (rule nth_equalityI)
    show "length (map la_round (map fst ?fin)) = length ?rs" using lenf len by simp
    show "map la_round (map fst ?fin) ! i = ?rs ! i" if "i < length (map la_round (map fst ?fin))" for i
      using that lenf at_i [of i] out_i [of i] by (simp add: line_meta_def)
  qed
  show "map la_net (buildSaleAllocation lines roundOff points pointValue gift money) = ?net"
    unfolding eq
  proof (rule nth_equalityI)
    show "length (map la_net (map fst ?fin)) = length ?net" using lenf len by simp
    show "map la_net (map fst ?fin) ! i = ?net ! i" if "i < length (map la_net (map fst ?fin))" for i
      using that lenf at_i [of i] out_i [of i] by (simp add: line_meta_def)
  qed
qed

section \<open>A SKU's share of a bill\<close>

lemma merge_tenders:
  assumes "paise_map m" "paise_map n" "total_of m + total_of n < 2 ^ 63"
  shows "paise_map (foldl (\<lambda>m (k, v). add_paise k v m) m n)
    \<and> total_of (foldl (\<lambda>m (k, v). add_paise k v m) m n) = total_of m + total_of n
    \<and> (\<forall>k. paise_of k (foldl (\<lambda>m (k, v). add_paise k v m) m n) = paise_of k m + paise_of k n)"
  using assms
proof (induction n arbitrary: m)
  case Nil
  then show ?case by simp
next
  case (Cons x n)
  obtain k v where x: "x = (k, v)" by (cases x)
  have n: "paise_map n" "0 < v" "k \<notin> fst ` set n" using Cons.prems(2) x by auto
  have "0 \<le> total_of n" using n(1) by (rule paise_map_total)
  then have b: "total_of m + v < 2 ^ 63" using Cons.prems(3) x by simp
  note add = add_paise_map [OF Cons.prems(1) n(2) b]
  have k: "paise_of k n = 0" using n(3) by (simp add: paise_of_def map_of_eq_None_iff [THEN iffD2])
  show ?case
    using Cons.IH [OF add(1) [where k = k] n(1)] add(2) [where k = k] add(3) [where k = k] Cons.prems(3) k x by auto
qed

definition line_sound :: "line_allocation \<Rightarrow> bool" where
  "line_sound l \<longleftrightarrow> paise_map (la_tenders l) \<and> 0 < la_qty l \<and> 0 \<le> la_points l"

definition bill_small :: "line_allocation list \<Rightarrow> bool" where
  "bill_small ls \<longleftrightarrow> (\<forall>l \<in> set ls. line_sound l) \<and> sum_list (map la_qty ls) < 2 ^ 30 \<and> sum_list (map la_points ls) < 2 ^ 31
     \<and> sum_list (map (\<lambda>l. total_of (la_tenders l)) ls) < 2 ^ 31 \<and> sum_list (map (\<lambda>l. \<bar>la_round l\<bar>) ls) < 2 ^ 31"

abbreviation of_sku :: "string \<Rightarrow> line_allocation list \<Rightarrow> line_allocation list" where
  "of_sku k ls \<equiv> filter (\<lambda>l. la_sku l = k) ls"

lemma filter_sum_le:
  assumes "\<forall>x \<in> set xs. 0 \<le> f x"
  shows "0 \<le> sum_list (map f (filter P xs)) \<and> sum_list (map f (filter P xs)) \<le> sum_list (map (f :: 'a \<Rightarrow> int) xs)"
  using assms by (induction xs) auto

definition sku_sums :: "string \<Rightarrow> line_allocation list \<Rightarrow> sku_share \<Rightarrow> bool" where
  "sku_sums k ls s \<longleftrightarrow> ss_qty s = sum_list (map la_qty (of_sku k ls)) \<and> ss_round s = sum_list (map la_round (of_sku k ls))
     \<and> ss_points s = sum_list (map la_points (of_sku k ls)) \<and> paise_map (ss_tenders s)
     \<and> total_of (ss_tenders s) = sum_list (map (\<lambda>l. total_of (la_tenders l)) (of_sku k ls))
     \<and> (\<forall>t. paise_of t (ss_tenders s) = sum_list (map (\<lambda>l. paise_of t (la_tenders l)) (of_sku k ls)))"

lemma bill_small_snoc:
  assumes "bill_small (ls @ [l])"
  shows "bill_small ls" "line_sound l"
    and "\<And>k. 0 \<le> sum_list (map la_qty (of_sku k ls)) \<and> sum_list (map la_qty (of_sku k ls)) + la_qty l < 2 ^ 30"
    and "\<And>k. 0 \<le> sum_list (map la_points (of_sku k ls)) \<and> sum_list (map la_points (of_sku k ls)) + la_points l < 2 ^ 31"
    and "\<And>k. sum_list (map (\<lambda>l. total_of (la_tenders l)) (of_sku k ls)) + total_of (la_tenders l) < 2 ^ 31"
    and "\<And>k. \<bar>sum_list (map la_round (of_sku k ls)) + la_round l\<bar> < 2 ^ 31"
proof -
  have s: "\<forall>x \<in> set ls. line_sound x" "line_sound l" using assms by (auto simp: bill_small_def)
  note q = filter_sum_le [of ls la_qty] filter_sum_le [of ls la_points] filter_sum_le [of ls "\<lambda>l. total_of (la_tenders l)"]
    filter_sum_le [of ls "\<lambda>l. \<bar>la_round l\<bar>"]
  have nn: "\<forall>x \<in> set ls. 0 \<le> la_qty x" "\<forall>x \<in> set ls. 0 \<le> la_points x" "\<forall>x \<in> set ls. 0 \<le> total_of (la_tenders x)"
    using s(1) paise_map_total by (auto simp: line_sound_def)
  have l: "0 < la_qty l" "0 \<le> la_points l" "0 \<le> total_of (la_tenders l)"
    using s(2) paise_map_total by (auto simp: line_sound_def)
  have rnd: "\<bar>sum_list (map la_round (of_sku k ls))\<bar> \<le> sum_list (map (\<lambda>l. \<bar>la_round l\<bar>) (of_sku k ls))" for k
    by (induction ls) auto
  show "bill_small ls" "line_sound l"
    using assms s l by (auto simp: bill_small_def)
  show "0 \<le> sum_list (map la_qty (of_sku k ls)) \<and> sum_list (map la_qty (of_sku k ls)) + la_qty l < 2 ^ 30" for k
    using q(1) [of "\<lambda>l. la_sku l = k"] nn assms by (auto simp: bill_small_def)
  show "0 \<le> sum_list (map la_points (of_sku k ls)) \<and> sum_list (map la_points (of_sku k ls)) + la_points l < 2 ^ 31" for k
    using q(2) [of "\<lambda>l. la_sku l = k"] nn assms by (auto simp: bill_small_def)
  show "sum_list (map (\<lambda>l. total_of (la_tenders l)) (of_sku k ls)) + total_of (la_tenders l) < 2 ^ 31" for k
    using q(3) [of "\<lambda>l. la_sku l = k"] nn assms by (auto simp: bill_small_def)
  show "\<bar>sum_list (map la_round (of_sku k ls)) + la_round l\<bar> < 2 ^ 31" for k
    using q(4) [of "\<lambda>l. la_sku l = k"] rnd [of k] assms by (auto simp: bill_small_def)
qed

lemma by_sku_sums:
  assumes "bill_small ls"
  shows "case by_sku ls k of None \<Rightarrow> of_sku k ls = [] | Some s \<Rightarrow> sku_sums k ls s \<and> of_sku k ls \<noteq> []"
  using assms
proof (induction ls rule: rev_induct)
  case Nil
  then show ?case by (simp add: by_sku_def)
next
  case (snoc l ls)
  note sm = bill_small_snoc [OF snoc.prems]
  have ih: "case by_sku ls k of None \<Rightarrow> of_sku k ls = [] | Some s \<Rightarrow> sku_sums k ls s \<and> of_sku k ls \<noteq> []"
    by (rule snoc.IH [OF sm(1)])
  let ?base = "case by_sku ls (la_sku l) of Some s \<Rightarrow> s | None \<Rightarrow> \<lparr>ss_qty = 0, ss_net = 0, ss_round = 0, ss_points = 0, ss_tenders = []\<rparr>"
  have step: "by_sku (ls @ [l]) = (by_sku ls)(la_sku l \<mapsto> add_share l ?base)" by (simp add: by_sku_def)
  show ?case
  proof (cases "la_sku l = k")
    case False
    then show ?thesis using ih by (simp add: step sku_sums_def split: option.splits)
  next
    case True
    have base: "sku_sums k ls ?base" using ih True by (auto simp: sku_sums_def split: option.splits)
    have w: "wrap64 (ss_qty ?base + la_qty l) = ss_qty ?base + la_qty l"
      "wrap64 (ss_points ?base + la_points l) = ss_points ?base + la_points l"
      "wrap64 (ss_round ?base + la_round l) = ss_round ?base + la_round l"
      using base sm(2) sm(3,4,6) [of k] by (auto simp: sku_sums_def line_sound_def intro!: wrap64_id)
    have "paise_map (ss_tenders ?base)" "paise_map (la_tenders l)" "total_of (ss_tenders ?base) + total_of (la_tenders l) < 2 ^ 63"
      using base sm(2) sm(5) [of k] by (auto simp: sku_sums_def line_sound_def)
    from merge_tenders [OF this] have "sku_sums k (ls @ [l]) (add_share l ?base)"
      using base True w by (simp add: sku_sums_def add_share_def)
    with True show ?thesis by (simp add: step)
  qed
qed

section \<open>Returns in pieces\<close>

text \<open>The records of one SKU, priced one after the other.\<close>

fun price_pieces :: "sku_share \<Rightarrow> int \<Rightarrow> return_record list \<Rightarrow> return_record list" where
  "price_pieces s from [] = []"
| "price_pieces s from (r # rs) = price_record s from r # price_pieces s (from + rr_qty r) rs"

abbreviation records_of :: "string \<Rightarrow> return_record list \<Rightarrow> return_record list" where
  "records_of k rs \<equiv> filter (\<lambda>r. rr_sku r = k) rs"

lemma price_record_sku [simp]: "rr_sku (price_record s from r) = rr_sku r" "rr_qty (price_record s from r) = rr_qty r"
  by (simp_all add: price_record_def Let_def)

lemma apply_pieces:
  assumes "alloc k = Some s" "0 < ss_qty s" "\<forall>r \<in> set rs. 0 < rr_qty r" "0 \<le> claimed k"
    and "claimed k + sum_list (map rr_qty (records_of k rs)) < 2 ^ 62"
  shows "records_of k (applySaleAllocationToRecords rs alloc claimed) = price_pieces s (claimed k) (records_of k rs)"
  using assms(3-5)
proof (induction rs arbitrary: claimed)
  case Nil
  then show ?case by simp
next
  case (Cons r rs)
  have nn: "0 \<le> sum_list (map rr_qty (records_of k rs))"
    using Cons.prems(1) by (intro sum_list_nonneg) auto
  show ?case
  proof (cases "rr_sku r = k")
    case True
    have w: "wrap64 (claimed k + rr_qty r) = claimed k + rr_qty r"
      using Cons.prems nn True by (intro wrap64_id) auto
    let ?c = "claimed(k := claimed k + rr_qty r)"
    have "records_of k (applySaleAllocationToRecords rs alloc ?c) = price_pieces s (?c k) (records_of k rs)"
      by (rule Cons.IH) (use Cons.prems True in auto)
    with True assms(1,2) w show ?thesis by simp
  next
    case False
    have "records_of k (applySaleAllocationToRecords rs alloc c) = price_pieces s (claimed k) (records_of k rs)" if "c k = claimed k" for c
      using Cons.IH [of c] Cons.prems False that by simp
    with False show ?thesis by (auto split: option.splits)
  qed
qed

lemma cumulative_mono:
  assumes "0 < sold" "0 \<le> m" "m \<le> n" "0 \<le> amount"
  shows "cumulative amount sold m \<le> cumulative amount sold n"
proof -
  have d: "cumulative amount sold i = amount * i div sold" if "i < sold" "0 \<le> i" for i
    using that assms by (simp add: cumulative_def go_div_nonneg)
  show ?thesis
  proof (cases "n < sold")
    case True
    then show ?thesis using d [of m] d [of n] assms by (simp add: zdiv_mono1 mult_left_mono)
  next
    case False
    then show ?thesis
      using cumulative_bound [OF assms(1,2), of amount] assms(4) by (simp add: cumulative_def)
  qed
qed

lemma unitShare_range:
  assumes "0 < sold" "0 \<le> from" "0 < qty" "from + qty < 2 ^ 62" "0 \<le> amount" "amount * sold < 2 ^ 62"
  shows "0 \<le> unitShare amount from qty sold" "unitShare amount from qty sold \<le> amount"
proof -
  have u: "unitShare amount from qty sold = cumulative amount sold (from + qty) - cumulative amount sold from"
    using assms by (intro unitShare_cumulative) simp_all
  have "cumulative amount sold from \<le> cumulative amount sold (from + qty)" using assms by (intro cumulative_mono) auto
  moreover have "cumulative amount sold 0 \<le> cumulative amount sold from" using assms by (intro cumulative_mono) auto
  moreover have "cumulative amount sold (from + qty) \<le> amount"
    using cumulative_bound [OF assms(1), of "from + qty" amount] assms(2,3,5) by simp
  ultimately show "0 \<le> unitShare amount from qty sold" "unitShare amount from qty sold \<le> amount"
    using cumulative_ends(1) [OF assms(1), of amount] by (simp_all add: u)
qed

definition share_sound :: "sku_share \<Rightarrow> bool" where
  "share_sound s \<longleftrightarrow> 0 < ss_qty s \<and> ss_qty s < 2 ^ 30 \<and> 0 \<le> ss_points s \<and> ss_points s < 2 ^ 31 \<and> \<bar>ss_round s\<bar> < 2 ^ 31
     \<and> paise_map (ss_tenders s) \<and> total_of (ss_tenders s) < 2 ^ 31"

lemma sku_sums_sound:
  assumes "bill_small ls" "sku_sums k ls s" "of_sku k ls \<noteq> []"
  shows "share_sound s"
proof -
  obtain l rest where l: "of_sku k ls = l # rest" using assms(3) by (cases "of_sku k ls") auto
  have snd: "\<forall>x \<in> set ls. line_sound x" using assms(1) by (simp add: bill_small_def)
  then have r: "line_sound l" "\<forall>x \<in> set rest. line_sound x"
    using arg_cong [OF l, of set] by auto
  have "0 \<le> sum_list (map la_qty rest)" using r(2) by (intro sum_list_nonneg) (auto simp: line_sound_def)
  then have "0 < ss_qty s" using assms(2) l r(1) by (simp add: sku_sums_def line_sound_def)
  moreover have "\<forall>x \<in> set ls. 0 \<le> la_qty x" "\<forall>x \<in> set ls. 0 \<le> la_points x" "\<forall>x \<in> set ls. 0 \<le> total_of (la_tenders x)"
    "\<forall>x \<in> set ls. 0 \<le> \<bar>la_round x\<bar>"
    using snd paise_map_total by (auto simp: line_sound_def)
  note q = this [THEN filter_sum_le [of ls _ "\<lambda>l. la_sku l = k"]]
  have "\<bar>sum_list (map la_round (of_sku k ls))\<bar> \<le> sum_list (map (\<lambda>l. \<bar>la_round l\<bar>) (of_sku k ls))" by (induction ls) auto
  with q assms(1,2) have "ss_qty s < 2 ^ 30" "0 \<le> ss_points s" "ss_points s < 2 ^ 31" "\<bar>ss_round s\<bar> < 2 ^ 31"
      "total_of (ss_tenders s) < 2 ^ 31"
    by (auto simp: sku_sums_def bill_small_def)
  ultimately show ?thesis using assms(2) by (simp add: share_sound_def sku_sums_def)
qed

definition tender_part :: "sku_share \<Rightarrow> int \<Rightarrow> int \<Rightarrow> string \<Rightarrow> int \<Rightarrow> int" where
  "tender_part s from qty t v = (if t = TenderLoyaltyPoints \<and> ss_points s > 0
     then unitShare (ss_points s) from qty (ss_qty s) * (v div ss_points s) else unitShare v from qty (ss_qty s))"

lemma small_product:
  assumes "0 \<le> (a :: int)" "a < 2 ^ 31" "0 < b" "b < 2 ^ 30"
  shows "a * b < 2 ^ 62"
proof -
  have "a * b \<le> 2 ^ 31 * 2 ^ 30" using assms by (intro mult_mono) auto
  then show ?thesis by simp
qed

lemma tender_part_range:
  assumes "share_sound s" "0 \<le> from" "0 < qty" "from + qty < 2 ^ 62" "0 \<le> v" "v < 2 ^ 31"
  shows "0 \<le> tender_part s from qty t v \<and> tender_part s from qty t v \<le> v"
    and "tender_share s from qty (unitShare (ss_points s) from qty (ss_qty s)) (t, v) = (t, tender_part s from qty t v)"
proof -
  have s: "0 < ss_qty s" "ss_qty s < 2 ^ 30" "0 \<le> ss_points s" "ss_points s < 2 ^ 31" using assms(1) by (auto simp: share_sound_def)
  note u = unitShare_range [OF s(1) assms(2-5) small_product [OF assms(5,6) s(1,2)]]
  note p = unitShare_range [OF s(1) assms(2-4) s(3) small_product [OF s(3,4) s(1,2)]]
  let ?p = "unitShare (ss_points s) from qty (ss_qty s)"
  have le: "0 \<le> ?p * (v div ss_points s) \<and> ?p * (v div ss_points s) \<le> v" if "ss_points s > 0"
  proof -
    have d: "0 \<le> v div ss_points s" using that assms(5) by (simp add: pos_imp_zdiv_nonneg_iff)
    have "?p * (v div ss_points s) \<le> ss_points s * (v div ss_points s)" using p d by (intro mult_right_mono) auto
    also have "\<dots> \<le> v" using mult_div_mod_eq [of "ss_points s" v] pos_mod_sign [OF that, of v] by linarith
    finally show ?thesis using p d by simp
  qed
  then show "0 \<le> tender_part s from qty t v \<and> tender_part s from qty t v \<le> v"
    using u by (auto simp: tender_part_def)
  show "tender_share s from qty ?p (t, v) = (t, tender_part s from qty t v)"
    using le assms(5,6) by (auto simp: tender_share_def tender_part_def go_div_nonneg intro!: wrap64_id)
qed

lemma paise_of_parts:
  assumes "distinct (map fst m)" "\<And>t. g t 0 = 0"
  shows "paise_of t (filter (\<lambda>(k, v). v \<noteq> 0) (map (\<lambda>(k, v). (k, g k v)) m)) = g t (paise_of t m)"
  using assms(1)
proof (induction m)
  case Nil
  then show ?case by (simp add: assms(2))
next
  case (Cons x m)
  obtain k v where x: "x = (k, v)" by (cases x)
  have "paise_of k m = 0" using Cons.prems x by (simp add: paise_of_def map_of_eq_None_iff [THEN iffD2])
  with Cons x show ?case by (auto simp: assms(2))
qed

lemma price_record_parts:
  assumes "share_sound s" "0 \<le> from" "0 < rr_qty r" "from + rr_qty r < 2 ^ 62"
  shows "paise_of t (rr_tenders (price_record s from r)) = tender_part s from (rr_qty r) t (paise_of t (ss_tenders s))"
    and "rr_net (price_record s from r) = total_of (rr_tenders (price_record s from r))"
    and "rr_round (price_record s from r) = unitShare (ss_round s) from (rr_qty r) (ss_qty s)"
    and "rr_allocated (price_record s from r)"
proof -
  let ?qty = "rr_qty r" and ?pts = "unitShare (ss_points s) from (rr_qty r) (ss_qty s)"
  let ?shares = "map (\<lambda>(k, v). (k, tender_part s from ?qty k v)) (ss_tenders s)"
  have m: "paise_map (ss_tenders s)" "total_of (ss_tenders s) < 2 ^ 31" using assms(1) by (simp_all add: share_sound_def)
  have v: "0 \<le> v \<and> v < 2 ^ 31" if "(k, v) \<in> set (ss_tenders s)" for k v
  proof -
    have "distinct (map fst (ss_tenders s))" using m(1) by (simp add: paise_map_def)
    with that have "paise_of k (ss_tenders s) = v" by (simp add: paise_of_def)
    with paise_of_total [OF m(1), of k] m(2) show ?thesis by simp
  qed
  note part = tender_part_range [OF assms]
  have eq: "map (tender_share s from ?qty ?pts) (ss_tenders s) = ?shares"
    using part(2) v by (auto intro!: map_cong)
  have tenders: "rr_tenders (price_record s from r) = filter (\<lambda>(k, v). v \<noteq> 0) ?shares"
    by (simp add: price_record_def Let_def eq)
  have "tender_part s from ?qty t 0 = 0" for t
    using part(1) [of 0 t] by simp
  then show "paise_of t (rr_tenders (price_record s from r)) = tender_part s from ?qty t (paise_of t (ss_tenders s))"
    unfolding tenders using m(1) by (intro paise_of_parts) (simp_all add: paise_map_def)
  have le: "0 \<le> sum_list (map snd (map (\<lambda>(k, v). (k, tender_part s from ?qty k v)) ts))
      \<and> sum_list (map snd (map (\<lambda>(k, v). (k, tender_part s from ?qty k v)) ts)) \<le> total_of ts" if "set ts \<subseteq> set (ss_tenders s)" for ts
    using that
  proof (induction ts)
    case Nil
    then show ?case by simp
  next
    case (Cons x ts)
    obtain k u where x: "x = (k, u)" by (cases x)
    with Cons part(1) [of u k] v [of k u] show ?case by auto
  qed
  have "foldl (\<lambda>a x. wrap64 (a + snd x)) 0 (filter (\<lambda>(k, v). v \<noteq> 0) ?shares) = 0 + sum_list (map snd (filter (\<lambda>(k, v). v \<noteq> 0) ?shares))"
  proof (rule foldl_wrap_sum)
    show "0 \<le> snd x" if "x \<in> set (filter (\<lambda>(k, v). v \<noteq> 0) ?shares)" for x
      using that part(1) v by fastforce
    have "sum_list (map snd (filter (\<lambda>(k, v). v \<noteq> 0) xs)) = sum_list (map snd xs)" for xs :: amounts
      by (induction xs) auto
    then show "0 + sum_list (map snd (filter (\<lambda>(k, v). v \<noteq> 0) ?shares)) < 2 ^ 63"
      using le [of "ss_tenders s"] m(2) by simp
  qed simp
  then show "rr_net (price_record s from r) = total_of (rr_tenders (price_record s from r))"
    by (simp add: price_record_def Let_def eq total_of_def case_prod_beta')
  show "rr_round (price_record s from r) = unitShare (ss_round s) from ?qty (ss_qty s)" "rr_allocated (price_record s from r)"
    by (simp_all add: price_record_def Let_def)
qed

lemma price_pieces_sums:
  assumes "share_sound s" "0 \<le> from" "\<forall>r \<in> set rs. 0 < rr_qty r" "from + sum_list (map rr_qty rs) < 2 ^ 62"
  shows "sum_list (map (\<lambda>r. paise_of t (rr_tenders r)) (price_pieces s from rs))
      = (if t = TenderLoyaltyPoints \<and> ss_points s > 0
         then sum_list (pieces (ss_points s) (ss_qty s) from (map rr_qty rs)) * (paise_of t (ss_tenders s) div ss_points s)
         else sum_list (pieces (paise_of t (ss_tenders s)) (ss_qty s) from (map rr_qty rs)))"
    and "sum_list (map rr_round (price_pieces s from rs)) = sum_list (pieces (ss_round s) (ss_qty s) from (map rr_qty rs))"
    and "\<forall>r \<in> set (price_pieces s from rs). rr_allocated r \<and> rr_net r = total_of (rr_tenders r)"
  using assms(2-4)
proof (induction rs arbitrary: "from")
  case Nil
  {
    case 1
    show ?case by simp
  next
    case 2
    show ?case by simp
  next
    case 3
    show ?case by simp
  }
next
  case (Cons r rs)
  have nn: "0 \<le> sum_list (map rr_qty rs)" if "\<forall>r \<in> set (r # rs). 0 < rr_qty r" using that by (intro sum_list_nonneg) auto
  {
    case 1
    note p = price_record_parts [OF assms(1) 1(1), of r]
    have "0 < rr_qty r" "from + rr_qty r < 2 ^ 62" using 1 nn by auto
    then show ?case
      using Cons.IH(1) [of "from + rr_qty r"] p(1) [of t] 1 by (simp add: tender_part_def algebra_simps)
  next
    case 2
    note p = price_record_parts [OF assms(1) 2(1), of r]
    have "0 < rr_qty r" "from + rr_qty r < 2 ^ 62" using 2 nn by auto
    then show ?case using Cons.IH(2) [of "from + rr_qty r"] p(3) 2 by (simp add: algebra_simps)
  next
    case 3
    note p = price_record_parts [OF assms(1) 3(1), of r]
    have "0 < rr_qty r" "from + rr_qty r < 2 ^ 62" using 3 nn by auto
    then show ?case using Cons.IH(3) [of "from + rr_qty r"] p(2,4) 3 by (simp add: algebra_simps)
  }
qed

lemma pieces_whole:
  assumes "0 < sold" "\<forall>q \<in> set qs. 0 < q" "sum_list qs = sold" "sold < 2 ^ 30" "\<bar>amount\<bar> < 2 ^ 31"
  shows "sum_list (pieces amount sold 0 qs) = amount"
  using pieces_sum [OF assms(1) _ assms(2), of 0 amount] assms small_product [of "\<bar>amount\<bar>" sold] cumulative_ends(1) [OF assms(1)] cumulative_ends(2)
  by simp

text \<open>All the units of one SKU came back, in whatever pieces.\<close>

lemma sku_comes_back:
  assumes "share_sound s" "\<forall>r \<in> set rs. 0 < rr_qty r" "sum_list (map rr_qty rs) = ss_qty s"
    and "paise_of TenderLoyaltyPoints (ss_tenders s) = ss_points s * pointValue"
  shows "sum_list (map (\<lambda>r. paise_of t (rr_tenders r)) (price_pieces s 0 rs)) = paise_of t (ss_tenders s)"
    and "sum_list (map rr_round (price_pieces s 0 rs)) = ss_round s"
proof -
  have s: "0 < ss_qty s" "ss_qty s < 2 ^ 30" "0 \<le> ss_points s" "ss_points s < 2 ^ 31" "\<bar>ss_round s\<bar> < 2 ^ 31"
      "paise_map (ss_tenders s)" "total_of (ss_tenders s) < 2 ^ 31"
    using assms(1) by (auto simp: share_sound_def)
  have v: "\<bar>paise_of t (ss_tenders s)\<bar> < 2 ^ 31" using paise_of_total [OF s(6), of t] s(7) by simp
  have q: "\<forall>q \<in> set (map rr_qty rs). 0 < q" using assms(2) by simp
  note sums = price_pieces_sums [OF assms(1) order_refl assms(2)]
  have whole: "sum_list (pieces a (ss_qty s) 0 (map rr_qty rs)) = a" if "\<bar>a\<bar> < 2 ^ 31" for a
    by (rule pieces_whole [OF s(1) q assms(3) s(2) that])
  show "sum_list (map (\<lambda>r. paise_of t (rr_tenders r)) (price_pieces s 0 rs)) = paise_of t (ss_tenders s)"
    using sums(1) [of t] whole v s assms(3,4) by auto
  show "sum_list (map rr_round (price_pieces s 0 rs)) = ss_round s"
    using sums(2) whole s assms(3) by simp
qed

lemma sum_by_key:
  fixes g :: "'a \<Rightarrow> int"
  assumes "finite K" "f ` set xs \<subseteq> K"
  shows "sum_list (map g xs) = (\<Sum>k \<in> K. sum_list (map g (filter (\<lambda>x. f x = k) xs)))"
  using assms(2)
proof (induction xs)
  case Nil
  then show ?case by simp
next
  case (Cons x xs)
  have "(\<Sum>k \<in> K. sum_list (map g (filter (\<lambda>y. f y = k) (x # xs))))
      = (\<Sum>k \<in> K. (if k = f x then g x else 0) + sum_list (map g (filter (\<lambda>y. f y = k) xs)))"
    by (intro sum.cong) auto
  also have "\<dots> = g x + sum_list (map g xs)"
    using Cons assms(1) by (simp add: sum.distrib)
  finally show ?case by simp
qed

lemma sum_list_positive: "\<forall>x \<in> set xs. 0 < g x \<Longrightarrow> xs \<noteq> [] \<Longrightarrow> 0 < sum_list (map (g :: 'a \<Rightarrow> int) xs)"
proof (induction xs)
  case Nil
  then show ?case by simp
next
  case (Cons x xs)
  then show ?case by (cases "xs = []") (auto simp: add_pos_pos)
qed

lemma apply_skus: "map rr_sku (applySaleAllocationToRecords rs alloc claimed) = map rr_sku rs"
  by (induction rs arbitrary: claimed) (auto split: option.splits)

text \<open>
  A settled sale: lines of non-negative net value below a crore of rupees in all, a round-off
  within it, points that no line's share overpays, gift cards, and the money the till settled
  for what is left.
\<close>

definition settled_sale ::
  "sale_line list \<Rightarrow> int \<Rightarrow> int \<Rightarrow> int \<Rightarrow> int \<Rightarrow> (string \<times> rat) list \<Rightarrow> string \<Rightarrow> amounts \<Rightarrow> bool" where
  "settled_sale lines roundOff points pointValue gift fixed mode money \<longleftrightarrow>
     (let bill = bill_of roundOff (net_of lines) in
      lines_ok lines roundOff \<and> 0 \<le> points \<and> 0 < pointValue \<and> points \<le> sum_list bill
      \<and> list_all2 (\<lambda>p b. p * pointValue \<le> b) (allocatePaise points bill) bill
      \<and> 0 \<le> gift \<and> points * pointValue + gift \<le> sum_list bill \<and> tendered fixed < 2 ^ 62
      \<and> settlePOSTenders fixed mode (sum_list bill - points * pointValue - gift) = Inr money)"

definition tenders_of :: "int \<Rightarrow> int \<Rightarrow> int \<Rightarrow> amounts \<Rightarrow> amounts" where
  "tenders_of points pointValue gift money = (TenderLoyaltyPoints, points * pointValue) # (TenderGiftCard, gift) # money"

definition tendered_as :: "string \<Rightarrow> amounts \<Rightarrow> int" where
  "tendered_as k m = sum_list (map (\<lambda>(k', v). if k' = k then v else 0) m)"

lemma settled_sale_lines:
  assumes "settled_sale lines roundOff points pointValue gift fixed mode money"
  defines "out \<equiv> buildSaleAllocation lines roundOff points pointValue gift money"
  shows "\<forall>l \<in> set out. total_of (la_tenders l) = la_net l + la_round l \<and> paise_map (la_tenders l)"
    and "sum_list (map la_round out) = roundOff"
    and "sum_list (map (\<lambda>l. paise_of k (la_tenders l)) out) = tendered_as k (tenders_of points pointValue gift money)"
proof -
  let ?bill = "bill_of roundOff (net_of lines)"
  have h: "lines_ok lines roundOff" "0 \<le> points" "0 < pointValue" "points \<le> sum_list ?bill" "0 \<le> gift"
      "points * pointValue + gift \<le> sum_list ?bill" "tendered fixed < 2 ^ 62"
    and fit: "list_all2 (\<lambda>p b. p * pointValue \<le> b) (allocatePaise points ?bill) ?bill"
    and m: "settlePOSTenders fixed mode (sum_list ?bill - points * pointValue - gift) = Inr money"
    using assms(1) by (simp_all add: settled_sale_def Let_def)
  have S: "sum_list ?bill < 2 ^ 62" using bill_of_ok(3) [OF h(1)] h(1) by (auto simp: lines_ok_def)
  have pp: "0 \<le> points * pointValue" using h(2,3) by simp
  have due: "0 \<le> sum_list ?bill - points * pointValue - gift" "sum_list ?bill - points * pointValue - gift < 2 ^ 62"
    using h(5,6) pp S by linarith+
  note money = settlePOSTenders_adds_up [OF m due h(7)]
  have pos: "\<forall>(k, v) \<in> set money. 0 \<le> v" using money(1) by (fastforce simp: paise_map_def)
  have sum: "points * pointValue + gift + sum_list (map snd money) = sum_list ?bill"
    using money(2) by (simp add: total_of_def)
  have fit': "allocatePaise points ?bill ! i * pointValue \<le> ?bill ! i" if "i < length lines" for i
    using fit that bill_of_ok(1) [OF h(1)] by (auto simp: list_all2_conv_all_nth)
  from settled_bill [OF h(1-4) fit' h(5) pos sum, of k]
  show "\<forall>l \<in> set out. total_of (la_tenders l) = la_net l + la_round l \<and> paise_map (la_tenders l)"
    and "sum_list (map la_round out) = roundOff"
    and "sum_list (map (\<lambda>l. paise_of k (la_tenders l)) out) = tendered_as k (tenders_of points pointValue gift money)"
    by (simp_all add: out_def tendered_as_def tenders_of_def)
qed


text \<open>
  Points are shared in whole points by line value, so when they pay the whole bill a
  line can be given more points than it is worth: two lines of 149.50 and 150.50 paid with
  300 points at a rupee carry 150.00 each, and the first is paid back half a rupee too much.
\<close>
theorem points_overpay_a_line:
  "map (\<lambda>l. (la_net l + la_round l, la_tenders l))
     (buildSaleAllocation [\<lparr>sl_sku = ''A'', sl_qty = 1, sl_gross = 14950, sl_offer = 0\<rparr>,
        \<lparr>sl_sku = ''B'', sl_qty = 1, sl_gross = 15050, sl_offer = 0\<rparr>] 0 300 100 0 [])
   = [(14950, [(''Loyalty Points'', 15000)]), (15050, [(''Loyalty Points'', 15000)])]"
  by code_simp

lemma settled_bill_small:
  assumes "settled_sale lines roundOff points pointValue gift fixed mode money" "TenderLoyaltyPoints \<notin> fst ` set money"
    and "\<forall>l \<in> set lines. 0 < sl_qty l" "sum_list (map sl_qty lines) < 2 ^ 30"
  defines "out \<equiv> buildSaleAllocation lines roundOff points pointValue gift money"
  shows "bill_small out" "\<forall>l \<in> set out. paise_of TenderLoyaltyPoints (la_tenders l) = la_points l * pointValue"
    and "map (\<lambda>l. (la_sku l, la_qty l)) out = map (\<lambda>l. (sl_sku l, sl_qty l)) lines"
proof -
  let ?bill = "bill_of roundOff (net_of lines)" and ?pts = "allocatePaise points (bill_of roundOff (net_of lines))"
  have h: "lines_ok lines roundOff" "0 \<le> points" "0 < pointValue" "points \<le> sum_list ?bill"
    and fit: "list_all2 (\<lambda>p b. p * pointValue \<le> b) ?pts ?bill"
    using assms(1) by (simp_all add: settled_sale_def Let_def)
  note meta = build_meta [OF assms(2), where lines = lines and roundOff = roundOff and points = points
      and pointValue = pointValue and gift = gift, folded out_def]
  note set = settled_sale_lines [OF assms(1), folded out_def]
  note b = bill_of_ok [OF h(1)] and r = round_shares_ok [OF h(1)] and n = net_of_ok [OF h(1)]
  have S: "sum_list ?bill < 2 ^ 31" "0 \<le> sum_list ?bill" using b(3) h(1) by (auto simp: lines_ok_def)
  have nn: "\<forall>x \<in> set ?bill. 0 \<le> x" using b(1,2) by (metis in_set_conv_nth)
  have "points * sum_list ?bill \<le> (2 ^ 31 - 1) * (2 ^ 31 - 1)" using h S by (intro mult_mono) auto
  then have "points * sum_list ?bill < 2 ^ 62" by simp
  note p = split_within [OF h(2,4) nn this]
  have len: "length out = length lines" using meta(1) by (simp add: list_all2_lengthD)
  show qty: "map (\<lambda>l. (la_sku l, la_qty l)) out = map (\<lambda>l. (sl_sku l, sl_qty l)) lines"
    using meta(1) by (auto simp: list_all2_conv_all_nth intro!: nth_equalityI)
  have i: "la_points (out ! i) = ?pts ! i" "la_round (out ! i) = round_shares roundOff (net_of lines) ! i" if "i < length out" for i
    using arg_cong [OF meta(2), of "\<lambda>xs. xs ! i"] arg_cong [OF meta(3), of "\<lambda>xs. xs ! i"] that by simp_all
  have pi: "0 \<le> ?pts ! i \<and> 0 \<le> ?pts ! i * pointValue \<and> ?pts ! i * pointValue < 2 ^ 31" if "i < length lines" for i
    using p(3) [of i] that b(1) h(3) fit member_le_sum_nth [OF nn, of i] S(1) by (auto simp: list_all2_conv_all_nth)
  show loyal: "\<forall>l \<in> set out. paise_of TenderLoyaltyPoints (la_tenders l) = la_points l * pointValue"
  proof
    fix l assume "l \<in> set out"
    then obtain j where j: "j < length out" "l = out ! j" by (metis in_set_conv_nth)
    have "wrap64 (la_points l * pointValue) = la_points l * pointValue"
      using pi [of j] i(1) [OF j(1)] j len by (intro wrap64_id) auto
    with meta(1) j show "paise_of TenderLoyaltyPoints (la_tenders l) = la_points l * pointValue"
      by (auto simp: list_all2_conv_all_nth)
  qed
  have "line_sound l" if l: "l \<in> set out" for l
  proof -
    obtain j where j: "j < length out" "l = out ! j" using l by (metis in_set_conv_nth)
    have "la_qty l = sl_qty (lines ! j)" using meta(1) j by (simp add: list_all2_conv_all_nth)
    then have "0 < la_qty l" using assms(3) j len by simp
    with set(1) l pi [of j] i(1) [OF j(1)] j len show ?thesis by (simp add: line_sound_def)
  qed
  moreover have "map la_qty out = map sl_qty lines" using arg_cong [OF qty, of "map snd"] by (simp add: o_def)
  moreover have "sum_list (map la_points out) = points" using meta(2) p(2) by simp
  moreover have "sum_list (map (\<lambda>l. total_of (la_tenders l)) out) = sum_list ?bill"
  proof -
    have "sum_list (map (\<lambda>l. total_of (la_tenders l)) out) = sum_list (map (\<lambda>l. la_net l + la_round l) out)"
      using set(1) by (metis (no_types, lifting) map_eq_conv)
    also have "\<dots> = sum_list (map la_net out) + sum_list (map la_round out)" by (rule sum_list_addf)
    finally show ?thesis using meta(4) set(2) b(3) by simp
  qed
  moreover have "sum_list (map (\<lambda>l. \<bar>la_round l\<bar>) out) \<le> sum_list (net_of lines)"
  proof -
    have "sum_list (map (\<lambda>l. \<bar>la_round l\<bar>) out) = (\<Sum>i < length lines. \<bar>round_shares roundOff (net_of lines) ! i\<bar>)"
      by (rule sum_list_nth_cong) (simp_all add: len i)
    also have "\<dots> \<le> (\<Sum>i < length lines. net_of lines ! i)" by (intro sum_mono r(3)) simp
    finally show ?thesis by (simp add: sum_list_sum_nth atLeast0LessThan n)
  qed
  ultimately show "bill_small out"
    using S h assms(4) by (auto simp: bill_small_def lines_ok_def)
qed

definition comes_back_whole :: "sale_line list \<Rightarrow> return_record list \<Rightarrow> bool" where
  "comes_back_whole lines records \<longleftrightarrow> (\<forall>r \<in> set records. 0 < rr_qty r)
     \<and> (\<forall>k \<in> sl_sku ` set lines \<union> rr_sku ` set records.
          sum_list (map rr_qty (records_of k records)) = sum_list (map sl_qty (filter (\<lambda>l. sl_sku l = k) lines)))"

text \<open>What the bill sold of a SKU is what its returned units are priced from.\<close>

lemma settled_share:
  assumes "settled_sale lines roundOff points pointValue gift fixed mode money" "TenderLoyaltyPoints \<notin> fst ` set money"
    and "\<forall>l \<in> set lines. 0 < sl_qty l" "sum_list (map sl_qty lines) < 2 ^ 30"
    and "comes_back_whole lines records"
    and k: "k \<in> sl_sku ` set lines \<union> rr_sku ` set records"
  defines "out \<equiv> buildSaleAllocation lines roundOff points pointValue gift money"
  shows "\<exists>s. by_sku out k = Some s \<and> sku_sums k out s \<and> share_sound s \<and> sum_list (map rr_qty (records_of k records)) = ss_qty s
      \<and> paise_of TenderLoyaltyPoints (ss_tenders s) = ss_points s * pointValue"
proof -
  note small = settled_bill_small [OF assms(1-4), folded out_def]
  have qty: "\<forall>r \<in> set records. 0 < rr_qty r" using assms(5) by (simp add: comes_back_whole_def)
  have of_sku: "map la_qty (of_sku k out) = map sl_qty (filter (\<lambda>l. sl_sku l = k) lines)" for k
    using arg_cong [OF small(3), of "\<lambda>xs. map snd (filter (\<lambda>x. fst x = k) xs)"] by (simp add: filter_map o_def)
  have skus: "la_sku ` set out = sl_sku ` set lines"
    using arg_cong [OF small(3), of "\<lambda>xs. fst ` set xs"] by (simp add: image_image)
  have sum: "sum_list (map rr_qty (records_of k records)) = sum_list (map la_qty (of_sku k out))"
    using assms(5) k of_sku [of k] by (simp add: comes_back_whole_def)
  have ne: "of_sku k out \<noteq> []"
  proof (cases "k \<in> sl_sku ` set lines")
    case True
    then have "k \<in> la_sku ` set out" using skus by simp
    then show ?thesis by (auto simp: filter_empty_conv)
  next
    case False
    with k obtain r where r: "r \<in> set records" "rr_sku r = k" by auto
    have "0 < sum_list (map rr_qty (records_of k records))"
      using r qty by (intro sum_list_positive) (auto simp: filter_empty_conv)
    with sum show ?thesis by auto
  qed
  with by_sku_sums [OF small(1), of k] obtain s where s: "by_sku out k = Some s" "sku_sums k out s"
    by (auto split: option.splits)
  have "paise_of TenderLoyaltyPoints (ss_tenders s) = sum_list (map (\<lambda>l. la_points l * pointValue) (of_sku k out))"
    using s(2) small(2) by (auto simp: sku_sums_def intro!: arg_cong [where f = sum_list])
  then have "paise_of TenderLoyaltyPoints (ss_tenders s) = ss_points s * pointValue"
    using s(2) by (simp add: sku_sums_def sum_list_mult_const)
  with s sum sku_sums_sound [OF small(1) s(2) ne] show ?thesis by (auto simp: sku_sums_def)
qed

text \<open>
  C12: whatever pieces a settled bill comes back in, over however many returns, once every
  unit is back each tender has been refunded exactly what was tendered of it, points and gift
  cards included, and the round-off exactly; and a record's refund is the sum of its tenders.
\<close>
theorem whole_return_refunds_the_bill:
  assumes "settled_sale lines roundOff points pointValue gift fixed mode money" "TenderLoyaltyPoints \<notin> fst ` set money"
    and "\<forall>l \<in> set lines. 0 < sl_qty l" "sum_list (map sl_qty lines) < 2 ^ 30"
    and "comes_back_whole lines records"
  defines "out \<equiv> buildSaleAllocation lines roundOff points pointValue gift money"
  defines "priced \<equiv> applySaleAllocationToRecords records (by_sku out) (\<lambda>_. 0)"
  shows "(\<forall>r \<in> set priced. rr_allocated r \<and> rr_net r = total_of (rr_tenders r))
    \<and> sum_list (map rr_round priced) = roundOff
    \<and> (\<forall>t. sum_list (map (\<lambda>r. paise_of t (rr_tenders r)) priced) = tendered_as t (tenders_of points pointValue gift money))"
proof -
  note small = settled_bill_small [OF assms(1-4), folded out_def] and lines = settled_sale_lines [OF assms(1), folded out_def]
  have qty: "\<forall>r \<in> set records. 0 < rr_qty r" using assms(5) by (simp add: comes_back_whole_def)
  have skus: "la_sku ` set out = sl_sku ` set lines"
    using arg_cong [OF small(3), of "\<lambda>xs. fst ` set xs"] by (simp add: image_image)
  note share = settled_share [OF assms(1-5), folded out_def]
  let ?K = "sl_sku ` set lines \<union> rr_sku ` set records"
  have pieces: "records_of k priced = price_pieces s 0 (records_of k records)" if "by_sku out k = Some s" "share_sound s"
      "sum_list (map rr_qty (records_of k records)) = ss_qty s" for k s
    using apply_pieces [of "by_sku out" k s records "\<lambda>_. 0"] that qty by (simp add: priced_def share_sound_def)
  have returned: "sum_list (map (\<lambda>r. paise_of t (rr_tenders r)) (records_of k priced)) = sum_list (map (\<lambda>l. paise_of t (la_tenders l)) (of_sku k out))
      \<and> sum_list (map rr_round (records_of k priced)) = sum_list (map la_round (of_sku k out))
      \<and> (\<forall>r \<in> set (records_of k priced). rr_allocated r \<and> rr_net r = total_of (rr_tenders r))"
    if k: "k \<in> ?K" for k t
  proof -
    from share [OF k] obtain s where s: "by_sku out k = Some s" "sku_sums k out s" "share_sound s"
      "sum_list (map rr_qty (records_of k records)) = ss_qty s"
      "paise_of TenderLoyaltyPoints (ss_tenders s) = ss_points s * pointValue" by blast
    have q: "\<forall>r \<in> set (records_of k records). 0 < rr_qty r" using qty by simp
    have "0 + sum_list (map rr_qty (records_of k records)) < 2 ^ 62" using s(3,4) by (simp add: share_sound_def)
    from price_pieces_sums(3) [OF s(3) order_refl q this] sku_comes_back [OF s(3) q s(4,5)] s(2)
    show ?thesis unfolding pieces [OF s(1,3,4)] by (simp add: sku_sums_def)
  qed
  have K: "finite ?K" "rr_sku ` set priced \<subseteq> ?K" "la_sku ` set out \<subseteq> ?K"
    using arg_cong [OF apply_skus [of records "by_sku out" "\<lambda>_. 0"], of set] skus by (auto simp: priced_def)
  have tender: "sum_list (map (\<lambda>r. paise_of t (rr_tenders r)) priced) = sum_list (map (\<lambda>l. paise_of t (la_tenders l)) out)" for t
    unfolding sum_by_key [OF K(1,2), of "\<lambda>r. paise_of t (rr_tenders r)"] sum_by_key [OF K(1,3), of "\<lambda>l. paise_of t (la_tenders l)"]
    by (intro sum.cong) (simp_all add: returned)
  have rnd: "sum_list (map rr_round priced) = sum_list (map la_round out)"
    unfolding sum_by_key [OF K(1,2), of rr_round] sum_by_key [OF K(1,3), of la_round]
    by (intro sum.cong) (simp_all add: returned)
  have each: "rr_allocated r \<and> rr_net r = total_of (rr_tenders r)" if "r \<in> set priced" for r
    using returned [of "rr_sku r"] K(2) that by auto
  show ?thesis using tender rnd each lines(2,3) by simp
qed

text \<open>Two shirts with an offer and a tie, paid with points, a gift card, a card and cash.\<close>

definition shop_lines :: "sale_line list" where
  "shop_lines = [\<lparr>sl_sku = ''SHIRT'', sl_qty = 2, sl_gross = 200000, sl_offer = 10037\<rparr>,
     \<lparr>sl_sku = ''TIE'', sl_qty = 1, sl_gross = 50000, sl_offer = 0\<rparr>]"

definition shop_money :: amounts where
  "shop_money = [(''Card'', 50000), (''Cash'', 176000)]"

definition piece :: "string \<Rightarrow> int \<Rightarrow> return_record" where
  "piece k q = \<lparr>rr_sku = k, rr_qty = q, rr_unit_price = 0, rr_allocated = False, rr_net = 0, rr_points = 0, rr_tenders = [], rr_round = 0\<rparr>"

lemma shop_settled: "settled_sale shop_lines 37 30 100 11000 [(''Card'', 500)] ''Cash'' shop_money"
proof -
  have sum: "sum_list (bill_of 37 (net_of shop_lines)) = 240000" by code_simp
  have t: "trim ''Card'' = ''Card''" by code_simp
  have "settlePOSTenders [(''Card'', 500)] ''Cash'' 226000 = Inr shop_money"
    by (simp add: settlePOSTenders_def add_fixed_def Let_def paise_500 t posMoneyModes_def add_paise_def shop_money_def wrap64_id)
  moreover have "tendered [(''Card'', 500)] = 50000" by (simp add: tendered_def paise_500)
  moreover have "lines_ok shop_lines 37" by code_simp
  moreover have "list_all2 (\<lambda>p b. p * 100 \<le> b) (allocatePaise 30 (bill_of 37 (net_of shop_lines))) (bill_of 37 (net_of shop_lines))"
    by code_simp
  ultimately show ?thesis by (simp add: settled_sale_def Let_def sum)
qed


theorem whole_return_refunds_the_bill_witness:
  "sum_list (map (\<lambda>r. paise_of ''Cash'' (rr_tenders r))
      (applySaleAllocationToRecords [piece ''SHIRT'' 1, piece ''TIE'' 1, piece ''SHIRT'' 1]
        (by_sku (buildSaleAllocation shop_lines 37 30 100 11000 shop_money)) (\<lambda>_. 0))) = 176000"
proof -
  have c: "tendered_as ''Cash'' (tenders_of 30 100 11000 shop_money) = 176000" by code_simp
  have returned: "comes_back_whole shop_lines [piece ''SHIRT'' 1, piece ''TIE'' 1, piece ''SHIRT'' 1]" by code_simp
  have shop: "TenderLoyaltyPoints \<notin> fst ` set shop_money" "\<forall>l \<in> set shop_lines. 0 < sl_qty l"
    "sum_list (map sl_qty shop_lines) < 2 ^ 30" by code_simp+
  note whole = whole_return_refunds_the_bill [OF shop_settled shop returned]
  show ?thesis by (rule trans [OF whole [THEN conjunct2, THEN conjunct2, THEN spec] c])
qed

end
