(* ===== verification/Jobs.thy ===== *)
theory Jobs
  imports Schema
begin

text \<open>
  The background job runner (engines/jobrunner.go, correlation.go, retentionDelete of
  bounded_state.go): queueing a job under an idempotency key, claiming a batch under leases,
  running it, reporting, retrying with backoff, dead-lettering, cancelling, replaying,
  quarantine and retention.

  \<open>job_queue\<close> holds the rows of async_jobs, the tenant (its clock in seconds, settings and
  audit trail) and its legal hold. The registry of handlers, their runtime bounds and the
  tenant registry are the record \<open>job_env\<close>; what a handler returns is an event. A worker holds
  the batch it claimed and works it off in order; the steps of several workers and of the
  operators interleave (\<open>job_step\<close>). A claim is one transaction.
\<close>

section \<open>JSON as the encoder writes it\<close>

text \<open>\<open>json.Marshal\<close>: keys sorted, strings quoted with the HTML-safe escapes.\<close>

definition hex_digit :: "nat \<Rightarrow> char" where
  "hex_digit n = ''0123456789abcdef'' ! (n mod 16)"

definition json_escape :: "char \<Rightarrow> string" where
  "json_escape c =
     (if c = CHR 0x22 \<or> c = CHR 0x5C then [CHR 0x5C, c]
      else if c = CHR 0x08 then [CHR 0x5C, CHR ''b'']
      else if c = CHR 0x0C then [CHR 0x5C, CHR ''f'']
      else if c = CHR 0x0A then [CHR 0x5C, CHR ''n'']
      else if c = CHR 0x0D then [CHR 0x5C, CHR ''r'']
      else if c = CHR 0x09 then [CHR 0x5C, CHR ''t'']
      else if of_char c < (0x20 :: nat) \<or> c \<in> set ''<>&''
        then CHR 0x5C # ''u00'' @ [hex_digit (of_char c div 16), hex_digit (of_char c)]
      else [c])"

definition json_quote :: "string \<Rightarrow> string" where
  "json_quote s = CHR 0x22 # concat (map json_escape s) @ [CHR 0x22]"

fun json_marshal :: "json \<Rightarrow> string" where
  "json_marshal JNull = ''null''"
| "json_marshal (JBool b) = (if b then ''true'' else ''false'')"
| "json_marshal (JNum q) = num_text q"
| "json_marshal (JStr s) = json_quote s"
| "json_marshal (JArr xs) = ''['' @ join '','' (map json_marshal xs) @ '']''"
| "json_marshal (JObj m) = ''{'' @ join '','' (map (\<lambda>(k, v). json_quote k @ '':'' @ v)
     (sort_key fst (map (\<lambda>(k, v). (k, json_marshal v)) m))) @ ''}''"

section \<open>State\<close>

record job =
  jb_id :: string
  jb_type :: string
  jb_payload :: payload
  jb_key :: string
  jb_corr :: string
  jb_actor :: string
  jb_status :: string
  jb_attempts :: int
  jb_max :: int
  jb_leased_by :: string
  jb_leased_until :: "int option"
  jb_next :: int
  jb_progress :: int
  jb_result :: "payload option"
  jb_error :: string
  jb_completed :: "int option"

record job_queue =
  jq_t :: tenant
  jq_jobs :: "job list"
  jq_hold :: bool

record job_env =
  je_handlers :: "string list"
  je_runtimes :: "(string \<times> int) list"
  je_schema :: string
  je_tenant :: "string option"
  je_schema_of :: "string \<Rightarrow> string option"

abbreviation clock :: "job_queue \<Rightarrow> int" where
  "clock q \<equiv> t_now (jq_t q)"

definition find_job :: "string \<Rightarrow> job_queue \<Rightarrow> job option" where
  "find_job i q = find (\<lambda>r. jb_id r = i) (jq_jobs q)"

definition update_jobs :: "(job \<Rightarrow> bool) \<Rightarrow> (job \<Rightarrow> job) \<Rightarrow> job_queue \<Rightarrow> job_queue" where
  "update_jobs p f q = q\<lparr>jq_jobs := map (\<lambda>r. if p r then f r else r) (jq_jobs q)\<rparr>"

definition jobClaimBatchSize :: nat where
  "jobClaimBatchSize = 10"

definition jobLeaseDuration :: int where
  "jobLeaseDuration = 300"

definition jobBaseBackoff :: int where
  "jobBaseBackoff = 30"

definition jobMaxPayloadBytes :: int where
  "jobMaxPayloadBytes = 64 * 1024"

definition jobDefaultRetention :: int where
  "jobDefaultRetention = 30"

definition jobMaxResultBytes :: int where
  "jobMaxResultBytes = 64 * 1024"

definition jobResultHeadBytes :: nat where
  "jobResultHeadBytes = 512"

definition jobDefaultMaxRuntime :: int where
  "jobDefaultMaxRuntime = jobLeaseDuration"

definition jobRuntimeLeaseGrace :: int where
  "jobRuntimeLeaseGrace = 60"

definition jobActorSystemDefault :: string where
  "jobActorSystemDefault = ''system:background''"

text \<open>Both registries are filled by \<open>init\<close> functions; registering a type twice panics (\<open>None\<close>).\<close>

definition RegisterJobHandler :: "string \<Rightarrow> string list \<Rightarrow> string list option" where
  "RegisterJobHandler jobType handlers = (if jobType \<in> set handlers then None else Some (jobType # handlers))"

definition SetJobMaxRuntime :: "string \<Rightarrow> int \<Rightarrow> (string \<times> int) list \<Rightarrow> (string \<times> int) list" where
  "SetJobMaxRuntime jobType d runtimes = (if d > 0 then (jobType, d) # runtimes else runtimes)"

definition JobMaxRuntime :: "job_env \<Rightarrow> string \<Rightarrow> int" where
  "JobMaxRuntime env jobType = coalesce (map_of (je_runtimes env) jobType) jobDefaultMaxRuntime"

section \<open>Queueing\<close>

definition correlationIDMaxBytes :: nat where
  "correlationIDMaxBytes = 64"

definition SafeCorrelationID :: "string \<Rightarrow> string" where
  "SafeCorrelationID i =
     filter (\<lambda>c. is_lower c \<or> is_upper c \<or> is_digit c \<or> c \<in> set ''-_.:'') (take correlationIDMaxBytes i)"

definition truncateAttribution :: "string \<Rightarrow> nat \<Rightarrow> string" where
  "truncateAttribution s n = (if length s \<le> n then s else take n s)"

definition jobActorFor :: "string \<Rightarrow> string \<Rightarrow> string \<Rightarrow> string" where
  "jobActorFor ctxActor postedBy sourceCommand =
     (if ctxActor \<noteq> [] then truncateAttribution ctxActor 150
      else if postedBy = ''service:job'' \<and> sourceCommand \<noteq> [] then ''system:'' @ sourceCommand
      else jobActorSystemDefault)"

definition jobSecretKeys :: "string list" where
  "jobSecretKeys = [''password'', ''password_hash'', ''passcode'', ''secret'',
     ''client_secret'', ''api_secret'', ''webhook_secret'', ''signing_secret'',
     ''api_key'', ''apikey'', ''private_key'', ''access_token'',
     ''refresh_token'', ''auth_token'', ''bearer_token'', ''mfa_secret'', ''totp_secret'']"

definition redactedMarker :: string where
  "redactedMarker = ''[REDACTED]''"

fun redactJobSecrets :: "json \<Rightarrow> json" where
  "redactJobSecrets (JObj m) =
     JObj (map (\<lambda>(k, v). (k, if to_lower k \<in> set jobSecretKeys then JStr redactedMarker else redactJobSecrets v)) m)"
| "redactJobSecrets (JArr xs) = JArr (map redactJobSecrets xs)"
| "redactJobSecrets v = v"

fun fields_of :: "json \<Rightarrow> payload" where
  "fields_of (JObj m) = m"
| "fields_of v = []"

definition new_job :: "string \<Rightarrow> string \<Rightarrow> payload \<Rightarrow> string \<Rightarrow> string \<Rightarrow> string \<Rightarrow> job_queue \<Rightarrow> job" where
  "new_job i jobType body key corr actor q =
     \<lparr>jb_id = i, jb_type = jobType, jb_payload = body, jb_key = key, jb_corr = corr, jb_actor = actor,
      jb_status = ''Pending'', jb_attempts = 0, jb_max = 5, jb_leased_by = [], jb_leased_until = None,
      jb_next = clock q, jb_progress = 0, jb_result = None, jb_error = [], jb_completed = None\<rparr>"

text \<open>\<open>i\<close> is the id NewDocID mints; the id is the primary key, and the keys are a unique index.\<close>

definition enqueueJobWith ::
  "job_env \<Rightarrow> string \<Rightarrow> payload \<Rightarrow> string \<Rightarrow> string \<Rightarrow> string \<Rightarrow> string \<Rightarrow> job_queue \<Rightarrow> (string \<times> job_queue) res" where
  "enqueueJobWith env jobType body key corr actor i q =
     (if jobType = [] then Inl (Plain ''a job needs a job_type'')
      else if jobType \<notin> set (je_handlers env) then Inl (Plain ''no registered handler'')
      else let actor' = (if actor = [] then jobActorSystemDefault else actor);
               body' = fields_of (redactJobSecrets (JObj body)) in
        if int (length (json_marshal (JObj body'))) > jobMaxPayloadBytes then Inl (Plain ''job payload exceeds the limit'')
        else case find (\<lambda>r. key \<noteq> [] \<and> jb_type r = jobType \<and> jb_key r = key) (jq_jobs q) of
            Some r \<Rightarrow> Inr (jb_id r, q)
          | None \<Rightarrow>
              if find_job i q \<noteq> None then Inl (Plain ''duplicate key value violates unique constraint'')
              else Inr (i, q\<lparr>jq_jobs := jq_jobs q @ [new_job i jobType body' key corr actor' q]\<rparr>))"

section \<open>Claiming\<close>

definition claimable :: "int \<Rightarrow> job \<Rightarrow> bool" where
  "claimable now r \<longleftrightarrow> jb_status r = ''Pending'' \<and> jb_next r \<le> now
     \<or> jb_status r = ''Leased'' \<and> (case jb_leased_until r of Some u \<Rightarrow> u < now | None \<Rightarrow> False)"

definition lease_of :: "job_env \<Rightarrow> job \<Rightarrow> int" where
  "lease_of env r = max jobLeaseDuration (JobMaxRuntime env (jb_type r) + jobRuntimeLeaseGrace)"

definition lease_job :: "job_env \<Rightarrow> string \<Rightarrow> int \<Rightarrow> job \<Rightarrow> job" where
  "lease_job env worker now r = r\<lparr>jb_status := ''Leased'', jb_leased_by := worker, jb_leased_until := Some (now + lease_of env r)\<rparr>"

definition claimJobs :: "job_env \<Rightarrow> string \<Rightarrow> nat \<Rightarrow> job_queue \<Rightarrow> job list \<times> job_queue" where
  "claimJobs env worker limit q =
     (let claimed = take limit (sort_key jb_next (filter (claimable (clock q)) (jq_jobs q)))
      in (claimed, update_jobs (\<lambda>r. jb_id r \<in> jb_id ` set claimed) (lease_job env worker (clock q)) q))"

section \<open>Reporting\<close>

datatype outcome =
    Done payload
  | Erred string

definition stored_result :: "payload \<Rightarrow> payload" where
  "stored_result r =
     (let bytes = json_marshal (JObj r) in
      if int (length bytes) > jobMaxResultBytes
      then [(''truncated'', JBool True), (''original_size'', JNum (of_nat (length bytes))), (''limit'', JNum (of_int jobMaxResultBytes)),
            (''head'', JStr (take jobResultHeadBytes bytes))]
      else r)"

definition on_leased :: "string \<Rightarrow> (job \<Rightarrow> job) \<Rightarrow> job_queue \<Rightarrow> job_queue" where
  "on_leased i f q = update_jobs (\<lambda>r. jb_id r = i \<and> jb_status r = ''Leased'') f q"

definition finishJob :: "job_env \<Rightarrow> job \<Rightarrow> outcome \<Rightarrow> job_queue \<Rightarrow> job_queue" where
  "finishJob env j out q =
     (case out of
        Done res \<Rightarrow> on_leased (jb_id j) (\<lambda>r. r\<lparr>jb_status := ''Succeeded'', jb_result := Some (stored_result res), jb_error := [],
                      jb_completed := Some (clock q)\<rparr>) q
      | Erred msg \<Rightarrow>
          let n = jb_attempts j + 1; msg' = take 2000 msg in
          if n \<ge> jb_max j
          then let q' = on_leased (jb_id j) (\<lambda>r. r\<lparr>jb_status := ''DeadLettered'', jb_attempts := n, jb_error := msg',
                      jb_completed := Some (clock q)\<rparr>) q in
            (case je_tenant env of
               None \<Rightarrow> q'
             | Some _ \<Rightarrow> q'\<lparr>jq_t := LogAuditEvent ''system'' ''DEAD_LETTERED''
                 (''Job '' @ jb_id j @ '' ('' @ jb_type j @ '') gave up after '' @ dec_int n @ '' attempts: '' @ take 300 msg') (jq_t q')\<rparr>)
          else on_leased (jb_id j) (\<lambda>r. r\<lparr>jb_status := ''Pending'', jb_attempts := n, jb_error := msg',
                 jb_next := clock q + jobBaseBackoff * 2 ^ nat (n - 1)\<rparr>) q)"

definition UpdateJobProgress :: "string \<Rightarrow> int \<Rightarrow> job_queue \<Rightarrow> job_queue" where
  "UpdateJobProgress i pct q =
     (let p = (if pct < 0 then 0 else pct); p' = (if p > 100 then 100 else p)
      in update_jobs (\<lambda>r. jb_id r = i) (\<lambda>r. r\<lparr>jb_progress := p'\<rparr>) q)"

section \<open>Operators and upkeep\<close>

definition update_one :: "string \<Rightarrow> string set \<Rightarrow> (job \<Rightarrow> job) \<Rightarrow> string \<Rightarrow> job_queue \<Rightarrow> job_queue res" where
  "update_one i states f msg q =
     (if list_ex (\<lambda>r. jb_id r = i \<and> jb_status r \<in> states) (jq_jobs q)
      then Inr (update_jobs (\<lambda>r. jb_id r = i \<and> jb_status r \<in> states) f q) else Inl (Plain msg))"

definition CancelJob :: "string \<Rightarrow> job_queue \<Rightarrow> job_queue res" where
  "CancelJob i q = update_one i {''Pending'', ''Leased''} (\<lambda>r. r\<lparr>jb_status := ''Cancelled'', jb_completed := Some (clock q)\<rparr>)
     ''not found, or already in a terminal state'' q"

definition ReplayJob :: "string \<Rightarrow> job_queue \<Rightarrow> job_queue res" where
  "ReplayJob i q = update_one i {''Failed'', ''DeadLettered'', ''Cancelled'', ''Quarantined''}
     (\<lambda>r. r\<lparr>jb_status := ''Pending'', jb_attempts := 0, jb_next := clock q, jb_error := [], jb_completed := None\<rparr>)
     ''not found, or not in a replayable state'' q"

definition webhookDeliveryJobType :: string where
  "webhookDeliveryJobType = ''webhook_delivery''"

definition notificationDeliveryJobType :: string where
  "notificationDeliveryJobType = ''notification_delivery''"

definition quarantineStaleExternalDispatchJobsInSchema :: "job_queue \<Rightarrow> job_queue" where
  "quarantineStaleExternalDispatchJobsInSchema q =
     update_jobs (\<lambda>r. jb_type r \<in> {webhookDeliveryJobType, notificationDeliveryJobType} \<and> jb_status r = ''Pending'')
       (\<lambda>r. r\<lparr>jb_status := ''Quarantined''\<rparr>) q"

definition retentionBatchRows :: nat where
  "retentionBatchRows = 5000"

definition retentionMaxBatches :: nat where
  "retentionMaxBatches = 200"

text \<open>\<open>DELETE ... WHERE ctid IN (SELECT ctid ... LIMIT n)\<close>, the rows taken in table order.\<close>

fun delete_first :: "nat \<Rightarrow> ('a \<Rightarrow> bool) \<Rightarrow> 'a list \<Rightarrow> 'a list" where
  "delete_first n p [] = []"
| "delete_first n p (x # xs) = (if p x \<and> n > 0 then delete_first (n - 1) p xs else x # delete_first n p xs)"

fun delete_batches :: "nat \<Rightarrow> ('a \<Rightarrow> bool) \<Rightarrow> 'a list \<Rightarrow> 'a list" where
  "delete_batches 0 p xs = xs"
| "delete_batches (Suc i) p xs =
     (let ys = delete_first retentionBatchRows p xs in
      if length xs - length ys < retentionBatchRows then ys else delete_batches i p ys)"

definition retentionDelete :: "bool \<Rightarrow> ('a \<Rightarrow> bool) \<Rightarrow> 'a list \<Rightarrow> 'a list" where
  "retentionDelete held p xs = (if held then xs else delete_batches retentionMaxBatches p xs)"

definition SweepJobRunnerRetention :: "job_queue \<Rightarrow> job_queue" where
  "SweepJobRunnerRetention q =
     (let d = GetSettingInt (jq_t q) ''platform.job_runner_retention_days'';
          days = (if d \<le> 0 then jobDefaultRetention else d)
      in q\<lparr>jq_jobs := retentionDelete (jq_hold q)
             (\<lambda>r. jb_status r \<in> {''Succeeded'', ''DeadLettered'', ''Cancelled''}
                \<and> (case jb_completed r of Some c \<Rightarrow> c < clock q - days * 86400 | None \<Rightarrow> False)) (jq_jobs q)\<rparr>)"

section \<open>Workers\<close>

text \<open>A claimed job is what the claim read, with the end of its lease.\<close>

record worker =
  wk_name :: string
  wk_batch :: "(job \<times> int) list"
  wk_started :: "int option"

record plant =
  pl_queue :: job_queue
  pl_workers :: "worker list"
  pl_runs :: "(nat \<times> string) list"

text \<open>\<open>bindJobTenant\<close>: the payload the handler sees, or why it is not run.\<close>

definition bindJobTenant :: "job_env \<Rightarrow> job \<Rightarrow> job res" where
  "bindJobTenant env j =
     (let named = jstr (jb_payload j) ''tenant_id'' in
      if named = [] then Inr (j\<lparr>jb_payload := jput ''tenant_id'' (JStr (coalesce (je_tenant env) [])) (jb_payload j)\<rparr>)
      else case je_schema_of env named of
          None \<Rightarrow> Inl (Plain ''tenant not found'')
        | Some s \<Rightarrow> if s \<noteq> je_schema env then Inl (Plain ''job names another client - not run'') else Inr j)"

definition timed :: "job_env \<Rightarrow> job \<Rightarrow> int \<Rightarrow> int \<Rightarrow> outcome \<Rightarrow> outcome" where
  "timed env j started now out =
     (if now - started \<ge> JobMaxRuntime env (jb_type j) then Erred ''job timed out after its runtime bound'' else out)"

datatype job_event =
    Enqueue string payload string string string string
  | Claim nat
  | Start nat
  | Finish nat outcome
  | Crash nat
  | Cancel string
  | Replay string
  | Progress string int
  | Quarantine
  | Sweep
  | Tick int

text \<open>The job a worker is at, and whether the worker still holds its lease.\<close>

definition holds :: "plant \<Rightarrow> nat \<Rightarrow> string \<Rightarrow> bool" where
  "holds p w i \<longleftrightarrow> w < length (pl_workers p)
     \<and> list_ex (\<lambda>(j, u). jb_id j = i \<and> clock (pl_queue p) \<le> u) (wk_batch (pl_workers p ! w))"

definition held_by_some :: "plant \<Rightarrow> string \<Rightarrow> bool" where
  "held_by_some p i \<longleftrightarrow> list_ex (\<lambda>w. holds p w i) [0..< length (pl_workers p)]"

definition set_worker :: "nat \<Rightarrow> worker \<Rightarrow> plant \<Rightarrow> plant" where
  "set_worker w k p = p\<lparr>pl_workers := (pl_workers p)[w := k]\<rparr>"

definition claim_step :: "job_env \<Rightarrow> nat \<Rightarrow> plant \<Rightarrow> plant option" where
  "claim_step env w p =
     (let k = pl_workers p ! w; q = pl_queue p in
      if w < length (pl_workers p) \<and> wk_batch k = [] \<and> je_tenant env \<noteq> None
      then case claimJobs env (wk_name k) jobClaimBatchSize q of (js, q') \<Rightarrow>
        Some (set_worker w (k\<lparr>wk_batch := map (\<lambda>j. (j, clock q + lease_of env j)) js, wk_started := None\<rparr>) (p\<lparr>pl_queue := q'\<rparr>))
      else None)"

definition start_step :: "job_env \<Rightarrow> bool \<Rightarrow> nat \<Rightarrow> plant \<Rightarrow> plant option" where
  "start_step env timely w p =
     (let k = pl_workers p ! w; q = pl_queue p in
      if w < length (pl_workers p) \<and> wk_started k = None
      then case wk_batch k of
          [] \<Rightarrow> None
        | (j, u) # rest \<Rightarrow>
            let refuse = (\<lambda>msg. Some (set_worker w (k\<lparr>wk_batch := rest\<rparr>) (p\<lparr>pl_queue := finishJob env j (Erred msg) q\<rparr>))) in
            if timely \<and> u < clock q then None
            else if jb_type j \<notin> set (je_handlers env) then refuse ''no handler registered''
            else (case bindJobTenant env j of
                Inl e \<Rightarrow> refuse ''not this client''
              | Inr j' \<Rightarrow> Some (set_worker w (k\<lparr>wk_batch := (j', u) # rest, wk_started := Some (clock q)\<rparr>)
                    (p\<lparr>pl_runs := pl_runs p @ [(w, jb_id j)]\<rparr>)))
      else None)"

definition finish_step :: "job_env \<Rightarrow> bool \<Rightarrow> nat \<Rightarrow> outcome \<Rightarrow> plant \<Rightarrow> plant option" where
  "finish_step env timely w out p =
     (let k = pl_workers p ! w; q = pl_queue p in
      if w < length (pl_workers p)
      then case (wk_batch k, wk_started k) of
          ((j, u) # rest, Some t) \<Rightarrow>
            if timely \<and> u < clock q then None
            else Some (set_worker w (k\<lparr>wk_batch := rest, wk_started := None\<rparr>)
                   (p\<lparr>pl_queue := finishJob env j (timed env j t (clock q) out) q\<rparr>))
        | _ \<Rightarrow> None
      else None)"

definition with_queue :: "plant \<Rightarrow> job_queue res \<Rightarrow> plant option" where
  "with_queue p r = (case r of Inl e \<Rightarrow> None | Inr q \<Rightarrow> Some (p\<lparr>pl_queue := q\<rparr>))"

text \<open>
  With \<open>timely\<close> a worker does nothing more for a job once its lease has run out, an operator
  does not replay a job that a worker holds, and no new job gets the id of one.
\<close>

fun job_step :: "job_env \<Rightarrow> bool \<Rightarrow> job_event \<Rightarrow> plant \<Rightarrow> plant option" where
  "job_step env timely (Enqueue jobType body key corr actor i) p =
     (if timely \<and> held_by_some p i then None
      else with_queue p (rbind (enqueueJobWith env jobType body key (SafeCorrelationID corr) actor i (pl_queue p)) (\<lambda>(_, q). Inr q)))"
| "job_step env timely (Claim w) p = claim_step env w p"
| "job_step env timely (Start w) p = start_step env timely w p"
| "job_step env timely (Finish w out) p = finish_step env timely w out p"
| "job_step env timely (Crash w) p =
     (if w < length (pl_workers p) then Some (set_worker w ((pl_workers p ! w)\<lparr>wk_batch := [], wk_started := None\<rparr>) p) else None)"
| "job_step env timely (Cancel i) p = with_queue p (CancelJob i (pl_queue p))"
| "job_step env timely (Replay i) p =
     (if timely \<and> held_by_some p i then None
      else with_queue p (ReplayJob i (pl_queue p)))"
| "job_step env timely (Progress i pct) p = Some (p\<lparr>pl_queue := UpdateJobProgress i pct (pl_queue p)\<rparr>)"
| "job_step env timely Quarantine p = Some (p\<lparr>pl_queue := quarantineStaleExternalDispatchJobsInSchema (pl_queue p)\<rparr>)"
| "job_step env timely Sweep p = Some (p\<lparr>pl_queue := SweepJobRunnerRetention (pl_queue p)\<rparr>)"
| "job_step env timely (Tick d) p =
     (if d \<ge> 0 then Some (p\<lparr>pl_queue := (pl_queue p)\<lparr>jq_t := (jq_t (pl_queue p))\<lparr>t_now := clock (pl_queue p) + d\<rparr>\<rparr>\<rparr>) else None)"

fun job_history :: "job_env \<Rightarrow> bool \<Rightarrow> job_event list \<Rightarrow> plant \<Rightarrow> plant option" where
  "job_history env timely [] p = Some p"
| "job_history env timely (e # es) p =
     (case job_step env timely e p of None \<Rightarrow> None | Some p' \<Rightarrow> job_history env timely es p')"

definition idle_plant :: "job_queue \<Rightarrow> string list \<Rightarrow> plant" where
  "idle_plant q names = \<lparr>pl_queue = q, pl_workers = map (\<lambda>n. \<lparr>wk_name = n, wk_batch = [], wk_started = None\<rparr>) names, pl_runs = []\<rparr>"

section \<open>Rows\<close>

lemma update_jobs_simps [simp]:
  "jq_t (update_jobs p f q) = jq_t q" "jq_hold (update_jobs p f q) = jq_hold q"
  "jq_jobs (update_jobs p f q) = map (\<lambda>r. if p r then f r else r) (jq_jobs q)"
  by (simp_all add: update_jobs_def)

lemma find_update_jobs:
  "(\<And>r. jb_id (f r) = jb_id r) \<Longrightarrow>
     find_job i (update_jobs p f q) = map_option (\<lambda>r. if p r then f r else r) (find_job i q)"
  by (simp add: find_job_def find_map_update)

lemma find_job_id: "find_job i q = Some r \<Longrightarrow> jb_id r = i" and find_job_mem: "find_job i q = Some r \<Longrightarrow> r \<in> set (jq_jobs q)"
  by (auto simp: find_job_def find_Some_iff)

lemma find_job_None: "find_job i q = None \<longleftrightarrow> i \<notin> jb_id ` set (jq_jobs q)"
  by (auto simp: find_job_def find_None_iff)

lemma find_job_unique: "distinct (map jb_id (jq_jobs q)) \<Longrightarrow> r \<in> set (jq_jobs q) \<Longrightarrow> find_job (jb_id r) q = Some r"
proof (induction "jq_jobs q" arbitrary: q)
  case Nil
  then show ?case by simp
next
  case (Cons x xs)
  from Cons.hyps(1) [of "q\<lparr>jq_jobs := xs\<rparr>"] Cons.prems Cons.hyps(2) [symmetric] show ?case
    by (auto simp: find_job_def)
qed

text \<open>The secrets a payload may not hold.\<close>

fun secret_free :: "json \<Rightarrow> bool" where
  "secret_free (JObj m) \<longleftrightarrow> list_all (\<lambda>(k, v). if to_lower k \<in> set jobSecretKeys then v = JStr redactedMarker else secret_free v) m"
| "secret_free (JArr xs) \<longleftrightarrow> list_all secret_free xs"
| "secret_free v \<longleftrightarrow> True"

lemma redacted_secret_free: "secret_free (redactJobSecrets v)"
  by (induction v rule: redactJobSecrets.induct) (auto simp: list_all_iff)

definition job_statuses :: "string set" where
  "job_statuses = {''Pending'', ''Leased'', ''Succeeded'', ''DeadLettered'', ''Cancelled'', ''Quarantined''}"

definition job_ok :: "job_env \<Rightarrow> job \<Rightarrow> bool" where
  "job_ok env r \<longleftrightarrow> jb_type r \<in> set (je_handlers env) \<and> jb_max r = 5 \<and> 0 \<le> jb_attempts r \<and> jb_status r \<in> job_statuses
     \<and> (if jb_status r = ''DeadLettered'' then jb_attempts r = jb_max r else jb_attempts r < jb_max r)
     \<and> (jb_status r = ''Leased'' \<longrightarrow> jb_leased_until r \<noteq> None) \<and> (jb_status r = ''Succeeded'' \<longrightarrow> jb_result r \<noteq> None)
     \<and> (jb_completed r \<noteq> None \<longleftrightarrow> jb_status r \<in> {''Succeeded'', ''DeadLettered'', ''Cancelled''})
     \<and> 0 \<le> jb_progress r \<and> jb_progress r \<le> 100
     \<and> secret_free (JObj (jb_payload r)) \<and> int (length (json_marshal (JObj (jb_payload r)))) \<le> jobMaxPayloadBytes"

definition queue_ok :: "job_env \<Rightarrow> job_queue \<Rightarrow> bool" where
  "queue_ok env q \<longleftrightarrow> distinct (map jb_id (jq_jobs q))
     \<and> distinct (map (\<lambda>r. (jb_type r, jb_key r)) (filter (\<lambda>r. jb_key r \<noteq> []) (jq_jobs q)))
     \<and> list_all (job_ok env) (jq_jobs q)"

definition plant_ok :: "job_env \<Rightarrow> plant \<Rightarrow> bool" where
  "plant_ok env p \<longleftrightarrow> queue_ok env (pl_queue p)
     \<and> list_all (\<lambda>k. list_all (\<lambda>(j, u). 0 \<le> jb_attempts j \<and> jb_attempts j < 5 \<and> jb_max j = 5) (wk_batch k)
                     \<and> distinct (map (jb_id \<circ> fst) (wk_batch k))) (pl_workers p)"

lemma queue_ok_update [inv_intros]:
  assumes "queue_ok env q" "\<And>r. r \<in> set (jq_jobs q) \<Longrightarrow> p r \<Longrightarrow> job_ok env r \<Longrightarrow> job_ok env (f r)"
    and "\<And>r. jb_id (f r) = jb_id r" "\<And>r. jb_type (f r) = jb_type r" "\<And>r. jb_key (f r) = jb_key r"
  shows "queue_ok env (update_jobs p f q)"
proof -
  have "map (\<lambda>r. (jb_type r, jb_key r)) (filter (\<lambda>r. jb_key r \<noteq> []) (map (\<lambda>r. if p r then f r else r) rs))
      = map (\<lambda>r. (jb_type r, jb_key r)) (filter (\<lambda>r. jb_key r \<noteq> []) rs)" for rs
    using assms(4,5) by (induction rs) auto
  moreover have "map jb_id (map (\<lambda>r. if p r then f r else r) rs) = map jb_id rs" for rs
    using assms(3) by (induction rs) auto
  ultimately show ?thesis
    using assms(1,2) unfolding queue_ok_def update_jobs_simps list_all_iff by (auto simp del: map_map)
qed

lemma queue_ok_t [simp]: "queue_ok env (q\<lparr>jq_t := t\<rparr>) = queue_ok env q"
  by (simp add: queue_ok_def)

lemma delete_first_subset: "set (delete_first n p xs) \<subseteq> set xs"
  by (induction n p xs rule: delete_first.induct) auto

lemma delete_first_spares: "x \<in> set xs \<Longrightarrow> \<not> p x \<Longrightarrow> x \<in> set (delete_first n p xs)"
  by (induction n p xs rule: delete_first.induct) auto

lemma delete_first_distinct: "distinct (map f (filter g xs)) \<Longrightarrow> distinct (map f (filter g (delete_first n p xs)))"
proof (induction n p xs rule: delete_first.induct)
  case (2 n p x xs)
  then show ?case using delete_first_subset [of n p xs] by (auto split: if_splits)
qed simp

lemma delete_batches_keeps:
  "set (delete_batches i p xs) \<subseteq> set xs \<and> (x \<in> set xs \<longrightarrow> \<not> p x \<longrightarrow> x \<in> set (delete_batches i p xs))
   \<and> (distinct (map f (filter g xs)) \<longrightarrow> distinct (map f (filter g (delete_batches i p xs))))"
proof (induction i arbitrary: xs)
  case 0
  then show ?case by simp
next
  case (Suc i)
  from Suc [of "delete_first retentionBatchRows p xs"] delete_first_subset [of retentionBatchRows p xs]
    delete_first_spares [of x xs p retentionBatchRows] delete_first_distinct [of f g xs retentionBatchRows p]
  show ?case by (auto simp: Let_def)
qed

lemma retentionDelete_keeps:
  "set (retentionDelete held p xs) \<subseteq> set xs" "x \<in> set xs \<Longrightarrow> \<not> p x \<Longrightarrow> x \<in> set (retentionDelete held p xs)"
  "distinct (map f (filter g xs)) \<Longrightarrow> distinct (map f (filter g (retentionDelete held p xs)))"
  using delete_batches_keeps [of retentionMaxBatches p xs x f g] by (auto simp: retentionDelete_def)

lemma sweep_jobs:
  obtains p where "SweepJobRunnerRetention q = q\<lparr>jq_jobs := retentionDelete (jq_hold q) p (jq_jobs q)\<rparr>"
    "\<And>r. p r \<Longrightarrow> jb_status r \<in> {''Succeeded'', ''DeadLettered'', ''Cancelled''}"
  using that by (auto simp: SweepJobRunnerRetention_def Let_def)

lemma queue_ok_sweep [inv_intros]: "queue_ok env q \<Longrightarrow> queue_ok env (SweepJobRunnerRetention q)"
  using retentionDelete_keeps(3) [of jb_id "\<lambda>_. True"] retentionDelete_keeps(1) retentionDelete_keeps(3)
  by (rule_tac q = q in sweep_jobs) (fastforce simp: queue_ok_def list_all_iff)

section \<open>Every operation keeps the rows well formed\<close>

lemmas status_defs = job_ok_def job_statuses_def

text \<open>Queueing: the job of the key, or a new row with a redacted payload.\<close>

lemma enqueue_cases:
  assumes "enqueueJobWith env jobType body key corr actor i q = Inr (i', q')"
  obtains (known) r where "q' = q" "r \<in> set (jq_jobs q)" "key \<noteq> []" "jb_type r = jobType" "jb_key r = key" "i' = jb_id r"
  | (queued) b actor' where "q' = q\<lparr>jq_jobs := jq_jobs q @ [new_job i jobType b key corr actor' q]\<rparr>" "i' = i"
      "jobType \<in> set (je_handlers env)" "secret_free (JObj b)" "int (length (json_marshal (JObj b))) \<le> jobMaxPayloadBytes"
      "find_job i q = None" "\<And>x. x \<in> set (jq_jobs q) \<Longrightarrow> key \<noteq> [] \<Longrightarrow> (jb_type x, jb_key x) \<noteq> (jobType, key)"
proof (cases "find (\<lambda>r. key \<noteq> [] \<and> jb_type r = jobType \<and> jb_key r = key) (jq_jobs q)")
  case None
  let ?b = "fields_of (redactJobSecrets (JObj body))"
  have "i' = i" "jobType \<in> set (je_handlers env)" "int (length (json_marshal (JObj ?b))) \<le> jobMaxPayloadBytes"
    "find_job i q = None"
    "q' = q\<lparr>jq_jobs := jq_jobs q @ [new_job i jobType ?b key corr (if actor = [] then jobActorSystemDefault else actor) q]\<rparr>"
    using None assms
    by (auto simp: enqueueJobWith_def Let_def simp del: redactJobSecrets.simps json_marshal.simps split: if_splits)
  moreover have "secret_free (JObj ?b)" using redacted_secret_free [of "JObj body"] by simp
  ultimately show ?thesis using None by (intro queued) (auto simp: find_None_iff)
next
  case (Some r)
  then have "r \<in> set (jq_jobs q)" "key \<noteq> []" "jb_type r = jobType" "jb_key r = key" by (auto simp: find_Some_iff)
  with Some assms show ?thesis by (auto simp: enqueueJobWith_def Let_def split: if_splits intro!: known)
qed

lemma queue_ok_enqueue [inv_intros]:
  assumes "enqueueJobWith env jobType body key corr actor i q = Inr (i', q')" "queue_ok env q"
  shows "queue_ok env q'"
  using assms(1)
proof (cases rule: enqueue_cases)
  case (known r)
  with assms(2) show ?thesis by simp
next
  case (queued b actor')
  with assms(2) show ?thesis
    by (auto simp: queue_ok_def find_job_None status_defs new_job_def list_all_iff simp del: secret_free.simps json_marshal.simps)
qed

lemma claimed_rows:
  assumes "claimJobs env w n q = (js, q')" "queue_ok env q"
  shows "set js \<subseteq> {r \<in> set (jq_jobs q). claimable (clock q) r}" "distinct (map jb_id js)"
    and "q' = update_jobs (\<lambda>r. jb_id r \<in> jb_id ` set js) (lease_job env w (clock q)) q"
    and "\<And>r. r \<in> set (jq_jobs q) \<Longrightarrow> jb_id r \<in> jb_id ` set js \<Longrightarrow> r \<in> set js"
proof -
  let ?rs = "sort_key jb_next (filter (claimable (clock q)) (jq_jobs q))"
  have js: "js = take n ?rs" using assms(1) by (simp add: claimJobs_def Let_def)
  show sub: "set js \<subseteq> {r \<in> set (jq_jobs q). claimable (clock q) r}"
    unfolding js using set_take_subset [of n ?rs] by auto
  have d: "distinct (map jb_id (jq_jobs q))" using assms(2) by (simp add: queue_ok_def)
  then have "distinct (map jb_id ?rs)" by (auto simp: distinct_map inj_on_def)
  then show "distinct (map jb_id js)" unfolding js by (simp add: take_map [symmetric])
  show "q' = update_jobs (\<lambda>r. jb_id r \<in> jb_id ` set js) (lease_job env w (clock q)) q"
    using assms(1) by (auto simp: claimJobs_def Let_def)
  show "r \<in> set js" if "r \<in> set (jq_jobs q)" "jb_id r \<in> jb_id ` set js" for r
    using that sub d by (auto simp: distinct_map inj_on_def)
qed

lemma queue_ok_claim [inv_intros]:
  assumes "claimJobs env w n q = (js, q')" "queue_ok env q"
  shows "queue_ok env q'"
proof -
  note rows = claimed_rows [OF assms]
  have "job_ok env (lease_job env w (clock q) r)"
    if "r \<in> set (jq_jobs q)" "jb_id r \<in> jb_id ` set js" "job_ok env r" for r
    using subsetD [OF rows(1) rows(4) [OF that(1,2)]] that(3)
    by (auto simp: claimable_def lease_job_def status_defs)
  then show ?thesis unfolding rows(3) by (intro queue_ok_update [OF assms(2)]) (simp_all add: lease_job_def)
qed

text \<open>A report only touches a leased row of its job.\<close>

lemma finishJob_on_leased:
  assumes "0 \<le> jb_attempts j" "jb_attempts j < 5" "jb_max j = 5"
  obtains f t where "finishJob env j out q = (on_leased (jb_id j) f q)\<lparr>jq_t := t\<rparr>" "t_now t = clock q"
    "\<And>r. jb_id (f r) = jb_id r" "\<And>r. jb_type (f r) = jb_type r" "\<And>r. jb_key (f r) = jb_key r"
    "\<And>r. job_ok env r \<Longrightarrow> jb_status r = ''Leased'' \<Longrightarrow> job_ok env (f r)"
proof (cases out)
  case (Done res)
  show ?thesis
    by (rule that [where f = "\<lambda>r. r\<lparr>jb_status := ''Succeeded'', jb_result := Some (stored_result res), jb_error := [],
          jb_completed := Some (clock q)\<rparr>" and t = "jq_t q"])
      (simp_all add: Done finishJob_def on_leased_def status_defs update_jobs_def)
next
  case (Erred msg)
  let ?n = "jb_attempts j + 1" and ?m = "take 2000 msg"
  show ?thesis
  proof (cases "?n \<ge> jb_max j")
    case True
    show ?thesis
      by (rule that [where f = "\<lambda>r. r\<lparr>jb_status := ''DeadLettered'', jb_attempts := ?n, jb_error := ?m, jb_completed := Some (clock q)\<rparr>"
            and t = "case je_tenant env of None \<Rightarrow> jq_t q | Some _ \<Rightarrow> LogAuditEvent ''system'' ''DEAD_LETTERED''
               (''Job '' @ jb_id j @ '' ('' @ jb_type j @ '') gave up after '' @ dec_int ?n @ '' attempts: '' @ take 300 ?m) (jq_t q)"])
        (use True assms in \<open>auto simp: Erred finishJob_def Let_def on_leased_def status_defs update_jobs_def split: option.splits\<close>)
  next
    case False
    show ?thesis
      by (rule that [where f = "\<lambda>r. r\<lparr>jb_status := ''Pending'', jb_attempts := ?n, jb_error := ?m,
            jb_next := clock q + jobBaseBackoff * 2 ^ nat (?n - 1)\<rparr>" and t = "jq_t q"])
        (use False assms in \<open>auto simp: Erred finishJob_def Let_def on_leased_def status_defs update_jobs_def\<close>)
  qed
qed

lemma queue_ok_finish [inv_intros]:
  assumes "queue_ok env q" "0 \<le> jb_attempts j" "jb_attempts j < 5" "jb_max j = 5"
  shows "queue_ok env (finishJob env j out q)"
proof -
  obtain f t where f: "finishJob env j out q = (on_leased (jb_id j) f q)\<lparr>jq_t := t\<rparr>"
    "\<And>r. jb_id (f r) = jb_id r" "\<And>r. jb_type (f r) = jb_type r" "\<And>r. jb_key (f r) = jb_key r"
    "\<And>r. job_ok env r \<Longrightarrow> jb_status r = ''Leased'' \<Longrightarrow> job_ok env (f r)"
    using finishJob_on_leased [OF assms(2-4), of env out q] by metis
  show ?thesis unfolding f(1) queue_ok_t on_leased_def using f by (intro queue_ok_update [OF assms(1)]) auto
qed

lemma find_finish:
  assumes "0 \<le> jb_attempts j" "jb_attempts j < 5" "jb_max j = 5"
  shows "i \<noteq> jb_id j \<Longrightarrow> find_job i (finishJob env j out q) = find_job i q"
    and "find_job i q = Some r \<Longrightarrow> jb_status r \<noteq> ''Leased'' \<Longrightarrow> find_job i (finishJob env j out q) = Some r"
    and "clock (finishJob env j out q) = clock q"
proof -
  obtain f t where f: "finishJob env j out q = (on_leased (jb_id j) f q)\<lparr>jq_t := t\<rparr>" "t_now t = clock q"
    "\<And>r. jb_id (f r) = jb_id r"
    using finishJob_on_leased [OF assms, of env out q] by metis
  have find: "find_job i (finishJob env j out q) = map_option (\<lambda>r. if jb_id r = jb_id j \<and> jb_status r = ''Leased'' then f r else r) (find_job i q)"
    using find_update_jobs [of f i "\<lambda>r. jb_id r = jb_id j \<and> jb_status r = ''Leased''" q] f(3)
    by (simp add: f(1) on_leased_def find_job_def)
  show "i \<noteq> jb_id j \<Longrightarrow> find_job i (finishJob env j out q) = find_job i q"
    unfolding find by (cases "find_job i q") (auto dest: find_job_id)
  show "find_job i q = Some r \<Longrightarrow> jb_status r \<noteq> ''Leased'' \<Longrightarrow> find_job i (finishJob env j out q) = Some r"
    unfolding find by simp
  show "clock (finishJob env j out q) = clock q" using f by simp
qed

lemma update_one_cases:
  "update_one i S f msg q = Inr q' \<longleftrightarrow>
     list_ex (\<lambda>r. jb_id r = i \<and> jb_status r \<in> S) (jq_jobs q) \<and> q' = update_jobs (\<lambda>r. jb_id r = i \<and> jb_status r \<in> S) f q"
  by (auto simp: update_one_def)

lemma queue_ok_cancel [inv_intros]: "CancelJob i q = Inr q' \<Longrightarrow> queue_ok env q \<Longrightarrow> queue_ok env q'"
  and queue_ok_replay [inv_intros]: "ReplayJob i q = Inr q' \<Longrightarrow> queue_ok env q \<Longrightarrow> queue_ok env q'"
  by (auto simp: CancelJob_def ReplayJob_def update_one_cases status_defs intro!: queue_ok_update)

lemma queue_ok_progress [inv_intros]: "queue_ok env q \<Longrightarrow> queue_ok env (UpdateJobProgress i pct q)"
  by (auto simp: UpdateJobProgress_def Let_def status_defs intro!: queue_ok_update)

lemma queue_ok_quarantine [inv_intros]: "queue_ok env q \<Longrightarrow> queue_ok env (quarantineStaleExternalDispatchJobsInSchema q)"
  by (auto simp: quarantineStaleExternalDispatchJobsInSchema_def status_defs intro!: queue_ok_update)

section \<open>Histories\<close>

definition batch_ok :: "(job \<times> int) list \<Rightarrow> bool" where
  "batch_ok b \<longleftrightarrow> list_all (\<lambda>(j, u). 0 \<le> jb_attempts j \<and> jb_attempts j < 5 \<and> jb_max j = 5) b \<and> distinct (map (jb_id \<circ> fst) b)"

lemma plant_ok_alt: "plant_ok env p \<longleftrightarrow> queue_ok env (pl_queue p) \<and> (\<forall>k \<in> set (pl_workers p). batch_ok (wk_batch k))"
  by (auto simp: plant_ok_def batch_ok_def list_all_iff)

lemma plant_ok_set_worker:
  assumes "plant_ok env p" "queue_ok env q" "batch_ok (wk_batch k)"
  shows "plant_ok env (set_worker w k (p\<lparr>pl_queue := q\<rparr>))"
  using assms by (auto simp: plant_ok_alt set_worker_def dest: set_update_subset_insert [THEN subsetD])

lemma batch_ok_worker: "plant_ok env p \<Longrightarrow> w < length (pl_workers p) \<Longrightarrow> batch_ok (wk_batch (pl_workers p ! w))"
  by (simp add: plant_ok_alt)

lemma batch_ok_Cons: "batch_ok ((j, u) # b) \<longleftrightarrow>
    0 \<le> jb_attempts j \<and> jb_attempts j < 5 \<and> jb_max j = 5 \<and> jb_id j \<notin> (jb_id \<circ> fst) ` set b \<and> batch_ok b"
  by (auto simp: batch_ok_def)

lemma claimed_batch_ok:
  assumes "claimJobs env w n q = (js, q')" "queue_ok env q"
  shows "batch_ok (map (\<lambda>j. (j, clock q + lease_of env j)) js)"
proof -
  note rows = claimed_rows [OF assms]
  have "0 \<le> jb_attempts r \<and> jb_attempts r < 5 \<and> jb_max r = 5" if "r \<in> set js" for r
    using subsetD [OF rows(1) that] assms(2) by (auto simp: queue_ok_def list_all_iff status_defs claimable_def split: if_splits)
  with rows(2) show ?thesis by (auto simp: batch_ok_def list_all_iff o_def)
qed

lemma bindJobTenant_same:
  "bindJobTenant env j = Inr j' \<Longrightarrow> jb_id j' = jb_id j \<and> jb_attempts j' = jb_attempts j \<and> jb_max j' = jb_max j"
  by (auto simp: bindJobTenant_def Let_def split: if_splits option.splits)

text \<open>The shapes of a start and of a finish.\<close>

lemma start_stepE:
  assumes "start_step env timely w p = Some p'"
  obtains
    (refused) j u rest msg where "w < length (pl_workers p)" "wk_batch (pl_workers p ! w) = (j, u) # rest"
      "\<not> (timely \<and> u < clock (pl_queue p))"
      "p' = set_worker w ((pl_workers p ! w)\<lparr>wk_batch := rest\<rparr>) (p\<lparr>pl_queue := finishJob env j (Erred msg) (pl_queue p)\<rparr>)"
  | (runs) j u rest j' where "w < length (pl_workers p)" "wk_batch (pl_workers p ! w) = (j, u) # rest"
      "\<not> (timely \<and> u < clock (pl_queue p))" "jb_id j' = jb_id j" "jb_attempts j' = jb_attempts j" "jb_max j' = jb_max j"
      "p' = set_worker w ((pl_workers p ! w)\<lparr>wk_batch := (j', u) # rest, wk_started := Some (clock (pl_queue p))\<rparr>)
         (p\<lparr>pl_runs := pl_runs p @ [(w, jb_id j)]\<rparr>)"
proof -
  obtain j u rest where w: "w < length (pl_workers p)" "wk_batch (pl_workers p ! w) = (j, u) # rest"
      "\<not> (timely \<and> u < clock (pl_queue p))" "wk_started (pl_workers p ! w) = None"
    using assms by (auto simp: start_step_def Let_def split: if_splits list.splits)
  show thesis
  proof (cases "jb_type j \<in> set (je_handlers env) \<and> (\<exists>j'. bindJobTenant env j = Inr j')")
    case True
    then obtain j' where j': "bindJobTenant env j = Inr j'" by blast
    then show thesis
      using w True assms bindJobTenant_same [OF j'] by (intro runs [OF w(1-3), of j']) (auto simp: start_step_def Let_def)
  next
    case False
    then show thesis
      using w assms by (auto simp: start_step_def Let_def split: if_splits sum.splits intro: refused [OF w(1-3)])
  qed
qed

lemma finish_stepE:
  assumes "finish_step env timely w out p = Some p'"
  obtains j u rest t where "w < length (pl_workers p)" "wk_batch (pl_workers p ! w) = (j, u) # rest"
    "\<not> (timely \<and> u < clock (pl_queue p))"
    "p' = set_worker w ((pl_workers p ! w)\<lparr>wk_batch := rest, wk_started := None\<rparr>)
         (p\<lparr>pl_queue := finishJob env j (timed env j t (clock (pl_queue p)) out) (pl_queue p)\<rparr>)"
  using assms by (auto simp: finish_step_def Let_def split: if_splits list.splits option.splits)

lemma plant_ok_step [inv_intros]:
  assumes "job_step env timely e p = Some p'" "plant_ok env p"
  shows "plant_ok env p'"
proof -
  note queue = assms(2) [unfolded plant_ok_alt, THEN conjunct1]
  note batch = batch_ok_worker [OF assms(2)]
  have frame: "plant_ok env (p\<lparr>pl_queue := q\<rparr>)" if "queue_ok env q" for q
    using that assms(2) by (simp add: plant_ok_alt)
  have tick: "queue_ok env (pl_queue p\<lparr>jq_t := t\<rparr>)" for t using queue by simp
  show ?thesis
  proof (cases e)
    case (Claim w)
    with assms(1) show ?thesis
      by (auto simp: claim_step_def Let_def split: if_splits prod.splits
          intro!: plant_ok_set_worker [OF assms(2)] queue_ok_claim [OF _ queue] claimed_batch_ok [OF _ queue])
  next
    case (Start w)
    have "start_step env timely w p = Some p'" using assms(1) Start by simp
    then show ?thesis
    proof (cases rule: start_stepE)
      case (refused j u rest msg)
      with batch [of w] show ?thesis
        by (auto simp: batch_ok_Cons intro!: plant_ok_set_worker [OF assms(2)] queue_ok_finish [OF queue])
    next
      case (runs j u rest j')
      with batch [of w] plant_ok_set_worker [OF assms(2) queue, of "(pl_workers p ! w)\<lparr>wk_batch := (j', u) # rest, wk_started := Some (clock (pl_queue p))\<rparr>" w]
      show ?thesis by (simp add: batch_ok_Cons plant_ok_alt set_worker_def)
    qed
  next
    case (Finish w out)
    from finish_stepE [OF assms(1) [unfolded Finish job_step.simps]] obtain j u rest t where
      "w < length (pl_workers p)" "wk_batch (pl_workers p ! w) = (j, u) # rest"
      "p' = set_worker w ((pl_workers p ! w)\<lparr>wk_batch := rest, wk_started := None\<rparr>)
         (p\<lparr>pl_queue := finishJob env j (timed env j t (clock (pl_queue p)) out) (pl_queue p)\<rparr>)" .
    with batch [of w] show ?thesis
      by (auto simp: batch_ok_Cons intro!: plant_ok_set_worker [OF assms(2)] queue_ok_finish [OF queue])
  next
    case (Crash w)
    with assms(1) plant_ok_set_worker [OF assms(2) queue, of "(pl_workers p ! w)\<lparr>wk_batch := [], wk_started := None\<rparr>" w]
    show ?thesis by (auto simp: batch_ok_def split: if_splits)
  qed (use assms(1) queue tick in \<open>auto simp: with_queue_def split: sum.splits if_splits
        intro!: frame intro: inv_intros\<close>)
qed

lemma plant_ok_history: "job_history env timely es p = Some p' \<Longrightarrow> plant_ok env p \<Longrightarrow> plant_ok env p'"
  by (induction es arbitrary: p) (auto split: option.splits dest: plant_ok_step)

lemma plant_ok_idle: "queue_ok env q \<Longrightarrow> plant_ok env (idle_plant q names)"
  by (auto simp: plant_ok_alt idle_plant_def batch_ok_def)

section \<open>Leases\<close>

definition leased_ids :: "(job \<times> int) list \<Rightarrow> (string \<times> int) set" where
  "leased_ids b = (\<lambda>(j, u). (jb_id j, u)) ` set b"

lemma leased_ids_simps [simp]:
  "leased_ids [] = {}" "leased_ids ((j, u) # b) = insert (jb_id j, u) (leased_ids b)"
  by (simp_all add: leased_ids_def)

definition leases :: "plant \<Rightarrow> (nat \<times> string \<times> int) set" where
  "leases p = {(w, i, u). w < length (pl_workers p) \<and> (i, u) \<in> leased_ids (wk_batch (pl_workers p ! w))
     \<and> clock (pl_queue p) \<le> u}"

definition row_held :: "job option \<Rightarrow> int \<Rightarrow> bool" where
  "row_held r u \<longleftrightarrow> (case r of None \<Rightarrow> True
     | Some r \<Rightarrow> jb_status r = ''Cancelled'' \<or> jb_status r = ''Leased'' \<and> jb_leased_until r = Some u)"

definition exclusive :: "plant \<Rightarrow> bool" where
  "exclusive p \<longleftrightarrow> (\<forall>(w, i, u) \<in> leases p. row_held (find_job i (pl_queue p)) u)
     \<and> (\<forall>(w, i, u) \<in> leases p. \<forall>(w', i', u') \<in> leases p. i = i' \<longrightarrow> w = w')"

lemma exclusiveD:
  "exclusive p \<Longrightarrow> (w, i, u) \<in> leases p \<Longrightarrow> row_held (find_job i (pl_queue p)) u"
  "exclusive p \<Longrightarrow> (w, i, u) \<in> leases p \<Longrightarrow> (w', i, u') \<in> leases p \<Longrightarrow> w = w'"
  by (auto simp: exclusive_def)

lemma holds_leases: "holds p w i \<longleftrightarrow> (\<exists>u. (w, i, u) \<in> leases p)"
  unfolding holds_def leases_def list_ex_iff leased_ids_def by (auto split: prod.splits) force

text \<open>Dropping leases, and keeping the rows of those that stay, keeps exclusion.\<close>

lemma exclusive_mono:
  assumes "exclusive p" "leases p' \<subseteq> leases p"
    and "\<And>w i u. (w, i, u) \<in> leases p' \<Longrightarrow> row_held (find_job i (pl_queue p)) u \<Longrightarrow> row_held (find_job i (pl_queue p')) u"
  shows "exclusive p'"
  using assms unfolding exclusive_def by (auto, blast+)

lemma exclusive_queue:
  assumes "exclusive p" "clock q = clock (pl_queue p)"
    and "\<And>i u. (\<exists>w. (w, i, u) \<in> leases p) \<Longrightarrow> row_held (find_job i (pl_queue p)) u \<Longrightarrow> row_held (find_job i q) u"
  shows "exclusive (p\<lparr>pl_queue := q\<rparr>)"
proof (rule exclusive_mono [OF assms(1)])
  show "leases (p\<lparr>pl_queue := q\<rparr>) \<subseteq> leases p" using assms(2) by (simp add: leases_def)
  then show "row_held (find_job i (pl_queue (p\<lparr>pl_queue := q\<rparr>))) u"
    if "(w, i, u) \<in> leases (p\<lparr>pl_queue := q\<rparr>)" "row_held (find_job i (pl_queue p)) u" for w i u
    using that assms(3) by auto
qed

lemma row_held_update:
  assumes "\<And>r. jb_id (f r) = jb_id r"
    and "\<And>r. p r \<Longrightarrow> jb_status r = ''Cancelled'' \<or> jb_status r = ''Leased'' \<Longrightarrow>
       jb_status (f r) = ''Cancelled'' \<or> jb_status (f r) = jb_status r \<and> jb_leased_until (f r) = jb_leased_until r"
  shows "row_held (find_job i q) u \<Longrightarrow> row_held (find_job i (update_jobs p f q)) u"
  using assms(2) [of "the (find_job i q)"]
  by (cases "find_job i q") (auto simp: find_update_jobs [OF assms(1)] row_held_def)

text \<open>A worker that lets go of the first job of its batch, having reported it.\<close>

lemma exclusive_let_go:
  assumes "exclusive p" "plant_ok env p" "w < length (pl_workers p)" "wk_batch (pl_workers p ! w) = (j, u) # rest"
    and "clock (pl_queue p) \<le> u" "wk_batch k = rest"
  shows "exclusive (set_worker w k (p\<lparr>pl_queue := finishJob env j out (pl_queue p)\<rparr>))" (is "exclusive ?p'")
proof -
  have ok: "0 \<le> jb_attempts j" "jb_attempts j < 5" "jb_max j = 5" and fresh: "jb_id j \<notin> (jb_id \<circ> fst) ` set rest"
    using batch_ok_worker [OF assms(2,3)] assms(4) by (auto simp: batch_ok_Cons)
  note find = find_finish [OF ok]
  have sub: "leases ?p' \<subseteq> leases p"
    using assms(3,4,6) by (auto simp: leases_def set_worker_def find(3) nth_list_update split: if_splits)
  have mine: "(w, jb_id j, u) \<in> leases p" using assms(3-5) by (auto simp: leases_def)
  have gone: "i \<noteq> jb_id j" if "(w', i, u') \<in> leases ?p'" for w' i u'
  proof
    assume i: "i = jb_id j"
    then have "w' = w" using exclusiveD(2) [OF assms(1) mine] that sub by blast
    with that i assms(3,6) fresh show False by (force simp: leases_def set_worker_def leased_ids_def)
  qed
  show ?thesis
  proof (rule exclusive_mono [OF assms(1) sub])
    show "row_held (find_job i (pl_queue ?p')) u'" if "(w', i, u') \<in> leases ?p'" "row_held (find_job i (pl_queue p)) u'" for w' i u'
      using that(2) find(1) [OF gone [OF that(1)]] by (simp add: set_worker_def)
  qed
qed

lemma exclusive_claim:
  assumes "exclusive p" "plant_ok env p" "w < length (pl_workers p)" "wk_batch (pl_workers p ! w) = []"
    and "claimJobs env name n (pl_queue p) = (js, q')"
    and "wk_batch k = map (\<lambda>j. (j, clock (pl_queue p) + lease_of env j)) js"
  shows "exclusive (set_worker w k (p\<lparr>pl_queue := q'\<rparr>))" (is "exclusive ?p'")
proof -
  let ?q = "pl_queue p"
  have q: "queue_ok env ?q" using assms(2) by (simp add: plant_ok_alt)
  note rows = claimed_rows [OF assms(5) q]
  have d: "distinct (map jb_id (jq_jobs ?q))" using q by (simp add: queue_ok_def)
  have now: "clock q' = clock ?q" unfolding rows(3) by simp
  have free: "i \<notin> jb_id ` set js" if "(w', i, u) \<in> leases p" for w' i u
  proof
    assume "i \<in> jb_id ` set js"
    then obtain r where r: "r \<in> set js" "jb_id r = i" by blast
    then have "r \<in> set (jq_jobs ?q)" "claimable (clock ?q) r" using rows(1) by auto
    moreover from this have "find_job i ?q = Some r" using find_job_unique [OF d] r by blast
    ultimately show False
      using exclusiveD(1) [OF assms(1) that] that by (auto simp: row_held_def claimable_def leases_def)
  qed
  have find: "find_job i q' = map_option (\<lambda>r. if jb_id r \<in> jb_id ` set js then lease_job env name (clock ?q) r else r) (find_job i ?q)" for i
    unfolding rows(3) by (rule find_update_jobs) (simp add: lease_job_def)
  have new: "leases ?p' \<subseteq> leases p \<union> {(w, jb_id j, clock ?q + lease_of env j) | j. j \<in> set js}"
    using assms(3,4,6) by (auto simp: leases_def set_worker_def now nth_list_update leased_ids_def split: if_splits)
  have old: "row_held (find_job i q') u" if "(w', i, u) \<in> leases p" for w' i u
    using exclusiveD(1) [OF assms(1) that] free [OF that] by (auto simp: find row_held_def dest: find_job_id split: option.splits)
  have mine: "row_held (find_job (jb_id j) q') (clock ?q + lease_of env j)" if "j \<in> set js" for j
    using that subsetD [OF rows(1) that] find_job_unique [OF d, of j] by (simp add: find row_held_def lease_job_def)
  have held: "row_held (find_job i (pl_queue ?p')) u" if "(w', i, u) \<in> leases ?p'" for w' i u
    using new that old mine by (fastforce simp: set_worker_def)
  have one: "w1 = w2" if "(w1, i, u1) \<in> leases ?p'" "(w2, i, u2) \<in> leases ?p'" for w1 w2 i u1 u2
    using subsetD [OF new that(1)] subsetD [OF new that(2)] exclusiveD(2) [OF assms(1), of w1 i u1 w2 u2]
    by (auto dest: free)
  show ?thesis unfolding exclusive_def using held one by fast
qed

lemma find_enqueued:
  "find_job i (q\<lparr>jq_jobs := jq_jobs q @ [r]\<rparr>) =
     (case find_job i q of Some x \<Rightarrow> Some x | None \<Rightarrow> if jb_id r = i then Some r else None)"
  by (simp add: find_job_def find_append split: option.splits)

lemma sweep_find:
  assumes "distinct (map jb_id (jq_jobs q))"
  shows "find_job i (SweepJobRunnerRetention q) \<in> {None, find_job i q}" "clock (SweepJobRunnerRetention q) = clock q"
proof -
  obtain p where p: "SweepJobRunnerRetention q = q\<lparr>jq_jobs := retentionDelete (jq_hold q) p (jq_jobs q)\<rparr>"
    by (rule sweep_jobs)
  then show "clock (SweepJobRunnerRetention q) = clock q" by simp
  show "find_job i (SweepJobRunnerRetention q) \<in> {None, find_job i q}"
    using find_job_mem [of i "SweepJobRunnerRetention q"] find_job_id [of i "SweepJobRunnerRetention q"]
      subsetD [OF retentionDelete_keeps(1) [of "jq_hold q" p "jq_jobs q"]] find_job_unique [OF assms]
    by (cases "find_job i (SweepJobRunnerRetention q)") (auto simp: p)
qed

lemma held_by_some_iff: "held_by_some p i \<longleftrightarrow> (\<exists>w u. (w, i, u) \<in> leases p)"
  by (auto simp: held_by_some_def list_ex_iff holds_leases leases_def)

lemma exclusive_step:
  assumes "job_step env True e p = Some p'" "plant_ok env p" "exclusive p"
  shows "exclusive p'"
proof (cases e)
  case (Enqueue jobType body key corr actor i)
  then obtain i' q' where q': "enqueueJobWith env jobType body key (SafeCorrelationID corr) actor i (pl_queue p) = Inr (i', q')"
    "p' = p\<lparr>pl_queue := q'\<rparr>" "\<not> held_by_some p i"
    using assms(1) by (auto simp: with_queue_def split: if_splits sum.splits)
  from q'(1) show ?thesis
  proof (cases rule: enqueue_cases)
    case (known r)
    with q' assms(3) show ?thesis by simp
  next
    case (queued b actor')
    with q'(3) show ?thesis
      unfolding q'(2) held_by_some_iff
      by (intro exclusive_queue [OF assms(3)]) (auto simp: find_enqueued row_held_def new_job_def split: option.splits)
  qed
next
  case (Claim w)
  with assms(1) show ?thesis
    by (auto simp: claim_step_def Let_def split: if_splits prod.splits intro!: exclusive_claim [OF assms(3,2)])
next
  case (Start w)
  have "start_step env True w p = Some p'" using assms(1) Start by simp
  then show ?thesis
  proof (cases rule: start_stepE)
    case (refused j u rest msg)
    then show ?thesis by (auto intro!: exclusive_let_go [OF assms(3,2)])
  next
    case (runs j u rest j')
    have "leases p' \<subseteq> leases p"
      using runs by (auto simp: leases_def set_worker_def nth_list_update split: if_splits) 
    then show ?thesis using runs by (intro exclusive_mono [OF assms(3)]) (auto simp: set_worker_def)
  qed
next
  case (Finish w out)
  have "finish_step env True w out p = Some p'" using assms(1) Finish by simp
  then show ?thesis by (cases rule: finish_stepE) (auto intro!: exclusive_let_go [OF assms(3,2)])
next
  case (Crash w)
  then have "leases p' \<subseteq> leases p" "pl_queue p' = pl_queue p"
    using assms(1) by (auto simp: leases_def set_worker_def nth_list_update split: if_splits)
  then show ?thesis by (auto intro: exclusive_mono [OF assms(3)])
next
  case (Tick d)
  then have "leases p' \<subseteq> leases p" "jq_jobs (pl_queue p') = jq_jobs (pl_queue p)"
    using assms(1) by (auto simp: leases_def split: if_splits)
  then show ?thesis by (intro exclusive_mono [OF assms(3)]) (auto simp: find_job_def)
next
  case (Cancel i)
  then show ?thesis using assms(1)
    by (auto simp: with_queue_def CancelJob_def update_one_cases split: sum.splits
        intro!: exclusive_queue [OF assms(3)] row_held_update)
next
  case (Replay i)
  then obtain q' where q': "ReplayJob i (pl_queue p) = Inr q'" "p' = p\<lparr>pl_queue := q'\<rparr>" "\<not> held_by_some p i"
    using assms(1) by (auto simp: with_queue_def split: if_splits sum.splits)
  have "find_job x q' = find_job x (pl_queue p)" if "x \<noteq> i" for x
    using q'(1) that by (auto simp: ReplayJob_def update_one_cases find_update_jobs dest: find_job_id intro!: option.map_ident_strong)
  moreover have "clock q' = clock (pl_queue p)" using q'(1) by (auto simp: ReplayJob_def update_one_cases)
  ultimately show ?thesis
    using q'(3) unfolding q'(2) held_by_some_iff by (intro exclusive_queue [OF assms(3)]) metis+
next
  case (Progress i pct)
  then show ?thesis using assms(1)
    by (auto simp: UpdateJobProgress_def Let_def intro!: exclusive_queue [OF assms(3)] row_held_update)
next
  case Quarantine
  then show ?thesis using assms(1)
    by (auto simp: quarantineStaleExternalDispatchJobsInSchema_def intro!: exclusive_queue [OF assms(3)] row_held_update)
next
  case Sweep
  have d: "distinct (map jb_id (jq_jobs (pl_queue p)))" using assms(2) by (simp add: plant_ok_alt queue_ok_def)
  have "row_held (find_job i (SweepJobRunnerRetention (pl_queue p))) u" if "row_held (find_job i (pl_queue p)) u" for i u
    using sweep_find(1) [OF d, of i] that by (auto simp: row_held_def)
  then show ?thesis using assms(1) Sweep sweep_find(2) [OF d] by (auto intro!: exclusive_queue [OF assms(3)])
qed

lemma exclusive_history:
  assumes "job_history env True es p = Some p'" "plant_ok env p" "exclusive p"
  shows "plant_ok env p' \<and> exclusive p'"
  using assms by (induction es arbitrary: p) (auto split: option.splits dest: plant_ok_step exclusive_step)

lemma exclusive_idle: "exclusive (idle_plant q names)"
proof -
  have "leases (idle_plant q names) = {}" by (auto simp: leases_def idle_plant_def)
  then show ?thesis by (simp add: exclusive_def)
qed

lemma held_not_claimed:
  assumes "exclusive p" "plant_ok env p" "(w, i, u) \<in> leases p"
  shows "i \<notin> jb_id ` set (fst (claimJobs env name n (pl_queue p)))"
proof
  obtain js q' where js: "claimJobs env name n (pl_queue p) = (js, q')" by fastforce
  have q: "queue_ok env (pl_queue p)" using assms(2) by (simp add: plant_ok_alt)
  then have d: "distinct (map jb_id (jq_jobs (pl_queue p)))" by (simp add: queue_ok_def)
  assume "i \<in> jb_id ` set (fst (claimJobs env name n (pl_queue p)))"
  with js obtain r where r: "r \<in> set js" "jb_id r = i" by auto
  then have "r \<in> set (jq_jobs (pl_queue p))" "claimable (clock (pl_queue p)) r" using claimed_rows(1) [OF js q] by auto
  moreover from this have "find_job i (pl_queue p) = Some r" using find_job_unique [OF d] r by blast
  ultimately show False
    using exclusiveD(1) [OF assms(1,3)] assms(3) by (auto simp: row_held_def claimable_def leases_def)
qed

section \<open>A job that succeeded\<close>

definition same_job :: "job \<Rightarrow> job option \<Rightarrow> bool" where
  "same_job r o' \<longleftrightarrow> (\<exists>n. o' = Some (r\<lparr>jb_progress := n\<rparr>))"

lemma same_jobI [intro, simp]: "same_job r (Some r)" "same_job r (Some (r\<lparr>jb_progress := n\<rparr>))"
  by (auto simp: same_job_def intro: exI [of _ "jb_progress r"])

lemma succeeded_step:
  assumes "job_step env timely e p = Some p'" "plant_ok env p" "e \<noteq> Sweep"
    and "find_job i (pl_queue p) = Some r" "jb_status r = ''Succeeded''"
  shows "same_job r (find_job i (pl_queue p'))"
proof -
  have d: "distinct (map jb_id (jq_jobs (pl_queue p)))" and q: "queue_ok env (pl_queue p)"
    using assms(2) by (simp_all add: plant_ok_alt queue_ok_def)
  have id: "jb_id r = i" by (rule find_job_id [OF assms(4)])
  have keep: "find_job i (update_jobs P f (pl_queue p)) = Some r" if "\<And>r. jb_id (f r) = jb_id r" "\<not> P r" for P f
    using that assms(4) by (simp add: find_update_jobs)
  have fin: "find_job i (finishJob env j out (pl_queue p)) = Some r"
    if "w < length (pl_workers p)" "wk_batch (pl_workers p ! w) = (j, u) # rest" for j out w u rest
    using batch_ok_worker [OF assms(2) that(1)] that(2) assms(4,5) by (intro find_finish(2)) (auto simp: batch_ok_Cons)
  show ?thesis
  proof (cases e)
    case (Enqueue jobType body key corr actor j)
    then obtain i' q' where q': "enqueueJobWith env jobType body key (SafeCorrelationID corr) actor j (pl_queue p) = Inr (i', q')"
      "pl_queue p' = q'"
      using assms(1) by (auto simp: with_queue_def split: if_splits sum.splits)
    from q'(1) have "find_job i q' = Some r"
      by (cases rule: enqueue_cases) (use assms(4) in \<open>auto simp: find_enqueued\<close>)
    then show ?thesis by (simp add: q'(2))
  next
    case (Claim w)
    obtain js q' where js: "claimJobs env (wk_name (pl_workers p ! w)) jobClaimBatchSize (pl_queue p) = (js, q')" by fastforce
    note rows = claimed_rows [OF js q]
    have "i \<notin> jb_id ` set js"
    proof
      assume "i \<in> jb_id ` set js"
      then have "r \<in> set js" using rows(4) [OF find_job_mem [OF assms(4)]] id by simp
      then show False using rows(1) assms(5) by (auto simp: claimable_def)
    qed
    then have "find_job i q' = Some r" unfolding rows(3) using id by (intro keep) (auto simp: lease_job_def)
    then show ?thesis
      using Claim assms(1) js by (auto simp: claim_step_def Let_def set_worker_def split: if_splits)
  next
    case (Start w)
    have "start_step env timely w p = Some p'" using assms(1) Start by simp
    then show ?thesis
      by (cases rule: start_stepE) (use assms(4) in \<open>auto simp: set_worker_def fin\<close>)
  next
    case (Finish w out)
    have "finish_step env timely w out p = Some p'" using assms(1) Finish by simp
    then show ?thesis by (cases rule: finish_stepE) (auto simp: set_worker_def fin)
  next
    case (Progress j pct)
    then show ?thesis
      using assms(1,4) by (auto simp: UpdateJobProgress_def Let_def find_update_jobs)
  qed (use assms(1,3,4,5) keep in \<open>auto simp: with_queue_def CancelJob_def ReplayJob_def update_one_cases set_worker_def
        quarantineStaleExternalDispatchJobsInSchema_def find_job_def split: sum.splits if_splits\<close>)
qed

lemma succeeded_history:
  assumes "job_history env timely es p = Some p'" "plant_ok env p" "Sweep \<notin> set es"
    and "find_job i (pl_queue p) = Some r" "jb_status r = ''Succeeded''"
  shows "same_job r (find_job i (pl_queue p'))"
  using assms
proof (induction es arbitrary: p r)
  case Nil
  then show ?case by simp
next
  case (Cons e es)
  then obtain p1 where p1: "job_step env timely e p = Some p1" "job_history env timely es p1 = Some p'"
    by (auto split: option.splits)
  obtain n where n: "find_job i (pl_queue p1) = Some (r\<lparr>jb_progress := n\<rparr>)"
    using succeeded_step [OF p1(1) Cons.prems(2) _ Cons.prems(4,5)] Cons.prems(3) by (auto simp: same_job_def)
  from Cons.IH [OF p1(2) plant_ok_step [OF p1(1) Cons.prems(2)] _ n] Cons.prems(3,5) show ?case
    by (auto simp: same_job_def)
qed

lemma enqueue_known:
  assumes "queue_ok env q" "find_job i q = Some r" "jb_key r \<noteq> []"
    and "enqueueJobWith env (jb_type r) body (jb_key r) corr actor i' q = Inr (i'', q')"
  shows "i'' = i \<and> q' = q"
  using assms(4)
proof (cases rule: enqueue_cases)
  case (known x)
  have "inj_on (\<lambda>r. (jb_type r, jb_key r)) (set (filter (\<lambda>r. jb_key r \<noteq> []) (jq_jobs q)))"
    using assms(1) by (simp add: queue_ok_def distinct_map)
  then have "x = r" using known find_job_mem [OF assms(2)] assms(3) by (auto dest: inj_onD)
  with known find_job_id [OF assms(2)] show ?thesis by simp
next
  case (queued b actor')
  then show ?thesis using find_job_mem [OF assms(2)] assms(3) by blast
qed

section \<open>The claims\<close>

text \<open>
  C24: whatever is queued, claimed, run, reported, cancelled, replayed, quarantined and swept
  by however many workers, late ones and crashed ones included, every row of the queue stays
  well formed: its type has a handler, its status is one of six, it has failed fewer than five
  times unless it is dead-lettered and then exactly five, its result, lease and completion
  time are there when its status says so, no two rows share an id or a key, and no payload
  holds a secret or more than 64 KiB.
\<close>
theorem jobs_well_formed:
  assumes "job_history env timely es (idle_plant q names) = Some p" "queue_ok env q"
  shows "queue_ok env (pl_queue p)"
  using plant_ok_history [OF assms(1) plant_ok_idle [OF assms(2)]] by (simp add: plant_ok_alt)

text \<open>
  C10: as long as workers do nothing more for a job whose lease has run out, and no one
  replays a job its worker still holds, two workers never hold the same job, whatever else
  happens and whoever crashes; and no claim hands out a job that a worker holds.
\<close>
theorem one_worker_per_job:
  assumes "job_history env True es (idle_plant q names) = Some p" "queue_ok env q"
    and "holds p w i"
  shows "(\<forall>w'. holds p w' i \<longleftrightarrow> w' = w) \<and> i \<notin> jb_id ` set (fst (claimJobs env name n (pl_queue p)))"
proof -
  have inv: "plant_ok env p" "exclusive p"
    using exclusive_history [OF assms(1) plant_ok_idle [OF assms(2)] exclusive_idle] by auto
  obtain u where u: "(w, i, u) \<in> leases p" using assms(3) by (auto simp: holds_leases)
  show ?thesis
    using exclusiveD(2) [OF inv(2) u] held_not_claimed [OF inv(2,1) u] assms(3) by (auto simp: holds_leases)
qed


text \<open>Two deliveries queued, two workers.\<close>

definition shop_env :: job_env where
  "shop_env = \<lparr>je_handlers = [''webhook_delivery''], je_runtimes = [], je_schema = ''tenant_shop'', je_tenant = Some ''shop'',
     je_schema_of = (\<lambda>t. if t = ''shop'' then Some ''tenant_shop'' else None)\<rparr>"

definition no_jobs :: job_queue where
  "no_jobs = \<lparr>jq_t = empty_tenant, jq_jobs = [], jq_hold = False\<rparr>"

definition two_deliveries :: "job_event list" where
  "two_deliveries = [Enqueue ''webhook_delivery'' [] ''E1-S1'' [] [] ''A'', Enqueue ''webhook_delivery'' [] ''E1-S2'' [] [] ''B'', Claim 0, Start 0]"

definition shop_plant :: plant where
  "shop_plant = idle_plant no_jobs [''pid-1'', ''pid-2'']"


theorem jobs_well_formed_witness:
  "queue_ok shop_env (pl_queue (the (job_history shop_env False (two_deliveries @ [Finish 0 (Erred ''HTTP 500''), Cancel ''B'']) shop_plant)))"
proof -
  have "queue_ok shop_env no_jobs" by (simp add: queue_ok_def no_jobs_def)
  moreover have "job_history shop_env False (two_deliveries @ [Finish 0 (Erred ''HTTP 500''), Cancel ''B'']) shop_plant \<noteq> None"
    by code_simp
  ultimately show ?thesis
    unfolding shop_plant_def by (intro jobs_well_formed) auto
qed

theorem one_worker_per_job_witness:
  "holds (the (job_history shop_env True two_deliveries shop_plant)) 0 ''A''
   \<and> \<not> holds (the (job_history shop_env True two_deliveries shop_plant)) 1 ''A''"
proof -
  have q: "queue_ok shop_env no_jobs" by (simp add: queue_ok_def no_jobs_def)
  have h: "job_history shop_env True two_deliveries shop_plant \<noteq> None"
    "holds (the (job_history shop_env True two_deliveries shop_plant)) 0 ''A''" by code_simp+
  from h(1) have "job_history shop_env True two_deliveries (idle_plant no_jobs [''pid-1'', ''pid-2''])
      = Some (the (job_history shop_env True two_deliveries shop_plant))"
    unfolding shop_plant_def by simp
  from one_worker_per_job [OF this q h(2)] show ?thesis by simp
qed


end
