(* ===== verification/Outbox.thy ===== *)
theory Outbox
  imports Jobs
begin

text \<open>
  The integration outbox (engines/outbox.go, webhook.go, integration_log_retention.go): an
  event is published in the transaction of what it reports, the outbox worker hands it to the
  webhook subscriptions as delivery jobs, writes the event log and settles the event.

  \<open>bus\<close> is the job queue (with the tenant, whose documents hold the subscriptions), the rows of
  integration_event_outbox and of integration_event_log. Arguments: the ids minted for jobs,
  which inserts into the event log the database refuses, and for a delivery the checks of an
  address, the switches for outside calls and the HTTP call itself.
\<close>

section \<open>State\<close>

record outbox_event =
  ob_id :: string
  ob_event :: string
  ob_payload :: payload
  ob_status :: string
  ob_attempts :: int
  ob_corr :: string
  ob_created :: int

record event_log =
  el_event :: string
  el_channel :: string
  el_status :: string
  el_created :: int

record bus =
  bs_queue :: job_queue
  bs_outbox :: "outbox_event list"
  bs_log :: "event_log list"

text \<open>
  A database transaction: after a statement that fails, the statements that follow fail too
  and the commit rolls back.
\<close>

type_synonym 's tx = "'s option"

definition tx_exec :: "('s \<Rightarrow> 's option) \<Rightarrow> 's tx \<Rightarrow> bool \<times> 's tx" where
  "tx_exec f x = (case x of None \<Rightarrow> (False, None) | Some s \<Rightarrow> (case f s of None \<Rightarrow> (False, None) | Some s' \<Rightarrow> (True, Some s')))"

definition tx_commit :: "'s \<Rightarrow> 's tx \<Rightarrow> 's" where
  "tx_commit s x = coalesce x s"

section \<open>Publishing\<close>

definition PublishEventContext :: "string \<Rightarrow> string \<Rightarrow> payload \<Rightarrow> string \<Rightarrow> bus \<Rightarrow> bus res" where
  "PublishEventContext i eventName body corr s =
     (if length eventName > 100 then Inl (Plain ''value too long for type character varying(100)'')
      else Inr (s\<lparr>bs_outbox := bs_outbox s @ [\<lparr>ob_id = i, ob_event = eventName, ob_payload = body, ob_status = ''Pending'',
        ob_attempts = 0, ob_corr = SafeCorrelationID corr, ob_created = clock (bs_queue s)\<rparr>]\<rparr>))"

section \<open>Webhooks\<close>

definition has_prefix :: "string \<Rightarrow> string \<Rightarrow> bool" where
  "has_prefix s p \<longleftrightarrow> take (length p) s = p"

definition matchEventPattern :: "string \<Rightarrow> string \<Rightarrow> bool" where
  "matchEventPattern pat eventName \<longleftrightarrow>
     pat = eventName \<or> pat \<noteq> [] \<and> last pat = CHR ''*'' \<and> has_prefix eventName (butlast pat)"

definition is_subscription :: "document \<Rightarrow> bool" where
  "is_subscription d \<longleftrightarrow> d_doctype d = ''WebhookSubscription'' \<and> d_status d = ''Active'' \<and> \<not> d_deleted d"

definition sub_text :: "document \<Rightarrow> string \<Rightarrow> string" where
  "sub_text d k = coalesce (jtext (d_data d) k) []"

definition delivery_key :: "string \<Rightarrow> string \<Rightarrow> string" where
  "delivery_key event subscription = event @ ''-'' @ subscription"

definition delivery_payload :: "document \<Rightarrow> string \<Rightarrow> payload \<Rightarrow> payload" where
  "delivery_payload d eventName body = [(''url'', JStr (sub_text d ''url'')), (''subscription_id'', JStr (d_id d)),
     (''event_name'', JStr eventName), (''event_payload'', JObj body)]"

definition enqueue_delivery ::
  "job_env \<Rightarrow> (job_queue \<Rightarrow> string) \<Rightarrow> outbox_event \<Rightarrow> document \<Rightarrow> job_queue \<Rightarrow> job_queue" where
  "enqueue_delivery env mint ev d q =
     (case enqueueJobWith env webhookDeliveryJobType (delivery_payload d (ob_event ev) (ob_payload ev))
             (delivery_key (ob_id ev) (d_id d)) (ob_corr ev) (jobActorFor ''system:outbox'' [] []) (mint q) q of
        Inl _ \<Rightarrow> q | Inr (_, q') \<Rightarrow> q')"

definition dispatchWebhooksForEvent ::
  "job_env \<Rightarrow> (job_queue \<Rightarrow> string) \<Rightarrow> outbox_event \<Rightarrow> job_queue \<Rightarrow> job_queue" where
  "dispatchWebhooksForEvent env mint ev q =
     foldl (\<lambda>q d. enqueue_delivery env mint ev d q) q
       (filter (\<lambda>d. is_subscription d \<and> matchEventPattern (sub_text d ''event_pattern'') (ob_event ev)) (t_documents (jq_t q)))"

section \<open>The outbox worker\<close>

definition due_event :: "outbox_event \<Rightarrow> bool" where
  "due_event e \<longleftrightarrow> ob_status e \<in> {''Pending'', ''Failed''} \<and> ob_attempts e < 5"

definition due_batch :: "outbox_event list \<Rightarrow> outbox_event list" where
  "due_batch es = take 10 (sort_key ob_created (filter due_event es))"

definition settle_event :: "(string \<Rightarrow> bool) \<Rightarrow> outbox_event \<Rightarrow> bus \<Rightarrow> bus" where
  "settle_event logFails ev s =
     (case tx_exec (\<lambda>s. if logFails (ob_id ev) then None
              else Some (s\<lparr>bs_log := bs_log s @ [\<lparr>el_event = ob_id ev, el_channel = ''WMS'', el_status = ''Success'',
                     el_created = clock (bs_queue s)\<rparr>]\<rparr>)) (Some s) of
        (logged, x1) \<Rightarrow>
          let status = (if logged then ''Dispatched'' else ''Failed'') in
          case tx_exec (\<lambda>s. Some (s\<lparr>bs_outbox := map (\<lambda>e. if ob_id e = ob_id ev
                   then e\<lparr>ob_status := status, ob_attempts := ob_attempts ev + 1\<rparr> else e) (bs_outbox s)\<rparr>)) x1 of
            (_, x2) \<Rightarrow> tx_commit s x2)"

definition dispatch_event :: "job_env \<Rightarrow> (job_queue \<Rightarrow> string) \<Rightarrow> (string \<Rightarrow> bool) \<Rightarrow> bus \<Rightarrow> outbox_event \<Rightarrow> bus" where
  "dispatch_event env mint logFails s ev =
     settle_event logFails ev (s\<lparr>bs_queue := dispatchWebhooksForEvent env mint ev (bs_queue s)\<rparr>)"

definition processOutbox :: "job_env \<Rightarrow> (job_queue \<Rightarrow> string) \<Rightarrow> (string \<Rightarrow> bool) \<Rightarrow> bus \<Rightarrow> bus" where
  "processOutbox env mint logFails s = foldl (dispatch_event env mint logFails) s (due_batch (bs_outbox s))"

definition RetryIntegrationEvent :: "string \<Rightarrow> bus \<Rightarrow> bus res" where
  "RetryIntegrationEvent i s =
     (if list_ex (\<lambda>e. ob_id e = i) (bs_outbox s)
      then Inr (s\<lparr>bs_outbox := map (\<lambda>e. if ob_id e = i then e\<lparr>ob_status := ''Pending'', ob_attempts := 0\<rparr> else e) (bs_outbox s)\<rparr>)
      else Inl (Plain ''integration outbox event not found''))"

definition GetIntegrationLogs :: "bus \<Rightarrow> outbox_event list" where
  "GetIntegrationLogs s = take 50 (sort_key (\<lambda>e. - ob_created e) (bs_outbox s))"

definition SecurityLogMinRetentionDays :: int where
  "SecurityLogMinRetentionDays = 180"

text \<open>The outbox keeps its pending events; the event log also keeps the security logs' floor.\<close>

definition SweepIntegrationLogRetention :: "bus \<Rightarrow> bus" where
  "SweepIntegrationLogRetention s =
     (let days = GetSettingInt (jq_t (bs_queue s)) ''platform.integration_log_retention_days'';
          older = (\<lambda>d c. c < clock (bs_queue s) - d * 86400); held = jq_hold (bs_queue s)
      in if days \<le> 0 then s
         else s\<lparr>bs_outbox := retentionDelete held (\<lambda>e. older days (ob_created e) \<and> ob_status e \<noteq> ''Pending'') (bs_outbox s),
                bs_log := retentionDelete held (\<lambda>l. older days (el_created l) \<and> older SecurityLogMinRetentionDays (el_created l)) (bs_log s)\<rparr>)"

section \<open>Delivering\<close>

definition ValidateWebhookSubscriptionDocument :: "(string \<Rightarrow> unit res) \<Rightarrow> payload \<Rightarrow> unit res" where
  "ValidateWebhookSubscriptionDocument validateURL body =
     rbind (validateURL (jstr body ''url'')) (\<lambda>_.
     rbind (require (trim (jstr body ''secret'') \<noteq> []) (Plain ''a webhook subscription needs a signing secret'')) (\<lambda>_.
       require (trim (jstr body ''event_pattern'') \<noteq> []) (Plain ''a webhook subscription needs an event_pattern'')))"

record outside =
  ou_sandbox :: bool
  ou_allowed :: bool
  ou_reason :: string
  ou_url :: "string \<Rightarrow> unit res"
  ou_send :: "string \<Rightarrow> string \<Rightarrow> string \<Rightarrow> payload \<Rightarrow> string \<Rightarrow> outcome"

definition deliverWebhook :: "outside \<Rightarrow> tenant \<Rightarrow> job \<Rightarrow> outcome" where
  "deliverWebhook out t j =
     (let sid = jstr (jb_payload j) ''subscription_id'';
          sub = find (\<lambda>d. d_doctype d = ''WebhookSubscription'' \<and> d_id d = sid \<and> \<not> d_deleted d) (t_documents t);
          secret = (if sid = [] then jstr (jb_payload j) ''secret'' else case sub of None \<Rightarrow> [] | Some d \<Rightarrow> sub_text d ''secret'');
          simulated = (\<lambda>reason. Done [(''simulated'', JBool True), (''reason'', JStr reason)]);
          url = jstr (jb_payload j) ''url''
      in if sid \<noteq> [] \<and> (case sub of None \<Rightarrow> True | Some d \<Rightarrow> d_status d \<noteq> ''Active'')
         then Done [(''skipped'', JBool True), (''reason'', JStr ''subscription no longer active'')]
         else if ou_sandbox out then simulated ''sandbox tenant''
         else if \<not> ou_allowed out then simulated (ou_reason out)
         else case ou_url out url of
             Inl e \<Rightarrow> Erred (case e of Plain m \<Rightarrow> m | Coded c \<Rightarrow> c | _ \<Rightarrow> [])
           | Inr _ \<Rightarrow> ou_send out url secret (jstr (jb_payload j) ''event_name'') (fields_of (jget (jb_payload j) ''event_payload'')) (jb_id j))"

section \<open>Deliveries\<close>

definition deliveries :: "string \<Rightarrow> string \<Rightarrow> job_queue \<Rightarrow> job list" where
  "deliveries e d q = filter (\<lambda>r. jb_type r = webhookDeliveryJobType \<and> jb_key r = delivery_key e d) (jq_jobs q)"

lemma delivery_key_nonempty [simp]: "delivery_key e d \<noteq> []"
  by (simp add: delivery_key_def)

text \<open>A queue that only grew: the tenant is the same and the rows there were are untouched.\<close>

definition grown :: "job_env \<Rightarrow> job_queue \<Rightarrow> job_queue \<Rightarrow> bool" where
  "grown env q q' \<longleftrightarrow> jq_t q' = jq_t q \<and> jq_hold q' = jq_hold q \<and> take (length (jq_jobs q)) (jq_jobs q') = jq_jobs q \<and> (queue_ok env q \<longrightarrow> queue_ok env q')"

lemma grown_refl [simp]: "grown env q q"
  by (simp add: grown_def)

lemma grown_trans: "grown env q q1 \<Longrightarrow> grown env q1 q2 \<Longrightarrow> grown env q q2"
  unfolding grown_def by (metis append_take_drop_id append_eq_conv_conj append.assoc)

lemma enqueue_grown: "grown env q (enqueue_delivery env mint ev d q)"
proof (cases "enqueueJobWith env webhookDeliveryJobType (delivery_payload d (ob_event ev) (ob_payload ev))
             (delivery_key (ob_id ev) (d_id d)) (ob_corr ev) (jobActorFor ''system:outbox'' [] []) (mint q) q")
  case (Inl e)
  then show ?thesis by (simp add: enqueue_delivery_def)
next
  case (Inr x)
  then obtain i q' where e: "enqueueJobWith env webhookDeliveryJobType (delivery_payload d (ob_event ev) (ob_payload ev))
      (delivery_key (ob_id ev) (d_id d)) (ob_corr ev) (jobActorFor ''system:outbox'' [] []) (mint q) q = Inr (i, q')"
    by (cases x) auto
  then have "enqueue_delivery env mint ev d q = q'" by (simp add: enqueue_delivery_def)
  moreover from e have "jq_t q' = jq_t q \<and> jq_hold q' = jq_hold q \<and> take (length (jq_jobs q)) (jq_jobs q') = jq_jobs q"
    by (cases rule: enqueue_cases) auto
  ultimately show ?thesis using queue_ok_enqueue [OF e] by (simp add: grown_def)
qed

lemma foldl_enqueue_grown: "grown env q (foldl (\<lambda>q d. enqueue_delivery env mint ev d q) q ds)"
proof (induction ds arbitrary: q)
  case (Cons d ds)
  then show ?case using grown_trans [OF enqueue_grown Cons] by simp
qed simp

lemma dispatch_grown: "grown env q (dispatchWebhooksForEvent env mint ev q)"
  unfolding dispatchWebhooksForEvent_def by (rule foldl_enqueue_grown)

lemma deliveries_grown: "grown env q q' \<Longrightarrow> deliveries e d q \<noteq> [] \<Longrightarrow> deliveries e d q' \<noteq> []"
  unfolding grown_def deliveries_def by (metis filter_append append_take_drop_id append_is_Nil_conv)

lemma deliveries_one:
  assumes "queue_ok env q" "deliveries e d q \<noteq> []"
  shows "length (deliveries e d q) = 1"
proof -
  let ?P = "\<lambda>r. jb_type r = webhookDeliveryJobType \<and> jb_key r = delivery_key e d"
  have "distinct (map (\<lambda>r. (jb_type r, jb_key r)) (filter ?P (filter (\<lambda>r. jb_key r \<noteq> []) (jq_jobs q))))"
    using assms(1) unfolding queue_ok_def by (blast intro: distinct_map_filter)
  moreover have "filter ?P (filter (\<lambda>r. jb_key r \<noteq> []) (jq_jobs q)) = deliveries e d q"
    using delivery_key_nonempty [of e d] unfolding deliveries_def filter_filter by (intro filter_cong) metis+
  ultimately have dist: "distinct (map (\<lambda>r. (jb_type r, jb_key r)) (deliveries e d q))" by simp
  have "map (\<lambda>r. (jb_type r, jb_key r)) (deliveries e d q) = replicate (length (deliveries e d q)) (webhookDeliveryJobType, delivery_key e d)"
    by (rule replicate_eqI) (auto simp: deliveries_def)
  with dist have "length (deliveries e d q) \<le> 1" by (cases "length (deliveries e d q)") auto
  with assms(2) show ?thesis by (cases "deliveries e d q") auto
qed

definition delivery_fits :: "outbox_event \<Rightarrow> document \<Rightarrow> bool" where
  "delivery_fits ev d \<longleftrightarrow>
     int (length (json_marshal (redactJobSecrets (JObj (delivery_payload d (ob_event ev) (ob_payload ev)))))) \<le> jobMaxPayloadBytes"

lemma fields_of_redacted: "JObj (fields_of (redactJobSecrets (JObj m))) = redactJobSecrets (JObj m)"
  by simp

lemma enqueue_delivers:
  assumes "webhookDeliveryJobType \<in> set (je_handlers env)" "find_job (mint q) q = None" "delivery_fits ev d"
  shows "deliveries (ob_id ev) (d_id d) (enqueue_delivery env mint ev d q) \<noteq> []"
proof -
  let ?P = "\<lambda>r. delivery_key (ob_id ev) (d_id d) \<noteq> [] \<and> jb_type r = webhookDeliveryJobType \<and> jb_key r = delivery_key (ob_id ev) (d_id d)"
  have ne: "webhookDeliveryJobType \<noteq> []" by (simp add: webhookDeliveryJobType_def)
  show ?thesis
  proof (cases "find ?P (jq_jobs q)")
    case None
    then show ?thesis
      using assms ne
      by (auto simp: enqueue_delivery_def enqueueJobWith_def Let_def deliveries_def delivery_fits_def fields_of_redacted new_job_def
          simp del: redactJobSecrets.simps json_marshal.simps)
  next
    case (Some r)
    then have "r \<in> set (deliveries (ob_id ev) (d_id d) q)" by (auto simp: deliveries_def find_Some_iff)
    then have "deliveries (ob_id ev) (d_id d) q \<noteq> []" by auto
    then show ?thesis by (rule deliveries_grown [OF enqueue_grown])
  qed
qed

lemma foldl_enqueue_delivers:
  assumes "webhookDeliveryJobType \<in> set (je_handlers env)" "\<And>q. find_job (mint q) q = None" "delivery_fits ev d" "d \<in> set ds"
  shows "deliveries (ob_id ev) (d_id d) (foldl (\<lambda>q d. enqueue_delivery env mint ev d q) q ds) \<noteq> []"
  using assms(4)
proof (induction ds arbitrary: q)
  case (Cons x ds)
  show ?case
  proof (cases "d = x")
    case True
    have "deliveries (ob_id ev) (d_id d) (enqueue_delivery env mint ev x q) \<noteq> []"
      unfolding True [symmetric] using assms by (intro enqueue_delivers)
    then show ?thesis by (simp add: deliveries_grown [OF foldl_enqueue_grown])
  next
    case False
    with Cons show ?thesis by simp
  qed
qed simp

lemma settle_frame [simp]: "bs_queue (settle_event logFails ev s) = bs_queue s"
  by (simp add: settle_event_def tx_exec_def tx_commit_def coalesce_def)

lemma dispatch_event_grown: "grown env (bs_queue s) (bs_queue (dispatch_event env mint logFails s ev))"
  by (simp add: dispatch_event_def dispatch_grown)

lemma dispatch_all_grown: "grown env (bs_queue s) (bs_queue (foldl (dispatch_event env mint logFails) s es))"
proof (induction es arbitrary: s)
  case (Cons e es)
  then show ?case using grown_trans [OF dispatch_event_grown Cons] by simp
qed simp

lemma pass_grown: "grown env (bs_queue s) (bs_queue (processOutbox env mint logFails s))"
  unfolding processOutbox_def by (rule dispatch_all_grown)

lemma passes_grown: "grown env (bs_queue s) (bs_queue ((processOutbox env mint logFails ^^ n) s))"
proof (induction n)
  case (Suc n)
  then show ?case using grown_trans [OF Suc pass_grown] by simp
qed simp

lemma pass_delivers:
  assumes "webhookDeliveryJobType \<in> set (je_handlers env)" "\<And>q. find_job (mint q) q = None"
    and "ev \<in> set es" "d \<in> set (t_documents (jq_t (bs_queue s)))" "is_subscription d"
    and "matchEventPattern (sub_text d ''event_pattern'') (ob_event ev)" "delivery_fits ev d"
  shows "deliveries (ob_id ev) (d_id d) (bs_queue (foldl (dispatch_event env mint logFails) s es)) \<noteq> []"
  using assms(3,4)
proof (induction es arbitrary: s)
  case (Cons x es)
  show ?case
  proof (cases "ev = x")
    case True
    have "deliveries (ob_id ev) (d_id d) (bs_queue (dispatch_event env mint logFails s x)) \<noteq> []"
      unfolding True [symmetric] dispatch_event_def settle_frame dispatchWebhooksForEvent_def
      using foldl_enqueue_delivers [where mint = mint, OF assms(1,2,7)] assms(5,6) Cons.prems(2) by simp
    then show ?thesis by (simp add: deliveries_grown [OF dispatch_all_grown])
  next
    case False
    have "jq_t (bs_queue (dispatch_event env mint logFails s x)) = jq_t (bs_queue s)"
      using dispatch_event_grown unfolding grown_def by blast
    with Cons False show ?thesis by simp
  qed
qed simp

text \<open>Events of one id: the outbox row a pass settles.\<close>

definition settled :: "outbox_event \<Rightarrow> outbox_event" where
  "settled e = e\<lparr>ob_status := ''Dispatched'', ob_attempts := ob_attempts e + 1\<rparr>"

lemma settle_outbox:
  "bs_outbox (settle_event logFails ev s) = (if logFails (ob_id ev) then bs_outbox s
     else map (\<lambda>e. if ob_id e = ob_id ev then e\<lparr>ob_status := ''Dispatched'', ob_attempts := ob_attempts ev + 1\<rparr> else e) (bs_outbox s))"
  by (simp add: settle_event_def tx_exec_def tx_commit_def coalesce_def)

lemma dispatch_all_outbox:
  assumes "distinct (map ob_id es)" "\<forall>e \<in> set es. \<forall>x \<in> set (bs_outbox s). ob_id x = ob_id e \<longrightarrow> x = e"
  shows "bs_outbox (foldl (dispatch_event env mint logFails) s es) =
    map (\<lambda>x. if x \<in> set es \<and> \<not> logFails (ob_id x) then settled x else x) (bs_outbox s)"
  using assms
proof (induction es arbitrary: s)
  case (Cons e es)
  let ?s = "dispatch_event env mint logFails s e"
  have out: "bs_outbox ?s = map (\<lambda>x. if x = e \<and> \<not> logFails (ob_id x) then settled x else x) (bs_outbox s)"
  proof (cases "logFails (ob_id e)")
    case True
    then have "map (\<lambda>x. if x = e \<and> \<not> logFails (ob_id x) then settled x else x) (bs_outbox s) = bs_outbox s"
      by (intro map_idI) auto
    with True show ?thesis by (simp add: dispatch_event_def settle_outbox)
  next
    case False
    with Cons.prems(2) show ?thesis by (auto simp: dispatch_event_def settle_outbox settled_def)
  qed
  have "\<forall>e' \<in> set es. \<forall>x \<in> set (bs_outbox ?s). ob_id x = ob_id e' \<longrightarrow> x = e'"
    using Cons.prems by (fastforce simp: out settled_def split: if_splits)
  then have "bs_outbox (foldl (dispatch_event env mint logFails) s (e # es)) =
      map (\<lambda>x. if x \<in> set es \<and> \<not> logFails (ob_id x) then settled x else x) (bs_outbox ?s)"
    using Cons.IH [of ?s] Cons.prems(1) by simp
  moreover have "settled e \<notin> set es"
  proof
    assume "settled e \<in> set es"
    then have "ob_id (settled e) \<in> ob_id ` set es" by (rule imageI)
    with Cons.prems(1) show False by (simp add: settled_def)
  qed
  moreover have "e \<notin> set es" using Cons.prems(1) by auto
  ultimately show ?case by (simp add: out) (auto simp: settled_def)
qed simp

lemma due_batch_facts:
  assumes "distinct (map ob_id es)"
  shows "distinct (map ob_id (due_batch es))" "set (due_batch es) \<subseteq> {e \<in> set es. due_event e}"
proof -
  have "distinct (map ob_id (sort_key ob_created (filter due_event es)))"
    using assms by (auto simp: distinct_map inj_on_def)
  then show "distinct (map ob_id (due_batch es))" by (simp add: due_batch_def take_map [symmetric])
  show "set (due_batch es) \<subseteq> {e \<in> set es. due_event e}"
    using set_take_subset [of 10 "sort_key ob_created (filter due_event es)"] by (auto simp: due_batch_def)
qed

lemma pass_outbox:
  assumes "distinct (map ob_id (bs_outbox s))"
  shows "bs_outbox (processOutbox env mint logFails s) =
    map (\<lambda>x. if x \<in> set (due_batch (bs_outbox s)) \<and> \<not> logFails (ob_id x) then settled x else x) (bs_outbox s)"
  unfolding processOutbox_def
proof (rule dispatch_all_outbox)
  show "distinct (map ob_id (due_batch (bs_outbox s)))" by (rule due_batch_facts(1) [OF assms])
  show "\<forall>e \<in> set (due_batch (bs_outbox s)). \<forall>x \<in> set (bs_outbox s). ob_id x = ob_id e \<longrightarrow> x = e"
    using due_batch_facts(2) [OF assms] assms by (auto simp: distinct_map inj_on_def)
qed

section \<open>The claims\<close>


lemma passes_outbox:
  assumes "distinct (map ob_id (bs_outbox s))"
  shows "\<exists>f. bs_outbox ((processOutbox env mint logFails ^^ n) s) = map f (bs_outbox s)
    \<and> (\<forall>x. ob_id (f x) = ob_id x \<and> (logFails (ob_id x) \<longrightarrow> f x = x) \<and> ob_status (f x) \<in> {ob_status x, ''Dispatched''})"
proof (induction n)
  case 0
  show ?case by (intro exI [of _ id]) simp
next
  case (Suc n)
  let ?s = "(processOutbox env mint logFails ^^ n) s"
  from Suc obtain f where f: "bs_outbox ?s = map f (bs_outbox s)"
    "\<And>x. ob_id (f x) = ob_id x" "\<And>x. logFails (ob_id x) \<Longrightarrow> f x = x" "\<And>x. ob_status (f x) \<in> {ob_status x, ''Dispatched''}"
    by blast
  let ?g = "\<lambda>x. if x \<in> set (due_batch (bs_outbox ?s)) \<and> \<not> logFails (ob_id x) then settled x else x"
  have "distinct (map ob_id (bs_outbox ?s))" using assms f by (simp add: o_def)
  then have "bs_outbox ((processOutbox env mint logFails ^^ Suc n) s) = map (?g \<circ> f) (bs_outbox s)"
    using pass_outbox [of ?s env mint logFails] f(1) by simp
  moreover have "ob_id ((?g \<circ> f) x) = ob_id x \<and> (logFails (ob_id x) \<longrightarrow> (?g \<circ> f) x = x)
      \<and> ob_status ((?g \<circ> f) x) \<in> {ob_status x, ''Dispatched''}" for x
    using f(2-4) by (auto simp: settled_def)
  ultimately show ?case by blast
qed

text \<open>
  A log row the database refuses takes the settling of its event with it: such an event
  keeps its row through any number of passes, no event becomes Failed, and when the ten
  oldest due events are refused they fill every batch and nothing in the outbox moves again.
\<close>
theorem refused_log_row_blocks_the_outbox:
  assumes "distinct (map ob_id (bs_outbox s))"
  defines "after \<equiv> \<lambda>env mint logFails n. bs_outbox ((processOutbox env mint logFails ^^ n) s)"
  shows "(\<forall>e \<in> set (bs_outbox s). logFails (ob_id e) \<longrightarrow> e \<in> set (after env mint logFails n))
    \<and> (''Failed'' \<notin> ob_status ` set (bs_outbox s) \<longrightarrow> ''Failed'' \<notin> ob_status ` set (after env mint logFails n))
    \<and> (list_all (\<lambda>e. logFails (ob_id e)) (due_batch (bs_outbox s)) \<longrightarrow> after env mint logFails n = bs_outbox s)"
proof -
  obtain f where f: "after env mint logFails n = map f (bs_outbox s)"
    "\<And>x. logFails (ob_id x) \<Longrightarrow> f x = x" "\<And>x. ob_status (f x) \<in> {ob_status x, ''Dispatched''}"
    using passes_outbox [OF assms(1)] unfolding after_def by meson
  have kept: "\<forall>e \<in> set (bs_outbox s). logFails (ob_id e) \<longrightarrow> e \<in> set (after env mint logFails n)"
    using f(2) unfolding f(1) by force
  have unfailed: "''Failed'' \<notin> ob_status ` set (after env mint logFails n)" if "''Failed'' \<notin> ob_status ` set (bs_outbox s)"
  proof
    assume "''Failed'' \<in> ob_status ` set (after env mint logFails n)"
    then obtain x where x: "x \<in> set (bs_outbox s)" "ob_status (f x) = ''Failed''" unfolding f(1) by auto
    then have "ob_status x = ''Failed''" using f(3) [of x] by auto
    with x(1) that show False by force
  qed
  have stuck: "bs_outbox ((processOutbox env mint logFails ^^ m) s) = bs_outbox s"
    if "list_all (\<lambda>e. logFails (ob_id e)) (due_batch (bs_outbox s))" for m
  proof (induction m)
    case (Suc m)
    with that assms(1) show ?case
      by (auto simp: pass_outbox list_all_iff intro!: map_idI)
  qed simp
  from kept unfailed stuck show ?thesis unfolding after_def by blast
qed

text \<open>One subscription, one event; and eleven events of which the first ten are refused.\<close>

definition joined_id :: "job_queue \<Rightarrow> string" where
  "joined_id q = CHR ''J'' # concat (map jb_id (jq_jobs q))"

lemma joined_id_fresh: "find_job (joined_id q) q = None"
proof -
  have "length (jb_id r) < length (joined_id q)" if "r \<in> set (jq_jobs q)" for r
    using that split_list [OF that] by (auto simp: joined_id_def)
  then show ?thesis unfolding find_job_None by fastforce
qed

definition hook :: document where
  "hook = \<lparr>d_doctype = ''WebhookSubscription'', d_id = ''S1'', d_data = [(''url'', JStr ''https://shop.example/hook''),
     (''event_pattern'', JStr ''inventory.*''), (''secret'', JStr ''s3'')], d_status = ''Active'', d_created_by = ''u'',
     d_updated_by = None, d_deleted = False, d_created_at = 0, d_updated_at = 0\<rparr>"

definition stock_event :: "string \<Rightarrow> int \<Rightarrow> outbox_event" where
  "stock_event i c = \<lparr>ob_id = i, ob_event = ''inventory.stock_changed'', ob_payload = [(''sku'', JStr ''A'')], ob_status = ''Pending'',
     ob_attempts = 0, ob_corr = [], ob_created = c\<rparr>"

definition hook_bus :: bus where
  "hook_bus = \<lparr>bs_queue = no_jobs\<lparr>jq_t := empty_tenant\<lparr>t_documents := [hook]\<rparr>\<rparr>, bs_outbox = [stock_event ''E1'' 0], bs_log = []\<rparr>"


definition stuck_ids :: "string list" where
  "stuck_ids = [''a'', ''b'', ''c'', ''d'', ''e'', ''f'', ''g'', ''h'', ''i'', ''j'']"

definition stuck_bus :: bus where
  "stuck_bus = \<lparr>bs_queue = no_jobs, bs_outbox = map (\<lambda>i. stock_event i 0) stuck_ids @ [stock_event ''good'' 1], bs_log = []\<rparr>"

theorem refused_log_row_blocks_the_outbox_witness:
  "bs_outbox ((processOutbox shop_env joined_id (\<lambda>i. i \<in> set stuck_ids) ^^ 100) stuck_bus) = bs_outbox stuck_bus"
proof -
  have d: "distinct (map ob_id (bs_outbox stuck_bus))" by code_simp
  have "list_all (\<lambda>e. ob_id e \<in> set stuck_ids) (due_batch (bs_outbox stuck_bus))" by code_simp
  then show ?thesis using refused_log_row_blocks_the_outbox [OF d, where logFails = "\<lambda>i. i \<in> set stuck_ids" and env = shop_env and mint = joined_id and n = 100] by blast
qed

end
