(* ===== verification/Loyalty.thy ===== *)
theory Loyalty
  imports Ledger Inventory
begin

text \<open>
  Loyalty points (engines/loyalty.go, loyalty_redemption_security.go, loyalty_returns.go,
  loyalty_tiering.go, loyalty_admin.go): the append-only point ledger, redeeming points under
  the daily limit, one-time codes and approvals, earning, giving back and taking back points
  on a refund, expiry, manual adjustments and tiers, with the liability postings of a tenant
  that accrues.

  \<open>club\<close> holds the tenant, the rows of loyalty_point_ledger in insertion order, the one-time
  code challenges and the tier rules. Arguments (\<open>club_env\<close>): the posting environment, the
  business day of an instant, the parser of a date, the hash of a code and the check of a
  reason code. The per-customer lock makes redemptions one after the other, which a sequence
  of transactions is.
\<close>

section \<open>State\<close>

record point_row =
  pr_customer :: string
  pr_kind :: string
  pr_points :: int
  pr_doctype :: string
  pr_ref :: string
  pr_created :: int
  pr_expires :: "int option"
  pr_pending :: "int option"
  pr_cancelled :: bool

record challenge =
  ch_id :: string
  ch_customer :: string
  ch_points :: int
  ch_ref :: string
  ch_by :: string
  ch_hash :: string
  ch_expires :: int
  ch_verified :: bool
  ch_consumed :: bool

record tier_rule =
  tr_id :: int
  tr_tier :: string
  tr_min :: rat
  tr_multiplier :: rat
  tr_benefits :: string
  tr_grace :: int

record club =
  cl_t :: tenant
  cl_rows :: "point_row list"
  cl_codes :: "challenge list"
  cl_tiers :: "tier_rule list"

record club_env =
  ce_posting :: posting_env
  ce_approval :: approval_env
  ce_day :: "int \<Rightarrow> string"
  ce_day_start :: "string \<Rightarrow> int"
  ce_parse :: "string \<Rightarrow> int option"
  ce_hash :: "string \<Rightarrow> string"
  ce_reason :: "string \<Rightarrow> string \<Rightarrow> tenant \<Rightarrow> unit res"

abbreviation moment :: "club \<Rightarrow> int" where
  "moment s \<equiv> t_now (cl_t s)"

text \<open>\<open>time.Now().AddDate(0, 0, n)\<close>\<close>

definition in_days :: "int \<Rightarrow> club \<Rightarrow> int" where
  "in_days n s = moment s + n * 86400"

section \<open>The ledger\<close>

definition signed_points :: "point_row \<Rightarrow> int" where
  "signed_points r = (if pr_kind r = ''Earn'' then pr_points r else - pr_points r)"

definition usable :: "int \<Rightarrow> point_row \<Rightarrow> bool" where
  "usable now r \<longleftrightarrow> (case pr_pending r of None \<Rightarrow> True | Some p \<Rightarrow> p \<le> now) \<and> \<not> pr_cancelled r"

definition of_customer :: "string \<Rightarrow> point_row list \<Rightarrow> point_row list" where
  "of_customer c rows = filter (\<lambda>r. pr_customer r = c) rows"

definition GetLoyaltyBalance :: "string \<Rightarrow> club \<Rightarrow> int" where
  "GetLoyaltyBalance c s = sum_list (map signed_points (filter (usable (moment s)) (of_customer c (cl_rows s))))"

definition loyaltyLedgerRowCap :: nat where
  "loyaltyLedgerRowCap = 1000"

definition GetLoyaltyLedger :: "string \<Rightarrow> club \<Rightarrow> point_row list" where
  "GetLoyaltyLedger c s = take loyaltyLedgerRowCap (sort_key (\<lambda>r. - pr_created r) (rev (of_customer c (cl_rows s))))"

text \<open>The columns: points INT, customer and reference VARCHAR(100).\<close>

definition insert_points :: "string \<Rightarrow> string \<Rightarrow> int \<Rightarrow> string \<Rightarrow> string \<Rightarrow> int option \<Rightarrow> int option \<Rightarrow> club \<Rightarrow> club res" where
  "insert_points c kind points dt ref expires pending s =
     (if \<not> int4 points then Inl out_of_range
      else if length c > 100 \<or> length ref > 100 then Inl (Plain ''value too long for type character varying(100)'')
      else Inr (s\<lparr>cl_rows := cl_rows s @ [\<lparr>pr_customer = c, pr_kind = kind, pr_points = points, pr_doctype = dt, pr_ref = ref,
        pr_created = moment s, pr_expires = expires, pr_pending = pending, pr_cancelled = False\<rparr>]\<rparr>))"

definition redemptionValuePerPointFor :: "tenant \<Rightarrow> int" where
  "redemptionValuePerPointFor t = GetSettingInt t ''loyalty.redemption_value_per_point''"

definition LoyaltyRedemptionValue :: "tenant \<Rightarrow> int \<Rightarrow> int" where
  "LoyaltyRedemptionValue t points = (if points \<le> 0 then 0 else wrap64 (points * redemptionValuePerPointFor t))"

definition loyaltyPointValuePaise :: "tenant \<Rightarrow> int" where
  "loyaltyPointValuePaise t = (let v = redemptionValuePerPointFor t; v' = (if v \<le> 0 then 1 else v) in RupeesToPaise (fl (of_int v')))"

definition loyaltyAccruesForSchema :: "tenant \<Rightarrow> bool" where
  "loyaltyAccruesForSchema t \<longleftrightarrow> GetSettingString t ''loyalty.liability_accounting'' = ''accrue''"

definition accountLoyaltyLiability :: string where
  "accountLoyaltyLiability = ''2630''"

definition accountLoyaltyExpense :: string where
  "accountLoyaltyExpense = ''5260''"

definition postLoyaltyValueTx :: "club_env \<Rightarrow> string \<Rightarrow> string \<Rightarrow> string \<Rightarrow> int \<Rightarrow> bool \<Rightarrow> string \<Rightarrow> club \<Rightarrow> club res" where
  "postLoyaltyValueTx env dt i key value accrue other s =
     (if value \<le> 0 \<or> \<not> loyaltyAccruesForSchema (cl_t s) then Inr s
      else let other' = (if other = [] then accountLoyaltyExpense else other);
               (ds, cs) = (if accrue then ([(other', value)], [(accountLoyaltyLiability, value)])
                           else ([(accountLoyaltyLiability, value)], [(other', value)]))
           in rbind (PostDoubleEntryTx (ce_posting env) dt i ds cs [] key no_opts (cl_t s)) (\<lambda>t. Inr (s\<lparr>cl_t := t\<rparr>)))"

text \<open>A step of its own whose error is only logged.\<close>

definition best_effort :: "club res \<Rightarrow> club \<Rightarrow> club" where
  "best_effort r s = (case r of Inl _ \<Rightarrow> s | Inr s' \<Rightarrow> s')"

section \<open>The controls of a redemption\<close>

definition redeemed_today :: "club_env \<Rightarrow> string \<Rightarrow> club \<Rightarrow> nat" where
  "redeemed_today env c s = length (filter (\<lambda>r. pr_kind r = ''Burn'' \<and> pr_doctype r \<noteq> ''LoyaltyExpiry''
     \<and> ce_day env (pr_created r) = t_today (cl_t s)) (of_customer c (cl_rows s)))"

definition loyaltyVelocityCheck :: "club_env \<Rightarrow> string \<Rightarrow> club \<Rightarrow> unit res" where
  "loyaltyVelocityCheck env c s =
     (if int (redeemed_today env c s) \<ge> GetSettingInt (cl_t s) ''security.loyalty_max_redemptions_per_day''
      then Inl (Coded ''CUSTOM-0601'') else Inr ())"

record requirement =
  rq_value :: int
  rq_otp :: bool
  rq_approval :: bool

definition LoyaltyRedemptionRequirementFor :: "tenant \<Rightarrow> int \<Rightarrow> requirement" where
  "LoyaltyRedemptionRequirementFor t points =
     (let v0 = redemptionValuePerPointFor t; v = (if v0 \<le> 0 then 1 else v0); value = wrap64 (points * v)
      in if points \<le> 0 then \<lparr>rq_value = value, rq_otp = False, rq_approval = False\<rparr>
         else \<lparr>rq_value = value, rq_otp = GetSettingBool t ''loyalty.redemption_requires_otp'',
               rq_approval = requiredApproverRole t ''LoyaltyRedemptionRequest'' (fl (of_int value)) \<noteq> []\<rparr>)"

definition spendable :: "string \<Rightarrow> string \<Rightarrow> int \<Rightarrow> string \<Rightarrow> challenge \<Rightarrow> bool" where
  "spendable i c points ref h \<longleftrightarrow> ch_id h = i \<and> ch_customer h = c \<and> ch_points h = points \<and> ch_ref h = ref
     \<and> ch_verified h \<and> \<not> ch_consumed h"

definition spend_code :: "string \<Rightarrow> string \<Rightarrow> int \<Rightarrow> string \<Rightarrow> club \<Rightarrow> club res" where
  "spend_code i c points ref s =
     (if list_ex (spendable i c points ref) (cl_codes s)
      then Inr (s\<lparr>cl_codes := map (\<lambda>h. if spendable i c points ref h then h\<lparr>ch_consumed := True\<rparr> else h) (cl_codes s)\<rparr>)
      else Inl (Coded ''CUSTOM-0602''))"

definition spend_approval :: "string \<Rightarrow> string \<Rightarrow> int \<Rightarrow> string \<Rightarrow> club \<Rightarrow> club res" where
  "spend_approval i c points ref s =
     (case find_doc (cl_t s) ''LoyaltyRedemptionRequest'' i of
        None \<Rightarrow> Inl (Coded ''CUSTOM-0603'')
      | Some d \<Rightarrow>
          if d_status d \<noteq> ''Approved'' \<or> strField (d_data d) ''customer_id'' \<noteq> c
             \<or> go_trunc (numFromInterface (jget (d_data d) ''points'')) \<noteq> points \<or> strField (d_data d) ''reference_id'' \<noteq> ref
          then Inl (Coded ''CUSTOM-0603'')
          else Inr (s\<lparr>cl_t := update_docs (is_doc ''LoyaltyRedemptionRequest'' i)
                 (\<lambda>e. e\<lparr>d_data := jput ''status'' (JStr ''Redeemed'') (d_data d), d_status := ''Redeemed'', d_updated_at := moment s\<rparr>) (cl_t s)\<rparr>))"

record redemption_auth =
  ra_challenge :: string
  ra_approval :: string

definition authorizeLoyaltyRedemptionTx ::
  "club_env \<Rightarrow> string \<Rightarrow> int \<Rightarrow> string \<Rightarrow> redemption_auth \<Rightarrow> club \<Rightarrow> club res" where
  "authorizeLoyaltyRedemptionTx env c points ref auth s =
     rbind (loyaltyVelocityCheck env c s) (\<lambda>_.
       let req = LoyaltyRedemptionRequirementFor (cl_t s) points in
       rbind (if rq_otp req then spend_code (ra_challenge auth) c points ref s else Inr s) (\<lambda>s1.
         if rq_approval req then spend_approval (ra_approval auth) c points ref s1 else Inr s1))"

section \<open>Redeeming\<close>

definition RedeemLoyaltyPointsTx ::
  "club_env \<Rightarrow> string \<Rightarrow> int \<Rightarrow> string \<Rightarrow> redemption_auth \<Rightarrow> club \<Rightarrow> (int \<times> club) res" where
  "RedeemLoyaltyPointsTx env c points ref auth s =
     (if points \<le> 0 then Inr (0, s)
      else if points > GetLoyaltyBalance c s then Inl (Coded ''CUSTOM-0134'')
      else rbind (authorizeLoyaltyRedemptionTx env c points ref auth s) (\<lambda>s1.
           rbind (insert_points c ''Burn'' points ''POSCart'' ref None None s1) (\<lambda>s2.
             Inr (wrap64 (points * redemptionValuePerPointFor (cl_t s)), s2))))"

definition ReverseLoyaltyRedemption :: "string \<Rightarrow> int \<Rightarrow> string \<Rightarrow> club \<Rightarrow> club res" where
  "ReverseLoyaltyRedemption c points ref s =
     (if points \<le> 0 \<or> c = [] then Inr s
      else insert_points c ''Earn'' points ''POSCart'' (ref @ '':REDEMPTION-REVERSAL'') None None s)"

definition InitiateSecureLoyaltyRedemption ::
  "club_env \<Rightarrow> string \<Rightarrow> string \<Rightarrow> string \<Rightarrow> int \<Rightarrow> string \<Rightarrow> string \<Rightarrow> club \<Rightarrow> (string \<times> club) res" where
  "InitiateSecureLoyaltyRedemption env i code c points ref initiator s =
     (if points \<le> 0 then Inl (Plain ''points must be positive'')
      else rbind (loyaltyVelocityCheck env c s) (\<lambda>_.
        if points > GetLoyaltyBalance c s then Inl (Coded ''CUSTOM-0134'')
        else if i \<in> ch_id ` set (cl_codes s) then Inl (Plain ''duplicate key value violates unique constraint'')
        else Inr (i, s\<lparr>cl_codes := cl_codes s @ [\<lparr>ch_id = i, ch_customer = c, ch_points = points, ch_ref = ref, ch_by = initiator,
               ch_hash = ce_hash env code, ch_expires = moment s + GetSettingInt (cl_t s) ''security.loyalty_otp_validity_minutes'' * 60,
               ch_verified = False, ch_consumed = False\<rparr>]\<rparr>)))"

definition verifyLoyaltyOTPChallenge :: "club_env \<Rightarrow> string \<Rightarrow> string \<Rightarrow> club \<Rightarrow> (challenge \<times> club) res" where
  "verifyLoyaltyOTPChallenge env i code s =
     (case find (\<lambda>h. ch_id h = i) (cl_codes s) of
        None \<Rightarrow> Inl (Plain ''redemption challenge not found'')
      | Some h \<Rightarrow>
          if ch_verified h then Inl (Plain ''this OTP challenge has already been used'')
          else if ch_expires h < moment s then Inl (Plain ''OTP has expired - initiate a new redemption'')
          else if ce_hash env code \<noteq> ch_hash h then Inl (Plain ''incorrect OTP'')
          else Inr (h, s\<lparr>cl_codes := map (\<lambda>x. if ch_id x = i then x\<lparr>ch_verified := True\<rparr> else x) (cl_codes s)\<rparr>))"

datatype redemption_result =
    Redeemed int
  | PendingApproval string

text \<open>
  The code is verified in a statement of its own, so it stays verified when the redemption
  that follows is refused; \<open>i\<close> is the id of the request document.
\<close>

definition VerifyAndRedeemLoyaltyOTP ::
  "club_env \<Rightarrow> string \<Rightarrow> string \<Rightarrow> string \<Rightarrow> club \<Rightarrow> club \<times> redemption_result res" where
  "VerifyAndRedeemLoyaltyOTP env i challenge code s =
     (case verifyLoyaltyOTPChallenge env challenge code s of
        Inl e \<Rightarrow> (s, Inl e)
      | Inr (h, s1) \<Rightarrow>
          let value = wrap64 (ch_points h * redemptionValuePerPointFor (cl_t s1)) in
          if requiredApproverRole (cl_t s1) ''LoyaltyRedemptionRequest'' (fl (of_int value)) = []
          then (case RedeemLoyaltyPointsTx env (ch_customer h) (ch_points h) (ch_ref h) \<lparr>ra_challenge = challenge, ra_approval = []\<rparr> s1 of
              Inl e \<Rightarrow> (s1, Inl e)
            | Inr (v, s2) \<Rightarrow> (s2, Inr (Redeemed v)))
          else if find_doc (cl_t s1) ''LoyaltyRedemptionRequest'' i \<noteq> None
            then (s1, Inl (Plain ''duplicate key value violates unique constraint''))
          else (s1\<lparr>cl_t := insert_doc (new_doc (cl_t s1) ''LoyaltyRedemptionRequest'' i
                 [(''id'', JStr i), (''code'', JStr i), (''customer_id'', JStr (ch_customer h)), (''points'', JNum (of_int (ch_points h))),
                  (''points_value'', JNum (of_int value)), (''reference_id'', JStr (ch_ref h)), (''status'', JStr ''Draft''),
                  (''channel'', JStr ''API''), (''challenge_id'', JStr challenge)] ''Draft'' (ch_by h)) (cl_t s1)\<rparr>,
               Inr (PendingApproval i)))"

record till_redemption =
  tl_need :: requirement
  tl_challenge :: string
  tl_approval :: string
  tl_status :: string

definition open_till_request :: "string \<Rightarrow> string \<Rightarrow> int \<Rightarrow> tenant \<Rightarrow> document option" where
  "open_till_request cart c points t =
     (case rev (sort_key d_created_at (filter (\<lambda>d. d_doctype d = ''LoyaltyRedemptionRequest'' \<and> jtext (d_data d) ''channel'' = Some ''POS''
        \<and> jtext (d_data d) ''reference_id'' = Some cart \<and> jtext (d_data d) ''customer_id'' = Some c
        \<and> jtext (d_data d) ''points'' = Some (dec_int points) \<and> d_status d \<in> {''Pending Approval'', ''Approved''}) (t_documents t))) of
        [] \<Rightarrow> None | d # _ \<Rightarrow> Some d)"

text \<open>Each statement commits on its own, so a refused submission leaves its draft behind.\<close>

definition raise_till_request ::
  "club_env \<Rightarrow> string \<Rightarrow> string \<Rightarrow> int \<Rightarrow> int \<Rightarrow> string \<Rightarrow> string \<Rightarrow> string \<Rightarrow> string \<Rightarrow> string \<Rightarrow> club \<Rightarrow> club \<times> (string \<times> string) res" where
  "raise_till_request env i c points value cart location reason cashier role s =
     (case open_till_request cart c points (cl_t s) of
        Some d \<Rightarrow> (s, Inr (d_id d, d_status d))
      | None \<Rightarrow>
          case (if reason = [] then Inl (Plain ''a reason code is required'') else ce_reason env reason ''Loyalty Redemption'' (cl_t s)) of
            Inl e \<Rightarrow> (s, Inl e)
          | Inr _ \<Rightarrow>
              if find_doc (cl_t s) ''LoyaltyRedemptionRequest'' i \<noteq> None then (s, Inl (Plain ''duplicate key value violates unique constraint''))
              else let t1 = insert_doc (new_doc (cl_t s) ''LoyaltyRedemptionRequest'' i
                     [(''id'', JStr i), (''code'', JStr i), (''customer_id'', JStr c), (''points'', JNum (of_int points)),
                      (''points_value'', JNum (of_int value)), (''reference_id'', JStr cart), (''channel'', JStr ''POS''),
                      (''location'', JStr location), (''reason_code'', JStr reason), (''status'', JStr ''Draft'')] ''Draft'' cashier) (cl_t s)
                   in case SubmitForApproval (ce_approval env) ''LoyaltyRedemptionRequest'' i cashier role t1 of
                        Inl e \<Rightarrow> (s\<lparr>cl_t := t1\<rparr>, Inl e)
                      | Inr t2 \<Rightarrow> (s\<lparr>cl_t := t2\<rparr>, Inr (i, ''Pending Approval'')))"

definition StartTillLoyaltyRedemption ::
  "club_env \<Rightarrow> string \<Rightarrow> string \<Rightarrow> string \<Rightarrow> string \<Rightarrow> int \<Rightarrow> string \<Rightarrow> string \<Rightarrow> string \<Rightarrow> string \<Rightarrow> string \<Rightarrow> club \<Rightarrow> club \<times> till_redemption res" where
  "StartTillLoyaltyRedemption env reqId otpId code c points cart location reason cashier role s =
     (if c = [] \<or> points \<le> 0 \<or> cart = [] then (s, Inl (Coded ''GLOBAL-0002''))
      else case loyaltyVelocityCheck env c s of
          Inl e \<Rightarrow> (s, Inl e)
        | Inr _ \<Rightarrow>
          if points > GetLoyaltyBalance c s then (s, Inl (Coded ''CUSTOM-0134''))
          else let req = LoyaltyRedemptionRequirementFor (cl_t s) points;
                   (s1, asked) = (if rq_approval req then raise_till_request env reqId c points (rq_value req) cart location reason cashier role s
                                  else (s, Inr ([], [])))
               in case asked of
                    Inl e \<Rightarrow> (s1, Inl e)
                  | Inr (approval, status) \<Rightarrow>
                      if rq_otp req
                      then case InitiateSecureLoyaltyRedemption env otpId code c points cart cashier s1 of
                          Inl e \<Rightarrow> (s1, Inl e)
                        | Inr (ch, s2) \<Rightarrow> (s2, Inr \<lparr>tl_need = req, tl_challenge = ch, tl_approval = approval, tl_status = status\<rparr>)
                      else (s1, Inr \<lparr>tl_need = req, tl_challenge = [], tl_approval = approval, tl_status = status\<rparr>))"

definition VerifyTillLoyaltyOTP :: "club_env \<Rightarrow> string \<Rightarrow> string \<Rightarrow> club \<Rightarrow> club res" where
  "VerifyTillLoyaltyOTP env i code s = rbind (verifyLoyaltyOTPChallenge env i code s) (\<lambda>(_, s'). Inr s')"

definition TillRedemptionApprovalStatus :: "string \<Rightarrow> club \<Rightarrow> string res" where
  "TillRedemptionApprovalStatus i s =
     (case find_doc (cl_t s) ''LoyaltyRedemptionRequest'' i of None \<Rightarrow> Inl (Coded ''CUSTOM-0603'') | Some d \<Rightarrow> Inr (d_status d))"

text \<open>The approval hook; an error is logged and nothing is redeemed.\<close>

definition executeApprovedLoyaltyRedemption :: "club_env \<Rightarrow> string \<Rightarrow> payload \<Rightarrow> club \<Rightarrow> club" where
  "executeApprovedLoyaltyRedemption env i data s =
     (if strField data ''channel'' = ''POS'' then s
      else case RedeemLoyaltyPointsTx env (jstr data ''customer_id'') (go_trunc (numFromInterface (jget data ''points''))) (jstr data ''reference_id'')
             \<lparr>ra_challenge = strField data ''challenge_id'', ra_approval = i\<rparr> s of
          Inl _ \<Rightarrow> s | Inr (_, s') \<Rightarrow> s')"

section \<open>Tiers\<close>

definition GetLoyaltyTierRules :: "club \<Rightarrow> tier_rule list" where
  "GetLoyaltyTierRules s = sort_key tr_min (cl_tiers s)"

definition UpsertLoyaltyTierRule :: "int \<Rightarrow> string \<Rightarrow> rat \<Rightarrow> rat \<Rightarrow> club \<Rightarrow> club res" where
  "UpsertLoyaltyTierRule i tier minSpend mult s =
     (if tier = [] then Inl (Plain ''tier is required'')
      else if mult \<le> 0 then Inl (Plain ''earn_multiplier must be positive'')
      else if minSpend < 0 then Inl (Plain ''min_spend cannot be negative'')
      else if list_ex (\<lambda>r. tr_tier r = tier) (cl_tiers s)
        then Inr (s\<lparr>cl_tiers := map (\<lambda>r. if tr_tier r = tier then r\<lparr>tr_min := minSpend, tr_multiplier := mult\<rparr> else r) (cl_tiers s)\<rparr>)
      else Inr (s\<lparr>cl_tiers := cl_tiers s @ [\<lparr>tr_id = i, tr_tier = tier, tr_min = minSpend, tr_multiplier = mult, tr_benefits = [], tr_grace = 0\<rparr>]\<rparr>))"

definition SaveLoyaltyTierRule :: "tier_rule \<Rightarrow> club \<Rightarrow> club res" where
  "SaveLoyaltyTierRule r s =
     (if tr_grace r < 0 then Inl (Plain ''grace_days cannot be negative'')
      else rbind (UpsertLoyaltyTierRule (tr_id r) (tr_tier r) (tr_min r) (tr_multiplier r) s) (\<lambda>s1.
        Inr (s1\<lparr>cl_tiers := map (\<lambda>x. if tr_tier x = tr_tier r then x\<lparr>tr_benefits := tr_benefits r, tr_grace := tr_grace r\<rparr> else x) (cl_tiers s1)\<rparr>)))"

definition DeleteLoyaltyTierRule :: "int \<Rightarrow> club \<Rightarrow> club res" where
  "DeleteLoyaltyTierRule i s =
     (if list_ex (\<lambda>r. tr_id r = i) (cl_tiers s) then Inr (s\<lparr>cl_tiers := filter (\<lambda>r. tr_id r \<noteq> i) (cl_tiers s)\<rparr>)
      else Inl (Plain ''loyalty tier rule not found''))"

definition customerLoyaltyTier :: "string \<Rightarrow> tenant \<Rightarrow> string" where
  "customerLoyaltyTier c t = (case find_doc t ''Customer'' c of None \<Rightarrow> [] | Some d \<Rightarrow> jstr (d_data d) ''loyalty_tier'')"

definition loyaltyEarnMultiplierForCustomer :: "string \<Rightarrow> club \<Rightarrow> rat" where
  "loyaltyEarnMultiplierForCustomer c s =
     (let tier = customerLoyaltyTier c (cl_t s) in
      if tier = [] then 1
      else case find (\<lambda>r. tr_tier r = tier) (cl_tiers s) of None \<Rightarrow> 1 | Some r \<Rightarrow> tr_multiplier r)"

definition tierMinSpend :: "tier_rule list \<Rightarrow> string \<Rightarrow> rat" where
  "tierMinSpend rules tier = (case find (\<lambda>r. tr_tier r = tier) rules of None \<Rightarrow> - 1 | Some r \<Rightarrow> tr_min r)"

text \<open>\<open>lowest threshold first: the last one reached wins\<close>\<close>

definition reached_tier :: "rat \<Rightarrow> tier_rule list \<Rightarrow> string \<times> rat" where
  "reached_tier spend rules = foldl (\<lambda>best r. if spend \<ge> tr_min r then (tr_tier r, tr_min r) else best) ([], - 1) rules"

text \<open>\<open>(data->>'k')::numeric\<close> on a number; other texts are not stored in these fields.\<close>

definition jnumeric :: "payload \<Rightarrow> string \<Rightarrow> rat option" where
  "jnumeric m k = (case jget m k of JNum q \<Rightarrow> Some q | _ \<Rightarrow> None)"

text \<open>
  What a paid bill took: \<open>amount_paid\<close>, or for an older bill its lines less its offer. A line
  without a quantity or a price is NULL and SUM skips it.
\<close>

definition line_price :: "json \<Rightarrow> rat" where
  "line_price j = (case j of
     JObj m \<Rightarrow> (case (jnumeric m ''qty'', jnumeric m ''sale_price'') of (Some q, Some p) \<Rightarrow> q * p | _ \<Rightarrow> 0)
   | _ \<Rightarrow> 0)"

definition posCartSpendSQL :: "payload \<Rightarrow> rat" where
  "posCartSpendSQL m = (case jnumeric m ''amount_paid'' of
     Some q \<Rightarrow> q
   | None \<Rightarrow> (case jget m ''items'' of JArr xs \<Rightarrow> sum_list (map line_price xs) | _ \<Rightarrow> 0) - coalesce (jnumeric m ''offer_discount'') 0)"

definition tier_cart :: "string \<Rightarrow> club \<Rightarrow> document \<Rightarrow> bool" where
  "tier_cart c s d \<longleftrightarrow> d_doctype d = ''POSCart'' \<and> d_status d = ''Paid'' \<and> jtext (d_data d) ''customer_id'' = Some c
     \<and> (let w = GetSettingInt (cl_t s) ''loyalty.tier_window_days'' in w = 0 \<or> d_created_at d \<ge> in_days (- w) s)"

definition customerTierSpend :: "string \<Rightarrow> club \<Rightarrow> rat" where
  "customerTierSpend c s =
     (let docs = t_documents (cl_t s); carts = map d_id (filter (tier_cart c s) docs);
          took = sum_list (map (\<lambda>d. posCartSpendSQL (d_data d)) (filter (\<lambda>d. d_id d \<in> set carts) docs));
          refunded = sum_list (map (\<lambda>d. coalesce (jnumeric (d_data d) ''net_amount'') (coalesce (jnumeric (d_data d) ''amount'') 0))
            (filter (\<lambda>d. d_doctype d = ''RefundRequest'' \<and> jtext (d_data d) ''status'' = Some ''Processed''
               \<and> (case jtext (d_data d) ''original_order_id'' of Some i \<Rightarrow> i \<in> set carts | None \<Rightarrow> False)) docs))
      in fl (fl took - fl refunded))"

text \<open>The tier below the current one waits out its grace days; the second component is the mark of the day that was first seen.\<close>

definition held_tier :: "club_env \<Rightarrow> tier_rule list \<Rightarrow> string \<Rightarrow> rat \<Rightarrow> document \<Rightarrow> club \<Rightarrow> string \<times> string" where
  "held_tier env rules newTier newMin d s =
     (let existing = jstr (d_data d) ''loyalty_tier''; since = jstr (d_data d) ''loyalty_tier_below_since'';
          grace = foldl (\<lambda>g r. if tr_tier r = existing then tr_grace r else g) 0 rules
      in if existing \<noteq> [] \<and> newMin < tierMinSpend rules existing \<and> grace > 0
         then let ns = (if since = [] then t_today (cl_t s) else since) in
           (case ce_parse env ns of
              Some d0 \<Rightarrow> if moment s - d0 < grace * 86400 then (existing, ns) else (newTier, [])
            | None \<Rightarrow> (newTier, []))
         else (newTier, []))"

definition write_tier :: "string \<Rightarrow> document \<Rightarrow> string \<times> string \<Rightarrow> club \<Rightarrow> string \<times> club" where
  "write_tier c d = (\<lambda>(tier, nextSince) s.
     if tier = jstr (d_data d) ''loyalty_tier'' \<and> nextSince = jstr (d_data d) ''loyalty_tier_below_since'' then (tier, s)
     else let data = (if nextSince = [] then filter (\<lambda>(k, v). k \<noteq> ''loyalty_tier_below_since'') (d_data d)
                      else jput ''loyalty_tier_below_since'' (JStr nextSince) (d_data d))
          in (tier, s\<lparr>cl_t := update_docs (is_doc ''Customer'' c)
                (\<lambda>e. e\<lparr>d_data := jput ''loyalty_tier'' (JStr tier) data, d_updated_at := moment s\<rparr>) (cl_t s)\<rparr>))"

definition RecomputeLoyaltyTier :: "club_env \<Rightarrow> string \<Rightarrow> club \<Rightarrow> string \<times> club" where
  "RecomputeLoyaltyTier env c s =
     (let rules = GetLoyaltyTierRules s; spend = customerTierSpend c s; newTier = fst (reached_tier spend rules); newMin = snd (reached_tier spend rules) in
      if newTier = [] then ([], s)
      else case find_doc (cl_t s) ''Customer'' c of
          None \<Rightarrow> (newTier, s)
        | Some d \<Rightarrow> write_tier c d (held_tier env rules newTier newMin d s) s)"

section \<open>Earning\<close>

definition IsWalkInCustomer :: "string \<Rightarrow> tenant \<Rightarrow> bool" where
  "IsWalkInCustomer i t \<longleftrightarrow> trim i \<noteq> []
     \<and> (case find_doc t ''Customer'' i of None \<Rightarrow> False | Some d \<Rightarrow> coalesce (jtext (d_data d) ''walk_in'') [] = ''Yes'')"

definition crmPendingUntil :: "club \<Rightarrow> int option" where
  "crmPendingUntil s =
     (if \<not> GetSettingBool (cl_t s) ''loyalty.pending_points'' then None
      else let days = GetSettingInt (cl_t s) ''sales.return_window_days'' in if days \<le> 0 then None else Some (in_days days s))"

definition earned_points :: "int \<Rightarrow> string \<Rightarrow> club \<Rightarrow> int" where
  "earned_points net c s =
     (let r = GetSettingInt (cl_t s) ''loyalty.rupees_per_point''; base = go_div net (if r \<le> 0 then 100 else r)
      in if base \<le> 0 then 0 else go_trunc (fl (fl (of_int base) * loyaltyEarnMultiplierForCustomer c s)))"

text \<open>The row of one's own sale is the last inserted of that reference.\<close>

definition mark_pending :: "string \<Rightarrow> string \<Rightarrow> int \<Rightarrow> point_row list \<Rightarrow> point_row list" where
  "mark_pending c ref u rows =
     (let mine = (\<lambda>r. pr_customer r = c \<and> pr_kind r = ''Earn'' \<and> pr_doctype r = ''POSCart'' \<and> pr_ref r = ref) in
      case filter (\<lambda>i. mine (rows ! i)) [0..< length rows] of
        [] \<Rightarrow> rows
      | is \<Rightarrow> rows[last is := (rows ! last is)\<lparr>pr_pending := Some u\<rparr>])"

definition EarnLoyaltyPoints :: "club_env \<Rightarrow> string \<Rightarrow> int \<Rightarrow> string \<Rightarrow> club \<Rightarrow> club res" where
  "EarnLoyaltyPoints env c net ref s =
     (let points = earned_points net c s in
      if IsWalkInCustomer c (cl_t s) \<or> points \<le> 0 then Inr s
      else rbind (insert_points c ''Earn'' points ''POSCart'' ref (Some (in_days (GetSettingInt (cl_t s) ''loyalty.point_expiry_days'') s)) None s) (\<lambda>s1.
        let s2 = (case crmPendingUntil s1 of None \<Rightarrow> s1 | Some u \<Rightarrow> s1\<lparr>cl_rows := mark_pending c ref u (cl_rows s1)\<rparr>);
            s3 = best_effort (postLoyaltyValueTx env ''POSCart'' ref (''POSCart:'' @ ref @ '':LOYALTY_ACCRUE'')
                   (wrap64 (points * loyaltyPointValuePaise (cl_t s))) True [] s2) s2
        in Inr (if GetSettingBool (cl_t s) ''loyalty.recompute_tier_on_earn'' then snd (RecomputeLoyaltyTier env c s3) else s3)))"

section \<open>Refunds\<close>

text \<open>ROUND of a numeric: half away from zero.\<close>

definition pg_round :: "rat \<Rightarrow> int" where
  "pg_round q = (if q \<ge> 0 then \<lfloor>q + 1 / 2\<rfloor> else - \<lfloor>1 / 2 - q\<rfloor>)"

definition is_refund_of :: "string \<Rightarrow> document \<Rightarrow> bool" where
  "is_refund_of cart d \<longleftrightarrow> d_doctype d = ''RefundRequest'' \<and> jtext (d_data d) ''original_order_id'' = Some cart"

definition refunded_paise :: "string \<Rightarrow> tenant \<Rightarrow> int" where
  "refunded_paise cart t =
     sum_list (map (\<lambda>d. pg_round (coalesce (jnumeric (d_data d) ''net_amount'') (coalesce (jnumeric (d_data d) ''amount'') 0) * 100
                         - coalesce (jnumeric (d_data d) ''points_value'') 0 * 100))
       (filter (\<lambda>d. is_refund_of cart d \<and> jtext (d_data d) ''status'' = Some ''Processed'') (t_documents t)))"

definition earn_row :: "string \<Rightarrow> string \<Rightarrow> point_row \<Rightarrow> bool" where
  "earn_row c cart r \<longleftrightarrow> pr_customer r = c \<and> pr_kind r = ''Earn'' \<and> pr_doctype r = ''POSCart'' \<and> pr_ref r = cart"

definition LoyaltyTxnReversal :: string where
  "LoyaltyTxnReversal = ''Reversal''"

definition reversal_row :: "string \<Rightarrow> string \<Rightarrow> tenant \<Rightarrow> point_row \<Rightarrow> bool" where
  "reversal_row c cart t r \<longleftrightarrow> pr_customer r = c \<and> pr_kind r = LoyaltyTxnReversal \<and> pr_doctype r = ''RefundRequest''
     \<and> list_ex (\<lambda>d. is_refund_of cart d \<and> d_id d = pr_ref r) (t_documents t)"

definition points_on :: "(point_row \<Rightarrow> bool) \<Rightarrow> club \<Rightarrow> int" where
  "points_on P s = sum_list (map pr_points (filter P (cl_rows s)))"

definition reversal_target :: "int \<Rightarrow> int \<Rightarrow> int \<Rightarrow> int" where
  "reversal_target earned refunded saleMoney =
     (if refunded < saleMoney then go_div (wrap64 (earned * refunded)) saleMoney else earned)"

definition reverseEarnedPointsTx :: "string \<Rightarrow> string \<Rightarrow> string \<Rightarrow> int \<Rightarrow> club \<Rightarrow> (int \<times> club) res" where
  "reverseEarnedPointsTx c cart refund saleMoney s =
     (if c = [] \<or> saleMoney \<le> 0 then Inr (0, s)
      else let earned = points_on (earn_row c cart) s in
        if earned \<le> 0 then Inr (0, s)
        else let reverse = wrap64 (reversal_target earned (refunded_paise cart (cl_t s)) saleMoney - points_on (reversal_row c cart (cl_t s)) s);
                 waits = List.map_filter pr_pending (filter (earn_row c cart) (cl_rows s));
                 later = filter (\<lambda>u. u > moment s) waits
             in if reverse \<le> 0 then Inr (0, s)
                else rbind (insert_points c LoyaltyTxnReversal reverse ''RefundRequest'' refund None
                       (if later = [] then None else Some (Max (set later))) s) (\<lambda>s'. Inr (reverse, s')))"

definition restoreRedeemedPointsTx :: "string \<Rightarrow> string \<Rightarrow> string \<Rightarrow> int \<Rightarrow> club \<Rightarrow> club res" where
  "restoreRedeemedPointsTx c cart refund points s =
     (if c = [] \<or> points \<le> 0 then Inr s
      else let sold = map d_created_at (filter (is_doc ''POSCart'' cart) (t_documents (cl_t s)));
               lives = concat (map (\<lambda>at0. List.map_filter (\<lambda>r. case pr_expires r of
                   Some e \<Rightarrow> if pr_kind r = ''Earn'' \<and> pr_created r \<le> at0 \<and> e > at0 then Some e else None
                 | None \<Rightarrow> None) (of_customer c (cl_rows s))) sold);
               grace = in_days (GetSettingInt (cl_t s) ''loyalty.restored_points_grace_days'') s;
               expires = (if lives \<noteq> [] \<and> Max (set lives) > grace then Max (set lives) else grace)
           in insert_points c ''Earn'' points ''RefundRequest'' refund (Some expires) None s)"

section \<open>Expiry\<close>

definition loyaltyExpiryReferenceDoctype :: string where
  "loyaltyExpiryReferenceDoctype = ''LoyaltyExpiry''"

definition expired_earned :: "int \<Rightarrow> point_row list \<Rightarrow> int" where
  "expired_earned now rows = sum_list (map pr_points
     (filter (\<lambda>r. pr_kind r = ''Earn'' \<and> (case pr_expires r of Some e \<Rightarrow> e \<le> now | None \<Rightarrow> False)) rows))"

definition already_expired :: "point_row list \<Rightarrow> int" where
  "already_expired rows = sum_list (map pr_points
     (filter (\<lambda>r. pr_kind r = ''Burn'' \<and> pr_doctype r = loyaltyExpiryReferenceDoctype) rows))"

definition to_expire :: "int \<Rightarrow> point_row list \<Rightarrow> int" where
  "to_expire now rows = min (expired_earned now rows - already_expired rows) (sum_list (map signed_points rows))"

definition expire_points :: "club_env \<Rightarrow> club \<Rightarrow> string \<times> int \<Rightarrow> club" where
  "expire_points env s = (\<lambda>(c, n).
     if n \<le> 0 then s
     else case insert_points c ''Burn'' n loyaltyExpiryReferenceDoctype [] None None s of
         Inl _ \<Rightarrow> s
       | Inr s1 \<Rightarrow>
           let doc = c @ '':'' @ t_today (cl_t s) in
           if loyaltyAccruesForSchema (cl_t s)
           then best_effort (postLoyaltyValueTx env loyaltyExpiryReferenceDoctype doc (''LoyaltyExpiry:'' @ doc)
                  (wrap64 (n * loyaltyPointValuePaise (cl_t s))) False [] s1) s1
           else s1)"

definition sweepLoyaltyExpiryForSchema :: "club_env \<Rightarrow> club \<Rightarrow> club" where
  "sweepLoyaltyExpiryForSchema env s =
     foldl (expire_points env) s
       (map (\<lambda>c. (c, to_expire (moment s) (of_customer c (cl_rows s)))) (remdups (map pr_customer (cl_rows s))))"

section \<open>Adjustments\<close>

definition LoyaltyTxnAdjustment :: string where
  "LoyaltyTxnAdjustment = ''Adjustment''"

definition loyaltyAdjustmentDoctype :: string where
  "loyaltyAdjustmentDoctype = ''LoyaltyPointAdjustment''"

definition postLoyaltyAdjustment :: "club_env \<Rightarrow> string \<Rightarrow> club \<Rightarrow> club res" where
  "postLoyaltyAdjustment env i s =
     (case find_doc (cl_t s) loyaltyAdjustmentDoctype i of
        None \<Rightarrow> Inl (Plain ''no rows in result set'')
      | Some d \<Rightarrow>
          if d_status d = ''Posted'' then Inr s
          else let c = strField (d_data d) ''customer_id''; points = go_trunc (numFromInterface (jget (d_data d) ''points''));
                   value = wrap64 (points * loyaltyPointValuePaise (cl_t s)); key = loyaltyAdjustmentDoctype @ '':'' @ i in
            rbind (if points > 0
                   then rbind (insert_points c ''Earn'' points loyaltyAdjustmentDoctype i
                          (Some (in_days (GetSettingInt (cl_t s) ''loyalty.point_expiry_days'') s)) None s)
                          (postLoyaltyValueTx env loyaltyAdjustmentDoctype i (key @ '':ACCRUE'') value True [])
                   else if GetLoyaltyBalance c s + points < 0 then Inl (Coded ''CUSTOM-0615'')
                   else rbind (insert_points c LoyaltyTxnAdjustment (- points) loyaltyAdjustmentDoctype i None None s)
                          (postLoyaltyValueTx env loyaltyAdjustmentDoctype i (key @ '':RELEASE'') (wrap64 (- value)) False accountLoyaltyExpense)) (\<lambda>s1.
              Inr (s1\<lparr>cl_t := update_docs (\<lambda>e. d_id e = i)
                    (\<lambda>e. e\<lparr>d_data := jput ''status'' (JStr ''Posted'') (d_data d), d_status := ''Posted'', d_updated_at := moment s1\<rparr>) (cl_t s1)\<rparr>)))"

text \<open>
  \<open>RequestLoyaltyAdjustment\<close>: the draft is stored before it is submitted or posted, and stays
  when that is refused; the result is the status the caller sees.
\<close>

definition known_customer :: "string \<Rightarrow> tenant \<Rightarrow> bool" where
  "known_customer c t \<longleftrightarrow> list_ex (\<lambda>d. d_doctype d = ''Customer'' \<and> (d_id d = c \<or> jtext (d_data d) ''code'' = Some c) \<and> \<not> d_deleted d) (t_documents t)"

definition store_adjustment ::
  "club_env \<Rightarrow> string \<Rightarrow> string \<Rightarrow> int \<Rightarrow> rat \<Rightarrow> string \<Rightarrow> string \<Rightarrow> string \<Rightarrow> string \<Rightarrow> club \<Rightarrow> club \<times> string res" where
  "store_adjustment env i c points value reason note usr role s =
     (if find_doc (cl_t s) loyaltyAdjustmentDoctype i \<noteq> None then (s, Inl (Plain ''duplicate key value violates unique constraint''))
      else let t1 = insert_doc (new_doc (cl_t s) loyaltyAdjustmentDoctype i
             [(''code'', JStr i), (''customer_id'', JStr c), (''points'', JNum (of_int points)), (''points_value'', JNum value),
              (''reason_code'', JStr reason), (''note'', JStr (trim note)), (''status'', JStr ''Draft'')] ''Draft'' usr) (cl_t s);
               s1 = s\<lparr>cl_t := t1\<rparr>
           in if requiredApproverRole (cl_t s) loyaltyAdjustmentDoctype value \<noteq> []
              then case SubmitForApproval (ce_approval env) loyaltyAdjustmentDoctype i usr role t1 of
                  Inl e \<Rightarrow> (s1, Inl e) | Inr t2 \<Rightarrow> (s\<lparr>cl_t := t2\<rparr>, Inr ''Pending Approval'')
              else case postLoyaltyAdjustment env i s1 of
                  Inl e \<Rightarrow> (s1, Inl e) | Inr s2 \<Rightarrow> (s2, Inr ''Posted''))"

definition RequestLoyaltyAdjustment ::
  "club_env \<Rightarrow> string \<Rightarrow> string \<Rightarrow> int \<Rightarrow> string \<Rightarrow> string \<Rightarrow> string \<Rightarrow> string \<Rightarrow> club \<Rightarrow> club \<times> string res" where
  "RequestLoyaltyAdjustment env i customer points reasonCode note usr role s =
     (let c = trim customer; reason = trim reasonCode in
      if c = [] \<or> points = 0 then (s, Inl (Coded ''CUSTOM-0614''))
      else case (if reason = [] then Inl (Coded ''CUSTOM-0614'') else ce_reason env reason ''Loyalty Adjustment'' (cl_t s)) of
          Inl e \<Rightarrow> (s, Inl (Coded ''CUSTOM-0614''))
        | Inr _ \<Rightarrow>
          if \<not> known_customer c (cl_t s) then (s, Inl (Coded ''CUSTOM-0614''))
          else if points < 0 \<and> GetLoyaltyBalance c s + points < 0 then (s, Inl (Coded ''CUSTOM-0615''))
          else store_adjustment env i c points (PaiseToRupees (wrap64 (\<bar>points\<bar> * loyaltyPointValuePaise (cl_t s)))) reason note usr role s)"

definition postApprovedLoyaltyAdjustment :: "club_env \<Rightarrow> string \<Rightarrow> club \<Rightarrow> club" where
  "postApprovedLoyaltyAdjustment env i s = best_effort (postLoyaltyAdjustment env i s) s"

definition ListLoyaltyAdjustments :: "string \<Rightarrow> club \<Rightarrow> document list" where
  "ListLoyaltyAdjustments c s = rev (sort_key d_created_at
     (filter (\<lambda>d. d_doctype d = loyaltyAdjustmentDoctype \<and> jtext (d_data d) ''customer_id'' = Some c) (t_documents (cl_t s))))"

section \<open>The points movement report\<close>

definition has_suffix :: "string \<Rightarrow> string \<Rightarrow> bool" where
  "has_suffix suf x \<longleftrightarrow> length suf \<le> length x \<and> drop (length x - length suf) x = suf"

definition loyaltyMovementSQL :: "point_row \<Rightarrow> string" where
  "loyaltyMovementSQL r =
     (if pr_kind r = ''Earn'' \<and> pr_doctype r = ''RefundRequest'' then ''restored''
      else if pr_kind r = ''Earn'' \<and> pr_doctype r = ''LoyaltyPointAdjustment'' then ''adjusted_in''
      else if pr_kind r = ''Earn'' \<and> has_suffix '':REDEMPTION-REVERSAL'' (pr_ref r) then ''redeemed_back''
      else if pr_kind r = ''Earn'' \<and> pr_doctype r = ''POSCart'' then ''earned''
      else if pr_kind r = ''Earn'' then ''other_in''
      else if pr_kind r = ''Burn'' \<and> pr_doctype r = ''LoyaltyExpiry'' then ''expired''
      else if pr_kind r = ''Burn'' then ''redeemed''
      else if pr_kind r = ''Reversal'' then ''reversed''
      else if pr_kind r = ''Adjustment'' then ''adjusted_out''
      else ''other'')"

definition loyaltyMovementRows :: "(string \<times> string \<times> int) list" where
  "loyaltyMovementRows =
     [(''earned'', ''Earned on sales'', 1), (''restored'', ''Given back on returns (points paid with)'', 1),
      (''adjusted_in'', ''Credited by adjustment'', 1), (''redeemed'', ''Redeemed at the till and online'', - 1),
      (''reversed'', ''Taken back on returns (points earned)'', - 1), (''adjusted_out'', ''Debited by adjustment'', - 1),
      (''expired'', ''Expired (breakage)'', - 1)]"

definition signed_before :: "int \<Rightarrow> point_row list \<Rightarrow> int" where
  "signed_before m rows = sum_list (map signed_points (filter (\<lambda>r. pr_created r < m) rows))"

definition moved :: "int \<Rightarrow> int \<Rightarrow> point_row list \<Rightarrow> string \<Rightarrow> int" where
  "moved lo hi rows kind = sum_list (map pr_points (filter (\<lambda>r. lo \<le> pr_created r \<and> pr_created r < hi \<and> loyaltyMovementSQL r = kind) rows))"

type_synonym movement_line = "string \<times> int option \<times> rat"

definition movement_line :: "int \<Rightarrow> string \<Rightarrow> int \<Rightarrow> movement_line" where
  "movement_line v label pts = (label, Some pts, PaiseToRupees (wrap64 (pts * v)))"

definition difference_label :: string where
  "difference_label = ''DIFFERENCE from the ledger (investigate)''"

definition booked_liability :: "int \<Rightarrow> tenant \<Rightarrow> int" where
  "booked_liability m t = sum_list (map (\<lambda>p. gp_credit p - gp_debit p)
     (filter (\<lambda>p. gp_account p = accountLoyaltyLiability \<and> gp_created_at p < m) (t_postings t)))"

text \<open>\<open>moves["redeemed"]\<close> loses what the till handed straight back.\<close>

definition movement :: "int \<Rightarrow> int \<Rightarrow> point_row list \<Rightarrow> string \<Rightarrow> int" where
  "movement lo hi rows k = moved lo hi rows k - (if k = ''redeemed'' then moved lo hi rows ''redeemed_back'' else 0)"

definition report_from :: "string \<Rightarrow> string" where
  "report_from d = (if trim d = [] then ''1900-01-01'' else trim d)"

definition report_to :: "string \<Rightarrow> club \<Rightarrow> string" where
  "report_to d s = (if trim d = [] then t_today (cl_t s) else trim d)"

definition loyaltyMovementReport :: "club_env \<Rightarrow> string \<Rightarrow> string \<Rightarrow> club \<Rightarrow> movement_line list" where
  "loyaltyMovementReport env from_date to_date s =
     (let lo = ce_day_start env (report_from from_date); hi = t_day_end (cl_t s) (report_to to_date s); rows = cl_rows s;
          m = movement lo hi rows; v = loyaltyPointValuePaise (cl_t s);
          opened = signed_before lo rows;
          closing = opened + m ''other_in'' - m ''other'' + sum_list (map (\<lambda>(k, label, sign). sign * m k) loyaltyMovementRows);
          now = signed_before hi rows
      in movement_line v ''Opening balance'' opened
         # map (\<lambda>(k, label, sign). movement_line v label (sign * m k)) loyaltyMovementRows
         @ (if m ''other_in'' \<noteq> 0 then [movement_line v ''Other credits (opening balances, imports)'' (m ''other_in'')] else [])
         @ (if m ''other'' \<noteq> 0 then [movement_line v ''Other debits'' (- m ''other'')] else [])
         @ [movement_line v ''Closing balance'' closing]
         @ (if now \<noteq> closing then [movement_line v difference_label (now - closing)] else [])
         @ (if loyaltyAccruesForSchema (cl_t s)
            then [(''Liability in the books (2630)'', None, PaiseToRupees (booked_liability hi (cl_t s))),
                  (''Books less points outstanding'', None, PaiseToRupees (wrap64 (booked_liability hi (cl_t s) - closing * v)))]
            else []))"

section \<open>Histories\<close>

text \<open>\<open>Elsewhere\<close>: whatever else the program does to the tenant, time passing included.\<close>

datatype club_event =
    Redeem string int string redemption_auth
  | GiveBack string int string
  | Earn string int string
  | SendCode string string string int string string
  | EnterCode string string
  | RedeemByCode string string string
  | RequestApproved string payload
  | AskTill string string string string int string string string string string
  | AskAdjustment string string int string string string string
  | RefundEarned string string string int
  | RestoreRedeemed string string string int
  | Expire
  | Adjust string
  | Elsewhere tenant

text \<open>A refused operation rolls its transaction back.\<close>

definition kept :: "club \<Rightarrow> club res \<Rightarrow> club" where
  "kept s r = (case r of Inl _ \<Rightarrow> s | Inr s' \<Rightarrow> s')"

definition kept_snd :: "club \<Rightarrow> ('a \<times> club) res \<Rightarrow> club" where
  "kept_snd s r = (case r of Inl _ \<Rightarrow> s | Inr (_, s') \<Rightarrow> s')"

fun club_step :: "club_env \<Rightarrow> club_event \<Rightarrow> club \<Rightarrow> club" where
  "club_step env (Redeem c n ref auth) s = kept_snd s (RedeemLoyaltyPointsTx env c n ref auth s)"
| "club_step env (GiveBack c n ref) s = kept s (ReverseLoyaltyRedemption c n ref s)"
| "club_step env (Earn c net ref) s = kept s (EarnLoyaltyPoints env c net ref s)"
| "club_step env (SendCode i code c n ref usr) s = kept_snd s (InitiateSecureLoyaltyRedemption env i code c n ref usr s)"
| "club_step env (EnterCode i code) s = kept_snd s (verifyLoyaltyOTPChallenge env i code s)"
| "club_step env (RedeemByCode i h code) s = fst (VerifyAndRedeemLoyaltyOTP env i h code s)"
| "club_step env (RequestApproved i data) s = executeApprovedLoyaltyRedemption env i data s"
| "club_step env (AskTill i h code c n cart loc reason usr role) s = fst (StartTillLoyaltyRedemption env i h code c n cart loc reason usr role s)"
| "club_step env (AskAdjustment i c n reason note usr role) s = fst (RequestLoyaltyAdjustment env i c n reason note usr role s)"
| "club_step env (RefundEarned c cart refund money) s = kept_snd s (reverseEarnedPointsTx c cart refund money s)"
| "club_step env (RestoreRedeemed c cart refund n) s = kept s (restoreRedeemedPointsTx c cart refund n s)"
| "club_step env Expire s = sweepLoyaltyExpiryForSchema env s"
| "club_step env (Adjust i) s = kept s (postLoyaltyAdjustment env i s)"
| "club_step env (Elsewhere t) s = s\<lparr>cl_t := t\<rparr>"

definition club_history :: "club_env \<Rightarrow> club_event list \<Rightarrow> club \<Rightarrow> club" where
  "club_history env es s = foldl (\<lambda>s e. club_step env e s) s es"

fun takes_earned_back :: "club_event \<Rightarrow> bool" where
  "takes_earned_back (RefundEarned c cart refund money) = True"
| "takes_earned_back _ = False"

section \<open>What each operation writes\<close>

definition held :: "string \<Rightarrow> point_row list \<Rightarrow> int" where
  "held c rows = sum_list (map signed_points (of_customer c rows))"

lemma held_append [simp]: "held c (rows @ [r]) = held c rows + (if pr_customer r = c then signed_points r else 0)"
  by (simp add: held_def of_customer_def)

lemma insert_pointsE:
  assumes "insert_points c kind n dt ref ex pend s = Inr s'"
  obtains r where "s' = s\<lparr>cl_rows := cl_rows s @ [r]\<rparr>" "pr_customer r = c" "pr_kind r = kind" "pr_points r = n"
    "pr_doctype r = dt" "pr_ref r = ref" "pr_pending r = pend" "pr_expires r = ex" "\<not> pr_cancelled r"
  using assms by (auto simp: insert_points_def split: if_splits)

lemma post_value_rows:
  "postLoyaltyValueTx env dt i key v acc oth s = Inr s' \<Longrightarrow> cl_rows s' = cl_rows s \<and> cl_codes s' = cl_codes s"
  by (auto simp: postLoyaltyValueTx_def Let_def split: if_splits prod.splits)

lemma best_effort_rows:
  "cl_rows (best_effort (postLoyaltyValueTx env dt i key v acc oth s) s) = cl_rows s"
  "cl_codes (best_effort (postLoyaltyValueTx env dt i key v acc oth s) s) = cl_codes s"
  by (auto simp: best_effort_def split: sum.splits dest: post_value_rows)

lemma write_tier_frame:
  "cl_rows (snd (write_tier c d p s)) = cl_rows s" "cl_codes (snd (write_tier c d p s)) = cl_codes s"
  by (simp_all add: write_tier_def case_prod_beta Let_def)

lemma recompute_rows [simp]:
  "cl_rows (snd (RecomputeLoyaltyTier env c s)) = cl_rows s" "cl_codes (snd (RecomputeLoyaltyTier env c s)) = cl_codes s"
  by (simp_all add: RecomputeLoyaltyTier_def Let_def write_tier_frame split: option.split)

lemma spend_codeE:
  assumes "spend_code i c n ref s = Inr s'"
  obtains "list_ex (spendable i c n ref) (cl_codes s)" "cl_rows s' = cl_rows s" "cl_t s' = cl_t s"
    "cl_codes s' = map (\<lambda>h. if spendable i c n ref h then h\<lparr>ch_consumed := True\<rparr> else h) (cl_codes s)"
  using assms by (auto simp: spend_code_def split: if_splits)

lemma spend_approval_frame: "spend_approval i c n ref s = Inr s' \<Longrightarrow> cl_rows s' = cl_rows s \<and> cl_codes s' = cl_codes s"
  by (auto simp: spend_approval_def split: option.splits if_splits)

definition consume :: "(challenge \<Rightarrow> bool) \<Rightarrow> challenge list \<Rightarrow> challenge list" where
  "consume P codes = map (\<lambda>h. if P h then h\<lparr>ch_consumed := True\<rparr> else h) codes"

lemma authorizeE:
  assumes "authorizeLoyaltyRedemptionTx env c n ref auth s = Inr s'"
  obtains P where "cl_rows s' = cl_rows s" "cl_codes s' = consume P (cl_codes s)"
    "rq_otp (LoyaltyRedemptionRequirementFor (cl_t s) n) \<Longrightarrow>
       list_ex (spendable (ra_challenge auth) c n ref) (cl_codes s) \<and> P = spendable (ra_challenge auth) c n ref"
proof (cases "rq_otp (LoyaltyRedemptionRequirementFor (cl_t s) n)")
  case True
  with assms obtain s1 where s1: "spend_code (ra_challenge auth) c n ref s = Inr s1"
    "(if rq_approval (LoyaltyRedemptionRequirementFor (cl_t s) n) then spend_approval (ra_approval auth) c n ref s1 else Inr s1) = Inr s'"
    by (auto simp: authorizeLoyaltyRedemptionTx_def Let_def)
  from s1(2) have "cl_rows s' = cl_rows s1" "cl_codes s' = cl_codes s1"
    by (auto split: if_splits dest: spend_approval_frame)
  with s1(1) show ?thesis
    by (intro that [of "spendable (ra_challenge auth) c n ref"]) (auto elim!: spend_codeE simp: consume_def)
next
  case False
  with assms have "cl_rows s' = cl_rows s" "cl_codes s' = cl_codes s"
    by (auto simp: authorizeLoyaltyRedemptionTx_def Let_def split: if_splits dest: spend_approval_frame)
  with False show ?thesis by (intro that [of "\<lambda>_. False"]) (auto simp: consume_def)
qed

lemma redeemE:
  assumes "RedeemLoyaltyPointsTx env c n ref auth s = Inr (v, s')"
  obtains (nothing) "n \<le> 0" "s' = s"
  | (burned) r P where "0 < n" "n \<le> GetLoyaltyBalance c s" "cl_rows s' = cl_rows s @ [r]" "pr_customer r = c" "pr_kind r = ''Burn''"
      "pr_points r = n" "pr_pending r = None" "\<not> pr_cancelled r" "cl_codes s' = consume P (cl_codes s)"
      "rq_otp (LoyaltyRedemptionRequirementFor (cl_t s) n) \<Longrightarrow>
         list_ex (spendable (ra_challenge auth) c n ref) (cl_codes s) \<and> P = spendable (ra_challenge auth) c n ref"
proof (cases "n \<le> 0")
  case True
  with assms have "s' = s" by (simp add: RedeemLoyaltyPointsTx_def)
  with True show ?thesis by (rule nothing)
next
  case False
  with assms obtain s1 where s1: "n \<le> GetLoyaltyBalance c s" "authorizeLoyaltyRedemptionTx env c n ref auth s = Inr s1"
    "insert_points c ''Burn'' n ''POSCart'' ref None None s1 = Inr s'"
    by (auto simp: RedeemLoyaltyPointsTx_def split: if_splits)
  from authorizeE [OF s1(2)] obtain P where P: "cl_rows s1 = cl_rows s" "cl_codes s1 = consume P (cl_codes s)"
    "rq_otp (LoyaltyRedemptionRequirementFor (cl_t s) n) \<Longrightarrow>
       list_ex (spendable (ra_challenge auth) c n ref) (cl_codes s) \<and> P = spendable (ra_challenge auth) c n ref" by metis
  from s1(3) show ?thesis
    by (rule insert_pointsE) (use False s1(1) P in \<open>intro burned [where P = P]; simp\<close>)
qed

section \<open>No balance below zero\<close>

definition rows_ok :: "point_row list \<Rightarrow> bool" where
  "rows_ok rows \<longleftrightarrow> (\<forall>r \<in> set rows. 0 \<le> pr_points r \<and> (pr_kind r = ''Earn'' \<or> pr_pending r = None \<and> \<not> pr_cancelled r))
     \<and> (\<forall>c. 0 \<le> held c rows)"

lemma usable_le_held:
  assumes "rows_ok (cl_rows s)"
  shows "GetLoyaltyBalance c s \<le> held c (cl_rows s)"
proof -
  have "sum_list (map signed_points (filter (usable now) rs)) \<le> sum_list (map signed_points rs)"
    if "\<forall>r \<in> set rs. 0 \<le> pr_points r \<and> (pr_kind r = ''Earn'' \<or> pr_pending r = None \<and> \<not> pr_cancelled r)" for rs now
    using that by (induction rs) (auto simp: signed_points_def usable_def split: option.splits)
  from this [of "of_customer c (cl_rows s)" "moment s"] assms show ?thesis
    by (auto simp: GetLoyaltyBalance_def held_def rows_ok_def of_customer_def)
qed

lemma rows_ok_snoc:
  assumes "rows_ok rows" "0 \<le> pr_points r" "\<not> pr_cancelled r"
    and "pr_kind r = ''Earn'' \<or> pr_pending r = None \<and> pr_points r \<le> held (pr_customer r) rows"
  shows "rows_ok (rows @ [r])"
  using assms by (auto simp: rows_ok_def signed_points_def)


lemma held_sum: "held c rows = sum_list (map (\<lambda>r. if pr_customer r = c then signed_points r else 0) rows)"
  by (induction rows) (auto simp: held_def of_customer_def)

lemma mark_pendingE:
  obtains "mark_pending c ref u rows = rows"
  | i where "i < length rows" "pr_kind (rows ! i) = ''Earn''" "pr_customer (rows ! i) = c"
      "mark_pending c ref u rows = rows[i := (rows ! i)\<lparr>pr_pending := Some u\<rparr>]"
proof (cases "filter (\<lambda>i. pr_customer (rows ! i) = c \<and> pr_kind (rows ! i) = ''Earn'' \<and> pr_doctype (rows ! i) = ''POSCart''
    \<and> pr_ref (rows ! i) = ref) [0..< length rows]" rule: rev_cases)
  case Nil
  with that show ?thesis by (simp add: mark_pending_def)
next
  case (snoc before i)
  then have "i \<in> set (filter (\<lambda>i. pr_customer (rows ! i) = c \<and> pr_kind (rows ! i) = ''Earn'' \<and> pr_doctype (rows ! i) = ''POSCart''
    \<and> pr_ref (rows ! i) = ref) [0..< length rows])" by simp
  then have i: "i < length rows" "pr_kind (rows ! i) = ''Earn''" "pr_customer (rows ! i) = c" by simp_all
  have "mark_pending c ref u rows = rows[i := (rows ! i)\<lparr>pr_pending := Some u\<rparr>]"
    using snoc by (cases before) (auto simp: mark_pending_def Let_def)
  with i show ?thesis by (rule that(2))
qed

lemma mark_pending_ok:
  assumes "rows_ok rows"
  shows "rows_ok (mark_pending c ref u rows)"
proof (cases rule: mark_pendingE [of c ref u rows])
  case 1
  with assms show ?thesis by simp
next
  case (2 i)
  have "held b (mark_pending c ref u rows) = held b rows" for b
  proof -
    let ?f = "\<lambda>r. if pr_customer r = b then signed_points r else 0"
    have "?f ((rows ! i)\<lparr>pr_pending := Some u\<rparr>) = map ?f rows ! i" using 2(1) by (simp add: signed_points_def)
    then have "map ?f (mark_pending c ref u rows) = map ?f rows"
      by (simp only: 2(4) map_update list_update_id)
    then show ?thesis by (simp only: held_sum)
  qed
  moreover have "set (mark_pending c ref u rows) \<subseteq> insert ((rows ! i)\<lparr>pr_pending := Some u\<rparr>) (set rows)"
    by (simp add: 2(4) set_update_subset_insert)
  moreover have "rows ! i \<in> set rows" using 2(1) by simp
  ultimately show ?thesis using assms 2(2) unfolding rows_ok_def by fastforce
qed

lemma earn_ok:
  assumes "rows_ok (cl_rows s)" "insert_points c ''Earn'' n dt ref ex pend s = Inr s'" "0 \<le> n"
  shows "rows_ok (cl_rows s')"
  using assms(2) by (rule insert_pointsE) (use assms(1,3) in \<open>simp add: rows_ok_snoc\<close>)

lemma redeem_ok:
  assumes "rows_ok (cl_rows s)" "RedeemLoyaltyPointsTx env c n ref auth s = Inr (v, s')"
  shows "rows_ok (cl_rows s')"
  using assms(2)
proof (cases rule: redeemE)
  case nothing
  with assms(1) show ?thesis by simp
next
  case (burned r P)
  have "n \<le> held c (cl_rows s)" using burned(2) usable_le_held [OF assms(1), of c] by simp
  then show ?thesis using burned assms(1) by (auto intro!: rows_ok_snoc)
qed


lemma expire_ok:
  assumes "rows_ok (cl_rows s)" "n \<le> held c (cl_rows s)"
  shows "rows_ok (cl_rows (expire_points env s (c, n)))"
    "b \<noteq> c \<Longrightarrow> held b (cl_rows (expire_points env s (c, n))) = held b (cl_rows s)"
proof -
  consider "expire_points env s (c, n) = s"
    | r where "0 < n" "cl_rows (expire_points env s (c, n)) = cl_rows s @ [r]" "pr_customer r = c" "pr_points r = n"
        "pr_pending r = None" "\<not> pr_cancelled r"
  proof (cases "n \<le> 0")
    case True
    then show ?thesis by (intro that(1)) (simp add: expire_points_def)
  next
    case n: False
    show ?thesis
    proof (cases "insert_points c ''Burn'' n loyaltyExpiryReferenceDoctype [] None None s")
      case (Inl e)
      with n show ?thesis by (intro that(1)) (simp add: expire_points_def)
    next
      case (Inr s1)
      then have "cl_rows (expire_points env s (c, n)) = cl_rows s1"
        using n by (simp add: expire_points_def Let_def best_effort_rows)
      with Inr n show ?thesis by (auto elim!: insert_pointsE intro!: that(2))
    qed
  qed
  note cases = this
  from cases assms show "rows_ok (cl_rows (expire_points env s (c, n)))"
    by cases (auto intro!: rows_ok_snoc)
  from cases show "held b (cl_rows (expire_points env s (c, n))) = held b (cl_rows s)" if "b \<noteq> c"
    by cases (use that in auto)
qed

lemma sweep_fold_ok:
  assumes "rows_ok (cl_rows s)" "distinct (map fst due)" "\<forall>(c, n) \<in> set due. n \<le> held c (cl_rows s)"
  shows "rows_ok (cl_rows (foldl (expire_points env) s due))"
  using assms
proof (induction due arbitrary: s)
  case (Cons p due)
  obtain c n where p: "p = (c, n)" by (cases p)
  have n: "n \<le> held c (cl_rows s)" using Cons.prems(3) p by simp
  have "held b (cl_rows (expire_points env s (c, n))) = held b (cl_rows s)" if "(b, m) \<in> set due" for b m
  proof (rule expire_ok(2) [OF Cons.prems(1) n])
    show "b \<noteq> c" using that Cons.prems(2) p by force
  qed
  then have "\<forall>(b, m) \<in> set due. m \<le> held b (cl_rows (expire_points env s (c, n)))"
    using Cons.prems(3) p by fastforce
  with Cons show ?case by (simp add: p expire_ok(1) [OF Cons.prems(1) n])
qed simp

lemma sweep_ok:
  assumes "rows_ok (cl_rows s)"
  shows "rows_ok (cl_rows (sweepLoyaltyExpiryForSchema env s))"
  unfolding sweepLoyaltyExpiryForSchema_def
  by (rule sweep_fold_ok) (use assms in \<open>auto simp: to_expire_def held_def comp_def\<close>)

lemma adjust_ok:
  assumes "rows_ok (cl_rows s)" "postLoyaltyAdjustment env i s = Inr s'"
  shows "rows_ok (cl_rows s')"
proof (cases "find_doc (cl_t s) loyaltyAdjustmentDoctype i")
  case None
  with assms(2) show ?thesis by (simp add: postLoyaltyAdjustment_def)
next
  case (Some d)
  show ?thesis
  proof (cases "d_status d = ''Posted''")
    case True
    with assms Some show ?thesis by (simp add: postLoyaltyAdjustment_def)
  next
    case False
    define c where "c = strField (d_data d) ''customer_id''"
    define n where "n = go_trunc (numFromInterface (jget (d_data d) ''points''))"
    note unfolded = assms(2) [unfolded postLoyaltyAdjustment_def Some option.case Let_def,
        folded c_def n_def]
    show ?thesis
    proof (cases "n > 0")
      case True
      from unfolded False True obtain s1 where
        "insert_points c ''Earn'' n loyaltyAdjustmentDoctype i
           (Some (in_days (GetSettingInt (cl_t s) ''loyalty.point_expiry_days'') s)) None s = Inr s1"
        "cl_rows s' = cl_rows s1"
        by (auto simp: post_value_rows)
      with True assms(1) earn_ok show ?thesis by auto
    next
      case n: False
      from unfolded False n have le: "- n \<le> GetLoyaltyBalance c s" by (auto split: if_splits)
      from unfolded False n le obtain s1 where
        "insert_points c LoyaltyTxnAdjustment (- n) loyaltyAdjustmentDoctype i None None s = Inr s1"
        "cl_rows s' = cl_rows s1"
        by (auto simp: post_value_rows)
      moreover have "- n \<le> held c (cl_rows s)" using le usable_le_held [OF assms(1), of c] by simp
      ultimately show ?thesis using n assms(1) by (auto elim!: insert_pointsE intro!: rows_ok_snoc)
    qed
  qed
qed


lemma kept_ok:
  assumes "rows_ok (cl_rows s)" "\<And>s'. r = Inr s' \<Longrightarrow> rows_ok (cl_rows s')"
  shows "rows_ok (cl_rows (kept s r))"
  using assms by (auto simp: kept_def split: sum.split)

lemma kept_snd_ok:
  assumes "rows_ok (cl_rows s)" "\<And>x s'. r = Inr (x, s') \<Longrightarrow> rows_ok (cl_rows s')"
  shows "rows_ok (cl_rows (kept_snd s r))"
  using assms by (auto simp: kept_snd_def split: sum.split)

lemma earning_ok:
  assumes "rows_ok (cl_rows s)" "EarnLoyaltyPoints env c net ref s = Inr s'"
  shows "rows_ok (cl_rows s')"
proof (cases "IsWalkInCustomer c (cl_t s) \<or> earned_points net c s \<le> 0")
  case True
  with assms show ?thesis by (simp add: EarnLoyaltyPoints_def)
next
  case False
  let ?ex = "Some (in_days (GetSettingInt (cl_t s) ''loyalty.point_expiry_days'') s)"
  from False assms(2) obtain s1 where s1: "insert_points c ''Earn'' (earned_points net c s) ''POSCart'' ref ?ex None s = Inr s1"
    by (cases "insert_points c ''Earn'' (earned_points net c s) ''POSCart'' ref ?ex None s") (auto simp: EarnLoyaltyPoints_def Let_def)
  have ok: "rows_ok (cl_rows s1)" using earn_ok [OF assms(1) s1] False by simp
  have "cl_rows s' = cl_rows s1 \<or> (\<exists>u. cl_rows s' = mark_pending c ref u (cl_rows s1))"
    using assms(2) False s1 by (auto simp: EarnLoyaltyPoints_def Let_def best_effort_rows split: option.splits if_splits)
  with ok show ?thesis by (auto intro: mark_pending_ok)
qed

lemma restore_ok:
  assumes "rows_ok (cl_rows s)" "restoreRedeemedPointsTx c cart refund n s = Inr s'"
  shows "rows_ok (cl_rows s')"
  using assms earn_ok [OF assms(1)] by (auto simp: restoreRedeemedPointsTx_def Let_def split: if_splits)

lemma give_back_ok:
  assumes "rows_ok (cl_rows s)" "ReverseLoyaltyRedemption c n ref s = Inr s'"
  shows "rows_ok (cl_rows s')"
  using assms earn_ok [OF assms(1)] by (auto simp: ReverseLoyaltyRedemption_def split: if_splits)

lemma verify_frame:
  "verifyLoyaltyOTPChallenge env i code s = Inr (h, s') \<Longrightarrow> cl_rows s' = cl_rows s \<and> cl_t s' = cl_t s
     \<and> find (\<lambda>h. ch_id h = i) (cl_codes s) = Some h \<and> \<not> ch_verified h
     \<and> cl_codes s' = map (\<lambda>x. if ch_id x = i then x\<lparr>ch_verified := True\<rparr> else x) (cl_codes s)"
  by (auto simp: verifyLoyaltyOTPChallenge_def split: option.splits if_splits)

lemma send_code_frame:
  "InitiateSecureLoyaltyRedemption env i code c n ref usr s = Inr (x, s') \<Longrightarrow> cl_rows s' = cl_rows s \<and> cl_t s' = cl_t s
     \<and> i \<notin> ch_id ` set (cl_codes s) \<and> (\<exists>h. cl_codes s' = cl_codes s @ [h] \<and> ch_id h = i \<and> \<not> ch_consumed h)"
  by (auto simp: InitiateSecureLoyaltyRedemption_def split: if_splits)

text \<open>The three ways into a redemption come through \<open>RedeemLoyaltyPointsTx\<close>, after at most a code check.\<close>

lemma redeem_by_codeE:
  obtains "fst (VerifyAndRedeemLoyaltyOTP env i challenge code s) = s"
  | h s1 s2 where "verifyLoyaltyOTPChallenge env challenge code s = Inr (h, s1)"
      "cl_rows s2 = cl_rows s1" "cl_codes s2 = cl_codes s1" "fst (VerifyAndRedeemLoyaltyOTP env i challenge code s) = s2"
  | h s1 v s2 where "verifyLoyaltyOTPChallenge env challenge code s = Inr (h, s1)"
      "RedeemLoyaltyPointsTx env (ch_customer h) (ch_points h) (ch_ref h) \<lparr>ra_challenge = challenge, ra_approval = []\<rparr> s1 = Inr (v, s2)"
      "fst (VerifyAndRedeemLoyaltyOTP env i challenge code s) = s2"
proof (cases "verifyLoyaltyOTPChallenge env challenge code s")
  case (Inl e)
  then show ?thesis by (intro that(1)) (simp add: VerifyAndRedeemLoyaltyOTP_def)
next
  case (Inr p)
  obtain h s1 where p: "p = (h, s1)" by (cases p)
  note v = Inr [unfolded p]
  show ?thesis
  proof (cases "requiredApproverRole (cl_t s1) ''LoyaltyRedemptionRequest'' (fl (of_int (wrap64 (ch_points h * redemptionValuePerPointFor (cl_t s1))))) = []")
    case role: True
    show ?thesis
    proof (cases "RedeemLoyaltyPointsTx env (ch_customer h) (ch_points h) (ch_ref h) \<lparr>ra_challenge = challenge, ra_approval = []\<rparr> s1")
      case (Inl e)
      with v role show ?thesis by (intro that(2) [OF v]) (simp_all add: VerifyAndRedeemLoyaltyOTP_def)
    next
      case (Inr q)
      then obtain w s2 where q: "RedeemLoyaltyPointsTx env (ch_customer h) (ch_points h) (ch_ref h)
          \<lparr>ra_challenge = challenge, ra_approval = []\<rparr> s1 = Inr (w, s2)" by (cases q) auto
      with v role show ?thesis by (intro that(3) [OF v q]) (simp add: VerifyAndRedeemLoyaltyOTP_def)
    qed
  next
    case False
    then show ?thesis
      by (intro that(2) [OF v _ _ refl]) (simp_all add: VerifyAndRedeemLoyaltyOTP_def v Let_def)
  qed
qed

lemma approved_redemptionE:
  obtains "executeApprovedLoyaltyRedemption env i data s = s"
  | v c n ref where "RedeemLoyaltyPointsTx env c n ref \<lparr>ra_challenge = strField data ''challenge_id'', ra_approval = i\<rparr> s
      = Inr (v, executeApprovedLoyaltyRedemption env i data s)"
proof (cases "RedeemLoyaltyPointsTx env (jstr data ''customer_id'') (go_trunc (numFromInterface (jget data ''points''))) (jstr data ''reference_id'')
    \<lparr>ra_challenge = strField data ''challenge_id'', ra_approval = i\<rparr> s")
  case (Inl e)
  then show ?thesis by (intro that(1)) (simp add: executeApprovedLoyaltyRedemption_def)
next
  case (Inr p)
  then show ?thesis
    by (cases p; cases "strField data ''channel'' = ''POS''")
      (auto simp: executeApprovedLoyaltyRedemption_def intro: that)
qed

lemma raise_frame:
  "cl_rows (fst (raise_till_request env i c n v cart loc reason usr role s)) = cl_rows s"
  "cl_codes (fst (raise_till_request env i c n v cart loc reason usr role s)) = cl_codes s"
  by (simp_all add: raise_till_request_def Let_def split: option.split sum.split)

lemma ask_tillE:
  obtains (request) s1 where "cl_rows s1 = cl_rows s" "cl_codes s1 = cl_codes s"
      "fst (StartTillLoyaltyRedemption env i h code c n cart loc reason usr role s) = s1"
  | (sent) s1 x s2 where "cl_rows s1 = cl_rows s" "cl_codes s1 = cl_codes s"
      "InitiateSecureLoyaltyRedemption env h code c n cart usr s1 = Inr (x, s2)"
      "fst (StartTillLoyaltyRedemption env i h code c n cart loc reason usr role s) = s2"
proof -
  define req where "req = LoyaltyRedemptionRequirementFor (cl_t s) n"
  define p where "p = (if rq_approval req then raise_till_request env i c n (rq_value req) cart loc reason usr role s else (s, Inr ([], [])))"
  obtain s1 asked where p2: "p = (s1, asked)" by (cases p)
  have "cl_rows (fst p) = cl_rows s" "cl_codes (fst p) = cl_codes s" by (simp_all add: p_def raise_frame)
  then have s1: "cl_rows s1 = cl_rows s" "cl_codes s1 = cl_codes s" by (simp_all add: p2)
  have "fst (StartTillLoyaltyRedemption env i h code c n cart loc reason usr role s) = s
    \<or> fst (StartTillLoyaltyRedemption env i h code c n cart loc reason usr role s) = s1
    \<or> (\<exists>x. InitiateSecureLoyaltyRedemption env h code c n cart usr s1
          = Inr (x, fst (StartTillLoyaltyRedemption env i h code c n cart loc reason usr role s)))"
    unfolding StartTillLoyaltyRedemption_def Let_def req_def [symmetric] p_def [symmetric] p2
    by (simp split: sum.split prod.split)
  then show ?thesis
  proof (elim disjE exE)
    fix x assume "InitiateSecureLoyaltyRedemption env h code c n cart usr s1
      = Inr (x, fst (StartTillLoyaltyRedemption env i h code c n cart loc reason usr role s))"
    with s1 show ?thesis by (rule sent) (rule refl)
  qed (use s1 request in blast)+
qed

lemma ask_adjustmentE:
  obtains (asked) s1 where "cl_rows s1 = cl_rows s" "cl_codes s1 = cl_codes s"
      "fst (RequestLoyaltyAdjustment env i c n reason remark usr role s) = s1"
  | (posted) s1 s2 where "cl_rows s1 = cl_rows s" "cl_codes s1 = cl_codes s" "postLoyaltyAdjustment env i s1 = Inr s2"
      "fst (RequestLoyaltyAdjustment env i c n reason remark usr role s) = s2"
proof -
  have store: "(cl_rows (fst (store_adjustment env i b n v rs remark usr role s)) = cl_rows s
        \<and> cl_codes (fst (store_adjustment env i b n v rs remark usr role s)) = cl_codes s)
     \<or> (\<exists>s1. cl_rows s1 = cl_rows s \<and> cl_codes s1 = cl_codes s
        \<and> postLoyaltyAdjustment env i s1 = Inr (fst (store_adjustment env i b n v rs remark usr role s)))" for b v rs
  proof (cases "requiredApproverRole (cl_t s) loyaltyAdjustmentDoctype v = [] \<and> find_doc (cl_t s) loyaltyAdjustmentDoctype i = None")
    case True
    define t1 where "t1 = insert_doc (new_doc (cl_t s) loyaltyAdjustmentDoctype i
             [(''code'', JStr i), (''customer_id'', JStr b), (''points'', JNum (of_int n)), (''points_value'', JNum v),
              (''reason_code'', JStr rs), (''note'', JStr (trim remark)), (''status'', JStr ''Draft'')] ''Draft'' usr) (cl_t s)"
    show ?thesis
    proof (cases "postLoyaltyAdjustment env i (s\<lparr>cl_t := t1\<rparr>)")
      case (Inl e)
      with True show ?thesis unfolding store_adjustment_def Let_def t1_def [symmetric] by simp
    next
      case (Inr s2)
      then have "postLoyaltyAdjustment env i (s\<lparr>cl_t := t1\<rparr>) = Inr (fst (store_adjustment env i b n v rs remark usr role s))"
        using True unfolding store_adjustment_def Let_def t1_def [symmetric] by simp
      then show ?thesis by (intro disjI2 exI [of _ "s\<lparr>cl_t := t1\<rparr>"]) simp
    qed
  next
    case False
    then show ?thesis by (auto simp: store_adjustment_def Let_def split: sum.split)
  qed
  show ?thesis
  proof (cases "fst (RequestLoyaltyAdjustment env i c n reason remark usr role s) = s")
    case True
    then show ?thesis by (intro asked) simp_all
  next
    case False
    then obtain b v rs where "fst (RequestLoyaltyAdjustment env i c n reason remark usr role s) = fst (store_adjustment env i b n v rs remark usr role s)"
      unfolding RequestLoyaltyAdjustment_def Let_def by (auto split: sum.splits if_splits)
    with store [of b v rs] asked posted show ?thesis by auto
  qed
qed

lemma club_step_ok:
  assumes "rows_ok (cl_rows s)" "\<not> takes_earned_back e"
  shows "rows_ok (cl_rows (club_step env e s))"
proof (cases e)
  case (RedeemByCode i challenge code)
  show ?thesis
  proof (cases rule: redeem_by_codeE [of env i challenge code s])
    case (3 h s1 v s2)
    have "rows_ok (cl_rows s1)" using verify_frame [OF 3(1)] assms(1) by simp
    from redeem_ok [OF this 3(2)] show ?thesis using 3(3) RedeemByCode by simp
  next
    case 1
    then show ?thesis using assms(1) RedeemByCode by simp
  next
    case (2 h s1 s2)
    then show ?thesis using verify_frame [OF 2(1)] assms(1) RedeemByCode by simp
  qed
next
  case (RequestApproved i data)
  show ?thesis
    by (cases rule: approved_redemptionE [of env i data s]) (use RequestApproved assms(1) redeem_ok in auto)
next
  case (Redeem c n ref auth)
  then show ?thesis using assms(1) by (auto intro: kept_snd_ok redeem_ok)
next
  case (GiveBack c n ref)
  then show ?thesis using assms(1) by (auto intro: kept_ok give_back_ok)
next
  case (Earn c net ref)
  then show ?thesis using assms(1) by (auto intro: kept_ok earning_ok)
next
  case (SendCode i code c n ref usr)
  then show ?thesis using assms(1) by (auto intro!: kept_snd_ok dest: send_code_frame)
next
  case (EnterCode i code)
  then show ?thesis using assms(1) by (auto intro!: kept_snd_ok dest: verify_frame)
next
  case (RefundEarned c cart refund money)
  with assms(2) show ?thesis by simp
next
  case (RestoreRedeemed c cart refund n)
  then show ?thesis using assms(1) by (auto intro: kept_ok restore_ok)
next
  case Expire
  then show ?thesis using assms(1) by (simp add: sweep_ok)
next
  case (Adjust i)
  then show ?thesis using assms(1) by (auto intro: kept_ok adjust_ok)
next
  case (Elsewhere t)
  then show ?thesis using assms(1) by simp
next
  case (AskTill i h code c n cart loc reason usr role)
  show ?thesis
    by (cases rule: ask_tillE [where s = s and env = env and i = i and h = h and code = code and c = c and n = n and cart = cart
          and loc = loc and reason = reason and usr = usr and role = role]) (use AskTill assms(1) send_code_frame in auto)
next
  case (AskAdjustment i c n reason remark usr role)
  show ?thesis
  proof (cases rule: ask_adjustmentE [where s = s and env = env and i = i and c = c and n = n and reason = reason and remark = remark
        and usr = usr and role = role])
    case (posted s1 s2)
    with assms(1) have "rows_ok (cl_rows s1)" by simp
    from adjust_ok [OF this posted(3)] posted(4) AskAdjustment show ?thesis by simp
  qed (use AskAdjustment assms(1) in auto)
qed

lemma club_history_ok:
  assumes "rows_ok (cl_rows s)" "\<not> list_ex takes_earned_back es"
  shows "rows_ok (cl_rows (club_history env es s))"
  using assms unfolding club_history_def
  by (induction es arbitrary: s) (auto simp: club_step_ok)


section \<open>The report reconciles\<close>

lemma movement_of_row:
  "signed_points r =
     (if loyaltyMovementSQL r \<in> {''earned'', ''restored'', ''adjusted_in'', ''other_in'', ''redeemed_back''} then pr_points r else - pr_points r)"
  "loyaltyMovementSQL r \<in> {''restored'', ''adjusted_in'', ''redeemed_back'', ''earned'', ''other_in'', ''expired'', ''redeemed'', ''reversed'',
     ''adjusted_out'', ''other''}"
  by (simp_all add: signed_points_def loyaltyMovementSQL_def)

lemma moved_Cons:
  "moved lo hi (r # rows) k = (if lo \<le> pr_created r \<and> pr_created r < hi \<and> loyaltyMovementSQL r = k then pr_points r else 0) + moved lo hi rows k"
  by (simp add: moved_def)

lemma signed_before_Cons: "signed_before m (r # rows) = (if pr_created r < m then signed_points r else 0) + signed_before m rows"
  by (simp add: signed_before_def)

lemma moves_are_the_difference:
  assumes "lo \<le> hi"
  shows "signed_before lo rows + moved lo hi rows ''other_in'' - moved lo hi rows ''other'' + moved lo hi rows ''earned''
     + moved lo hi rows ''restored'' + moved lo hi rows ''adjusted_in'' - (moved lo hi rows ''redeemed'' - moved lo hi rows ''redeemed_back'')
     - moved lo hi rows ''reversed'' - moved lo hi rows ''adjusted_out'' - moved lo hi rows ''expired'' = signed_before hi rows"
proof (induction rows)
  case (Cons r rows)
  consider "pr_created r < lo" | "lo \<le> pr_created r" "pr_created r < hi" | "hi \<le> pr_created r" by linarith
  then show ?case
  proof cases
    case 2
    with Cons movement_of_row [of r] show ?thesis
      by (simp only: moved_Cons signed_before_Cons) auto
  qed (use Cons assms in \<open>simp_all add: moved_Cons signed_before_Cons\<close>)
qed (simp add: moved_def signed_before_def)


section \<open>A code authorises one redemption\<close>

definition code_used :: "string \<Rightarrow> challenge list \<Rightarrow> bool" where
  "code_used i codes \<longleftrightarrow> distinct (map ch_id codes) \<and> list_ex (\<lambda>h. ch_id h = i \<and> ch_consumed h) codes"

lemma code_used_map:
  assumes "distinct (map ch_id codes)" "\<And>h. ch_id (f h) = ch_id h" "h \<in> set codes" "ch_id h = i" "ch_consumed (f h)"
  shows "code_used i (map f codes)"
proof -
  have "map ch_id (map f codes) = map ch_id codes" using assms(2) by simp
  moreover have "list_ex (\<lambda>h. ch_id h = i \<and> ch_consumed h) (map f codes)"
    using assms(2-5) by (auto simp: list_ex_iff intro!: bexI [of _ h])
  ultimately show ?thesis using assms(1) by (simp only: code_used_def simp_thms)
qed

lemma code_used_kept:
  assumes "code_used i codes" "\<And>h. ch_id (f h) = ch_id h" "\<And>h. ch_consumed h \<Longrightarrow> ch_consumed (f h)"
  shows "code_used i (map f codes)"
proof -
  from assms(1) obtain h where "h \<in> set codes" "ch_id h = i" "ch_consumed h" by (auto simp: code_used_def list_ex_iff)
  with assms show ?thesis by (intro code_used_map [of codes f h]) (auto simp: code_used_def)
qed

lemma code_used_consume: "code_used i codes \<Longrightarrow> code_used i (consume P codes)"
  unfolding consume_def by (rule code_used_kept) auto

lemma code_used_verify: "code_used i codes \<Longrightarrow> code_used i (map (\<lambda>x. if ch_id x = j then x\<lparr>ch_verified := True\<rparr> else x) codes)"
  by (rule code_used_kept) auto

lemma code_used_snoc: "code_used i codes \<Longrightarrow> ch_id h \<notin> ch_id ` set codes \<Longrightarrow> code_used i (codes @ [h])"
  by (auto simp: code_used_def list_ex_iff)

lemma used_code_not_spendable:
  assumes "code_used i codes"
  shows "\<not> list_ex (spendable i c n ref) codes"
proof
  assume "list_ex (spendable i c n ref) codes"
  then obtain h where h: "h \<in> set codes" "ch_id h = i" "\<not> ch_consumed h" by (auto simp: list_ex_iff spendable_def)
  from assms obtain g where g: "g \<in> set codes" "ch_id g = i" "ch_consumed g" by (auto simp: code_used_def list_ex_iff)
  from assms h(1,2) g(1,2) have "h = g" by (auto simp: code_used_def distinct_map inj_on_def)
  with h g show False by simp
qed

lemma spent_code_used:
  assumes "distinct (map ch_id codes)" "list_ex (spendable i c n ref) codes"
  shows "code_used i (consume (spendable i c n ref) codes)"
proof -
  from assms(2) obtain h where "h \<in> set codes" "spendable i c n ref h" by (auto simp: list_ex_iff)
  with assms(1) show ?thesis
    unfolding consume_def by (intro code_used_map [of codes _ h]) (auto simp: spendable_def)
qed

lemma insert_points_codes: "insert_points c kind n dt ref ex pend s = Inr s' \<Longrightarrow> cl_codes s' = cl_codes s"
  by (erule insert_pointsE) simp

lemma redeem_codes: "RedeemLoyaltyPointsTx env c n ref auth s = Inr (v, s') \<Longrightarrow> \<exists>P. cl_codes s' = consume P (cl_codes s)"
  by (erule redeemE) (auto simp: consume_def intro: exI [of _ "\<lambda>_. False"])

lemma earn_codes:
  assumes "EarnLoyaltyPoints env c net ref s = Inr s'"
  shows "cl_codes s' = cl_codes s"
proof (cases "IsWalkInCustomer c (cl_t s) \<or> earned_points net c s \<le> 0")
  case True
  with assms show ?thesis by (simp add: EarnLoyaltyPoints_def)
next
  case False
  let ?ex = "Some (in_days (GetSettingInt (cl_t s) ''loyalty.point_expiry_days'') s)"
  from False assms obtain s1 where s1: "insert_points c ''Earn'' (earned_points net c s) ''POSCart'' ref ?ex None s = Inr s1"
    by (cases "insert_points c ''Earn'' (earned_points net c s) ''POSCart'' ref ?ex None s") (auto simp: EarnLoyaltyPoints_def Let_def)
  have "cl_codes s' = cl_codes s1"
    using assms False s1 by (auto simp: EarnLoyaltyPoints_def Let_def best_effort_rows split: option.splits if_splits)
  with insert_points_codes [OF s1] show ?thesis by simp
qed

lemma expire_codes: "cl_codes (expire_points env s p) = cl_codes s"
  by (auto simp: expire_points_def Let_def best_effort_rows split: prod.splits sum.splits dest: insert_points_codes)

lemma sweep_codes: "cl_codes (sweepLoyaltyExpiryForSchema env s) = cl_codes s"
proof -
  have "cl_codes (foldl (expire_points env) s due) = cl_codes s" for due
    by (induction due arbitrary: s) (simp_all add: expire_codes)
  then show ?thesis by (simp add: sweepLoyaltyExpiryForSchema_def)
qed


lemma adjust_codes:
  assumes "postLoyaltyAdjustment env i s = Inr s'"
  shows "cl_codes s' = cl_codes s"
  using assms unfolding postLoyaltyAdjustment_def Let_def
  by (auto simp: post_value_rows insert_points_codes split: option.splits if_splits)

lemma reverse_codes: "reverseEarnedPointsTx c cart refund money s = Inr (v, s') \<Longrightarrow> cl_codes s' = cl_codes s"
  by (auto simp: reverseEarnedPointsTx_def Let_def insert_points_codes split: if_splits)

lemma restore_codes: "restoreRedeemedPointsTx c cart refund n s = Inr s' \<Longrightarrow> cl_codes s' = cl_codes s"
  by (auto simp: restoreRedeemedPointsTx_def Let_def insert_points_codes split: if_splits)

lemma give_back_codes: "ReverseLoyaltyRedemption c n ref s = Inr s' \<Longrightarrow> cl_codes s' = cl_codes s"
  by (auto simp: ReverseLoyaltyRedemption_def insert_points_codes split: if_splits)

lemma kept_codes:
  assumes "code_used i (cl_codes s)" "\<And>s'. r = Inr s' \<Longrightarrow> cl_codes s' = cl_codes s"
  shows "code_used i (cl_codes (kept s r))"
  using assms by (auto simp: kept_def split: sum.split)

lemma kept_snd_codes:
  assumes "code_used i (cl_codes s)" "\<And>x s'. r = Inr (x, s') \<Longrightarrow> code_used i (cl_codes s')"
  shows "code_used i (cl_codes (kept_snd s r))"
  using assms by (auto simp: kept_snd_def split: sum.split)

lemma redeem_code_used:
  assumes "code_used i (cl_codes s)" "RedeemLoyaltyPointsTx env c n ref auth s = Inr (v, s')"
  shows "code_used i (cl_codes s')"
  using redeem_codes [OF assms(2)] assms(1) by (auto simp: code_used_consume)

lemma club_step_code_used:
  assumes "code_used i (cl_codes s)"
  shows "code_used i (cl_codes (club_step env e s))"
proof (cases e)
  case (Redeem c n ref auth)
  then show ?thesis using assms by (auto intro: kept_snd_codes redeem_code_used)
next
  case (GiveBack c n ref)
  then show ?thesis using assms by (auto intro: kept_codes give_back_codes)
next
  case (Earn c net ref)
  then show ?thesis using assms by (auto intro: kept_codes earn_codes)
next
  case (SendCode j code c n ref usr)
  then show ?thesis using assms by (auto intro!: kept_snd_codes dest!: send_code_frame simp: code_used_snoc)
next
  case (EnterCode j code)
  then show ?thesis using assms by (auto intro!: kept_snd_codes dest!: verify_frame simp: code_used_verify)
next
  case (RedeemByCode j challenge code)
  show ?thesis
  proof (cases rule: redeem_by_codeE [of env j challenge code s])
    case 1
    then show ?thesis using assms RedeemByCode by simp
  next
    case (2 h s1 s2)
    then show ?thesis using verify_frame [OF 2(1)] assms RedeemByCode by (simp add: code_used_verify)
  next
    case (3 h s1 v s2)
    have "code_used i (cl_codes s1)" using verify_frame [OF 3(1)] assms by (simp add: code_used_verify)
    from redeem_code_used [OF this 3(2)] show ?thesis using 3(3) RedeemByCode by simp
  qed
next
  case (RequestApproved j data)
  show ?thesis
    by (cases rule: approved_redemptionE [of env j data s]) (use RequestApproved assms redeem_code_used in auto)
next
  case (RefundEarned c cart refund money)
  then show ?thesis using assms by (auto intro!: kept_snd_codes dest!: reverse_codes)
next
  case (RestoreRedeemed c cart refund n)
  then show ?thesis using assms by (auto intro: kept_codes restore_codes)
next
  case Expire
  then show ?thesis using assms by (simp add: sweep_codes)
next
  case (Adjust j)
  then show ?thesis using assms by (auto intro: kept_codes adjust_codes)
next
  case (Elsewhere t)
  then show ?thesis using assms by simp
next
  case (AskTill j h code c n cart loc reason usr role)
  show ?thesis
  proof (cases rule: ask_tillE [where s = s and env = env and i = j and h = h and code = code and c = c and n = n and cart = cart
          and loc = loc and reason = reason and usr = usr and role = role])
    case (sent s1 x s2)
    with assms send_code_frame [OF sent(3)] AskTill show ?thesis by (auto simp: code_used_snoc)
  qed (use AskTill assms in auto)
next
  case (AskAdjustment j c n reason remark usr role)
  show ?thesis
    by (cases rule: ask_adjustmentE [where s = s and env = env and i = j and c = c and n = n and reason = reason and remark = remark
          and usr = usr and role = role]) (use AskAdjustment assms adjust_codes in auto)
qed

lemma club_history_code_used: "code_used i (cl_codes s) \<Longrightarrow> code_used i (cl_codes (club_history env es s))"
  unfolding club_history_def by (induction es arbitrary: s) (auto simp: club_step_code_used)


section \<open>Properties\<close>

definition club_demo_env :: club_env where
  "club_demo_env = \<lparr>ce_posting = plain_env, ce_approval = no_env, ce_day = (\<lambda>_. []), ce_day_start = (\<lambda>_. 0), ce_parse = (\<lambda>_. None),
     ce_hash = id, ce_reason = (\<lambda>_ _ _. Inr ())\<rparr>"

definition point_lot :: "string \<Rightarrow> string \<Rightarrow> string \<Rightarrow> int \<Rightarrow> int option \<Rightarrow> point_row" where
  "point_lot c kind ref n ex = \<lparr>pr_customer = c, pr_kind = kind, pr_points = n, pr_doctype = ''POSCart'', pr_ref = ref, pr_created = 0,
     pr_expires = ex, pr_pending = None, pr_cancelled = False\<rparr>"

definition new_club :: club where
  "new_club = \<lparr>cl_t = empty_tenant\<lparr>t_now := 100, t_settings := [(''loyalty.redemption_requires_otp'', ''true'')]\<rparr>,
     cl_rows = [], cl_codes = [], cl_tiers = []\<rparr>"



text \<open>
  C17: where redemptions need a one-time code, a redemption that burned points spent a
  challenge that was verified for exactly that customer, points and reference, and whatever
  happens afterwards no redemption naming that challenge succeeds again.
\<close>

theorem code_spent_once:
  assumes "distinct (map ch_id (cl_codes s))" and "RedeemLoyaltyPointsTx env c n ref auth s = Inr (v, s1)" and "0 < n"
    and "rq_otp (LoyaltyRedemptionRequirementFor (cl_t s) n)"
    and "0 < m" and "rq_otp (LoyaltyRedemptionRequirementFor (cl_t (club_history env' es s1)) m)"
    and "ra_challenge auth' = ra_challenge auth"
  shows "list_ex (spendable (ra_challenge auth) c n ref) (cl_codes s)
    \<and> (\<exists>e. RedeemLoyaltyPointsTx env'' c' m ref' auth' (club_history env' es s1) = Inl e)"
proof -
  let ?i = "ra_challenge auth"
  from assms(2,3,4) obtain P where P: "cl_codes s1 = consume P (cl_codes s)"
    "list_ex (spendable ?i c n ref) (cl_codes s)" "P = spendable ?i c n ref"
    by (auto elim!: redeemE)
  have "code_used ?i (cl_codes s1)" using spent_code_used [OF assms(1) P(2)] P(1,3) by simp
  then have "code_used ?i (cl_codes (club_history env' es s1))" by (rule club_history_code_used)
  then have no: "\<not> list_ex (spendable ?i c' m ref') (cl_codes (club_history env' es s1))" by (rule used_code_not_spendable)
  have "\<exists>e. RedeemLoyaltyPointsTx env'' c' m ref' auth' (club_history env' es s1) = Inl e"
  proof (cases "RedeemLoyaltyPointsTx env'' c' m ref' auth' (club_history env' es s1)")
    case (Inr p)
    then obtain w s3 where "RedeemLoyaltyPointsTx env'' c' m ref' auth' (club_history env' es s1) = Inr (w, s3)" by (cases p) auto
    then show ?thesis using no assms(5,6,7) by (auto elim!: redeemE)
  qed blast
  with P(2) show ?thesis by simp
qed

text \<open>A customer with 40 points and a verified code for 30 of them on bill B2.\<close>

definition coded_club :: club where
  "coded_club = \<lparr>cl_t = empty_tenant\<lparr>t_now := 100, t_settings := [(''loyalty.redemption_requires_otp'', ''true''),
       (''loyalty.redemption_value_per_point'', ''1''), (''security.loyalty_max_redemptions_per_day'', ''5'')]\<rparr>,
     cl_rows = [point_lot ''C1'' ''Earn'' ''B1'' 40 None],
     cl_codes = [\<lparr>ch_id = ''H'', ch_customer = ''C1'', ch_points = 30, ch_ref = ''B2'', ch_by = ''till'', ch_hash = ''123456'', ch_expires = 400,
       ch_verified = True, ch_consumed = False\<rparr>], cl_tiers = []\<rparr>"

definition by_code :: redemption_auth where
  "by_code = \<lparr>ra_challenge = ''H'', ra_approval = []\<rparr>"

lemma coded_club_redeems: "\<exists>v s1. RedeemLoyaltyPointsTx club_demo_env ''C1'' 30 ''B2'' by_code coded_club = Inr (v, s1)
    \<and> rq_otp (LoyaltyRedemptionRequirementFor (cl_t s1) 10)"
proof -
  have no_rules: "requiredApproverRole (cl_t coded_club) dt a = []" for dt a
    by (simp add: requiredApproverRole_def coded_club_def empty_tenant_def)
  have settings: "GetSettingInt (cl_t coded_club) ''security.loyalty_max_redemptions_per_day'' = 5"
    "GetSettingBool (cl_t coded_club) ''loyalty.redemption_requires_otp''"
    by code_simp+
  have need: "rq_otp (LoyaltyRedemptionRequirementFor (cl_t coded_club) n) = (n > 0)"
    "\<not> rq_approval (LoyaltyRedemptionRequirementFor (cl_t coded_club) n)" for n
    by (simp_all add: LoyaltyRedemptionRequirementFor_def Let_def settings no_rules)
  have "GetLoyaltyBalance ''C1'' coded_club = 40" "redeemed_today club_demo_env ''C1'' coded_club = 0"
    by (simp_all add: GetLoyaltyBalance_def redeemed_today_def of_customer_def usable_def signed_points_def coded_club_def point_lot_def)
  then show ?thesis
    using need settings
    by (simp add: RedeemLoyaltyPointsTx_def authorizeLoyaltyRedemptionTx_def loyaltyVelocityCheck_def spend_code_def insert_points_def int4_def)
      (simp add: coded_club_def by_code_def spendable_def)
qed

theorem code_spent_once_witness:
  "\<exists>s1 e. RedeemLoyaltyPointsTx club_demo_env ''C1'' 10 ''B3'' by_code (club_history club_demo_env [] s1) = Inl e
    \<and> list_ex (spendable ''H'' ''C1'' 30 ''B2'') (cl_codes coded_club)"
proof -
  obtain v s1 where s1: "RedeemLoyaltyPointsTx club_demo_env ''C1'' 30 ''B2'' by_code coded_club = Inr (v, s1)"
    "rq_otp (LoyaltyRedemptionRequirementFor (cl_t s1) 10)"
    using coded_club_redeems by blast
  have otp: "rq_otp (LoyaltyRedemptionRequirementFor (cl_t coded_club) 30)" by code_simp
  have h: "cl_t (club_history club_demo_env [] s1) = cl_t s1" by (simp add: club_history_def)
  from code_spent_once [of coded_club club_demo_env "''C1''" 30 "''B2''" by_code v s1 10 club_demo_env "[]" by_code club_demo_env "''C1''" "''B3''"]
    s1 otp h
  show ?thesis by (auto simp: coded_club_def by_code_def)
qed

text \<open>
  C28: the points movement report reconciles to the ledger: when the period does not end
  before it begins, the closing balance it prints, added up from the opening balance and the
  classified movements, is the ledger's own balance at the end of the period, and the
  DIFFERENCE line is never printed.
\<close>

theorem points_report_reconciles:
  assumes "ce_day_start env (report_from f) \<le> t_day_end (cl_t s) (report_to u s)"
  shows "movement_line (loyaltyPointValuePaise (cl_t s)) ''Closing balance'' (signed_before (t_day_end (cl_t s) (report_to u s)) (cl_rows s))
      \<in> set (loyaltyMovementReport env f u s)
    \<and> difference_label \<notin> fst ` set (loyaltyMovementReport env f u s)"
proof -
  let ?lo = "ce_day_start env (report_from f)" and ?hi = "t_day_end (cl_t s) (report_to u s)"
  let ?m = "movement ?lo ?hi (cl_rows s)"
  have "signed_before ?lo (cl_rows s) + ?m ''other_in'' - ?m ''other'' + sum_list (map (\<lambda>(k, label, sign). sign * ?m k) loyaltyMovementRows)
      = signed_before ?hi (cl_rows s)"
    using moves_are_the_difference [OF assms, of "cl_rows s"] by (simp add: loyaltyMovementRows_def movement_def)
  then show ?thesis
    by (simp add: loyaltyMovementReport_def Let_def) (auto simp: loyaltyMovementRows_def movement_line_def difference_label_def)
qed

theorem points_report_reconciles_witness:
  "difference_label \<notin> fst ` set (loyaltyMovementReport club_demo_env [] [] new_club)"
  using points_report_reconciles [of club_demo_env "[]" new_club "[]"]
  by (simp add: club_demo_env_def new_club_def empty_tenant_def)

text \<open>
  C38: the sweep does not expire what newly lapsed, as its comment says, but everything that
  ever lapsed and was not yet expired, redeemed or not. A customer who spent a whole lot, and
  after it lapsed earned fresh points, loses the fresh points at the next sweep.
\<close>

theorem fresh_points_expire:
  assumes "cl_rows s = [point_lot c ''Earn'' b1 a (Some e), point_lot c ''Burn'' b2 a None, point_lot c ''Earn'' b3 f (Some e')]"
    and "e \<le> moment s" and "moment s < e'" and "0 < f" and "f \<le> a" and "a < 2 ^ 31" and "length c \<le> 100"
  shows "held c (cl_rows s) = f \<and> held c (cl_rows (sweepLoyaltyExpiryForSchema env s)) = 0"
proof -
  have due: "to_expire (moment s) (of_customer c (cl_rows s)) = f"
    using assms by (simp add: to_expire_def of_customer_def expired_earned_def already_expired_def signed_points_def point_lot_def
      loyaltyExpiryReferenceDoctype_def)
  have names: "remdups (map pr_customer (cl_rows s)) = [c]" by (simp add: assms(1) point_lot_def)
  have "insert_points c ''Burn'' f loyaltyExpiryReferenceDoctype [] None None s \<noteq> Inl x" for x
    using assms by (simp add: insert_points_def int4_def)
  then obtain s1 where s1: "insert_points c ''Burn'' f loyaltyExpiryReferenceDoctype [] None None s = Inr s1"
    by (cases "insert_points c ''Burn'' f loyaltyExpiryReferenceDoctype [] None None s") auto
  have "cl_rows (sweepLoyaltyExpiryForSchema env s) = cl_rows s1"
    using assms(4) s1 by (simp add: sweepLoyaltyExpiryForSchema_def names due expire_points_def Let_def best_effort_rows)
  moreover from s1 obtain r where "cl_rows s1 = cl_rows s @ [r]" "pr_customer r = c" "signed_points r = - f"
    by (rule insert_pointsE) (auto simp: signed_points_def)
  moreover have "held c (cl_rows s) = f" by (simp add: assms(1) held_def of_customer_def signed_points_def point_lot_def)
  ultimately show ?thesis by simp
qed

definition lapsed_club :: club where
  "lapsed_club = new_club\<lparr>cl_rows := [point_lot ''C1'' ''Earn'' ''B1'' 40 (Some 90), point_lot ''C1'' ''Burn'' ''B2'' 40 None,
     point_lot ''C1'' ''Earn'' ''B3'' 30 (Some 500)]\<rparr>"

theorem fresh_points_expire_witness:
  "held ''C1'' (cl_rows lapsed_club) = 30 \<and> held ''C1'' (cl_rows (sweepLoyaltyExpiryForSchema club_demo_env lapsed_club)) = 0"
  by (rule fresh_points_expire [of lapsed_club "''C1''" "''B1''" 40 90 "''B2''" "''B3''" 30 500]) (simp_all add: lapsed_club_def new_club_def)

text \<open>
  C27: a bill returned in pieces loses exactly the points it earned: once its processed
  refunds come to the whole money value, the refund that completes them brings the points
  taken back for the bill to what the bill earned, neither more nor fewer, whatever rounding
  the earlier pieces took.
\<close>

theorem returned_bill_keeps_no_points:
  assumes "reverseEarnedPointsTx c cart refund saleMoney s = Inr (n, s')" and "c \<noteq> []" and "0 < saleMoney"
    and "saleMoney \<le> refunded_paise cart (cl_t s)"
    and "list_ex (\<lambda>d. is_refund_of cart d \<and> d_id d = refund) (t_documents (cl_t s))"
    and "0 \<le> points_on (reversal_row c cart (cl_t s)) s" and "points_on (reversal_row c cart (cl_t s)) s \<le> points_on (earn_row c cart) s"
    and "points_on (earn_row c cart) s < 2 ^ 63"
  shows "points_on (reversal_row c cart (cl_t s')) s' = points_on (earn_row c cart) s'
    \<and> n = points_on (earn_row c cart) s - points_on (reversal_row c cart (cl_t s)) s"
proof -
  let ?earned = "points_on (earn_row c cart) s" and ?undone = "points_on (reversal_row c cart (cl_t s)) s"
  have w: "wrap64 (?earned - ?undone) = ?earned - ?undone" using assms(6-8) by (intro wrap64_id) simp_all
  show ?thesis
  proof (cases "?earned - ?undone \<le> 0")
    case True
    then have "n = 0 \<and> s' = s" using assms(1-4,6,7) w by (auto simp: reverseEarnedPointsTx_def reversal_target_def Let_def split: if_splits)
    with True assms(7) show ?thesis by simp
  next
    case False
    then have e: "?earned > 0" using assms(6) by simp
    have t: "reversal_target ?earned (refunded_paise cart (cl_t s)) saleMoney = ?earned" using assms(4) by (simp add: reversal_target_def)
    have n: "n = ?earned - ?undone" and "\<exists>pend. insert_points c LoyaltyTxnReversal n ''RefundRequest'' refund None pend s = Inr s'"
      using assms(1-3) e w t False by (auto simp: reverseEarnedPointsTx_def Let_def)
    then obtain pend where "insert_points c LoyaltyTxnReversal n ''RefundRequest'' refund None pend s = Inr s'" by blast
    then obtain r where r: "s' = s\<lparr>cl_rows := cl_rows s @ [r]\<rparr>" "pr_customer r = c" "pr_kind r = LoyaltyTxnReversal" "pr_points r = n"
      "pr_doctype r = ''RefundRequest''" "pr_ref r = refund"
      by (auto elim: insert_pointsE)
    have "reversal_row c cart (cl_t s) r" "\<not> earn_row c cart r"
      using r assms(5) by (simp_all add: reversal_row_def earn_row_def LoyaltyTxnReversal_def)
    with r(1,4) n show ?thesis by (simp add: points_on_def)
  qed
qed


text \<open>Bill B1 earned 40 points on 1000; refund R1 of 300 took 12 back and R2 of 700 is being processed.\<close>

definition refund_doc :: "string \<Rightarrow> rat \<Rightarrow> document" where
  "refund_doc i amount = new_doc empty_tenant ''RefundRequest'' i
     [(''original_order_id'', JStr ''B1''), (''net_amount'', JNum amount), (''status'', JStr ''Processed'')] ''Processed'' ''u''"

definition returned_club :: club where
  "returned_club = \<lparr>cl_t = empty_tenant\<lparr>t_documents := [refund_doc ''R1'' 300, refund_doc ''R2'' 700]\<rparr>,
     cl_rows = [point_lot ''C1'' ''Earn'' ''B1'' 40 None, (point_lot ''C1'' LoyaltyTxnReversal ''R1'' 12 None)\<lparr>pr_doctype := ''RefundRequest''\<rparr>],
     cl_codes = [], cl_tiers = []\<rparr>"

lemma returned_club_facts:
  "refunded_paise ''B1'' (cl_t returned_club) = 100000"
  "list_ex (\<lambda>d. is_refund_of ''B1'' d \<and> d_id d = ''R2'') (t_documents (cl_t returned_club))"
  "points_on (reversal_row ''C1'' ''B1'' (cl_t returned_club)) returned_club = 12"
  "points_on (earn_row ''C1'' ''B1'') returned_club = 40"
proof -
  have "\<lfloor>(60001::rat) / 2\<rfloor> = 30000" "\<lfloor>(140001::rat) / 2\<rfloor> = 70000" by code_simp+
  then show "refunded_paise ''B1'' (cl_t returned_club) = 100000"
    by (simp add: refunded_paise_def returned_club_def refund_doc_def is_refund_of_def new_doc_def empty_tenant_def jtext_def jget_def
      jnumeric_def coalesce_def pg_round_def)
qed (simp_all add: returned_club_def refund_doc_def is_refund_of_def new_doc_def empty_tenant_def jtext_def jget_def
    jnumeric_def coalesce_def pg_round_def points_on_def reversal_row_def earn_row_def point_lot_def LoyaltyTxnReversal_def)

theorem returned_bill_keeps_no_points_witness:
  "\<exists>s'. reverseEarnedPointsTx ''C1'' ''B1'' ''R2'' 100000 returned_club = Inr (28, s')
    \<and> points_on (reversal_row ''C1'' ''B1'' (cl_t s')) s' = points_on (earn_row ''C1'' ''B1'') s'"
proof -
  have "\<exists>n s'. reverseEarnedPointsTx ''C1'' ''B1'' ''R2'' 100000 returned_club = Inr (n, s')"
    by (simp add: reverseEarnedPointsTx_def returned_club_facts reversal_target_def wrap64_id insert_points_def int4_def Let_def)
  then obtain n s' where r: "reverseEarnedPointsTx ''C1'' ''B1'' ''R2'' 100000 returned_club = Inr (n, s')" by blast
  from returned_bill_keeps_no_points [OF r] r show ?thesis by (simp add: returned_club_facts)
qed

end
