(* ===== verification/Assets.thy ===== *)
theory Assets
  imports Ledger
begin

text \<open>
  Fixed assets (engines/assets.go, asset_depreciation.go): capitalising, transferring,
  monthly straight-line depreciation, disposal with its gain or loss, the preview of a
  disposal and the asset register.

  The state is the tenant: Asset documents and the general ledger. The current month is an
  argument (\<open>now\<close>, year and month of the server clock); the business date is the tenant's. A
  month is posted in a transaction of its own, so a run or a disposal that stops keeps the
  months it posted: such an operation returns the state beside its result. Log lines, the
  wording of a skip, the asset's code and account names in an answer and a cancelled context
  are left out.
\<close>

section \<open>The plan of an asset\<close>

definition assetAccFixed :: string where "assetAccFixed = ''1400''"
definition assetAccAccumulated :: string where "assetAccAccumulated = ''1410''"
definition assetAccDepExpense :: string where "assetAccDepExpense = ''5310''"
definition assetAccLoss :: string where "assetAccLoss = ''5300''"
definition assetAccGain :: string where "assetAccGain = ''4300''"
definition assetAccCash :: string where "assetAccCash = ''1100''"

type_synonym month = "nat \<times> nat"

record asset_plan =
  pn_start :: month
  pn_months :: int
  pn_cost :: int

definition jnum :: "payload \<Rightarrow> string \<Rightarrow> rat" where
  "jnum m k = (case jget m k of JNum q \<Rightarrow> q | _ \<Rightarrow> 0)"

definition assetCostPaise :: "payload \<Rightarrow> int" where
  "assetCostPaise m =
     (if jnum m ''capitalised_paise'' > 0 then go_trunc (jnum m ''capitalised_paise'')
      else if jstr m ''status'' \<in> {[], ''Draft''} then RupeesToPaise (jnum m ''cost'')
      else wrap64 (go_trunc (jnum m ''cost'') * 100))"

definition assetDepreciationPlan :: "payload \<Rightarrow> string \<Rightarrow> asset_plan option" where
  "assetDepreciationPlan m capDate =
     (let months = math_round (fl (jnum m ''useful_life_years'' * 12)); cost = assetCostPaise m in
      case parse_date (if capDate = [] then jstr m ''capitalisation_date'' else capDate) of
        None \<Rightarrow> None
      | Some (y, mo, d) \<Rightarrow> if months \<le> 0 \<or> cost \<le> 0 then None
          else Some \<lparr>pn_start = (y, mo), pn_months = months, pn_cost = cost\<rparr>)"

text \<open>\<open>AddDate(0, n, 0)\<close> of the first day of a month.\<close>

definition add_months :: "month \<Rightarrow> nat \<Rightarrow> month" where
  "add_months s n = (let k = snd s - 1 + n in (fst s + k div 12, k mod 12 + 1))"

definition monthStart :: "asset_plan \<Rightarrow> nat \<Rightarrow> month" where
  "monthStart p i = add_months (pn_start p) (i - 1)"

definition format_month :: "month \<Rightarrow> string" where
  "format_month m = dec_pad 4 (fst m) @ ''-'' @ dec_pad 2 (snd m)"

definition monthKey :: "asset_plan \<Rightarrow> nat \<Rightarrow> string" where
  "monthKey p i = format_month (monthStart p i)"

definition monthEnd :: "asset_plan \<Rightarrow> nat \<Rightarrow> string" where
  "monthEnd p i = (let m = monthStart p i in format_date (fst m, snd m, days_in_month (fst m) (snd m)))"

text \<open>Month i's charge; the last month takes the remainder.\<close>

definition month_charge :: "asset_plan \<Rightarrow> nat \<Rightarrow> int" where
  "month_charge p i = (let per = go_div (pn_cost p) (pn_months p) in
     if int i = pn_months p then pn_cost p - per * (pn_months p - 1) else per)"

definition monthsDue :: "asset_plan \<Rightarrow> month \<Rightarrow> nat" where
  "monthsDue p now =
     (let due = (int (fst now) - int (fst (pn_start p))) * 12 + int (snd now) - int (snd (pn_start p))
      in if due < 0 then 0 else if due > pn_months p then nat (pn_months p) else nat due)"

definition asset_key :: "string \<Rightarrow> string" where
  "asset_key x = ''Asset:'' @ x"

definition assetDepreciationKey :: "string \<Rightarrow> string \<Rightarrow> string" where
  "assetDepreciationKey i month = asset_key (i @ '':DEP:'' @ month)"

definition capitalize_key :: "string \<Rightarrow> string" where
  "capitalize_key i = asset_key (i @ '':CAPITALIZE'')"

definition dispose_key :: "string \<Rightarrow> string" where
  "dispose_key i = asset_key (i @ '':DISPOSE'')"

text \<open>\<open>key[strings.LastIndex(key, pat)+len(pat):]\<close>, if the pattern occurs.\<close>

fun after_last :: "string \<Rightarrow> string \<Rightarrow> string option" where
  "after_last pat [] = None"
| "after_last pat (c # s) = (case after_last pat s of
     Some r \<Rightarrow> Some r
   | None \<Rightarrow> if take (length pat) (c # s) = pat then Some (drop (length pat) (c # s)) else None)"

text \<open>
  \<open>loadAssetDepreciationPostings\<close>: the months of an asset with the amount of each row; the Go
  map adds up the rows of a month, and its readers look up a month or add up every entry.
\<close>

definition dep_row :: "string \<Rightarrow> gl_posting \<Rightarrow> (string \<times> int) option" where
  "dep_row i p =
     (if gp_doctype p = ''Asset'' \<and> gp_docid p = i \<and> gp_account p = assetAccAccumulated
      then case gp_key p of
          None \<Rightarrow> None
        | Some k \<Rightarrow> (case after_last '':DEP:'' k of None \<Rightarrow> None | Some m \<Rightarrow> Some (m, gp_credit p - gp_debit p))
      else None)"

definition loadAssetDepreciationPostings :: "tenant \<Rightarrow> string \<Rightarrow> (string \<times> int) list" where
  "loadAssetDepreciationPostings t i = List.map_filter (dep_row i) (t_postings t)"

definition accumulated_of :: "(string \<times> int) list \<Rightarrow> int" where
  "accumulated_of posted = sum_list (map snd posted)"

definition postedAccumulatedDepreciation :: "tenant \<Rightarrow> string \<Rightarrow> int" where
  "postedAccumulatedDepreciation t i = sum_list (map (\<lambda>p. gp_credit p - gp_debit p)
     (filter (\<lambda>p. gp_doctype p = ''Asset'' \<and> gp_account p = assetAccAccumulated \<and> gp_docid p = i) (t_postings t)))"

section \<open>Capitalising and transferring\<close>

definition fetchAssetData :: "string \<Rightarrow> tenant \<Rightarrow> (payload \<times> string) res" where
  "fetchAssetData i t = (case find_doc t ''Asset'' i of
     None \<Rightarrow> Inl (Plain ''asset not found'') | Some d \<Rightarrow> Inr (d_data d, d_status d))"

definition saveAssetData :: "string \<Rightarrow> string \<Rightarrow> payload \<Rightarrow> tenant \<Rightarrow> tenant" where
  "saveAssetData i st m t = update_docs (is_doc ''Asset'' i)
     (\<lambda>d. d\<lparr>d_data := jput ''status'' (JStr st) m, d_status := st, d_updated_at := t_now t\<rparr>) t"

text \<open>The cost is already the value of a float64, so the JSON number holds it exactly.\<close>

definition capitalised_data :: "string \<Rightarrow> rat \<Rightarrow> payload \<Rightarrow> payload" where
  "capitalised_data today life m =
     (let m1 = jput ''capitalised_paise'' (JNum (of_int (assetCostPaise m))) m;
          m2 = (if life > 0 then jput ''useful_life_years'' (JNum life) m1 else m1)
      in if jstr m2 ''capitalisation_date'' = [] then jput ''capitalisation_date'' (JStr today) m2 else m2)"

definition CapitalizeAssetWithLife :: "posting_env \<Rightarrow> string \<Rightarrow> rat \<Rightarrow> tenant \<Rightarrow> tenant res" where
  "CapitalizeAssetWithLife env i life t =
     rbind (fetchAssetData i t) (\<lambda>(m, st).
       if st \<noteq> ''Draft'' then Inl (Plain ''only a Draft asset can be capitalised'')
       else let cost = assetCostPaise m; m' = capitalised_data (t_today t) life m in
         if cost \<le> 0 then Inl (Plain ''asset cost must be a positive number to capitalise'')
         else if jnum m' ''useful_life_years'' \<le> 0 then Inl (Coded ''ASSET-0271'')
         else rbind (PostDoubleEntryTx env ''Asset'' i [(''1400'', cost)] [(''2100'', cost)] [] (capitalize_key i) no_opts t) (\<lambda>t1.
                Inr (saveAssetData i ''Capitalised'' m' t1)))"

definition CapitalizeAsset :: "posting_env \<Rightarrow> string \<Rightarrow> tenant \<Rightarrow> tenant res" where
  "CapitalizeAsset env i t = CapitalizeAssetWithLife env i 0 t"

text \<open>
  \<open>TransferAsset\<close> reads the asset and saves it in two statements of their own; \<open>transfer_save\<close>
  is the second, with what the first one read.
\<close>

definition transfer_save :: "string \<Rightarrow> payload \<Rightarrow> string \<Rightarrow> string \<Rightarrow> string \<Rightarrow> string \<Rightarrow> tenant \<Rightarrow> tenant" where
  "transfer_save i m st location custodian actor t =
     LogAuditEvent actor ''ASSET_TRANSFER'' ''SUCCESS''
       (saveAssetData i st (jput ''custodian'' (JStr custodian) (jput ''location'' (JStr location) m)) t)"

definition TransferAsset :: "string \<Rightarrow> string \<Rightarrow> string \<Rightarrow> string \<Rightarrow> tenant \<Rightarrow> tenant res" where
  "TransferAsset i location custodian actor t =
     rbind (fetchAssetData i t) (\<lambda>(m, st).
       if st \<noteq> ''Capitalised'' then Inl (Coded ''ASSET-0270'')
       else Inr (transfer_save i m st location custodian actor t))"

section \<open>Depreciation\<close>

definition postAssetDepreciationMonth :: "posting_env \<Rightarrow> string \<Rightarrow> asset_plan \<Rightarrow> nat \<Rightarrow> tenant \<Rightarrow> (bool \<times> tenant) res" where
  "postAssetDepreciationMonth env i p k t =
     rbind (fetchAssetData i t) (\<lambda>(_, st).
       let key = assetDepreciationKey i (monthKey p k) in
       if st \<noteq> ''Capitalised'' \<or> key_posted t key then Inr (False, t)
       else rbind (PostDoubleEntryTx env ''Asset'' i [(assetAccDepExpense, month_charge p k)] [(assetAccAccumulated, month_charge p k)]
              (monthEnd p k) key (no_opts\<lparr>po_posted_at := monthEnd p k @ '' 23:59:59''\<rparr>) t) (\<lambda>t1. Inr (True, t1)))"

record depreciation_outcome =
  do_code :: string
  do_posted :: "string list"
  do_amount :: rat
  do_skipped :: "string list"
  do_noted :: bool

fun depreciate_months ::
  "posting_env \<Rightarrow> string \<Rightarrow> asset_plan \<Rightarrow> string list \<Rightarrow> nat list \<Rightarrow> depreciation_outcome \<Rightarrow> tenant \<Rightarrow> tenant \<times> depreciation_outcome \<times> err option" where
  "depreciate_months env i p posted [] out t = (t, out, None)"
| "depreciate_months env i p posted (k # ks) out t =
     (if monthKey p k \<in> set posted then depreciate_months env i p posted ks out t
      else case postAssetDepreciationMonth env i p k t of
          Inl e \<Rightarrow>
            if e = Coded ''FIN-0260'' then depreciate_months env i p posted ks (out\<lparr>do_skipped := do_skipped out @ [monthKey p k]\<rparr>) t
            else (t, out\<lparr>do_skipped := do_skipped out @ [monthKey p k]\<rparr>, Some e)
        | Inr (did, t1) \<Rightarrow>
            depreciate_months env i p posted ks
              (if did then out\<lparr>do_posted := do_posted out @ [monthKey p k], do_amount := fl (do_amount out + PaiseToRupees (month_charge p k))\<rparr> else out) t1)"

definition depreciateAsset ::
  "posting_env \<Rightarrow> month \<Rightarrow> string \<Rightarrow> payload \<Rightarrow> tenant \<Rightarrow> tenant \<times> depreciation_outcome \<times> err option" where
  "depreciateAsset env now i m t =
     (let out = \<lparr>do_code = jstr m ''code'', do_posted = [], do_amount = 0, do_skipped = [], do_noted = False\<rparr> in
      case assetDepreciationPlan m [] of
        None \<Rightarrow> (t, out\<lparr>do_noted := True\<rparr>, None)
      | Some p \<Rightarrow>
          if monthsDue p now = 0 then (t, out, None)
          else case depreciate_months env i p (map fst (loadAssetDepreciationPostings t i)) [1..<Suc (monthsDue p now)] out t of
              (t1, out1, Some e) \<Rightarrow> (t1, out1, Some e)
            | (t1, out1, None) \<Rightarrow> (t1, out1\<lparr>do_amount := round2 (do_amount out1)\<rparr>, None))"

record depreciation_run =
  dr_checked :: int
  dr_posted :: int
  dr_skipped :: int
  dr_amount :: rat
  dr_assets :: "(string \<times> depreciation_outcome) list"

definition run_asset :: "posting_env \<Rightarrow> month \<Rightarrow> tenant \<times> depreciation_run \<Rightarrow> string \<times> payload \<Rightarrow> tenant \<times> depreciation_run" where
  "run_asset env now = (\<lambda>(t, r) (i, m).
     let (t1, out, e) = depreciateAsset env now i m t in
     (t1, \<lparr>dr_checked = dr_checked r + 1, dr_posted = dr_posted r + int (length (do_posted out)),
        dr_skipped = dr_skipped r + int (length (do_skipped out)), dr_amount = fl (dr_amount r + do_amount out),
        dr_assets = dr_assets r @ (if do_posted out \<noteq> [] \<or> do_skipped out \<noteq> [] \<or> do_noted out then [(i, out)] else [])\<rparr>))"

definition capitalised_assets :: "tenant \<Rightarrow> (string \<times> payload) list" where
  "capitalised_assets t = map (\<lambda>d. (d_id d, d_data d))
     (sort_key d_id (filter (\<lambda>d. d_doctype d = ''Asset'' \<and> d_status d = ''Capitalised'') (t_documents t)))"

definition RunAssetDepreciation :: "posting_env \<Rightarrow> month \<Rightarrow> tenant \<Rightarrow> tenant \<times> depreciation_run" where
  "RunAssetDepreciation env now t =
     (let (t1, r) = foldl (run_asset env now)
          (t, \<lparr>dr_checked = 0, dr_posted = 0, dr_skipped = 0, dr_amount = 0, dr_assets = []\<rparr>) (capitalised_assets t)
      in (t1, r\<lparr>dr_amount := round2 (dr_amount r)\<rparr>))"

section \<open>Disposal\<close>

definition assetReceiptAccounts :: "tenant \<Rightarrow> (string \<times> string) list" where
  "assetReceiptAccounts t =
     (let codes = assetAccCash # map (\<lambda>d. coalesce (jtext (d_data d) ''gl_account_code'') []) (filter (\<lambda>d. d_doctype d = ''BankAccount'') (t_documents t))
      in map (\<lambda>a. (ga_code a, ga_name a)) (sort_key ga_code (filter (\<lambda>a. ga_code a \<in> set codes) (t_accounts t))))"

definition validateAssetDisposalInputs :: "tenant \<Rightarrow> rat \<Rightarrow> string \<Rightarrow> string res" where
  "validateAssetDisposalInputs t proceeds into0 =
     (if proceeds < 0 then Inl (Coded ''ASSET-0537'')
      else let into1 = (if trim into0 = [] then assetAccCash else trim into0) in
        if into1 \<in> fst ` set (assetReceiptAccounts t) then Inr into1 else Inl (Coded ''ASSET-0538''))"

definition assetDisposalEntry :: "int \<Rightarrow> int \<Rightarrow> int \<Rightarrow> string \<Rightarrow> amounts \<times> amounts \<times> int" where
  "assetDisposalEntry cost acc proceeds receivedInto =
     (let debits = (if proceeds > 0 then add_paise receivedInto proceeds [(assetAccAccumulated, acc)] else [(assetAccAccumulated, acc)]);
          gainLoss = wrap64 (proceeds - wrap64 (cost - acc)) in
      (if gainLoss < 0 then add_paise assetAccLoss (wrap64 (- gainLoss)) debits else debits,
       if gainLoss > 0 then add_paise assetAccGain gainLoss [(assetAccFixed, cost)] else [(assetAccFixed, cost)],
       gainLoss))"

text \<open>A line: account, debit, credit in rupees.\<close>

definition assetDisposalLines :: "string \<Rightarrow> amounts \<Rightarrow> amounts \<Rightarrow> (string \<times> rat \<times> rat) list" where
  "assetDisposalLines receivedInto debits credits =
     map (\<lambda>c. (c, PaiseToRupees (paise_of c debits), 0)) (filter (\<lambda>c. paise_of c debits > 0) [assetAccAccumulated, receivedInto, assetAccLoss])
     @ map (\<lambda>c. (c, 0, PaiseToRupees (paise_of c credits))) (filter (\<lambda>c. paise_of c credits > 0) [assetAccFixed, assetAccGain])"

record asset_disposal =
  ad_type :: string
  ad_cost :: rat
  ad_accumulated :: rat
  ad_book_value :: rat
  ad_proceeds :: rat
  ad_into :: string
  ad_gain_loss :: rat
  ad_lines :: "(string \<times> rat \<times> rat) list"
  ad_first :: "string list"
  ad_skipped :: "string list"

definition disposal_figures :: "string \<Rightarrow> int \<Rightarrow> int \<Rightarrow> int \<Rightarrow> string \<Rightarrow> string list \<Rightarrow> string list \<Rightarrow> asset_disposal" where
  "disposal_figures kind cost acc proceeds receivedInto first skipped =
     (let (debits, credits, gainLoss) = assetDisposalEntry cost acc proceeds receivedInto in
      \<lparr>ad_type = kind, ad_cost = PaiseToRupees cost, ad_accumulated = PaiseToRupees acc, ad_book_value = PaiseToRupees (cost - acc),
       ad_proceeds = PaiseToRupees proceeds, ad_into = receivedInto, ad_gain_loss = PaiseToRupees gainLoss,
       ad_lines = assetDisposalLines receivedInto debits credits, ad_first = first, ad_skipped = skipped\<rparr>)"

text \<open>The months a run would refuse now, by the posting's own period rule.\<close>

definition closedDepreciationMonths :: "tenant \<Rightarrow> string \<Rightarrow> asset_plan \<Rightarrow> nat list \<Rightarrow> string list res" where
  "closedDepreciationMonths t i p ks = efold (\<lambda>closed k. case rejectIfCurrentPeriodClosed t ''Asset'' i (monthEnd p k) of
       Inl e \<Rightarrow> if e = Coded ''FIN-0260'' then Inr (closed @ [monthKey p k]) else Inl e
     | Inr _ \<Rightarrow> Inr closed) [] ks"

definition PreviewAssetDisposal :: "month \<Rightarrow> string \<Rightarrow> rat \<Rightarrow> string \<Rightarrow> tenant \<Rightarrow> asset_disposal res" where
  "PreviewAssetDisposal now i proceeds into0 t =
     rbind (validateAssetDisposalInputs t proceeds into0) (\<lambda>receivedInto.
     rbind (fetchAssetData i t) (\<lambda>(m, st).
       if st \<noteq> ''Capitalised'' then Inl (Coded ''ASSET-0270'')
       else let posted = loadAssetDepreciationPostings t i;
                figures = disposal_figures [] (assetCostPaise m) in
         case assetDepreciationPlan m [] of
           None \<Rightarrow> Inr (figures (accumulated_of posted) (RupeesToPaise proceeds) receivedInto [] [])
         | Some p \<Rightarrow>
             let unposted = filter (\<lambda>k. monthKey p k \<notin> fst ` set posted) [1..<Suc (monthsDue p now)] in
             rbind (closedDepreciationMonths t i p unposted) (\<lambda>closed.
               let due = filter (\<lambda>k. monthKey p k \<notin> set closed) unposted in
               Inr (figures (accumulated_of posted + sum_list (map (month_charge p) due)) (RupeesToPaise proceeds) receivedInto
                      (map (monthKey p) due) (map (monthKey p) (filter (\<lambda>k. monthKey p k \<in> set closed) unposted))))))"

definition disposed_data :: "string \<Rightarrow> string \<Rightarrow> int \<Rightarrow> string \<Rightarrow> int \<Rightarrow> int \<Rightarrow> payload \<Rightarrow> payload" where
  "disposed_data kind today proceeds receivedInto book gainLoss m =
     jput ''disposal_gain_loss'' (JNum (PaiseToRupees gainLoss)) (jput ''disposal_book_value'' (JNum (PaiseToRupees book))
       (jput ''disposal_received_into'' (JStr receivedInto) (jput ''disposal_proceeds'' (JNum (PaiseToRupees proceeds))
         (jput ''disposal_date'' (JStr today) (jput ''disposal_type'' (JStr kind) m)))))"

text \<open>The last transaction: the entry and the closed asset.\<close>

definition dispose_tx ::
  "posting_env \<Rightarrow> string \<Rightarrow> string \<Rightarrow> rat \<Rightarrow> string \<Rightarrow> depreciation_outcome \<Rightarrow> tenant \<Rightarrow> (asset_disposal \<times> tenant) res" where
  "dispose_tx env i kind proceeds receivedInto out t =
     rbind (fetchAssetData i t) (\<lambda>(m, st).
       if st \<noteq> ''Capitalised'' then Inl (Coded ''ASSET-0270'')
       else let acc = accumulated_of (loadAssetDepreciationPostings t i); cost = assetCostPaise m; paid = RupeesToPaise proceeds;
                (debits, credits, gainLoss) = assetDisposalEntry cost acc paid receivedInto in
         rbind (PostDoubleEntryTx env ''Asset-Disposal'' i debits credits [] (dispose_key i) no_opts t) (\<lambda>t1.
           Inr (disposal_figures kind cost acc paid receivedInto (do_posted out) (do_skipped out),
                saveAssetData i ''Disposed'' (disposed_data kind (t_today t) paid receivedInto (cost - acc) gainLoss m) t1)))"

definition DisposeAssetWithProceeds ::
  "posting_env \<Rightarrow> month \<Rightarrow> string \<Rightarrow> string \<Rightarrow> rat \<Rightarrow> string \<Rightarrow> tenant \<Rightarrow> tenant \<times> asset_disposal res" where
  "DisposeAssetWithProceeds env now i kind proceeds into0 t =
     (case rbind (validateAssetDisposalInputs t proceeds into0) (\<lambda>r. rbind (fetchAssetData i t) (\<lambda>(m, st).
             if st \<noteq> ''Capitalised'' then Inl (Coded ''ASSET-0270'') else Inr (r, m))) of
        Inl e \<Rightarrow> (t, Inl e)
      | Inr (receivedInto, m) \<Rightarrow>
          case depreciateAsset env now i m t of
            (t1, _, Some _) \<Rightarrow> (t1, Inl (Coded ''ASSET-0539''))
          | (t1, out, None) \<Rightarrow>
              (case dispose_tx env i kind proceeds receivedInto out t1 of
                 Inl e \<Rightarrow> (t1, Inl e) | Inr (d, t2) \<Rightarrow> (t2, Inr d)))"

definition DisposeAsset :: "posting_env \<Rightarrow> month \<Rightarrow> string \<Rightarrow> string \<Rightarrow> tenant \<Rightarrow> tenant \<times> unit res" where
  "DisposeAsset env now i kind t = (case DisposeAssetWithProceeds env now i kind 0 [] t of (t1, r) \<Rightarrow> (t1, rbind r (\<lambda>_. Inr ())))"

section \<open>The register\<close>

text \<open>The figures of an entry; the texts copied from the asset (code, category, location, custodian) are left out.\<close>

record register_entry =
  ge_id :: string
  ge_status :: string
  ge_cost :: rat
  ge_accumulated :: rat
  ge_calculated :: rat
  ge_net_block :: rat

definition register_entry_of :: "tenant \<Rightarrow> month \<Rightarrow> document \<Rightarrow> register_entry" where
  "register_entry_of t now d =
     (let m = jput ''status'' (JStr (d_status d)) (d_data d); cost = assetCostPaise m;
          posted = postedAccumulatedDepreciation t (d_id d);
          e = \<lparr>ge_id = d_id d, ge_status = d_status d, ge_cost = PaiseToRupees cost, ge_accumulated = 0, ge_calculated = 0, ge_net_block = 0\<rparr> in
      if d_status d = ''Capitalised''
      then e\<lparr>ge_calculated := (case assetDepreciationPlan m [] of None \<Rightarrow> 0
               | Some p \<Rightarrow> PaiseToRupees (sum_list (map (month_charge p) [1..<Suc (monthsDue p now)]))),
             ge_accumulated := PaiseToRupees posted, ge_net_block := PaiseToRupees (cost - posted)\<rparr>
      else if d_status d = ''Disposed'' then e\<lparr>ge_accumulated := ge_cost e, ge_calculated := ge_cost e\<rparr>
      else e\<lparr>ge_net_block := ge_cost e\<rparr>)"

definition GetAssetRegister :: "tenant \<Rightarrow> month \<Rightarrow> register_entry list" where
  "GetAssetRegister t now = map (register_entry_of t now) (sort_key d_id (filter (\<lambda>d. d_doctype d = ''Asset'') (t_documents t)))"


section \<open>Months and keys\<close>

lemma add_months_index: "1 \<le> snd s \<Longrightarrow> fst (add_months s n) * 12 + snd (add_months s n) = fst s * 12 + snd s + n"
  by (simp add: add_months_def Let_def)

lemma add_months_inj: "1 \<le> snd s \<Longrightarrow> add_months s m = add_months s n \<longleftrightarrow> m = n"
  by (metis add_left_cancel add_months_index)

lemma separator_unique:
  assumes "a @ c # b = a' @ c # b'" "c \<notin> set a" "c \<notin> set a'"
  shows "a = a' \<and> b = b'"
proof -
  have "takeWhile (\<lambda>x. x \<noteq> c) (a @ c # b) = a" "takeWhile (\<lambda>x. x \<noteq> c) (a' @ c # b') = a'"
    using assms(2,3) by (auto simp: takeWhile_append)
  with assms(1) show ?thesis by simp
qed

lemma dash_not_digit: "CHR ''-'' \<notin> set (dec_pad w n)" "CHR '':'' \<notin> set (dec_pad w n)"
  using dec_pad_digits by (force simp: is_digit_iff)+

lemma format_month_inj: "format_month m = format_month n \<longleftrightarrow> m = n"
proof
  assume "format_month m = format_month n"
  then have "dec_pad 4 (fst m) = dec_pad 4 (fst n) \<and> dec_pad 2 (snd m) = dec_pad 2 (snd n)"
    unfolding format_month_def by (intro separator_unique [where c = "CHR ''-''"] dash_not_digit) simp
  then show "m = n" by (simp add: dec_pad_inj prod_eq_iff)
qed simp

lemma monthKey_inj:
  assumes "1 \<le> snd (pn_start p)" "1 \<le> i" "1 \<le> j"
  shows "monthKey p i = monthKey p j \<longleftrightarrow> i = j"
  using assms by (auto simp: monthKey_def monthStart_def format_month_inj add_months_inj)

lemma no_colon_month: "CHR '':'' \<notin> set (format_month m)"
  using dash_not_digit(2) by (simp add: format_month_def)

lemma after_last_none: "CHR '':'' \<notin> set s \<Longrightarrow> after_last '':DEP:'' s = None"
  by (induction s) auto

lemma after_last_append: "after_last pat s = Some r \<Longrightarrow> after_last pat (a @ s) = Some r"
  by (induction a) auto

lemma after_last_key: "after_last '':DEP:'' (a @ '':DEP:'' @ format_month m) = Some (format_month m)"
proof (rule after_last_append)
  have "take (Suc (Suc (Suc (Suc 0)))) (format_month m) \<noteq> ''DEP:''"
  proof
    assume "take (Suc (Suc (Suc (Suc 0)))) (format_month m) = ''DEP:''"
    then have "CHR '':'' \<in> set (take (Suc (Suc (Suc (Suc 0)))) (format_month m))" by simp
    with no_colon_month show False by (meson in_set_takeD)
  qed
  with after_last_none [OF no_colon_month, of m] show "after_last '':DEP:'' ('':DEP:'' @ format_month m) = Some (format_month m)"
    by simp
qed

lemma dep_key_inj:
  "assetDepreciationKey i (format_month m) = assetDepreciationKey j (format_month n) \<longleftrightarrow> i = j \<and> m = n"
proof
  assume eq: "assetDepreciationKey i (format_month m) = assetDepreciationKey j (format_month n)"
  have "after_last '':DEP:'' (assetDepreciationKey i (format_month m)) = Some (format_month m)" for i m
    using after_last_key [of "''Asset:'' @ i" m] by (simp add: assetDepreciationKey_def asset_key_def)
  from this [of i m] this [of j n] eq have "m = n" by (simp add: format_month_inj)
  with eq show "i = j \<and> m = n" by (simp add: assetDepreciationKey_def asset_key_def)
qed simp

lemma last_of_month: "is_digit (last (''Asset:'' @ i @ '':DEP:'' @ format_month m))"
proof -
  have "dec_pad 2 (snd m) \<noteq> []" by (metis dec_nonempty dec_pad_def append_is_Nil_conv)
  then have "last (''Asset:'' @ i @ '':DEP:'' @ format_month m) = last (dec_pad 2 (snd m))"
    by (simp add: format_month_def)
  with \<open>dec_pad 2 (snd m) \<noteq> []\<close> show ?thesis using dec_pad_digits last_in_set by metis
qed

lemma dep_key_other:
  "assetDepreciationKey i (format_month m) \<noteq> capitalize_key j"
  "assetDepreciationKey i (format_month m) \<noteq> dispose_key j"
proof -
  have "is_digit (last (assetDepreciationKey i (format_month m)))" using last_of_month [of i m] by (simp add: assetDepreciationKey_def asset_key_def)
  moreover have "\<not> is_digit (last (capitalize_key j))" "\<not> is_digit (last (dispose_key j))"
    by (simp_all add: is_digit_iff capitalize_key_def dispose_key_def asset_key_def)
  ultimately show "assetDepreciationKey i (format_month m) \<noteq> capitalize_key j"
    "assetDepreciationKey i (format_month m) \<noteq> dispose_key j" by metis+
qed

lemma capitalize_dispose_keys: "capitalize_key i \<noteq> dispose_key j"
proof
  assume "capitalize_key i = dispose_key j"
  then have "rev (capitalize_key i) = rev (dispose_key j)" by simp
  then show False by (simp add: capitalize_key_def dispose_key_def asset_key_def)
qed

lemma asset_keys_inj [simp]:
  "capitalize_key i = capitalize_key j \<longleftrightarrow> i = j" "dispose_key i = dispose_key j \<longleftrightarrow> i = j"
  by (simp_all add: capitalize_key_def dispose_key_def asset_key_def)

lemma asset_keys_nonempty [simp]: "capitalize_key i \<noteq> []" "dispose_key i \<noteq> []" "assetDepreciationKey i m \<noteq> []"
  by (simp_all add: asset_key_def capitalize_key_def dispose_key_def assetDepreciationKey_def)

lemma keys_of_one_asset [simp]:
  "assetDepreciationKey i a = assetDepreciationKey i b \<longleftrightarrow> a = b" "capitalize_key i \<noteq> assetDepreciationKey i a"
  by (simp_all add: assetDepreciationKey_def capitalize_key_def asset_key_def)

lemmas keys_apart = dep_key_other dep_key_other [symmetric] capitalize_dispose_keys capitalize_dispose_keys [symmetric] dep_key_inj

section \<open>The charges of a plan\<close>

lemma charges_sum:
  assumes "int n \<le> pn_months p" "0 < pn_months p" "0 < pn_cost p"
  shows "sum_list (map (month_charge p) [1..<Suc n])
    = (if int n = pn_months p then pn_cost p else go_div (pn_cost p) (pn_months p) * int n)"
  using assms(1)
proof (induction n)
  case 0
  then show ?case using assms(2) by simp
next
  case (Suc n)
  then have "sum_list (map (month_charge p) [1..<Suc n]) = go_div (pn_cost p) (pn_months p) * int n" by simp
  moreover have "sum_list (map (month_charge p) [1..<Suc (Suc n)]) = sum_list (map (month_charge p) [1..<Suc n]) + month_charge p (Suc n)"
    by simp
  ultimately have sum: "sum_list (map (month_charge p) [1..<Suc (Suc n)])
      = go_div (pn_cost p) (pn_months p) * int n + month_charge p (Suc n)" by (simp only:)
  show ?case
  proof (cases "int (Suc n) = pn_months p")
    case True
    then have "int n = pn_months p - 1" by simp
    with True show ?thesis by (simp only: sum) (simp add: month_charge_def Let_def)
  next
    case False
    then show ?thesis by (simp only: sum) (simp add: month_charge_def Let_def algebra_simps)
  qed
qed

lemma month_charge_nonneg:
  assumes "0 < pn_months p" "0 < pn_cost p" "int i \<le> pn_months p"
  shows "0 \<le> month_charge p i"
proof -
  let ?per = "go_div (pn_cost p) (pn_months p)"
  have "?per = pn_cost p div pn_months p" using assms by (simp add: go_div_nonneg)
  then have "0 \<le> ?per" "?per * pn_months p \<le> pn_cost p"
    using assms by (simp_all add: pos_imp_zdiv_nonneg_iff) (metis assms(1) div_mult_mod_eq le_add_same_cancel1 pos_mod_sign)
  then show ?thesis by (simp add: month_charge_def Let_def) (simp add: right_diff_distrib)
qed


section \<open>What is booked for an asset\<close>

definition asset_row :: "gl_posting \<Rightarrow> bool" where
  "asset_row p \<longleftrightarrow> gp_doctype p = ''Asset'' \<or> gp_doctype p = ''Asset-Disposal''"

definition booked :: "gl_posting list \<Rightarrow> string \<Rightarrow> string \<Rightarrow> int" where
  "booked ps i acc = sum_list (map (\<lambda>p. gp_debit p - gp_credit p) (filter (\<lambda>p. asset_row p \<and> gp_docid p = i \<and> gp_account p = acc) ps))"

definition posted_months :: "gl_posting list \<Rightarrow> string \<Rightarrow> (string \<times> int) list" where
  "posted_months ps i = List.map_filter (dep_row i) ps"

definition asset_docs :: "tenant \<Rightarrow> document list" where
  "asset_docs t = filter (\<lambda>d. d_doctype d = ''Asset'') (t_documents t)"

text \<open>The rows an asset can have, by their keys; nobody else uses keys of assets.\<close>

definition row_ok :: "gl_posting \<Rightarrow> bool" where
  "row_ok p \<longleftrightarrow>
     (if gp_doctype p = ''Asset''
      then (\<exists>m. gp_key p = Some (assetDepreciationKey (gp_docid p) (format_month m)))
        \<or> (gp_key p = Some (capitalize_key (gp_docid p)) \<and> gp_account p \<noteq> assetAccAccumulated)
      else if gp_doctype p = ''Asset-Disposal'' then gp_key p = Some (dispose_key (gp_docid p))
      else \<forall>k. gp_key p \<noteq> Some (asset_key k))"

lemma row_ok_month:
  "gp_doctype p = ''Asset'' \<Longrightarrow> gp_key p = Some (assetDepreciationKey (gp_docid p) (format_month m)) \<Longrightarrow> row_ok p"
  by (auto simp: row_ok_def simp del: split_paired_Ex)

lemma posted_months_simps [simp]:
  "posted_months [] i = []" "posted_months (xs @ ys) i = posted_months xs i @ posted_months ys i"
  by (simp_all add: posted_months_def List.map_filter_def)

lemma booked_simps [simp]: "booked [] i acc = 0" "booked (xs @ ys) i acc = booked xs i acc + booked ys i acc"
  by (simp_all add: booked_def)

lemma load_is_posted_months: "loadAssetDepreciationPostings t i = posted_months (t_postings t) i"
  by (simp add: loadAssetDepreciationPostings_def posted_months_def)

lemma booked_other: "\<forall>p \<in> set vs. gp_docid p = j \<Longrightarrow> j \<noteq> i \<Longrightarrow> booked vs i acc = 0"
  by (induction vs) (auto simp: booked_def)

lemma posted_months_other: "\<forall>p \<in> set vs. gp_docid p = j \<Longrightarrow> j \<noteq> i \<Longrightarrow> posted_months vs i = []"
  by (induction vs) (auto simp: posted_months_def List.map_filter_simps dep_row_def)

text \<open>What a document's rows say depends on the asset rows only.\<close>

lemma booked_filter: "booked (filter asset_row ps) i acc = booked ps i acc"
  by (simp add: booked_def conj_ac)

lemma dep_row_None: "\<not> asset_row p \<Longrightarrow> dep_row i p = None"
  by (simp add: dep_row_def asset_row_def)

lemma posted_months_filter: "posted_months (filter asset_row ps) i = posted_months ps i"
  by (induction ps) (simp_all add: posted_months_def List.map_filter_simps dep_row_None split: option.split)

lemma dep_rowE:
  assumes "row_ok p" "gp_doctype p = ''Asset''" "gp_account p = assetAccAccumulated"
  obtains m where "gp_key p = Some (assetDepreciationKey (gp_docid p) (format_month m))"
    "dep_row (gp_docid p) p = Some (format_month m, gp_credit p - gp_debit p)"
proof -
  from assms obtain m where m: "gp_key p = Some (assetDepreciationKey (gp_docid p) (format_month m))" by (fastforce simp: row_ok_def)
  have "after_last '':DEP:'' (assetDepreciationKey (gp_docid p) (format_month m)) = Some (format_month m)"
    using after_last_key [of "''Asset:'' @ gp_docid p" m] by (simp add: assetDepreciationKey_def asset_key_def)
  with assms m show ?thesis by (intro that [of m]) (simp_all add: dep_row_def)
qed

lemma month_row_posted:
  assumes "\<forall>p \<in> set (t_postings t). row_ok p" "(k, a) \<in> set (posted_months (t_postings t) i)"
  shows "key_posted t (assetDepreciationKey i k)"
proof -
  from assms(2) obtain p where p: "p \<in> set (t_postings t)" "dep_row i p = Some (k, a)"
    by (auto simp: posted_months_def List.map_filter_def)
  then have i: "gp_doctype p = ''Asset''" "gp_docid p = i" "gp_account p = assetAccAccumulated"
    by (auto simp: dep_row_def split: if_splits)
  from assms(1) p(1) have "row_ok p" by simp
  then obtain m where "gp_key p = Some (assetDepreciationKey i (format_month m))" "dep_row i p = Some (format_month m, gp_credit p - gp_debit p)"
    using i dep_rowE [of p] by auto
  with p show ?thesis by (auto simp: key_posted_def list_ex_iff)
qed

lemma accumulated_is_booked:
  assumes "\<forall>p \<in> set ps. row_ok p" "\<forall>p \<in> set ps. gp_docid p = i \<longrightarrow> gp_doctype p \<noteq> ''Asset-Disposal''"
  shows "booked ps i assetAccAccumulated = - accumulated_of (posted_months ps i)"
  using assms
proof (induction ps)
  case (Cons p ps)
  then have IH: "booked ps i assetAccAccumulated = - accumulated_of (posted_months ps i)" by simp
  have step: "booked (p # ps) i assetAccAccumulated = booked [p] i assetAccAccumulated + booked ps i assetAccAccumulated"
    "posted_months (p # ps) i = posted_months [p] i @ posted_months ps i"
    using booked_simps(2) [of "[p]" ps] posted_months_simps(2) [of "[p]" ps] by simp_all
  have "booked [p] i assetAccAccumulated = - accumulated_of (posted_months [p] i)"
  proof (cases "gp_doctype p = ''Asset'' \<and> gp_docid p = i \<and> gp_account p = assetAccAccumulated")
    case True
    from Cons.prems(1) have "row_ok p" by simp
    then obtain m where "dep_row i p = Some (format_month m, gp_credit p - gp_debit p)"
      using True by (metis dep_rowE)
    with True show ?thesis
      by (simp add: booked_def posted_months_def List.map_filter_simps asset_row_def accumulated_of_def)
  next
    case False
    with Cons.prems(2) show ?thesis
      by (auto simp: booked_def posted_months_def List.map_filter_simps dep_row_def asset_row_def accumulated_of_def)
  qed
  with IH step show ?case by (simp add: accumulated_of_def)
qed (simp add: accumulated_of_def)


section \<open>The invariant\<close>

text \<open>
  A Draft asset has no rows. A Capitalised one holds its recorded cost on 1400 and, on 1410,
  the charges of distinct months of its plan. A Disposed one holds nothing on either.
\<close>

definition charged_months :: "gl_posting list \<Rightarrow> document \<Rightarrow> bool" where
  "charged_months ps d \<longleftrightarrow> distinct (map fst (posted_months ps (d_id d)))
     \<and> (\<forall>(k, a) \<in> set (posted_months ps (d_id d)). \<exists>p n. assetDepreciationPlan (d_data d) [] = Some p
          \<and> 1 \<le> n \<and> int n \<le> pn_months p \<and> k = monthKey p n \<and> a = month_charge p n)
     \<and> (\<forall>p \<in> set ps. \<forall>k. gp_key p = Some (assetDepreciationKey (d_id d) k) \<longrightarrow> gp_doctype p = ''Asset'' \<longrightarrow> gp_docid p = d_id d
          \<longrightarrow> k \<in> fst ` set (posted_months ps (d_id d)))"

definition asset_ok :: "gl_posting list \<Rightarrow> document \<Rightarrow> bool" where
  "asset_ok ps d \<longleftrightarrow>
     (if d_status d = ''Draft'' then \<forall>p \<in> set ps. asset_row p \<longrightarrow> gp_docid p \<noteq> d_id d
      else if d_status d = ''Capitalised''
      then 0 < assetCostPaise (d_data d) \<and> 0 < jnum (d_data d) ''capitalised_paise''
        \<and> booked ps (d_id d) assetAccFixed = assetCostPaise (d_data d) \<and> charged_months ps d
        \<and> (\<forall>p \<in> set ps. gp_docid p = d_id d \<longrightarrow> gp_doctype p \<noteq> ''Asset-Disposal'')
      else d_status d = ''Disposed'' \<and> booked ps (d_id d) assetAccFixed = 0 \<and> booked ps (d_id d) assetAccAccumulated = 0)"

definition assets_inv :: "tenant \<Rightarrow> bool" where
  "assets_inv t \<longleftrightarrow> (\<forall>p \<in> set (t_postings t). row_ok p) \<and> distinct (map d_id (asset_docs t))
     \<and> (\<forall>d \<in> set (asset_docs t). asset_ok (t_postings t) d)
     \<and> (\<forall>p \<in> set (t_postings t). asset_row p \<longrightarrow> gp_docid p \<in> d_id ` set (asset_docs t))"

lemma find_asset:
  assumes "find_doc t ''Asset'' i = Some d"
  shows "d \<in> set (asset_docs t)" "d_id d = i"
  using find_doc_Some [OF assms] by (auto simp: asset_docs_def)

lemma find_asset_iff:
  assumes "assets_inv t" "d \<in> set (asset_docs t)"
  shows "find_doc t ''Asset'' (d_id d) = Some d"
proof -
  from assms(2) have "d \<in> set (t_documents t)" "d_doctype d = ''Asset''" by (auto simp: asset_docs_def)
  then obtain d' where d': "find_doc t ''Asset'' (d_id d) = Some d'"
    by (cases "find_doc t ''Asset'' (d_id d)") (auto simp: find_doc_def find_None_iff is_doc_def)
  from find_asset [OF this] assms have "d' = d"
    by (auto simp: assets_inv_def distinct_map inj_on_def)
  with d' show ?thesis by simp
qed

text \<open>Rows of one asset leave the others as they were.\<close>

lemma asset_ok_others:
  assumes "asset_ok ps d" "\<forall>p \<in> set vs. gp_docid p = i" "d_id d \<noteq> i"
  shows "asset_ok (ps @ vs) d"
proof -
  have "booked (ps @ vs) (d_id d) acc = booked ps (d_id d) acc" for acc
    using booked_other [OF assms(2)] assms(3) by simp
  moreover have "posted_months (ps @ vs) (d_id d) = posted_months ps (d_id d)"
    using posted_months_other [OF assms(2)] assms(3) by simp
  ultimately show ?thesis
    using assms by (auto simp: asset_ok_def charged_months_def)
qed

text \<open>The shape of every step on one asset: it adds rows of the asset, and may rewrite its document.\<close>

lemma inv_step:
  assumes inv: "assets_inv t" and d: "d \<in> set (asset_docs t)"
    and ps: "t_postings t' = t_postings t @ vs" and vs: "\<forall>p \<in> set vs. asset_row p \<and> row_ok p \<and> gp_docid p = d_id d"
    and docs: "asset_docs t' = map (\<lambda>x. if d_id x = d_id d then f x else x) (asset_docs t)" and f: "d_id (f d) = d_id d"
    and ok: "asset_ok (t_postings t @ vs) (f d)"
  shows "assets_inv t'"
proof -
  have only: "x = d" if "x \<in> set (asset_docs t)" "d_id x = d_id d" for x
    using inv d that by (auto simp: assets_inv_def distinct_map inj_on_def)
  have ids: "map d_id (asset_docs t') = map d_id (asset_docs t)"
    unfolding docs using only f by (auto simp: comp_def)
  have "asset_ok (t_postings t') x" if "x \<in> set (asset_docs t')" for x
  proof -
    from that docs obtain y where y: "y \<in> set (asset_docs t)" "x = (if d_id y = d_id d then f y else y)" by auto
    show ?thesis
    proof (cases "d_id y = d_id d")
      case True
      with y only ok ps show ?thesis by auto
    next
      case False
      have "asset_ok (t_postings t) y" using inv y(1) by (simp add: assets_inv_def)
      with False y(2) vs show ?thesis unfolding ps by (auto intro: asset_ok_others)
    qed
  qed
  moreover have "d_id ` set (asset_docs t') = d_id ` set (asset_docs t)"
    by (metis ids list.set_map)
  ultimately show ?thesis
    using inv vs d by (auto simp: assets_inv_def ps ids)
qed

text \<open>A posting of rows alone.\<close>

lemma inv_rows:
  assumes "assets_inv t" "d \<in> set (asset_docs t)" "t' = t\<lparr>t_postings := t_postings t @ vs\<rparr>"
    "\<forall>p \<in> set vs. asset_row p \<and> row_ok p \<and> gp_docid p = d_id d" "asset_ok (t_postings t @ vs) d"
  shows "assets_inv t'"
  by (rule inv_step [OF assms(1,2), where f = "\<lambda>x. x" and vs = vs]) (use assms in \<open>simp_all add: asset_docs_def\<close>)

lemma asset_docs_save:
  "asset_docs (saveAssetData i st m t) = map (\<lambda>d. if d_id d = i
     then d\<lparr>d_data := jput ''status'' (JStr st) m, d_status := st, d_updated_at := t_now t\<rparr> else d) (asset_docs t)"
proof -
  have "filter (\<lambda>d. d_doctype d = ''Asset'') (map (\<lambda>d. if is_doc ''Asset'' i d
      then d\<lparr>d_data := x, d_status := st, d_updated_at := n\<rparr> else d) ds)
    = map (\<lambda>d. if d_id d = i then d\<lparr>d_data := x, d_status := st, d_updated_at := n\<rparr> else d)
        (filter (\<lambda>d. d_doctype d = ''Asset'') ds)" for x n ds
    by (induction ds) (auto simp: is_doc_def)
  then show ?thesis by (simp add: asset_docs_def saveAssetData_def update_docs_def)
qed

lemma jnum_jput [simp]: "jnum (jput k v m) j = (if j = k then (case v of JNum q \<Rightarrow> q | _ \<Rightarrow> 0) else jnum m j)"
  by (simp add: jnum_def)

text \<open>The plan does not read the fields a transfer writes.\<close>

lemma plan_kept:
  assumes "0 < jnum m ''capitalised_paise''"
    and "jnum m' ''capitalised_paise'' = jnum m ''capitalised_paise''" "jnum m' ''useful_life_years'' = jnum m ''useful_life_years''"
    "jstr m' ''capitalisation_date'' = jstr m ''capitalisation_date''"
  shows "assetCostPaise m' = assetCostPaise m" "assetDepreciationPlan m' [] = assetDepreciationPlan m []"
  using assms by (simp_all add: assetDepreciationPlan_def assetCostPaise_def)


section \<open>Every operation keeps the invariant\<close>

lemma posting_row_simps [simp]:
  "gp_doctype (posting_row dr dt i key opt cur moment c v) = dt" "gp_docid (posting_row dr dt i key opt cur moment c v) = i"
  "gp_key (posting_row dr dt i key opt cur moment c v) = nullable key" "gp_account (posting_row dr dt i key opt cur moment c v) = c"
  "gp_debit (posting_row dr dt i key opt cur moment c v) = (if dr then v else 0)"
  "gp_credit (posting_row dr dt i key opt cur moment c v) = (if dr then 0 else v)"
  by (simp_all add: posting_row_def)

lemma positives_simps [simp]:
  "positives [] = []" "positives ((a, v) # m) = (if 0 < v then (a, v) # positives m else positives m)"
  by (simp_all add: positives_def)

lemma voucher_row_facts:
  assumes "p \<in> set (voucher_rows dt i key opt cur moment ds cs)"
  shows "gp_doctype p = dt" "gp_docid p = i" "gp_key p = nullable key" "gp_account p \<in> fst ` (set ds \<union> set cs)"
  using assms by (auto simp: voucher_rows_def) (force simp: positives_def)+

lemma booked_voucher:
  assumes "dt = ''Asset'' \<or> dt = ''Asset-Disposal''"
  shows "booked (voucher_rows dt i key opt cur moment ds cs) i acc
    = sum_list (map snd (filter (\<lambda>(a, v). a = acc) (positives ds))) - sum_list (map snd (filter (\<lambda>(a, v). a = acc) (positives cs)))"
proof -
  have row: "asset_row (posting_row dr dt i key opt cur moment c v)" for dr c v using assms by (simp add: asset_row_def)
  have d: "booked (map (\<lambda>(code, val). posting_row True dt i key opt cur moment code val) m) i acc = sum_list (map snd (filter (\<lambda>(a, v). a = acc) m))" for m
    by (induction m) (simp_all add: booked_def row split: prod.split)
  have c: "booked (map (\<lambda>(code, val). posting_row False dt i key opt cur moment code val) m) i acc = - sum_list (map snd (filter (\<lambda>(a, v). a = acc) m))" for m
    by (induction m) (simp_all add: booked_def row split: prod.split)
  show ?thesis by (simp add: voucher_rows_def d c)
qed

lemma key_of_asset:
  assumes "row_ok p"
  shows "gp_key p = Some (capitalize_key i) \<Longrightarrow> asset_row p \<and> gp_docid p = i"
    "gp_key p = Some (dispose_key i) \<Longrightarrow> gp_doctype p = ''Asset-Disposal'' \<and> gp_docid p = i"
    "gp_key p = Some (assetDepreciationKey i (format_month m)) \<Longrightarrow> asset_row p \<and> gp_docid p = i"
  using assms unfolding row_ok_def asset_row_def
  by (auto simp: keys_apart split: if_splits) (auto simp: capitalize_key_def dispose_key_def assetDepreciationKey_def)

lemma capitalize_inv:
  assumes inv: "assets_inv t" and op: "CapitalizeAssetWithLife env i life t = Inr t'"
  shows "assets_inv t'"
proof -
  from op obtain d where d: "find_doc t ''Asset'' i = Some d" "d_status d = ''Draft''" "0 < assetCostPaise (d_data d)"
    by (auto simp: CapitalizeAssetWithLife_def fetchAssetData_def Let_def split: option.splits if_splits)
  note i = find_asset [OF d(1)]
  define cost where "cost = assetCostPaise (d_data d)"
  define m where "m = capitalised_data (t_today t) life (d_data d)"
  have m: "jnum m ''capitalised_paise'' = of_int cost" by (simp add: m_def capitalised_data_def Let_def cost_def)
  from op d obtain t1 where post: "PostDoubleEntryTx env ''Asset'' i [(''1400'', cost)] [(''2100'', cost)] [] (capitalize_key i) no_opts t = Inr t1"
    and t': "t' = saveAssetData i ''Capitalised'' m t1"
    by (auto simp: CapitalizeAssetWithLife_def fetchAssetData_def Let_def cost_def m_def split: if_splits)
  have none: "\<forall>p \<in> set (t_postings t). asset_row p \<longrightarrow> gp_docid p \<noteq> d_id d"
    using inv i(1) d(2) by (simp add: assets_inv_def asset_ok_def)
  then have "\<not> key_posted t (capitalize_key i)"
    using inv key_of_asset(1) i(2) unfolding key_posted_def list_ex_iff assets_inv_def by blast
  with post obtain opt cur moment where t1: "t1 = t\<lparr>t_postings := t_postings t @ voucher_rows ''Asset'' i (capitalize_key i) opt cur moment [(''1400'', cost)] [(''2100'', cost)]\<rparr>"
    by (auto elim!: PostDoubleEntryTxE)
  define vs where "vs = voucher_rows ''Asset'' i (capitalize_key i) opt cur moment [(''1400'', cost)] [(''2100'', cost)]"
  have cost: "0 < cost" using d(3) by (simp add: cost_def)
  have vs: "asset_row p \<and> row_ok p \<and> gp_docid p = d_id d" if "p \<in> set vs" for p
    using voucher_row_facts [OF that [unfolded vs_def]] i(2)
    by (auto simp: asset_row_def row_ok_def nullable_def assetAccAccumulated_def)
  have old: "booked (t_postings t) i acc = 0" "posted_months (t_postings t) i = []" for acc
  proof -
    have "filter (\<lambda>p. asset_row p \<and> gp_docid p = i \<and> gp_account p = acc) (t_postings t) = []"
      using none i(2) by (auto simp: filter_empty_conv)
    then show "booked (t_postings t) i acc = 0" by (simp add: booked_def)
    have "dep_row i p = None" if "p \<in> set (t_postings t)" for p
      using none i(2) that by (auto simp: dep_row_def asset_row_def)
    then show "posted_months (t_postings t) i = []"
      by (auto simp: posted_months_def List.map_filter_def filter_empty_conv)
  qed
  have months: "posted_months vs i = []"
    by (simp add: vs_def voucher_rows_def posted_months_def List.map_filter_simps dep_row_def posting_row_def assetAccAccumulated_def)
  have m_cost: "assetCostPaise (jput ''status'' (JStr ''Capitalised'') m) = cost"
    using m cost by (simp add: assetCostPaise_def)
  show ?thesis
  proof (rule inv_step [OF inv i(1)])
    show "t_postings t' = t_postings t @ vs" by (simp add: t' saveAssetData_def t1 vs_def)
    show "\<forall>p \<in> set vs. asset_row p \<and> row_ok p \<and> gp_docid p = d_id d" using vs by blast
    let ?f = "\<lambda>x. x\<lparr>d_data := jput ''status'' (JStr ''Capitalised'') m, d_status := ''Capitalised'', d_updated_at := t_now t1\<rparr>"
    show "asset_docs t' = map (\<lambda>x. if d_id x = d_id d then ?f x else x) (asset_docs t)"
      by (simp add: t' asset_docs_save i(2)) (simp add: t1 asset_docs_def)
    show "d_id (?f d) = d_id d" by simp
    have "p \<in> set (t_postings t @ vs) \<Longrightarrow> gp_docid p = i \<Longrightarrow> gp_doctype p \<noteq> ''Asset-Disposal''" for p
      using none i(2) voucher_row_facts(1) [of p "''Asset''"] by (auto simp: vs_def asset_row_def)
    moreover have "gp_key p \<noteq> Some (assetDepreciationKey i k)" if "p \<in> set (t_postings t @ vs)" "gp_doctype p = ''Asset''" "gp_docid p = i" for p k
    proof -
      have "gp_key q = Some (capitalize_key i)" if "q \<in> set vs" for q
        using voucher_row_facts(3) [OF that [unfolded vs_def]] by (simp add: nullable_def)
      with that none i(2) show ?thesis by (auto simp: asset_row_def)
    qed
    ultimately show "asset_ok (t_postings t @ vs) (?f d)"
      using old months i(2) m m_cost cost
      by (auto simp: asset_ok_def charged_months_def booked_voucher vs_def assetAccFixed_def)
  qed
qed

lemma transfer_inv:
  assumes inv: "assets_inv t" and op: "TransferAsset i location custodian actor t = Inr t'"
  shows "assets_inv t'"
proof -
  from op obtain d where d: "find_doc t ''Asset'' i = Some d" "d_status d = ''Capitalised''"
    and t': "t' = transfer_save i (d_data d) ''Capitalised'' location custodian actor t"
    by (auto simp: TransferAsset_def fetchAssetData_def split: option.splits if_splits)
  note i = find_asset [OF d(1)]
  let ?m = "jput ''status'' (JStr ''Capitalised'') (jput ''custodian'' (JStr custodian) (jput ''location'' (JStr location) (d_data d)))"
  let ?f = "\<lambda>x. x\<lparr>d_data := ?m, d_status := ''Capitalised'', d_updated_at := t_now t\<rparr>"
  have ok: "asset_ok (t_postings t) d" using inv i(1) by (simp add: assets_inv_def)
  then have cap: "0 < jnum (d_data d) ''capitalised_paise''" using d(2) by (simp add: asset_ok_def)
  have kept: "assetCostPaise ?m = assetCostPaise (d_data d)" "assetDepreciationPlan ?m [] = assetDepreciationPlan (d_data d) []"
    using plan_kept [OF cap, of ?m] by simp_all
  show ?thesis
  proof (rule inv_step [OF inv i(1)])
    show "t_postings t' = t_postings t @ []" by (simp add: t' transfer_save_def LogAuditEvent_def saveAssetData_def)
    show "asset_docs t' = map (\<lambda>x. if d_id x = d_id d then ?f x else x) (asset_docs t)"
      using asset_docs_save [of i "''Capitalised''" "jput ''custodian'' (JStr custodian) (jput ''location'' (JStr location) (d_data d))" t] i(2)
      by (simp add: t' transfer_save_def LogAuditEvent_def asset_docs_def)
    show "asset_ok (t_postings t @ []) (?f d)"
      using ok d(2) by (simp add: asset_ok_def charged_months_def kept)
  qed simp_all
qed


lemma plan_facts:
  assumes "assetDepreciationPlan m c = Some p"
  shows "0 < pn_months p" "0 < pn_cost p" "1 \<le> snd (pn_start p)" "pn_cost p = assetCostPaise m"
  using assms by (auto simp: assetDepreciationPlan_def Let_def parse_date_def split: option.splits if_splits)

lemma monthsDue_le: "0 < pn_months p \<Longrightarrow> int (monthsDue p now) \<le> pn_months p"
  by (simp add: monthsDue_def Let_def)

text \<open>One month: nothing, or the two rows of its charge.\<close>

lemma post_month:
  assumes inv: "assets_inv t" and d: "d \<in> set (asset_docs t)" and p: "assetDepreciationPlan (d_data d) [] = Some p"
    and k: "1 \<le> k" "int k \<le> pn_months p" and op: "postAssetDepreciationMonth env (d_id d) p k t = Inr (b, t')"
  shows "assets_inv t'" "t_documents t' = t_documents t"
    "accumulated_of (posted_months (t_postings t') (d_id d)) = accumulated_of (posted_months (t_postings t) (d_id d)) + (if b then month_charge p k else 0)"
proof -
  let ?i = "d_id d" and ?key = "assetDepreciationKey (d_id d) (monthKey p k)" and ?c = "month_charge p k"
  note f = find_asset_iff [OF inv d]
  have "assets_inv t' \<and> t_documents t' = t_documents t
    \<and> accumulated_of (posted_months (t_postings t') ?i) = accumulated_of (posted_months (t_postings t) ?i) + (if b then ?c else 0)"
  proof (cases "d_status d = ''Capitalised'' \<and> \<not> key_posted t ?key")
    case False
    with op f have "\<not> b \<and> t' = t" by (auto simp: postAssetDepreciationMonth_def fetchAssetData_def Let_def)
    with inv show ?thesis by simp
  next
    case True
    with op f obtain x y where b: "b" and "PostDoubleEntryTx env ''Asset'' ?i [(assetAccDepExpense, ?c)] [(assetAccAccumulated, ?c)] x ?key y t = Inr t'"
      by (auto simp: postAssetDepreciationMonth_def fetchAssetData_def Let_def)
    with True obtain opt cur moment where t': "t' = t\<lparr>t_postings := t_postings t
        @ voucher_rows ''Asset'' ?i ?key opt cur moment [(assetAccDepExpense, ?c)] [(assetAccAccumulated, ?c)]\<rparr>"
      by (auto elim!: PostDoubleEntryTxE)
    define vs where "vs = voucher_rows ''Asset'' ?i ?key opt cur moment [(assetAccDepExpense, ?c)] [(assetAccAccumulated, ?c)]"
    have c: "0 \<le> ?c" using month_charge_nonneg plan_facts [OF p] k by simp
    have mk: "monthKey p k = format_month (monthStart p k)" by (simp add: monthKey_def)
    have vs: "asset_row q \<and> row_ok q \<and> gp_docid q = ?i" if "q \<in> set vs" for q
      using voucher_row_facts [OF that [unfolded vs_def]] row_ok_month [of q "monthStart p k"] by (simp add: asset_row_def nullable_def mk)
    have "row_ok (posting_row False ''Asset'' ?i ?key opt cur moment assetAccAccumulated ?c)"
      by (rule row_ok_month [of _ "monthStart p k"]) (simp_all add: nullable_def mk)
    from dep_rowE [OF this] have "dep_row ?i (posting_row False ''Asset'' ?i ?key opt cur moment assetAccAccumulated ?c) = Some (monthKey p k, ?c)"
      by (simp add: nullable_def mk dep_key_inj) (metis prod.collapse)
    then have months: "posted_months vs ?i = (if 0 < ?c then [(monthKey p k, ?c)] else [])"
      by (simp add: vs_def voucher_rows_def posted_months_def List.map_filter_simps)
        (simp add: dep_row_def assetAccDepExpense_def assetAccAccumulated_def)
    have fresh: "monthKey p k \<notin> fst ` set (posted_months (t_postings t) ?i)"
      using True month_row_posted inv unfolding assets_inv_def by force
    have "asset_ok (t_postings t @ vs) d"
    proof -
      have ok: "asset_ok (t_postings t) d" using inv d by (simp add: assets_inv_def)
      have "booked vs ?i assetAccFixed = 0"
        by (simp add: vs_def booked_voucher assetAccFixed_def assetAccDepExpense_def assetAccAccumulated_def)
      moreover have "charged_months (t_postings t @ vs) d"
      proof -
        have "ka = monthKey p k \<and> 0 < ?c" if "q \<in> set vs" "gp_key q = Some (assetDepreciationKey ?i ka)" for q ka
        proof -
          have "ka = monthKey p k" using that voucher_row_facts(3) [of q] by (auto simp: vs_def nullable_def)
          moreover have "vs \<noteq> []" using that by auto
          then have "0 < ?c" using c by (auto simp: vs_def voucher_rows_def split: if_splits)
          ultimately show ?thesis by simp
        qed
        with ok True fresh p k show ?thesis by (fastforce simp: asset_ok_def charged_months_def months)
      qed
      moreover have "gp_doctype q \<noteq> ''Asset-Disposal''" if "q \<in> set vs" for q
        using voucher_row_facts(1) [OF that [unfolded vs_def]] by simp
      ultimately show ?thesis using ok True by (auto simp: asset_ok_def)
    qed
    with inv_rows [OF inv d t' [folded vs_def]] vs have "assets_inv t'" by blast
    moreover have "posted_months (t_postings t') ?i = posted_months (t_postings t) ?i @ posted_months vs ?i"
      by (simp add: t' vs_def)
    ultimately show ?thesis using b c by (simp add: months accumulated_of_def t')
  qed
  then show "assets_inv t'" "t_documents t' = t_documents t"
    "accumulated_of (posted_months (t_postings t') ?i) = accumulated_of (posted_months (t_postings t) ?i) + (if b then ?c else 0)"
    by auto
qed

lemma asset_docs_cong: "t_documents t' = t_documents t \<Longrightarrow> asset_docs t' = asset_docs t"
  by (simp add: asset_docs_def)

lemma depreciate_months_inv:
  assumes "assets_inv t" "d \<in> set (asset_docs t)" "assetDepreciationPlan (d_data d) [] = Some p"
    "\<forall>k \<in> set ks. 1 \<le> k \<and> int k \<le> pn_months p"
    "depreciate_months env (d_id d) p posted ks out t = (t', out', e)"
  shows "assets_inv t' \<and> t_documents t' = t_documents t"
  using assms
proof (induction ks arbitrary: out t)
  case (Cons k ks)
  show ?case
  proof (cases "monthKey p k \<in> set posted")
    case True
    with Cons show ?thesis by simp
  next
    case new: False
    show ?thesis
    proof (cases "postAssetDepreciationMonth env (d_id d) p k t")
      case (Inl err)
      with new Cons show ?thesis by (auto split: if_splits)
    next
      case (Inr q)
      then obtain b t1 where q: "postAssetDepreciationMonth env (d_id d) p k t = Inr (b, t1)" by (cases q) auto
      note pm = post_month [OF Cons.prems(1-3) _ _ q]
      have k: "1 \<le> k" "int k \<le> pn_months p" using Cons.prems(4) by simp_all
      have "assets_inv t1" "t_documents t1 = t_documents t" using pm(1,2) k by simp_all
      with Cons.IH [of t1] Cons.prems new q asset_docs_cong [of t1 t] show ?thesis
        by (auto split: if_splits)
    qed
  qed
qed simp

lemma depreciateAsset_inv:
  assumes "assets_inv t" "d \<in> set (asset_docs t)" "depreciateAsset env now (d_id d) (d_data d) t = (t', out, e)"
  shows "assets_inv t' \<and> t_documents t' = t_documents t"
proof (cases "assetDepreciationPlan (d_data d) []")
  case None
  with assms show ?thesis by (simp add: depreciateAsset_def Let_def)
next
  case (Some p)
  show ?thesis
  proof (cases "monthsDue p now = 0")
    case True
    with assms Some show ?thesis by (simp add: depreciateAsset_def Let_def)
  next
    case False
    let ?out = "\<lparr>do_code = jstr (d_data d) ''code'', do_posted = [], do_amount = 0, do_skipped = [], do_noted = False\<rparr>"
    obtain t1 out1 e1 where loop: "depreciate_months env (d_id d) p (map fst (loadAssetDepreciationPostings t (d_id d))) [1..<Suc (monthsDue p now)] ?out t = (t1, out1, e1)"
      by (metis prod_cases3)
    have "\<forall>k \<in> set [1..<Suc (monthsDue p now)]. 1 \<le> k \<and> int k \<le> pn_months p"
      using monthsDue_le [OF plan_facts(1) [OF Some], of now] by auto
    from depreciate_months_inv [OF assms(1,2) Some this loop] have "assets_inv t1 \<and> t_documents t1 = t_documents t" .
    moreover have "t' = t1" using assms(3) Some False loop by (auto simp: depreciateAsset_def Let_def split: option.splits)
    ultimately show ?thesis by simp
  qed
qed

lemma run_inv:
  assumes inv: "assets_inv t" and run: "RunAssetDepreciation env now t = (t', r)"
  shows "assets_inv t'"
proof -
  have step: "assets_inv t1 \<and> t_documents t1 = t_documents t"
    if "foldl (run_asset env now) (t, r0) as = (t1, r1)" "set as \<subseteq> set (capitalised_assets t)" for as t1 r0 r1
    using that
  proof (induction as arbitrary: t1 r1 rule: rev_induct)
    case Nil
    with inv show ?case by simp
  next
    case (snoc a as)
    obtain t2 r2 where fold: "foldl (run_asset env now) (t, r0) as = (t2, r2)" by fastforce
    with snoc have t2: "assets_inv t2" "t_documents t2 = t_documents t" by auto
    from snoc.prems(2) obtain d where d: "d \<in> set (asset_docs t)" "a = (d_id d, d_data d)"
      by (auto simp: capitalised_assets_def asset_docs_def)
    obtain t3 out e where dep: "depreciateAsset env now (d_id d) (d_data d) t2 = (t3, out, e)" by (metis prod_cases3)
    have "d \<in> set (asset_docs t2)" using d(1) asset_docs_cong [OF t2(2)] by simp
    from depreciateAsset_inv [OF t2(1) this dep] t2(2) have "assets_inv t3 \<and> t_documents t3 = t_documents t" by simp
    moreover have "t1 = t3" using snoc.prems(1) fold dep d(2) by (simp add: run_asset_def)
    ultimately show ?case by simp
  qed
  obtain t1 r1 where fold: "foldl (run_asset env now) (t, \<lparr>dr_checked = 0, dr_posted = 0, dr_skipped = 0, dr_amount = 0, dr_assets = []\<rparr>)
    (capitalised_assets t) = (t1, r1)" by fastforce
  with run have "t' = t1" by (simp add: RunAssetDepreciation_def)
  with step [OF fold] show ?thesis by simp
qed


lemma accumulated_bounds:
  assumes ch: "charged_months ps d" and pos: "0 < assetCostPaise (d_data d)"
  shows "0 \<le> accumulated_of (posted_months ps (d_id d)) \<and> accumulated_of (posted_months ps (d_id d)) \<le> assetCostPaise (d_data d)"
proof (cases "posted_months ps (d_id d) = []")
  case True
  then show ?thesis using pos by (simp add: accumulated_of_def)
next
  case False
  let ?L = "posted_months ps (d_id d)"
  from False ch obtain p where p: "assetDepreciationPlan (d_data d) [] = Some p" by (cases ?L) (auto simp: charged_months_def)
  note pf = plan_facts [OF p]
  define N where "N = nat (pn_months p)"
  have "\<forall>x \<in> set ?L. \<exists>n. 1 \<le> n \<and> n \<le> N \<and> fst x = monthKey p n \<and> snd x = month_charge p n"
    using ch p by (fastforce simp: charged_months_def N_def)
  then obtain f where f: "\<forall>x \<in> set ?L. 1 \<le> f x \<and> f x \<le> N \<and> fst x = monthKey p (f x) \<and> snd x = month_charge p (f x)"
    using bchoice by metis
  have "map fst ?L = map (monthKey p) (map f ?L)" using f by simp
  then have "distinct (map f ?L)" using ch by (metis charged_months_def distinct_map)
  then have sum: "sum_list (map (month_charge p) (map f ?L)) = sum (month_charge p) (set (map f ?L))"
    by (rule sum_list_distinct_conv_sum_set)
  have charge: "0 \<le> month_charge p n" if "n \<in> {1..N}" for n
    using that pf by (intro month_charge_nonneg) (auto simp: N_def)
  have sub: "set (map f ?L) \<subseteq> {1..N}" using f by auto
  then have "sum (month_charge p) (set (map f ?L)) \<le> sum (month_charge p) {1..N}"
    using charge by (intro sum_mono2) auto
  moreover have "0 \<le> sum (month_charge p) (set (map f ?L))"
    using sub charge by (intro sum_nonneg) blast
  moreover have "sum (month_charge p) {1..N} = pn_cost p"
  proof -
    have "sum (month_charge p) {1..N} = sum_list (map (month_charge p) [1..<Suc N])"
      by (subst sum_list_distinct_conv_sum_set) (simp_all add: atLeastLessThanSuc_atLeastAtMost del: upt_Suc)
    also have "\<dots> = pn_cost p" using charges_sum [of N p] pf by (simp add: N_def del: upt_Suc)
    finally show ?thesis .
  qed
  moreover have "accumulated_of ?L = sum_list (map (month_charge p) (map f ?L))"
  proof -
    have "map snd ?L = map (month_charge p) (map f ?L)" using f by simp
    then show ?thesis by (simp only: accumulated_of_def)
  qed
  ultimately show ?thesis using sum pf(4) by simp
qed

lemma dispose_tx_inv:
  assumes inv: "assets_inv t" and op: "dispose_tx env i kind proceeds into1 out t = Inr (a, t')"
    and into1: "into1 \<noteq> assetAccFixed" "into1 \<noteq> assetAccAccumulated"
  shows "assets_inv t'"
proof -
  from op obtain d where d: "find_doc t ''Asset'' i = Some d" "d_status d = ''Capitalised''"
    by (auto simp: dispose_tx_def fetchAssetData_def Let_def split: option.splits if_splits prod.splits)
  note i = find_asset [OF d(1)]
  define acc where "acc = accumulated_of (posted_months (t_postings t) i)"
  define cost where "cost = assetCostPaise (d_data d)"
  obtain ds cs g where entry: "assetDisposalEntry cost acc (RupeesToPaise proceeds) into1 = (ds, cs, g)" by (metis prod_cases3)
  from op d obtain t1 m where post: "PostDoubleEntryTx env ''Asset-Disposal'' i ds cs [] (dispose_key i) no_opts t = Inr t1"
    and t': "t' = saveAssetData i ''Disposed'' m t1"
    by (auto simp: dispose_tx_def fetchAssetData_def Let_def load_is_posted_months entry acc_def [symmetric] cost_def [symmetric])
  have ok: "asset_ok (t_postings t) d" using inv i(1) by (simp add: assets_inv_def)
  then have no_disposal: "\<forall>p \<in> set (t_postings t). gp_docid p = i \<longrightarrow> gp_doctype p \<noteq> ''Asset-Disposal''"
    and ch: "charged_months (t_postings t) d" and cost: "0 < cost" "booked (t_postings t) i assetAccFixed = cost"
    using d(2) i(2) by (auto simp: asset_ok_def cost_def)
  have "\<not> key_posted t (dispose_key i)"
    using inv key_of_asset(2) no_disposal unfolding key_posted_def list_ex_iff assets_inv_def by blast
  with post obtain opt cur moment where t1: "t1 = t\<lparr>t_postings := t_postings t @ voucher_rows ''Asset-Disposal'' i (dispose_key i) opt cur moment ds cs\<rparr>"
    by (auto elim!: PostDoubleEntryTxE)
  define vs where "vs = voucher_rows ''Asset-Disposal'' i (dispose_key i) opt cur moment ds cs"
  have vs: "asset_row p \<and> row_ok p \<and> gp_docid p = d_id d" if "p \<in> set vs" for p
    using voucher_row_facts [OF that [unfolded vs_def]] i(2) by (simp add: asset_row_def row_ok_def nullable_def)
  have acc: "0 \<le> acc" "booked (t_postings t) i assetAccAccumulated = - acc"
    using accumulated_bounds [OF ch] cost accumulated_is_booked [of "t_postings t" i] no_disposal inv i(2)
    by (auto simp: acc_def cost_def assets_inv_def)
  have "booked vs i assetAccFixed = - cost" "booked vs i assetAccAccumulated = acc"
    using entry into1 cost acc(1)
    by (auto simp: vs_def booked_voucher assetDisposalEntry_def Let_def add_paise_def assetAccFixed_def assetAccAccumulated_def
        assetAccLoss_def assetAccGain_def split: if_splits)
  then have zero: "booked (t_postings t @ vs) i assetAccFixed = 0" "booked (t_postings t @ vs) i assetAccAccumulated = 0"
    using cost acc by simp_all
  show ?thesis
  proof (rule inv_step [OF inv i(1)])
    let ?f = "\<lambda>x. x\<lparr>d_data := jput ''status'' (JStr ''Disposed'') m, d_status := ''Disposed'', d_updated_at := t_now t1\<rparr>"
    show "t_postings t' = t_postings t @ vs" by (simp add: t' saveAssetData_def t1 vs_def)
    show "\<forall>p \<in> set vs. asset_row p \<and> row_ok p \<and> gp_docid p = d_id d" using vs by blast
    show "asset_docs t' = map (\<lambda>x. if d_id x = d_id d then ?f x else x) (asset_docs t)"
      by (simp add: t' asset_docs_save i(2)) (simp add: t1 asset_docs_def)
    show "d_id (?f d) = d_id d" by simp
    show "asset_ok (t_postings t @ vs) (?f d)" using zero i(2) by (simp add: asset_ok_def)
  qed
qed

definition receipts_apart :: "tenant \<Rightarrow> bool" where
  "receipts_apart t \<longleftrightarrow> list_all (\<lambda>(c, _). c \<noteq> assetAccFixed \<and> c \<noteq> assetAccAccumulated) (assetReceiptAccounts t)"

lemma dispose_inv:
  assumes inv: "assets_inv t" and op: "DisposeAssetWithProceeds env now i kind proceeds into0 t = (t', r)" and acc: "receipts_apart t"
  shows "assets_inv t'"
proof (cases "rbind (validateAssetDisposalInputs t proceeds into0) (\<lambda>r. rbind (fetchAssetData i t) (\<lambda>(m, st).
             if st \<noteq> ''Capitalised'' then Inl (Coded ''ASSET-0270'') else Inr (r, m)))")
  case (Inl e)
  with op inv show ?thesis by (simp add: DisposeAssetWithProceeds_def)
next
  case (Inr q)
  obtain into1 m where q: "q = (into1, m)" by (cases q)
  from Inr q obtain d where v: "validateAssetDisposalInputs t proceeds into0 = Inr into1" and d: "find_doc t ''Asset'' i = Some d" "m = d_data d"
    by (auto simp: fetchAssetData_def split: option.splits if_splits)
  note i = find_asset [OF d(1)]
  from v acc have into1: "into1 \<noteq> assetAccFixed" "into1 \<noteq> assetAccAccumulated"
    by (auto simp: validateAssetDisposalInputs_def Let_def receipts_apart_def list_all_iff split: if_splits)
  obtain t1 out e where dep: "depreciateAsset env now i m t = (t1, out, e)" by (metis prod_cases3)
  have t1: "assets_inv t1" using depreciateAsset_inv [OF inv i(1)] dep d(2) i(2) by auto
  show ?thesis
  proof (cases e)
    case (Some x)
    with op Inr q dep t1 show ?thesis by (simp add: DisposeAssetWithProceeds_def)
  next
    case None
    show ?thesis
    proof (cases "dispose_tx env i kind proceeds into1 out t1")
      case (Inl x)
      with None op \<open>_ = Inr q\<close> q dep t1 show ?thesis by (simp add: DisposeAssetWithProceeds_def)
    next
      case (Inr z)
      then obtain a t2 where z: "dispose_tx env i kind proceeds into1 out t1 = Inr (a, t2)" by (cases z) auto
      with None op \<open>_ = Inr q\<close> q dep have "t' = t2" by (simp add: DisposeAssetWithProceeds_def)
      with dispose_tx_inv [OF t1 z into1] show ?thesis by simp
    qed
  qed
qed


section \<open>The steps of the register\<close>

text \<open>
  A new Draft asset, any operation of the engine, or a step elsewhere: it leaves the asset
  documents and their rows alone and posts under no key of an asset.
\<close>

inductive asset_step :: "posting_env \<Rightarrow> tenant \<Rightarrow> tenant \<Rightarrow> bool" for env where
  raised: "d_doctype d = ''Asset'' \<Longrightarrow> d_status d = ''Draft'' \<Longrightarrow> find_doc t ''Asset'' (d_id d) = None
      \<Longrightarrow> asset_step env t (insert_doc d t)"
| capitalised: "CapitalizeAssetWithLife env i life t = Inr t' \<Longrightarrow> asset_step env t t'"
| transferred: "TransferAsset i location custodian actor t = Inr t' \<Longrightarrow> asset_step env t t'"
| depreciated: "RunAssetDepreciation env now t = (t', r) \<Longrightarrow> asset_step env t t'"
| disposed: "DisposeAssetWithProceeds env now i kind proceeds into0 t = (t', q) \<Longrightarrow> receipts_apart t \<Longrightarrow> asset_step env t t'"
| elsewhere: "filter asset_row (t_postings t') = filter asset_row (t_postings t) \<Longrightarrow> asset_docs t' = asset_docs t
      \<Longrightarrow> \<forall>p \<in> set (t_postings t'). asset_row p \<or> (\<forall>k. gp_key p \<noteq> Some (asset_key k)) \<Longrightarrow> asset_step env t t'"

lemma raised_inv:
  assumes inv: "assets_inv t" and d: "d_doctype d = ''Asset''" "d_status d = ''Draft''" "find_doc t ''Asset'' (d_id d) = None"
  shows "assets_inv (insert_doc d t)"
proof -
  have new: "d_id d \<notin> d_id ` set (asset_docs t)"
    using d(3) by (auto simp: find_doc_def find_None_iff is_doc_def asset_docs_def)
  moreover have "asset_docs (insert_doc d t) = asset_docs t @ [d]" using d(1) by (simp add: asset_docs_def insert_doc_def)
  moreover have "asset_ok (t_postings t) d"
    using inv new d(2) unfolding asset_ok_def assets_inv_def by metis
  ultimately show ?thesis using inv by (auto simp: assets_inv_def)
qed

lemma same_rows_ok:
  assumes same: "filter asset_row ps' = filter asset_row ps" and ok: "asset_ok ps d"
  shows "asset_ok ps' d"
proof -
  have row: "asset_row p \<Longrightarrow> p \<in> set ps' \<longleftrightarrow> p \<in> set ps" for p
    using arg_cong [OF same, of set] by auto
  have "booked ps' i acc = booked ps i acc" "posted_months ps' i = posted_months ps i" for i acc
    by (metis same booked_filter) (metis same posted_months_filter)
  with ok show ?thesis using row
    by (auto simp: asset_ok_def charged_months_def asset_row_def)
qed

lemma elsewhere_inv:
  assumes inv: "assets_inv t" and same: "filter asset_row (t_postings t') = filter asset_row (t_postings t)" "asset_docs t' = asset_docs t"
    and keys: "\<forall>p \<in> set (t_postings t'). asset_row p \<or> (\<forall>k. gp_key p \<noteq> Some (asset_key k))"
  shows "assets_inv t'"
proof -
  have row: "asset_row p \<Longrightarrow> p \<in> set (t_postings t') \<longleftrightarrow> p \<in> set (t_postings t)" for p
    using arg_cong [OF same(1), of set] by auto
  have "row_ok p" if "p \<in> set (t_postings t')" for p
  proof (cases "asset_row p")
    case True
    with that row inv show ?thesis by (simp add: assets_inv_def)
  next
    case False
    with that keys show ?thesis by (auto simp: row_ok_def asset_row_def)
  qed
  with inv row same_rows_ok [OF same(1)] show ?thesis by (auto simp: assets_inv_def same(2))
qed

lemma asset_step_inv: "asset_step env t t' \<Longrightarrow> assets_inv t \<Longrightarrow> assets_inv t'"
proof (induction rule: asset_step.induct)
  case (elsewhere t' t)
  from elsewhere(4,1-3) show ?case by (rule elsewhere_inv)
qed (auto intro: raised_inv capitalize_inv transfer_inv run_inv dispose_inv)

lemma assets_reachable: "(asset_step env)\<^sup>*\<^sup>* t t' \<Longrightarrow> assets_inv t \<Longrightarrow> assets_inv t'"
  by (induction rule: rtranclp_induct) (auto intro: asset_step_inv)


section \<open>What a disposal will post\<close>

text \<open>Whether the posting of a month is refused because its period is closed.\<close>

definition month_closed :: "tenant \<Rightarrow> string \<Rightarrow> asset_plan \<Rightarrow> nat \<Rightarrow> bool" where
  "month_closed t i p k \<longleftrightarrow> rejectIfCurrentPeriodClosed t ''Asset'' i (monthEnd p k) = Inl (Coded ''FIN-0260'')"

lemma closed_same_periods [simp]: "month_closed (t\<lparr>t_postings := ps\<rparr>) i p k = month_closed t i p k"
  by (simp add: month_closed_def rejectIfCurrentPeriodClosed_def isBackdatedPostingApproved_def)

lemma closed_months:
  assumes "closedDepreciationMonths t i p ks = Inr cs"
  shows "cs = map (monthKey p) (filter (month_closed t i p) ks)"
proof -
  have "efold (\<lambda>cs k. case rejectIfCurrentPeriodClosed t ''Asset'' i (monthEnd p k) of
       Inl e \<Rightarrow> if e = Coded ''FIN-0260'' then Inr (cs @ [monthKey p k]) else Inl e
     | Inr _ \<Rightarrow> Inr cs) c ks = Inr cs \<Longrightarrow> cs = c @ map (monthKey p) (filter (month_closed t i p) ks)" for c
    by (induction ks arbitrary: c) (simp, fastforce simp: month_closed_def split: sum.splits if_splits)
  from this [of "[]"] assms show ?thesis by (simp add: closedDepreciationMonths_def)
qed

lemma plain_references [simp]:
  "validateReference dt [] t = Inr ()"
  by (simp add: validateReference_def)

lemma insert_side_error [simp]: "insert_side dr dt i key opt cur moment m t \<noteq> Inl (Coded c)"
proof
  assume "insert_side dr dt i key opt cur moment m t = Inl (Coded c)"
  then show False unfolding insert_side_def by (auto dest!: efold_error split: if_splits)
qed

text \<open>A month that is due and not posted is posted, or refused by its period.\<close>

lemma month_refused:
  assumes "postAssetDepreciationMonth env i p k t = Inl (Coded ''FIN-0260'')"
  shows "month_closed t i p k"
  using assms
  by (auto simp: postAssetDepreciationMonth_def fetchAssetData_def Let_def PostDoubleEntryTx_def no_opts_def
      validateCostCenterReference_def validateDepartmentReference_def validateLegalEntityReference_def validateProjectReference_def
      postedAtSQL_def month_closed_def rbind_def split: sum.splits option.splits if_splits)

lemma month_posted:
  assumes "find_doc t ''Asset'' i = Some d" "d_status d = ''Capitalised''" "\<not> key_posted t (assetDepreciationKey i (monthKey p k))"
    and "postAssetDepreciationMonth env i p k t = Inr (b, t')"
  shows "b \<and> \<not> month_closed t i p k
    \<and> (\<exists>vs. t' = t\<lparr>t_postings := t_postings t @ vs\<rparr> \<and> (\<forall>q \<in> set vs. gp_key q = Some (assetDepreciationKey i (monthKey p k))))"
proof -
  from assms obtain x y where b: b and post: "PostDoubleEntryTx env ''Asset'' i x y (monthEnd p k)
      (assetDepreciationKey i (monthKey p k)) (no_opts\<lparr>po_posted_at := monthEnd p k @ '' 23:59:59''\<rparr>) t = Inr t'"
    by (auto simp: postAssetDepreciationMonth_def fetchAssetData_def Let_def)
  from post assms(3) show ?thesis
    by (auto elim!: PostDoubleEntryTxE simp: b month_closed_def voucher_row_facts nullable_def)
qed


text \<open>The loop over the months due: it posts those whose period is open, and skips the rest.\<close>

lemma depreciate_months_result:
  assumes "assets_inv t" "d \<in> set (asset_docs t)" "d_status d = ''Capitalised''" "assetDepreciationPlan (d_data d) [] = Some p"
    and "distinct ks" "\<forall>k \<in> set ks. 1 \<le> k \<and> int k \<le> pn_months p"
    and "\<forall>k \<in> set ks. monthKey p k \<notin> set posted \<longrightarrow> \<not> key_posted t (assetDepreciationKey (d_id d) (monthKey p k))"
    and "depreciate_months env (d_id d) p posted ks out t = (t', out', None)"
    and "new = filter (\<lambda>k. monthKey p k \<notin> set posted) ks" "shut = month_closed t (d_id d) p"
  shows "do_posted out' = do_posted out @ map (monthKey p) (filter (\<lambda>k. \<not> shut k) new)"
    "do_skipped out' = do_skipped out @ map (monthKey p) (filter shut new)"
    "accumulated_of (posted_months (t_postings t') (d_id d))
      = accumulated_of (posted_months (t_postings t) (d_id d)) + sum_list (map (month_charge p) (filter (\<lambda>k. \<not> shut k) new))"
proof -
  let ?i = "d_id d" and ?acc = "\<lambda>t. accumulated_of (posted_months (t_postings t) (d_id d))"
  have "do_posted out' = do_posted out @ map (monthKey p) (filter (\<lambda>k. \<not> shut k) new)
    \<and> do_skipped out' = do_skipped out @ map (monthKey p) (filter shut new)
    \<and> ?acc t' = ?acc t + sum_list (map (month_charge p) (filter (\<lambda>k. \<not> shut k) new))"
    using assms
  proof (induction ks arbitrary: out t new)
    case Nil
    then show ?case by simp
  next
    case (Cons k ks)
    have k: "1 \<le> k" "int k \<le> pn_months p" using Cons.prems(6) by simp_all
    show ?case
    proof (cases "monthKey p k \<in> set posted")
      case True
      with Cons.prems Cons.IH [of t out "filter (\<lambda>k. monthKey p k \<notin> set posted) ks"] show ?thesis by auto
    next
      case new: False
      then have key: "\<not> key_posted t (assetDepreciationKey ?i (monthKey p k))" using Cons.prems(7) by simp
      have find: "find_doc t ''Asset'' ?i = Some d" by (rule find_asset_iff [OF Cons.prems(1,2)])
      show ?thesis
      proof (cases "postAssetDepreciationMonth env ?i p k t")
        case (Inl e)
        with Cons.prems(8) new have e: "e = Coded ''FIN-0260''" by (auto split: if_splits)
        with Inl have shut: "shut k" using month_refused Cons.prems(10) by auto
        from Inl e new Cons.prems(8)
        have "depreciate_months env ?i p posted ks (out\<lparr>do_skipped := do_skipped out @ [monthKey p k]\<rparr>) t = (t', out', None)" by simp
        from Cons.IH [OF Cons.prems(1-4) _ _ _ this refl Cons.prems(10)] Cons.prems(5-7,9) new shut show ?thesis by auto
      next
        case (Inr q)
        then obtain b t1 where q: "postAssetDepreciationMonth env ?i p k t = Inr (b, t1)" by (cases q) auto
        from month_posted [OF find Cons.prems(3) key q] Cons.prems(10) obtain vs where b: b and open_: "\<not> shut k"
          and t1: "t1 = t\<lparr>t_postings := t_postings t @ vs\<rparr>" and vs: "\<forall>q \<in> set vs. gp_key q = Some (assetDepreciationKey ?i (monthKey p k))"
          by auto
        note pm = post_month [OF Cons.prems(1,2,4) k q]
        have d1: "d \<in> set (asset_docs t1)" using Cons.prems(2) asset_docs_cong [OF pm(2)] by simp
        have keys: "\<forall>j \<in> set ks. monthKey p j \<notin> set posted \<longrightarrow> \<not> key_posted t1 (assetDepreciationKey ?i (monthKey p j))"
        proof (intro ballI impI)
          fix j assume j: "j \<in> set ks" "monthKey p j \<notin> set posted"
          then have "monthKey p j \<noteq> monthKey p k"
            using Cons.prems(5,6) monthKey_inj [OF plan_facts(3) [OF Cons.prems(4)], of j k] by auto
          then have "gp_key q \<noteq> Some (assetDepreciationKey ?i (monthKey p j))" if "q \<in> set vs" for q
            using vs that by simp
          moreover have "\<not> key_posted t (assetDepreciationKey ?i (monthKey p j))" using Cons.prems(7) j by simp
          ultimately show "\<not> key_posted t1 (assetDepreciationKey ?i (monthKey p j))"
            by (auto simp: key_posted_def list_ex_iff t1)
        qed
        have shut1: "shut = month_closed t1 ?i p" using Cons.prems(10) by (simp add: fun_eq_iff t1)
        let ?out1 = "out\<lparr>do_posted := do_posted out @ [monthKey p k], do_amount := fl (do_amount out + PaiseToRupees (month_charge p k))\<rparr>"
        from q b new Cons.prems(8) have "depreciate_months env ?i p posted ks ?out1 t1 = (t', out', None)" by simp
        from Cons.IH [OF pm(1) d1 Cons.prems(3,4) _ _ keys this refl shut1] Cons.prems(5,6,9) new open_ b pm(3)
        show ?thesis by auto
      qed
    qed
  qed
  then show "do_posted out' = do_posted out @ map (monthKey p) (filter (\<lambda>k. \<not> shut k) new)"
    "do_skipped out' = do_skipped out @ map (monthKey p) (filter shut new)"
    "?acc t' = ?acc t + sum_list (map (month_charge p) (filter (\<lambda>k. \<not> shut k) new))"
    by simp_all
qed

text \<open>A month without an entry in the loaded postings has no row under its key.\<close>

lemma unposted_key:
  assumes inv: "assets_inv t" and d: "d \<in> set (asset_docs t)" "d_status d = ''Capitalised''"
    and k: "monthKey p k \<notin> fst ` set (loadAssetDepreciationPostings t (d_id d))"
  shows "\<not> key_posted t (assetDepreciationKey (d_id d) (monthKey p k))"
proof
  assume "key_posted t (assetDepreciationKey (d_id d) (monthKey p k))"
  then obtain q where q: "q \<in> set (t_postings t)" "gp_key q = Some (assetDepreciationKey (d_id d) (monthKey p k))"
    by (auto simp: key_posted_def list_ex_iff)
  have "row_ok q" using inv q(1) by (simp add: assets_inv_def)
  from key_of_asset(3) [OF this, of "d_id d" "monthStart p k"] q(2) have "asset_row q" "gp_docid q = d_id d"
    by (simp_all add: monthKey_def)
  moreover have "asset_ok (t_postings t) d" using inv d(1) by (simp add: assets_inv_def)
  ultimately have "gp_doctype q = ''Asset''" "charged_months (t_postings t) d"
    using d(2) q(1) by (auto simp: asset_ok_def asset_row_def)
  with q \<open>gp_docid q = d_id d\<close> k show False by (auto simp: charged_months_def load_is_posted_months)
qed


lemma figures_kind: "disposal_figures kind cost acc paid a first skipped = (disposal_figures [] cost acc paid a first skipped)\<lparr>ad_type := kind\<rparr>"
  by (simp add: disposal_figures_def split: prod.split)

text \<open>A disposal that returns figures: what it read, the depreciation it posted and its last transaction.\<close>

lemma DisposeE:
  assumes "DisposeAssetWithProceeds env now i kind proceeds into0 t = (t', Inr q)"
  obtains into1 d t1 out where "validateAssetDisposalInputs t proceeds into0 = Inr into1" "find_doc t ''Asset'' i = Some d"
    "d_status d = ''Capitalised''" "depreciateAsset env now i (d_data d) t = (t1, out, None)"
    "dispose_tx env i kind proceeds into1 out t1 = Inr (q, t')"
  using assms
  by (auto simp: DisposeAssetWithProceeds_def fetchAssetData_def split: sum.splits option.splits if_splits prod.splits)

lemma dispose_tx_result:
  assumes "dispose_tx env i kind proceeds into1 out t = Inr (q, t')" "find_doc t ''Asset'' i = Some d"
  shows "q = disposal_figures kind (assetCostPaise (d_data d)) (accumulated_of (posted_months (t_postings t) i)) (RupeesToPaise proceeds)
    into1 (do_posted out) (do_skipped out)"
  using assms by (auto simp: dispose_tx_def fetchAssetData_def Let_def load_is_posted_months split: prod.splits if_splits)

lemma postings_saved [simp]: "t_postings (saveAssetData i st m t) = t_postings t"
  by (simp add: saveAssetData_def)

lemma find_saved:
  assumes "find_doc t ''Asset'' i = Some d"
  shows "\<exists>d'. find_doc (saveAssetData i st m t) ''Asset'' i = Some d' \<and> d_status d' = st"
proof -
  have "find (is_doc ''Asset'' i) ds = Some d \<Longrightarrow> \<exists>d'. find (is_doc ''Asset'' i) (map (\<lambda>d. if is_doc ''Asset'' i d
      then d\<lparr>d_data := x, d_status := st, d_updated_at := n\<rparr> else d) ds) = Some d' \<and> d_status d' = st" for ds x n
    by (induction ds) (auto simp: is_doc_def)
  with assms show ?thesis by (simp add: find_doc_def saveAssetData_def update_docs_def)
qed

text \<open>What a disposal leaves: the closed asset, and a row under its disposal key.\<close>

lemma dispose_tx_closes:
  assumes inv: "assets_inv t" and op: "dispose_tx env i kind proceeds into1 out t = Inr (q, t')" and d: "find_doc t ''Asset'' i = Some d"
    and into1: "into1 \<noteq> assetAccFixed" "into1 \<noteq> assetAccAccumulated"
  shows "\<exists>d'. find_doc t' ''Asset'' i = Some d' \<and> d_status d' = ''Disposed''" "key_posted t' (dispose_key i)"
proof -
  have st: "d_status d = ''Capitalised''" using op d by (auto simp: dispose_tx_def fetchAssetData_def Let_def split: if_splits prod.splits)
  note i = find_asset [OF d]
  obtain ds cs g where entry: "assetDisposalEntry (assetCostPaise (d_data d)) (accumulated_of (loadAssetDepreciationPostings t i)) (RupeesToPaise proceeds) into1 = (ds, cs, g)"
    by (metis prod_cases3)
  with op d st obtain t1 m where post: "PostDoubleEntryTx env ''Asset-Disposal'' i ds cs [] (dispose_key i) no_opts t = Inr t1"
    and t': "t' = saveAssetData i ''Disposed'' m t1"
    by (auto simp: dispose_tx_def fetchAssetData_def Let_def)
  have cost: "0 < assetCostPaise (d_data d)" using inv i(1) st by (simp add: assets_inv_def asset_ok_def)
  have "map_of cs assetAccFixed = Some (assetCostPaise (d_data d))"
    using entry by (auto simp: assetDisposalEntry_def Let_def add_paise_def assetAccFixed_def assetAccGain_def split: if_splits)
  then have pos: "(assetAccFixed, assetCostPaise (d_data d)) \<in> set (positives cs)"
    using cost by (auto simp: positives_def dest: map_of_SomeD)
  from post have "key_posted t1 (dispose_key i) \<and> t_documents t1 = t_documents t"
  proof (cases rule: PostDoubleEntryTxE)
    case posted_before
    then show ?thesis by simp
  next
    case (posts opt' cur moment)
    have "posting_row False ''Asset-Disposal'' i (dispose_key i) opt' cur moment assetAccFixed (assetCostPaise (d_data d)) \<in> set (t_postings t1)"
      using pos by (force simp: posts(2) voucher_rows_def)
    then show ?thesis by (auto simp: key_posted_def list_ex_iff posts(2) nullable_def intro!: bexI)
  qed
  then show "key_posted t' (dispose_key i)" "\<exists>d'. find_doc t' ''Asset'' i = Some d' \<and> d_status d' = ''Disposed''"
    using find_saved [of t1 i d] d by (auto simp: t' key_posted_def saveAssetData_def find_doc_def)
qed

section \<open>A register to run\<close>

definition asset_doc :: document where
  "asset_doc = \<lparr>d_doctype = ''Asset'', d_id = ''A1'', d_data = [(''cost'', JNum 1200), (''useful_life_years'', JNum 1),
     (''capitalisation_date'', JStr ''2026-09-15'')], d_status = ''Draft'', d_created_by = ''u'', d_updated_by = None,
     d_deleted = False, d_created_at = 0, d_updated_at = 0\<rparr>"

definition asset_shop :: tenant where
  "asset_shop = empty_tenant\<lparr>t_documents := [asset_doc],
     t_accounts := map (\<lambda>c. \<lparr>ga_code = c, ga_name = [], ga_type = []\<rparr>) [''1100'', ''1400'', ''1410'', ''2100'', ''4300'', ''5300'', ''5310'']\<rparr>"

definition capitalised_doc :: document where
  "capitalised_doc = asset_doc\<lparr>d_data := [(''cost'', JNum 1200), (''useful_life_years'', JNum 1), (''capitalisation_date'', JStr ''2026-09-15''),
     (''capitalised_paise'', JNum 120000), (''status'', JStr ''Capitalised'')], d_status := ''Capitalised''\<rparr>"

definition shop1 :: tenant where
  "shop1 = asset_shop\<lparr>t_documents := [capitalised_doc],
     t_postings := [posting_row True ''Asset'' ''A1'' (capitalize_key ''A1'') no_opts None 0 ''1400'' 120000,
       posting_row False ''Asset'' ''A1'' (capitalize_key ''A1'') no_opts None 0 ''2100'' 120000]\<rparr>"

definition plan1 :: asset_plan where
  "plan1 = \<lparr>pn_start = (2026, 9), pn_months = 12, pn_cost = 120000\<rparr>"

abbreviation "september_key \<equiv> assetDepreciationKey ''A1'' (monthKey plan1 1)"
abbreviation "september_opts \<equiv> no_opts\<lparr>po_posted_at := ''2026-09-30 23:59:59''\<rparr>"

definition shop2 :: tenant where
  "shop2 = shop1\<lparr>t_postings := t_postings shop1
     @ voucher_rows ''Asset'' ''A1'' september_key september_opts None 0 [(assetAccDepExpense, 10000)] [(assetAccAccumulated, 10000)]\<rparr>"

lemma shop_facts [simp]:
  "t_periods asset_shop = []" "t_periods shop1 = []" "t_periods shop2 = []" "t_now asset_shop = 0" "t_now shop1 = 0"
  "t_documents shop1 = [capitalised_doc]" "t_documents shop2 = [capitalised_doc]" "t_postings asset_shop = []"
  "ga_code ` set (t_accounts asset_shop) = {''1100'', ''1400'', ''1410'', ''2100'', ''4300'', ''5300'', ''5310''}"
  "t_accounts shop1 = t_accounts asset_shop" "t_accounts shop2 = t_accounts asset_shop"
  "d_id capitalised_doc = ''A1''" "d_status capitalised_doc = ''Capitalised''" "d_doctype capitalised_doc = ''Asset''"
  "find_doc shop1 ''Asset'' ''A1'' = Some capitalised_doc" "find_doc shop2 ''Asset'' ''A1'' = Some capitalised_doc"
  by (simp_all add: asset_shop_def shop1_def shop2_def empty_tenant_def find_doc_def is_doc_def capitalised_doc_def asset_doc_def)

lemma shop_inv: "assets_inv asset_shop"
  by (simp add: assets_inv_def asset_ok_def asset_shop_def asset_docs_def asset_doc_def empty_tenant_def)

lemma rupees_1200: "RupeesToPaise 1200 = 120000" "RupeesToPaise 0 = 0"
  by (rule RupeesToPaise_near; simp)+

lemma capitalise_shop: "CapitalizeAssetWithLife plain_env ''A1'' 0 asset_shop = Inr shop1"
proof -
  have f: "fetchAssetData ''A1'' asset_shop = Inr (d_data asset_doc, ''Draft'')"
    by (simp add: fetchAssetData_def find_doc_def asset_shop_def asset_doc_def is_doc_def)
  have c: "assetCostPaise (d_data asset_doc) = 120000"
    by (simp add: assetCostPaise_def jnum_def jget_def jstr_def asset_doc_def rupees_1200)
  have m: "capitalised_data today 0 (d_data asset_doc) = [(''cost'', JNum 1200), (''useful_life_years'', JNum 1),
      (''capitalisation_date'', JStr ''2026-09-15''), (''capitalised_paise'', JNum 120000)]" for today
    by (simp add: capitalised_data_def c Let_def) (simp add: jput_def asset_doc_def jstr_def jget_def)
  have post: "PostDoubleEntryTx plain_env ''Asset'' ''A1'' [(''1400'', 120000)] [(''2100'', 120000)] [] (capitalize_key ''A1'') no_opts asset_shop
    = Inr (asset_shop\<lparr>t_postings := [posting_row True ''Asset'' ''A1'' (capitalize_key ''A1'') no_opts None 0 ''1400'' 120000,
        posting_row False ''Asset'' ''A1'' (capitalize_key ''A1'') no_opts None 0 ''2100'' 120000]\<rparr>)"
    using post_pair [of asset_shop "''1400''" "''2100''" 120000 120000 "capitalize_key ''A1''" "''Asset''" "''A1''"]
    by (simp add: key_posted_def sum_paise_def)
  have life: "jnum [(''cost'', JNum 1200), (''useful_life_years'', JNum 1), (''capitalisation_date'', JStr ''2026-09-15''), (''capitalised_paise'', JNum 120000)] ''useful_life_years'' = 1"
    by (simp add: jnum_def jget_def)
  show ?thesis
    by (simp add: CapitalizeAssetWithLife_def f c m post life)
      (simp add: saveAssetData_def update_docs_def shop1_def capitalised_doc_def asset_doc_def asset_shop_def is_doc_def jput_def empty_tenant_def)
qed

lemma shop1_reached: "(asset_step plain_env)\<^sup>*\<^sup>* asset_shop shop1"
  using asset_step.capitalised [OF capitalise_shop] by blast

lemma september: "monthKey plan1 1 = ''2026-09''" "monthEnd plan1 1 = ''2026-09-30''" "monthStart plan1 1 = (2026, 9)"
proof -
  have c: "digit_char 0 = CHR ''0''" "digit_char 2 = CHR ''2''" "digit_char 3 = CHR ''3''" "digit_char 6 = CHR ''6''" "digit_char 9 = CHR ''9''"
    by code_simp+
  show "monthKey plan1 1 = ''2026-09''" "monthEnd plan1 1 = ''2026-09-30''" "monthStart plan1 1 = (2026, 9)"
    by (simp_all add: monthKey_def monthEnd_def monthStart_def add_months_def plan1_def Let_def format_month_def format_date_def
        dec_pad_def dec.simps days_in_month_def c)
qed

lemma shop_plan: "assetDepreciationPlan (d_data capitalised_doc) [] = Some plan1" "assetCostPaise (d_data capitalised_doc) = 120000"
proof -
  show c: "assetCostPaise (d_data capitalised_doc) = 120000"
    using go_trunc_of_int [of 120000] by (simp add: assetCostPaise_def jnum_def jget_def capitalised_doc_def)
  have d: "parse_date ''2026-09-15'' = Some (2026, 9, 15)" by code_simp
  have "fl 12 = 12" "math_round 12 = 12" using fl_of_int [of 12] math_round_of_int [of 12] by simp_all
  then show "assetDepreciationPlan (d_data capitalised_doc) [] = Some plan1"
    by (simp add: assetDepreciationPlan_def c) (simp add: jnum_def jget_def jstr_def capitalised_doc_def d plan1_def)
qed

lemma plan1_due: "monthsDue plan1 (2026, 10) = 1" "month_charge plan1 1 = 10000"
  by (simp_all add: monthsDue_def plan1_def month_charge_def go_div_nonneg)

lemma shop1_posted: "loadAssetDepreciationPostings shop1 ''A1'' = []"
  by (simp add: loadAssetDepreciationPostings_def shop1_def List.map_filter_simps dep_row_def assetAccAccumulated_def)

lemma shop2_posted: "loadAssetDepreciationPostings shop2 ''A1'' = [(monthKey plan1 1, 10000)]"
proof -
  have "after_last '':DEP:'' september_key = Some (monthKey plan1 1)"
    using after_last_key [of "''Asset:'' @ ''A1''" "monthStart plan1 1"] by (simp add: assetDepreciationKey_def asset_key_def monthKey_def)
  then show ?thesis
    by (simp add: loadAssetDepreciationPostings_def shop2_def shop1_def voucher_rows_def List.map_filter_simps dep_row_def
        assetAccAccumulated_def assetAccDepExpense_def nullable_def)
qed

lemma depreciate_shop: "\<exists>out. depreciateAsset plain_env (2026, 10) ''A1'' (d_data capitalised_doc) shop1 = (shop2, out, None)"
proof -
  have "is_iso_date ''2026-09-30''" "is_posting_time ''2026-09-30 23:59:59''" by code_simp+
  moreover have "\<not> key_posted shop1 september_key" by (simp add: key_posted_def shop1_def nullable_def)
  ultimately have "postAssetDepreciationMonth plain_env ''A1'' plan1 1 shop1 = Inr (True, shop2)"
    using post_open [of shop1 "[(assetAccDepExpense, 10000)]" "[(assetAccAccumulated, 10000)]" september_key "monthEnd plan1 1"
        "monthEnd plan1 1 @ '' 23:59:59''" "''Asset''" "''A1''"]
    by (simp add: postAssetDepreciationMonth_def fetchAssetData_def plan1_due(2) [unfolded One_nat_def] september(2) [unfolded One_nat_def] sum_paise_def assetAccDepExpense_def assetAccAccumulated_def
        shop2_def)
  then show ?thesis
    by (simp add: depreciateAsset_def shop_plan plan1_due shop1_posted)
qed

lemma dispose_shop: "\<exists>t q. DisposeAssetWithProceeds plain_env (2026, 10) ''A1'' ''Scrap'' 0 [] shop1 = (t, Inr q) \<and> ad_gain_loss q = PaiseToRupees (- 110000)
  \<and> receipts_apart shop1 \<and> length (t_postings t) = 7 \<and> (\<exists>d. find_doc t ''Asset'' ''A1'' = Some d \<and> d_status d = ''Disposed'')"
proof -
  obtain out where out: "depreciateAsset plain_env (2026, 10) ''A1'' (d_data capitalised_doc) shop1 = (shop2, out, None)"
    using depreciate_shop by blast
  have v: "validateAssetDisposalInputs shop1 0 [] = Inr assetAccCash" "receipts_apart shop1"
    by (simp_all add: validateAssetDisposalInputs_def receipts_apart_def assetReceiptAccounts_def asset_shop_def trim_def assetAccCash_def
        capitalised_doc_def asset_doc_def assetAccFixed_def assetAccAccumulated_def)
  have e: "assetDisposalEntry 120000 10000 0 assetAccCash = ([(assetAccAccumulated, 10000), (assetAccLoss, 110000)], [(assetAccFixed, 120000)], -110000)"
    by (simp add: assetDisposalEntry_def Let_def wrap64_id add_paise_def assetAccAccumulated_def assetAccLoss_def)
  have "\<not> key_posted shop2 (dispose_key ''A1'')"
    by (simp add: key_posted_def shop2_def shop1_def nullable_def voucher_rows_def keys_apart) (simp add: monthKey_def keys_apart)
  then obtain t where "PostDoubleEntryTx plain_env ''Asset-Disposal'' ''A1'' [(assetAccAccumulated, 10000), (assetAccLoss, 110000)] [(assetAccFixed, 120000)] []
      (dispose_key ''A1'') no_opts shop2 = Inr t"
      "length (t_postings t) = 7" "find_doc t ''Asset'' ''A1'' = Some capitalised_doc"
    using post_open [of shop2 "[(assetAccAccumulated, 10000), (assetAccLoss, 110000)]" "[(assetAccFixed, 120000)]" "dispose_key ''A1''" "[]" "[]"
        "''Asset-Disposal''" "''A1''"]
    by (simp add: sum_paise_def wrap64_id no_opts_def assetAccAccumulated_def assetAccLoss_def assetAccFixed_def voucher_rows_def
        shop2_def shop1_def find_doc_def is_doc_def capitalised_doc_def asset_doc_def)
  note t = this
  from t show ?thesis
    using v find_saved [OF t(3)] by (simp add: DisposeAssetWithProceeds_def fetchAssetData_def out dispose_tx_def shop2_posted accumulated_of_def shop_plan rupees_1200 e
        disposal_figures_def Let_def)
qed

lemma preview_shop: "\<exists>r. PreviewAssetDisposal (2026, 10) ''A1'' 0 [] shop1 = Inr r \<and> ad_first r = [''2026-09'']"
proof -
  have "is_iso_date ''2026-09-30''" by code_simp
  then have "closedDepreciationMonths shop1 ''A1'' plan1 [1] = Inr []"
    by (simp add: closedDepreciationMonths_def september(2) [unfolded One_nat_def] rejectIfCurrentPeriodClosed_def)
  moreover have "validateAssetDisposalInputs shop1 0 [] = Inr assetAccCash"
    by (simp add: validateAssetDisposalInputs_def assetReceiptAccounts_def asset_shop_def trim_def assetAccCash_def capitalised_doc_def asset_doc_def)
  ultimately show ?thesis
    using september(1) by (simp add: PreviewAssetDisposal_def fetchAssetData_def shop_plan shop1_posted plan1_due Let_def disposal_figures_def split: prod.split)
qed

text \<open>
  ASSET-0271 asks for a positive life so that depreciation never computes as zero forever;
  a life of half a month or less passes it and rounds to no month at all.
\<close>

lemma short_life_has_no_plan:
  assumes "0 < jnum m ''useful_life_years''" "jnum m ''useful_life_years'' \<le> 1/25"
  shows "assetDepreciationPlan m c = None"
proof -
  let ?x = "jnum m ''useful_life_years'' * 12"
  have "\<bar>fl ?x - ?x\<bar> \<le> ?x / 2 ^ 53" "0 \<le> fl ?x" using fl_error [of ?x] fl_nonneg [of ?x] assms by simp_all
  then have "fl ?x \<le> ?x + ?x / 2 ^ 53" "0 \<le> fl ?x" by (simp_all only: abs_le_iff diff_le_eq add.commute)
  then have "\<bar>fl ?x - of_int 0\<bar> < 1/2" using assms(2) by simp
  then have "math_round (fl ?x) = 0" by (rule math_round_nearest)
  then show ?thesis by (simp add: assetDepreciationPlan_def Let_def split: option.split prod.split)
qed

section \<open>Properties\<close>

text \<open>
  C15: the preview of a disposal is what the disposal then does. In any register reached by
  the engine's operations: when the preview of disposing of an asset succeeds and the disposal
  itself goes through, it reports the same cost, accumulated depreciation, book value, gain
  or loss and ledger lines, and has posted first, or skipped for a closed period, exactly
  the months the preview named.
\<close>
theorem preview_promises_disposal:
  assumes "(asset_step env)\<^sup>*\<^sup>* t0 t" "assets_inv t0"
    and prev: "PreviewAssetDisposal now i proceeds into0 t = Inr r"
    and disp: "DisposeAssetWithProceeds env now i kind proceeds into0 t = (t', Inr q)"
  shows "q = r\<lparr>ad_type := kind\<rparr>"
proof -
  have inv: "assets_inv t" by (rule assets_reachable [OF assms(1,2)])
  from disp obtain into1 d t1 out where v: "validateAssetDisposalInputs t proceeds into0 = Inr into1"
    and find: "find_doc t ''Asset'' i = Some d" and st: "d_status d = ''Capitalised''"
    and dep: "depreciateAsset env now i (d_data d) t = (t1, out, None)"
    and tx: "dispose_tx env i kind proceeds into1 out t1 = Inr (q, t')"
    by (rule DisposeE)
  note i = find_asset [OF find]
  have "t_documents t1 = t_documents t" using depreciateAsset_inv [OF inv i(1)] dep i(2) by simp
  then have "find_doc t1 ''Asset'' i = Some d" using find by (simp add: find_doc_def)
  note q = dispose_tx_result [OF tx this]
  show ?thesis
  proof (cases "assetDepreciationPlan (d_data d) []")
    case None
    with dep have "t1 = t" "do_posted out = []" "do_skipped out = []" by (auto simp: depreciateAsset_def Let_def)
    with None q v find st prev show ?thesis
      by (simp add: PreviewAssetDisposal_def fetchAssetData_def Let_def load_is_posted_months figures_kind [of kind])
  next
    case (Some p)
    let ?posted = "map fst (loadAssetDepreciationPostings t i)" and ?ks = "[1..<Suc (monthsDue p now)]"
    define new where "new = filter (\<lambda>k. monthKey p k \<notin> set ?posted) ?ks"
    define shut where "shut = month_closed t i p"
    have ks: "\<forall>k \<in> set ?ks. 1 \<le> k \<and> int k \<le> pn_months p"
      using monthsDue_le [OF plan_facts(1) [OF Some], of now] by auto
    have run: "do_posted out = map (monthKey p) (filter (\<lambda>k. \<not> shut k) new) \<and> do_skipped out = map (monthKey p) (filter shut new)
      \<and> accumulated_of (posted_months (t_postings t1) i) = accumulated_of (posted_months (t_postings t) i)
          + sum_list (map (month_charge p) (filter (\<lambda>k. \<not> shut k) new))"
    proof (cases "monthsDue p now = 0")
      case True
      with dep Some show ?thesis by (auto simp: depreciateAsset_def Let_def new_def)
    next
      case False
      let ?out = "\<lparr>do_code = jstr (d_data d) ''code'', do_posted = [], do_amount = 0, do_skipped = [], do_noted = False\<rparr>"
      from dep Some False obtain out1 where loop: "depreciate_months env (d_id d) p ?posted ?ks ?out t = (t1, out1, None)"
        and out: "out = out1\<lparr>do_amount := round2 (do_amount out1)\<rparr>"
        by (auto simp: depreciateAsset_def Let_def i(2) split: prod.splits option.splits)
      have keys: "\<forall>k \<in> set ?ks. monthKey p k \<notin> set ?posted \<longrightarrow> \<not> key_posted t (assetDepreciationKey (d_id d) (monthKey p k))"
        using unposted_key [OF inv i(1) st] i(2) by simp
      from depreciate_months_result [OF inv i(1) st Some distinct_upt ks keys loop new_def shut_def [folded i(2)]] i(2)
      show ?thesis by (simp add: out)
    qed
    from prev v find st Some obtain cs where cs: "closedDepreciationMonths t i p new = Inr cs"
      and r: "r = disposal_figures [] (assetCostPaise (d_data d)) (accumulated_of (posted_months (t_postings t) i)
          + sum_list (map (month_charge p) (filter (\<lambda>k. monthKey p k \<notin> set cs) new))) (RupeesToPaise proceeds) into1
          (map (monthKey p) (filter (\<lambda>k. monthKey p k \<notin> set cs) new)) (map (monthKey p) (filter (\<lambda>k. monthKey p k \<in> set cs) new))"
      by (auto simp: PreviewAssetDisposal_def fetchAssetData_def Let_def load_is_posted_months new_def simp del: upt_Suc)
    have "monthKey p k \<in> set cs \<longleftrightarrow> shut k" if "k \<in> set new" for k
    proof -
      have "inj_on (monthKey p) (set new)"
        using monthKey_inj [OF plan_facts(3) [OF Some]] ks by (auto simp: inj_on_def new_def)
      with that show ?thesis using closed_months [OF cs] by (auto simp: shut_def inj_on_def)
    qed
    then have "filter (\<lambda>k. monthKey p k \<in> set cs) new = filter shut new" "filter (\<lambda>k. monthKey p k \<notin> set cs) new = filter (\<lambda>k. \<not> shut k) new"
      by (auto intro: filter_cong)
    with q r run show ?thesis by (simp add: figures_kind [of kind])
  qed
qed

theorem preview_promises_disposal_witness:
  "\<exists>t r q. PreviewAssetDisposal (2026, 10) ''A1'' 0 [] shop1 = Inr r
     \<and> DisposeAssetWithProceeds plain_env (2026, 10) ''A1'' ''Scrap'' 0 [] shop1 = (t, Inr q)
     \<and> q = r\<lparr>ad_type := ''Scrap''\<rparr> \<and> ad_first r = [''2026-09''] \<and> ad_gain_loss q = PaiseToRupees (- 110000)"
proof -
  obtain t q where q: "DisposeAssetWithProceeds plain_env (2026, 10) ''A1'' ''Scrap'' 0 [] shop1 = (t, Inr q)" "ad_gain_loss q = PaiseToRupees (- 110000)"
    using dispose_shop by blast
  obtain r where r: "PreviewAssetDisposal (2026, 10) ''A1'' 0 [] shop1 = Inr r" "ad_first r = [''2026-09'']"
    using preview_shop by blast
  from preview_promises_disposal [OF shop1_reached shop_inv r(1) q(1)] q r show ?thesis by blast
qed



text \<open>
  C39: a transfer that overlaps a disposal brings the asset back. \<open>TransferAsset\<close> reads the
  asset and saves it in two statements without a lock: when a disposal of the asset commits
  between them, the save puts the status Capitalised back, although nothing of the asset is
  left on 1400 or 1410 and its disposal entry stays posted under its key. From then on the
  register shows the asset with its cost, and the posting of a further disposal changes
  nothing whatever its amounts.
\<close>
theorem stale_transfer_revives:
  assumes "(asset_step env)\<^sup>*\<^sup>* t0 t" "assets_inv t0" "receipts_apart t"
    and read: "fetchAssetData i t = Inr (m, ''Capitalised'')"
    and disp: "DisposeAssetWithProceeds env now i kind proceeds into0 t = (t1, Inr q)"
    and save: "t2 = transfer_save i m ''Capitalised'' location custodian actor t1"
  shows "(\<exists>d. find_doc t2 ''Asset'' i = Some d \<and> d_status d = ''Capitalised'')
    \<and> booked (t_postings t2) i assetAccFixed = 0 \<and> booked (t_postings t2) i assetAccAccumulated = 0
    \<and> (\<forall>ds cs t3. PostDoubleEntryTx env ''Asset-Disposal'' i ds cs [] (dispose_key i) no_opts t2 = Inr t3 \<longrightarrow> t3 = t2)"
proof -
  have inv: "assets_inv t" by (rule assets_reachable [OF assms(1,2)])
  have inv1: "assets_inv t1" by (rule dispose_inv [OF inv disp assms(3)])
  from disp obtain into1 d t0' out where v: "validateAssetDisposalInputs t proceeds into0 = Inr into1" and d: "find_doc t ''Asset'' i = Some d"
    and dep: "depreciateAsset env now i (d_data d) t = (t0', out, None)" and tx: "dispose_tx env i kind proceeds into1 out t0' = Inr (q, t1)"
    by (rule DisposeE)
  note i = find_asset [OF d]
  from depreciateAsset_inv [OF inv i(1)] dep i(2) have t0': "assets_inv t0'" "t_documents t0' = t_documents t" by simp_all
  have d0: "find_doc t0' ''Asset'' i = Some d" using d t0'(2) by (simp add: find_doc_def)
  from v assms(3) have into1: "into1 \<noteq> assetAccFixed" "into1 \<noteq> assetAccAccumulated"
    by (auto simp: validateAssetDisposalInputs_def Let_def receipts_apart_def list_all_iff split: if_splits)
  note closes = dispose_tx_closes [OF t0'(1) tx d0 into1]
  from closes(1) obtain d' where d': "find_doc t1 ''Asset'' i = Some d'" "d_status d' = ''Disposed''" by blast
  have "asset_ok (t_postings t1) d'" "d_id d' = i" using inv1 find_asset [OF d'(1)] by (simp_all add: assets_inv_def)
  then have zero: "booked (t_postings t1) i assetAccFixed = 0" "booked (t_postings t1) i assetAccAccumulated = 0"
    using d'(2) by (simp_all add: asset_ok_def)
  have rows: "t_postings t2 = t_postings t1" by (simp add: save transfer_save_def LogAuditEvent_def saveAssetData_def)
  have "\<exists>d. find_doc t2 ''Asset'' i = Some d \<and> d_status d = ''Capitalised''"
    using find_saved [OF d'(1)] by (simp add: save transfer_save_def LogAuditEvent_def find_doc_def)
  moreover have "key_posted t2 (dispose_key i)" using closes(2) rows by (simp add: key_posted_def)
  then have "PostDoubleEntryTx env ''Asset-Disposal'' i ds cs [] (dispose_key i) no_opts t2 = Inr t3 \<Longrightarrow> t3 = t2" for ds cs t3
    by (rule gl.post_again [OF asset_keys_nonempty(2)])
  ultimately show ?thesis using zero rows by simp
qed

theorem stale_transfer_revives_witness:
  "\<exists>t q d. DisposeAssetWithProceeds plain_env (2026, 10) ''A1'' ''Scrap'' 0 [] shop1 = (t, Inr q)
     \<and> find_doc (transfer_save ''A1'' (d_data capitalised_doc) ''Capitalised'' ''Pune'' ''Asha'' ''u'' t) ''Asset'' ''A1'' = Some d
     \<and> d_status d = ''Capitalised'' \<and> booked (t_postings t) ''A1'' assetAccFixed = 0"
proof -
  obtain t q where q: "DisposeAssetWithProceeds plain_env (2026, 10) ''A1'' ''Scrap'' 0 [] shop1 = (t, Inr q)" "receipts_apart shop1"
    using dispose_shop by blast
  have read: "fetchAssetData ''A1'' shop1 = Inr (d_data capitalised_doc, ''Capitalised'')" by (simp add: fetchAssetData_def)
  have rows: "t_postings (transfer_save i m st l c a t) = t_postings t" for i m st l c a
    by (simp add: transfer_save_def LogAuditEvent_def saveAssetData_def)
  from stale_transfer_revives [OF shop1_reached shop_inv q(2) read q(1) refl, of "''Pune''" "''Asha''" "''u''"] q(1)
  show ?thesis by (simp add: rows)
qed

end
