(* ===== verification/Spec2Isabelle.thy ===== *)
theory Spec2Isabelle
  imports Barcode128 Inventory Numbering Commands SaleAllocation Outbox Loyalty Assets
begin

text \<open>
  A verification development for the business engines of the ERP (Go package \<open>engines\<close>).

  The program. The ERP is a Go server over a PostgreSQL database with one schema per tenant.
  Package engines holds the rules: what a document may do, which journal it posts, what it
  does to stock. Package internal/server turns HTTP requests into calls of the engines, and
  cmd/, db/ and public/ hold tools, migrations and the browser client. An engine function
  reads rows, checks, writes rows, inside a transaction that an error rolls back. The model
  follows this: the tables a component reads or writes are fields of a record of state, a
  function takes the state and returns either an error or its results with the new state.

  The theories, in the order they build on each other:
  Prelude - errors as \<open>err\<close>, results as sums with \<open>rbind\<close>, folds that stop at the first
    error, and what the code uses of Go's packages strings, strconv, fmt and int64;
  CheckSum - locale \<open>check_scheme\<close>, the contract of a positional check digit, and what it
    detects; Barcode128 (code128.go) and CheckDigits (pim_barcode.go, tax_ids.go,
    stored_value.go) interpret it on the five schemes of the program;
  GoFloat (finance.go, gst.go) - float64 as the rationals with rounding to 53 bits, paise and
    rupees;
  Schema (settings_registry.go, roles.go, master_data_validation.go) - the record \<open>tenant\<close>
    with a row record per table, JSON documents, settings, roles and the audit trail;
  Approval (approval.go, approval_hooks.go) - routing by amount slabs, submitting, deciding;
  Periods (accounting_periods.go, period_close.go) - open and closed periods, close tasks,
    reopening on an approved request; it registers itself with the approval engine;
  Ledger (finance.go) - double entry posting, its keys, and the guard Periods provides;
    locale \<open>posting\<close> is the contract other engines rely on, interpreted as \<open>gl\<close>;
  Gst (gst.go, item_lookup.go, item_tax_change.go) - rates, tax splits, and the postings of a
    sale through the ledger;
  DocIds (docid.go) - identifiers minted by concurrent goroutines;
  StockLocations, Inventory (stock_locations.go, inventory.go, reservation_sweeper.go) - the
    store's stock by location, the stock ledger, availability, reservations and their sweep;
  Numbering (numbering.go, number_series.go) - counters, number series and their checks;
  StoredValue (stored_value.go) - gift cards and vouchers, funded and spent through the
    ledger; it states its abstract specification, a machine of purses (\<open>purse_step\<close>), and
    proves that the operations refine it;
  Commands (command_idempotency.go, command_spine.go) - claims of idempotency keys with their
    leases, and the spine that posts a command under one; requests are steps that interleave;
  Allocation, SaleAllocation (sale_allocation.go, pos_tenders.go, returns.go) - the split of
    an amount by weights against its specification \<open>largest_remainder\<close>, each sold line's share
    of how a bill was paid, the till's split payment, and what returned units are worth;
  Jobs (jobrunner.go, correlation.go, bounded_state.go) - the queue of background jobs, and
    workers that claim batches of it under leases, interleaving with each other and with
    operators; Outbox (outbox.go, webhook.go) - integration events handed to webhook
    subscriptions as jobs;
  Loyalty (loyalty.go, loyalty_redemption_security.go, loyalty_returns.go, loyalty_tiering.go,
    loyalty_admin.go) - the point ledger with redemptions under one-time codes and approvals,
    earning, returns, expiry, adjustments, tiers and the movement report;
  Assets (assets.go, asset_depreciation.go) - fixed assets: capitalisation, transfer, monthly
    depreciation, disposal and its preview.

  What the lemmas show. Each component has an invariant and a lemma per operation that it is
  preserved (\<open>inv_intros\<close>); reachable states are histories of the component's operations.
  On top of these stand the claims C1, C2, ...: conservation (the trial balance, stock against
  its ledger, card liability against card balances, points never overdrawn), authorisation (decisions only by the
  flow, periods reopened only by an approved request), uniqueness (numbers, identifiers,
  posting keys, one posting per command,
  one worker per job, one delivery per subscriber), bounds (stock floors, available to sell, number lengths), arithmetic (tax
  splits, rounding, pro rata shares), round trips (paise, a bill and its returns), liveness (the sweep), and the ways the
  code breaks its own promises, each proved on the definitions and listed as a finding.

  Bounds and fuel. No operation runs on fuel. An item lookup follows barcodes from item to
  item and may not return: it is a \<open>partial_function (option)\<close> whose \<open>None\<close> is a call that
  never returns, with a theorem for when it does. int64 sums are wrapped at 64 bits, INT
  columns refuse values outside 32 bits. float64 values are exact up to 53 bits with an
  unbounded exponent.

  Not modelled. The HTTP handlers, connectors to shops, couriers and tax portals, print
  layouts and reports are input and output around the engines. SQL appears as the function
  its statement computes on the tables; concurrent transactions are sequences of whole
  transactions, except where a theory says otherwise (DocIds). Code that is not in the
  repository (the database's date functions, keyed hashes, random draws, clocks) is an
  argument. What a component leaves out is said at the head of its theory.
\<close>

end
